(* ===== verification/Prelude.thy ===== *)
theory Prelude
  imports Main "HOL-Library.Word"
begin

unbundle bit_operations_syntax

section \<open>Prelude: machine types, memory blocks and byte order\<close>

text \<open>
  The vocabulary the component theories share. The server runs on little-endian x64
  Windows only, so a machine integer is a fixed-width word, a block of memory is a list of
  bytes, and the two meet in \<open>to_le\<close> / \<open>of_le\<close> (an integer as it lies in memory). The
  intrinsics \<open>_byteswap_ushort\<close>, \<open>_byteswap_ulong\<close> and \<open>_byteswap_uint64\<close> are one function
  \<open>byteswap\<close> at three widths. \<open>blit\<close> is \<open>memcpy\<close> into a block.
\<close>

subsection \<open>Machine types\<close>

type_synonym u8 = "8 word"
type_synonym u16 = "16 word"
type_synonym u32 = "32 word"
type_synonym u64 = "64 word"

text \<open>Signed integers share the representation; \<open>sint\<close> reads them in two's complement.\<close>

type_synonym i8 = "8 word"
type_synonym i16 = "16 word"
type_synonym i32 = "32 word"

type_synonym bytes = "u8 list"

text \<open>Collections of rewrite rules: wire format, buffers, connection table.\<close>

named_theorems wire_simps \<open>readers and writers of the packet protocol\<close>
named_theorems buf_simps \<open>operations of the I/O buffers\<close>
named_theorems env_simps \<open>operations of the connection table and the player store\<close>

subsection \<open>String literals\<close>

text \<open>A C string literal (without its terminating NUL) as bytes.\<close>

definition cstr :: "string \<Rightarrow> bytes" where
  "cstr s = map of_char s"

lemma length_cstr [simp]: "length (cstr s) = length s"
  by (simp add: cstr_def)

lemma cstr_Nil [simp]: "cstr [] = []"
  by (simp add: cstr_def)

lemma cstr_Cons [simp]: "cstr (c # s) = of_char c # cstr s"
  by (simp add: cstr_def)

text \<open>A number as it is printed in decimal, in front of \<open>ds\<close>.\<close>

fun decimal_digits :: "nat \<Rightarrow> bytes \<Rightarrow> bytes" where
  "decimal_digits n ds =
     (if n < 10 then of_nat (n + 48) # ds else decimal_digits (n div 10) (of_nat (n mod 10 + 48) # ds))"

declare decimal_digits.simps [simp del]

abbreviation space :: u8 where
  "space \<equiv> 0x20"

subsection \<open>Blocks of memory\<close>

definition blit :: "nat \<Rightarrow> bytes \<Rightarrow> bytes \<Rightarrow> bytes" where
  "blit off src mem = take off mem @ src @ drop (off + length src) mem"

definition segment :: "nat \<Rightarrow> nat \<Rightarrow> 'a list \<Rightarrow> 'a list" where
  "segment off n xs = take n (drop off xs)"

lemma length_blit [simp]:
  "off + length src \<le> length mem \<Longrightarrow> length (blit off src mem) = length mem"
  by (simp add: blit_def)

lemma blit_Nil [simp]: "blit off [] mem = mem"
  by (simp add: blit_def)

lemma length_segment [simp]: "length (segment off n xs) = min n (length xs - off)"
  by (simp add: segment_def)

lemma segment_0 [simp]: "segment off 0 xs = []"
  by (simp add: segment_def)

lemma nth_segment [simp]: "i < n \<Longrightarrow> off + i < length xs \<Longrightarrow> segment off n xs ! i = xs ! (off + i)"
  by (simp add: segment_def)

lemma nth_blit:
  assumes "off + length src \<le> length mem" and "i < length mem"
  shows "blit off src mem ! i =
    (if off \<le> i \<and> i < off + length src then src ! (i - off) else mem ! i)"
proof -
  consider "i < off" | "off \<le> i \<and> i < off + length src" | "off + length src \<le> i"
    by linarith
  then show ?thesis
    using assms by cases (auto simp: blit_def nth_append min_def)
qed

lemma segment_add: "segment off (m + n) xs = segment off m xs @ segment (off + m) n xs"
  by (simp add: segment_def take_add drop_drop add.commute)

lemma drop_segment: "drop k (segment off n xs) = segment (off + k) (n - k) xs"
  by (simp add: segment_def drop_take add.commute)

lemma segment_blit_same:
  assumes "off + length src \<le> length mem"
  shows "segment off (length src) (blit off src mem) = src"
  using assms by (simp add: segment_def blit_def)

lemma segment_blit_before:
  assumes "a + n \<le> off" and "off + length src \<le> length mem"
  shows "segment a n (blit off src mem) = segment a n mem"
  using assms by (auto simp: segment_def blit_def drop_take min_def)

lemma segment_blit_extend:
  assumes "a \<le> off" and "off + length src \<le> length mem"
  shows "segment a (off - a + length src) (blit off src mem) = segment a (off - a) mem @ src"
proof -
  have "segment a (off - a + length src) (blit off src mem)
      = segment a (off - a) (blit off src mem) @ segment off (length src) (blit off src mem)"
    using segment_add [of a "off - a" "length src" "blit off src mem"] assms(1) by simp
  then show ?thesis
    using assms by (simp add: segment_blit_before segment_blit_same)
qed

subsection \<open>Little-endian representation\<close>

fun to_le :: "nat \<Rightarrow> 'a::len word \<Rightarrow> bytes" where
  "to_le 0 w = []"
| "to_le (Suc n) w = ucast w # to_le n (drop_bit 8 w)"

fun of_le :: "bytes \<Rightarrow> 'a::len word" where
  "of_le [] = 0"
| "of_le (b # bs) = ucast b OR push_bit 8 (of_le bs)"

definition byteswap :: "'a::len word \<Rightarrow> 'a word" where
  "byteswap w = of_le (rev (to_le (LENGTH('a) div 8) w))"

lemma length_to_le [simp]: "length (to_le n w) = n"
  by (induction n arbitrary: w) simp_all

lemma to_le_numeral [simp]:
  "to_le (numeral k) w = ucast w # to_le (pred_numeral k) (drop_bit 8 w)"
  by (simp add: numeral_eq_Suc)

lemma of_le_to_le: "of_le (to_le n w) = take_bit (8 * n) w"
proof (induction n arbitrary: w)
  case 0
  then show ?case by simp
next
  case (Suc n)
  have "(of_le (to_le (Suc n) w) :: 'a word)
      = ucast (ucast w :: u8) OR push_bit 8 (take_bit (8 * n) (drop_bit 8 w))"
    by (simp add: Suc)
  also have "\<dots> = take_bit (8 * Suc n) w"
    by (rule bit_word_eqI) (auto simp: bit_simps)
  finally show ?case .
qed

lemma of_le_to_le_full [simp]:
  "LENGTH('a::len) \<le> 8 * n \<Longrightarrow> of_le (to_le n (w :: 'a word)) = w"
  by (simp add: of_le_to_le take_bit_word_eq_self)

lemma to_le_of_le [simp]:
  "8 * length bs \<le> LENGTH('a::len) \<Longrightarrow> to_le (length bs) (of_le bs :: 'a word) = bs"
proof (induction bs)
  case Nil
  then show ?case by simp
next
  case (Cons b bs)
  let ?w = "of_le bs :: 'a word"
  have "ucast (ucast b OR push_bit 8 ?w) = b"
    by (rule bit_word_eqI) (use Cons.prems in \<open>auto simp: bit_simps\<close>)
  moreover have "drop_bit 8 (ucast b OR push_bit 8 ?w) = take_bit (LENGTH('a) - 8) ?w"
    by (rule bit_word_eqI) (auto simp: bit_simps dest: bit_imp_le_length)
  moreover have "take_bit (LENGTH('a) - 8) ?w = ?w"
  proof -
    have "take_bit (8 * length bs) ?w = ?w"
      using of_le_to_le [of "length bs" ?w] Cons by simp
    then show ?thesis
      using Cons.prems by (metis add_le_imp_le_diff length_Cons min_absorb2 mult_Suc_right add.commute take_bit_take_bit)
  qed
  ultimately show ?case
    using Cons by simp
qed

lemma to_le_byteswap:
  assumes "LENGTH('a::len) = 8 * n"
  shows "to_le n (byteswap (w :: 'a word)) = rev (to_le n w)"
proof -
  have "to_le (length (rev (to_le n w))) (of_le (rev (to_le n w)) :: 'a word) = rev (to_le n w)"
    by (rule to_le_of_le) (simp add: assms)
  then show ?thesis
    by (simp add: byteswap_def assms)
qed

lemma byteswap_of_le:
  assumes "LENGTH('a::len) = 8 * length bs"
  shows "byteswap (of_le bs :: 'a word) = of_le (rev bs)"
  by (simp add: byteswap_def assms)

lemma byteswap_byteswap:
  assumes "LENGTH('a::len) = 8 * n"
  shows "byteswap (byteswap (w :: 'a word)) = w"
proof -
  have "byteswap (byteswap w) = of_le (rev (to_le n (byteswap w)))"
    by (simp add: byteswap_def assms)
  also have "\<dots> = w"
    by (simp add: to_le_byteswap [OF assms] assms)
  finally show ?thesis .
qed

lemma byteswap16_idem [simp]: "byteswap (byteswap (w :: u16)) = w"
  by (rule byteswap_byteswap [of 2]) simp

lemma byteswap32_idem [simp]: "byteswap (byteswap (w :: u32)) = w"
  by (rule byteswap_byteswap [of 4]) simp

lemma byteswap64_idem [simp]: "byteswap (byteswap (w :: u64)) = w"
  by (rule byteswap_byteswap [of 8]) simp

subsection \<open>Lists\<close>

lemma map_option_eq_Some_conv: "map_option f x = Some y \<longleftrightarrow> (\<exists>z. x = Some z \<and> f z = y)"
  by (cases x) auto

lemma length_filter_update:
  assumes "i < length xs"
  shows "length (filter P (xs[i := x])) + (if P (xs ! i) then 1 else 0)
       = length (filter P xs) + (if P x then 1 else 0)"
  using assms
proof (induction xs arbitrary: i)
  case Nil
  then show ?case by simp
next
  case (Cons a xs)
  then show ?case by (cases i) auto
qed

lemma length_filter_nth_less:
  "i < length xs \<Longrightarrow> \<not> P (xs ! i) \<Longrightarrow> length (filter P xs) < length xs"
  by (metis length_filter_less nth_mem)

lemma unat_lt_u32: "unat (p :: u32) < 2 ^ 32"
  using unsigned_less [of p, where ?'a = nat] by simp

lemma unat_ucast_u32_u64: "unat (ucast (p :: u32) :: u64) = unat p"
  using unat_lt_u32 [of p] by (simp add: unsigned_ucast_eq take_bit_nat_eq_self)

end
