(* ===== verification/Ids.thy ===== *)
theory Ids
  imports Prelude
begin

section \<open>Identifiers and constants\<close>

text \<open>
  The enumerations and compile-time constants the components share: the packet identifiers
  (\<open>net/packet_id.h\<close>), the message identifiers of the server-to-server protocol
  (\<open>net/message_id.h\<close>), the server types (\<open>proto/protocol.proto\<close>), the blocks
  (\<open>game/block.h\<close>), the sizes and periods (\<open>config/constants.h\<close>), and the error codes with
  their messages (\<open>logging/error.h\<close>, \<open>logging/error.cpp\<close>). The two large enumerations are
  used by the code as numbers (a byte of the network is cast to them without a check), so they
  are named numbers here; a small one is a datatype whose numbers a \<open>_value\<close> function reads.
\<close>

subsection \<open>Packet identifiers\<close>

abbreviation PT_handshake :: u8 where
  "PT_handshake \<equiv> 0"

abbreviation PT_set_player_position :: u8 where
  "PT_set_player_position \<equiv> 8"

abbreviation PT_chat_message :: u8 where
  "PT_chat_message \<equiv> 13"

abbreviation PT_set_block_client :: u8 where
  "PT_set_block_client \<equiv> 5"

abbreviation PT_ping :: u8 where
  "PT_ping \<equiv> 1"

abbreviation PT_level_initialize :: u8 where
  "PT_level_initialize \<equiv> 2"

abbreviation PT_level_datachunk :: u8 where
  "PT_level_datachunk \<equiv> 3"

abbreviation PT_level_finalize :: u8 where
  "PT_level_finalize \<equiv> 4"

abbreviation PT_set_block_server :: u8 where
  "PT_set_block_server \<equiv> 6"

abbreviation PT_spawn_player :: u8 where
  "PT_spawn_player \<equiv> 7"

abbreviation PT_update_player_position :: u8 where
  "PT_update_player_position \<equiv> 9"

abbreviation PT_update_player_coordinate :: u8 where
  "PT_update_player_coordinate \<equiv> 10"

abbreviation PT_update_player_orientation :: u8 where
  "PT_update_player_orientation \<equiv> 11"

abbreviation PT_despawn_player :: u8 where
  "PT_despawn_player \<equiv> 12"

abbreviation PT_disconnect_player :: u8 where
  "PT_disconnect_player \<equiv> 14"

abbreviation PT_update_usertype :: u8 where
  "PT_update_usertype \<equiv> 15"

abbreviation PT_ext_info :: u8 where
  "PT_ext_info \<equiv> 16"

abbreviation PT_ext_entry :: u8 where
  "PT_ext_entry \<equiv> 17"

abbreviation PT_click_distance :: u8 where
  "PT_click_distance \<equiv> 18"

abbreviation PT_custom_blocks :: u8 where
  "PT_custom_blocks \<equiv> 19"

abbreviation PT_held_block :: u8 where
  "PT_held_block \<equiv> 20"

abbreviation PT_text_hotkey :: u8 where
  "PT_text_hotkey \<equiv> 21"

abbreviation PT_ext_add_playername :: u8 where
  "PT_ext_add_playername \<equiv> 22"

abbreviation PT_ext_add_entity2 :: u8 where
  "PT_ext_add_entity2 \<equiv> 33"

abbreviation PT_ext_remove_playername :: u8 where
  "PT_ext_remove_playername \<equiv> 24"

abbreviation PT_env_set_color :: u8 where
  "PT_env_set_color \<equiv> 25"

abbreviation PT_make_selection :: u8 where
  "PT_make_selection \<equiv> 26"

abbreviation PT_remove_selection :: u8 where
  "PT_remove_selection \<equiv> 27"

abbreviation PT_block_permissions :: u8 where
  "PT_block_permissions \<equiv> 28"

abbreviation PT_change_model :: u8 where
  "PT_change_model \<equiv> 29"

abbreviation PT_env_set_weathertype :: u8 where
  "PT_env_set_weathertype \<equiv> 31"

abbreviation PT_hack_control :: u8 where
  "PT_hack_control \<equiv> 32"

abbreviation PT_player_clicked :: u8 where
  "PT_player_clicked \<equiv> 34"

abbreviation PT_define_block :: u8 where
  "PT_define_block \<equiv> 35"

abbreviation PT_remove_block_definition :: u8 where
  "PT_remove_block_definition \<equiv> 36"

abbreviation PT_define_blockext :: u8 where
  "PT_define_blockext \<equiv> 37"

abbreviation PT_bulk_block_update :: u8 where
  "PT_bulk_block_update \<equiv> 38"

abbreviation PT_set_text_color :: u8 where
  "PT_set_text_color \<equiv> 39"

abbreviation PT_set_map_env_url :: u8 where
  "PT_set_map_env_url \<equiv> 40"

abbreviation PT_set_map_env_property :: u8 where
  "PT_set_map_env_property \<equiv> 41"

abbreviation PT_set_entity_property :: u8 where
  "PT_set_entity_property \<equiv> 42"

abbreviation PT_two_way_ping :: u8 where
  "PT_two_way_ping \<equiv> 43"

abbreviation PT_set_inventory_order :: u8 where
  "PT_set_inventory_order \<equiv> 44"

abbreviation PT_set_hotbar :: u8 where
  "PT_set_hotbar \<equiv> 45"

abbreviation PT_set_spawnpoint :: u8 where
  "PT_set_spawnpoint \<equiv> 46"

abbreviation PT_velocity_control :: u8 where
  "PT_velocity_control \<equiv> 47"

abbreviation PT_define_effect :: u8 where
  "PT_define_effect \<equiv> 48"

abbreviation PT_spawn_effect :: u8 where
  "PT_spawn_effect \<equiv> 49"

abbreviation PT_define_model :: u8 where
  "PT_define_model \<equiv> 50"

abbreviation PT_define_modelpart :: u8 where
  "PT_define_modelpart \<equiv> 51"

abbreviation PT_undefine_model :: u8 where
  "PT_undefine_model \<equiv> 52"

abbreviation PT_ext_entity_teleport :: u8 where
  "PT_ext_entity_teleport \<equiv> 54"

abbreviation PT_set_playerid :: u8 where
  "PT_set_playerid \<equiv> 55"

abbreviation PT_ext_message :: u8 where
  "PT_ext_message \<equiv> 56"

abbreviation PT_ext_ping :: u8 where
  "PT_ext_ping \<equiv> 57"

abbreviation PT_size :: u8 where
  "PT_size \<equiv> 58"

abbreviation PT_invalid :: u8 where
  "PT_invalid \<equiv> 255"

definition packet_type_ids :: "u8 list" where
  "packet_type_ids = [
     PT_handshake, PT_set_player_position, PT_chat_message, PT_set_block_client,
     PT_ping, PT_level_initialize, PT_level_datachunk, PT_level_finalize,
     PT_set_block_server, PT_spawn_player, PT_update_player_position, PT_update_player_coordinate,
     PT_update_player_orientation, PT_despawn_player, PT_disconnect_player, PT_update_usertype,
     PT_ext_info, PT_ext_entry, PT_click_distance, PT_custom_blocks,
     PT_held_block, PT_text_hotkey, PT_ext_add_playername, PT_ext_add_entity2,
     PT_ext_remove_playername, PT_env_set_color, PT_make_selection, PT_remove_selection,
     PT_block_permissions, PT_change_model, PT_env_set_weathertype, PT_hack_control,
     PT_player_clicked, PT_define_block, PT_remove_block_definition, PT_define_blockext,
     PT_bulk_block_update, PT_set_text_color, PT_set_map_env_url, PT_set_map_env_property,
     PT_set_entity_property, PT_two_way_ping, PT_set_inventory_order, PT_set_hotbar,
     PT_set_spawnpoint, PT_velocity_control, PT_define_effect, PT_spawn_effect,
     PT_define_model, PT_define_modelpart, PT_undefine_model, PT_ext_entity_teleport,
     PT_set_playerid, PT_ext_message, PT_ext_ping, PT_size,
     PT_invalid]"

text \<open>No two enumerators share a number on the wire.\<close>

lemma distinct_packet_type_ids: "distinct packet_type_ids"
  by (simp add: packet_type_ids_def)

subsection \<open>Message identifiers and server types\<close>

datatype message_type_id =
    MSG_invalid
  | MSG_ping
  | MSG_server_announcement
  | MSG_chat_command
  | MSG_fetch_config
  | MSG_fetch_server_address
  | MSG_packet_handshake
  | MSG_player_logout
  | MSG_size

fun message_id_value :: "message_type_id \<Rightarrow> u8" where
  "message_id_value MSG_invalid = 0"
| "message_id_value MSG_ping = 1"
| "message_id_value MSG_server_announcement = 2"
| "message_id_value MSG_chat_command = 3"
| "message_id_value MSG_fetch_config = 4"
| "message_id_value MSG_fetch_server_address = 5"
| "message_id_value MSG_packet_handshake = 6"
| "message_id_value MSG_player_logout = 7"
| "message_id_value MSG_size = 8"

lemma message_id_value_inject [simp]: "message_id_value p = message_id_value q \<longleftrightarrow> p = q"
  by (cases p; cases q) simp_all

datatype server_type_id = ST_game | ST_router | ST_chat | ST_login

fun server_type_value :: "server_type_id \<Rightarrow> nat" where
  "server_type_value ST_game = 0"
| "server_type_value ST_router = 1"
| "server_type_value ST_chat = 2"
| "server_type_value ST_login = 3"

abbreviation server_type_total_count :: nat where
  "server_type_total_count \<equiv> 4"

lemma server_type_value_less [simp]: "server_type_value s < server_type_total_count"
  by (cases s) simp_all

lemma server_type_value_inject [simp]: "server_type_value s = server_type_value t \<longleftrightarrow> s = t"
  by (cases s; cases t) simp_all

subsection \<open>Blocks\<close>

abbreviation B_air :: u8 where
  "B_air \<equiv> 0"

abbreviation B_stone :: u8 where
  "B_stone \<equiv> 1"

abbreviation B_grass :: u8 where
  "B_grass \<equiv> 2"

abbreviation B_dirt :: u8 where
  "B_dirt \<equiv> 3"

abbreviation B_cobble :: u8 where
  "B_cobble \<equiv> 4"

abbreviation B_wood :: u8 where
  "B_wood \<equiv> 5"

abbreviation B_sapling :: u8 where
  "B_sapling \<equiv> 6"

abbreviation B_bedrock :: u8 where
  "B_bedrock \<equiv> 7"

abbreviation B_water :: u8 where
  "B_water \<equiv> 8"

abbreviation B_still_water :: u8 where
  "B_still_water \<equiv> 9"

abbreviation B_lava :: u8 where
  "B_lava \<equiv> 10"

abbreviation B_still_lava :: u8 where
  "B_still_lava \<equiv> 11"

abbreviation B_sand :: u8 where
  "B_sand \<equiv> 12"

abbreviation B_gravel :: u8 where
  "B_gravel \<equiv> 13"

abbreviation B_gold_ore :: u8 where
  "B_gold_ore \<equiv> 14"

abbreviation B_iron_ore :: u8 where
  "B_iron_ore \<equiv> 15"

abbreviation B_coal_ore :: u8 where
  "B_coal_ore \<equiv> 16"

abbreviation B_log :: u8 where
  "B_log \<equiv> 17"

abbreviation B_leaves :: u8 where
  "B_leaves \<equiv> 18"

abbreviation B_sponge :: u8 where
  "B_sponge \<equiv> 19"

abbreviation B_glass :: u8 where
  "B_glass \<equiv> 20"

abbreviation B_red :: u8 where
  "B_red \<equiv> 21"

abbreviation B_orange :: u8 where
  "B_orange \<equiv> 22"

abbreviation B_yellow :: u8 where
  "B_yellow \<equiv> 23"

abbreviation B_lime :: u8 where
  "B_lime \<equiv> 24"

abbreviation B_green :: u8 where
  "B_green \<equiv> 25"

abbreviation B_teal :: u8 where
  "B_teal \<equiv> 26"

abbreviation B_aqua :: u8 where
  "B_aqua \<equiv> 27"

abbreviation B_cyan :: u8 where
  "B_cyan \<equiv> 28"

abbreviation B_blue :: u8 where
  "B_blue \<equiv> 29"

abbreviation B_indigo :: u8 where
  "B_indigo \<equiv> 30"

abbreviation B_violet :: u8 where
  "B_violet \<equiv> 31"

abbreviation B_magenta :: u8 where
  "B_magenta \<equiv> 32"

abbreviation B_pink :: u8 where
  "B_pink \<equiv> 33"

abbreviation B_black :: u8 where
  "B_black \<equiv> 34"

abbreviation B_gray :: u8 where
  "B_gray \<equiv> 35"

abbreviation B_white :: u8 where
  "B_white \<equiv> 36"

abbreviation B_dandelion :: u8 where
  "B_dandelion \<equiv> 37"

abbreviation B_rose :: u8 where
  "B_rose \<equiv> 38"

abbreviation B_brown_shroom :: u8 where
  "B_brown_shroom \<equiv> 39"

abbreviation B_red_shroom :: u8 where
  "B_red_shroom \<equiv> 40"

abbreviation B_gold :: u8 where
  "B_gold \<equiv> 41"

abbreviation B_iron :: u8 where
  "B_iron \<equiv> 42"

abbreviation B_double_slab :: u8 where
  "B_double_slab \<equiv> 43"

abbreviation B_slab :: u8 where
  "B_slab \<equiv> 44"

abbreviation B_brick :: u8 where
  "B_brick \<equiv> 45"

abbreviation B_tnt :: u8 where
  "B_tnt \<equiv> 46"

abbreviation B_bookshelf :: u8 where
  "B_bookshelf \<equiv> 47"

abbreviation B_mossy_rocks :: u8 where
  "B_mossy_rocks \<equiv> 48"

abbreviation B_obsidian :: u8 where
  "B_obsidian \<equiv> 49"

definition block_ids :: "u8 list" where
  "block_ids = [
     B_air, B_stone, B_grass, B_dirt, B_cobble, B_wood,
     B_sapling, B_bedrock, B_water, B_still_water, B_lava, B_still_lava,
     B_sand, B_gravel, B_gold_ore, B_iron_ore, B_coal_ore, B_log,
     B_leaves, B_sponge, B_glass, B_red, B_orange, B_yellow,
     B_lime, B_green, B_teal, B_aqua, B_cyan, B_blue,
     B_indigo, B_violet, B_magenta, B_pink, B_black, B_gray,
     B_white, B_dandelion, B_rose, B_brown_shroom, B_red_shroom, B_gold,
     B_iron, B_double_slab, B_slab, B_brick, B_tnt, B_bookshelf,
     B_mossy_rocks, B_obsidian]"

lemma distinct_block_ids: "distinct block_ids"
  by (simp add: block_ids_def)

datatype block_creation_mode = unset_block | set_block

text \<open>
  \<open>game::block_creation_mode(mode)\<close> casts the mode byte; the code only ever compares the
  result with \<open>set\<close>, so every other byte behaves as \<open>unset\<close>.
\<close>

definition block_creation_mode_of :: "u8 \<Rightarrow> block_creation_mode" where
  "block_creation_mode_of m = (if m = 1 then set_block else unset_block)"

subsection \<open>Compile-time constants\<close>

abbreviation announce_server_period :: nat where
  "announce_server_period \<equiv> 5000"

abbreviation udp_message_retransmission_period :: nat where
  "udp_message_retransmission_period \<equiv> 3000"

abbreviation num_of_multicast_events :: nat where
  "num_of_multicast_events \<equiv> 1"

abbreviation udp_buffer_size :: nat where
  "udp_buffer_size \<equiv> 2048"

abbreviation tcp_recv_buffer_size :: nat where
  "tcp_recv_buffer_size \<equiv> 4096"

abbreviation tcp_send_buffer_size :: nat where
  "tcp_send_buffer_size \<equiv> 8192"

abbreviation block_history_capacity :: nat where
  "block_history_capacity \<equiv> 8192"

abbreviation common_chat_history_capacity :: nat where
  "common_chat_history_capacity \<equiv> 8192"

subsection \<open>Error codes\<close>

abbreviation ec_success :: int where
  "ec_success \<equiv> 0"

abbreviation ec_invaild :: int where
  "ec_invaild \<equiv> 1"

abbreviation ec_client_connection_limit :: int where
  "ec_client_connection_limit \<equiv> 1000"

abbreviation ec_alloc_environment_handle :: int where
  "ec_alloc_environment_handle \<equiv> 2001"

abbreviation ec_alloc_connection_handle :: int where
  "ec_alloc_connection_handle \<equiv> 2002"

abbreviation ec_alloc_statement_handle :: int where
  "ec_alloc_statement_handle \<equiv> 2003"

abbreviation ec_set_attribute_version :: int where
  "ec_set_attribute_version \<equiv> 2004"

abbreviation ec_connect_server :: int where
  "ec_connect_server \<equiv> 2005"

abbreviation ec_invalid_packet_id :: int where
  "ec_invalid_packet_id \<equiv> 3001"

abbreviation ec_unimplemented_packet_id :: int where
  "ec_unimplemented_packet_id \<equiv> 3002"

abbreviation ec_insuffient_packet_data :: int where
  "ec_insuffient_packet_data \<equiv> 3003"

abbreviation ec_invalid_protocol_version :: int where
  "ec_invalid_protocol_version \<equiv> 3101"

abbreviation ec_improper_username_length :: int where
  "ec_improper_username_length \<equiv> 3102"

abbreviation ec_improper_username_format :: int where
  "ec_improper_username_format \<equiv> 3103"

abbreviation ec_improper_password_length :: int where
  "ec_improper_password_length \<equiv> 3104"

abbreviation ec_handle_error :: int where
  "ec_handle_error \<equiv> 3201"

abbreviation ec_handle_suucess :: int where
  "ec_handle_suucess \<equiv> 3202"

abbreviation ec_handle_chat_message_error :: int where
  "ec_handle_chat_message_error \<equiv> 3203"

abbreviation ec_player_login_fail :: int where
  "ec_player_login_fail \<equiv> 3301"

abbreviation ec_player_not_exist :: int where
  "ec_player_not_exist \<equiv> 3302"

abbreviation ec_player_already_login :: int where
  "ec_player_already_login \<equiv> 3303"

text \<open>
  The table \<open>error_messages\<close> has 0x1000 slots, null where no message is set. Indexing past
  the table is undefined and has no value here.
\<close>

definition error_messages :: "(int \<times> string) list" where
  "error_messages = [
     (ec_client_connection_limit, ''client_connection_limit''),
     (ec_alloc_environment_handle, ''alloc_environment_handle''),
     (ec_alloc_connection_handle, ''alloc_connection_handle''),
     (ec_alloc_statement_handle, ''alloc_statement_handle''),
     (ec_set_attribute_version, ''set_attribute_version''),
     (ec_connect_server, ''connect_server''),
     (ec_invalid_packet_id, ''Unsupported Packet ID''),
     (ec_unimplemented_packet_id, ''Unimplemented Packet ID''),
     (ec_insuffient_packet_data, ''insuffient_packet_data''),
     (ec_invalid_protocol_version, ''Unsupported protocol version''),
     (ec_improper_username_length, ''Username must be 1 to 16 characters''),
     (ec_improper_username_format, ''Username must be alphanumeric characters''),
     (ec_improper_password_length, ''Password must be 1 to 32 characters''),
     (ec_handle_error, ''handle_error''),
     (ec_handle_chat_message_error, ''Couldn't handle chat message. Please try reconnect.''),
     (ec_player_login_fail, ''Incorrect username or password''),
     (ec_player_already_login, ''Already logged in''),
     (ec_player_not_exist, ''player_not_exist'')]"

definition get_error_message :: "int \<Rightarrow> string option option" where
  "get_error_message c = (if 0 \<le> c \<and> c < 0x1000 then Some (map_of error_messages c) else None)"

datatype result_code = ResultCode (to_error_code: int)

definition rc_reset :: "result_code \<Rightarrow> result_code" where
  "rc_reset r = ResultCode ec_success"

fun is_success :: "result_code \<Rightarrow> bool" where
  "is_success (ResultCode c) = (c = ec_success)"

fun is_packet_handle_success :: "result_code \<Rightarrow> bool" where
  "is_packet_handle_success (ResultCode c) = (c = ec_success \<or> c = ec_insuffient_packet_data)"

fun rc_to_string :: "result_code \<Rightarrow> string option option" where
  "rc_to_string (ResultCode c) = get_error_message c"

text \<open>\<open>operator<<\<close>: the message when there is one, the number otherwise.\<close>

definition rc_print :: "result_code \<Rightarrow> (string + int) option" where
  "rc_print r = map_option (\<lambda>m. case m of Some s \<Rightarrow> Inl s | None \<Rightarrow> Inr (to_error_code r)) (rc_to_string r)"

lemma success_is_packet_handle_success: "is_success r \<Longrightarrow> is_packet_handle_success r"
  by (cases r) simp

lemma rc_reset_success [simp]: "is_success (rc_reset r)"
  by (simp add: rc_reset_def)

end
