(* ===== verification/Event_Data.thy ===== *)
theory Event_Data
  imports Prelude Ids
begin

section \<open>I/O event data: the receive and send buffers\<close>

text \<open>
  The implementations of \<open>io::IoEventData\<close> (\<open>io/io_event.h\<close>, \<open>io/io_event.cpp\<close>): the receive
  buffer, which is compacted on \<open>pop\<close>; the linear send buffer, which rewinds when it is empty;
  the lock-free send buffer (here its sequential behaviour; \<open>Lockfree_Send\<close> has the
  interleavings); and the read-only view a multicast event sends from. The capacity of a buffer
  is the length of its memory block. The \<open>int\<close> and \<open>unsigned\<close> offsets are natural numbers: they
  never exceed the capacity, which is at most 8192.

  What the connection layer relies on is the locale \<open>event_data\<close> (a consumer sees a byte queue)
  and its extension \<open>event_sink\<close> (a producer appends or is refused). The first-in first-out law
  is proved there once; the interpretations give it for each buffer.
\<close>

subsection \<open>The interface\<close>

locale event_data =
  fixes contents :: "'d \<Rightarrow> bytes"
    and capacity :: "'d \<Rightarrow> nat"
    and pop :: "nat \<Rightarrow> 'd \<Rightarrow> 'd"
    and wf :: "'d \<Rightarrow> bool"
  assumes contents_pop: "wf d \<Longrightarrow> n \<le> length (contents d) \<Longrightarrow> contents (pop n d) = drop n (contents d)"
    and wf_pop: "wf d \<Longrightarrow> n \<le> length (contents d) \<Longrightarrow> wf (pop n d)"
    and capacity_pop: "wf d \<Longrightarrow> n \<le> length (contents d) \<Longrightarrow> capacity (pop n d) = capacity d"
    and contents_le_capacity: "wf d \<Longrightarrow> length (contents d) \<le> capacity d"
begin

lemma pop_pop:
  assumes "wf d" and "m + n \<le> length (contents d)"
  shows "contents (pop n (pop m d)) = contents (pop (m + n) d)"
  using assms by (simp add: contents_pop wf_pop add.commute)

lemma pop_all: "wf d \<Longrightarrow> contents (pop (length (contents d)) d) = []"
  by (simp add: contents_pop)

end

locale event_sink = event_data +
  fixes push :: "bytes \<Rightarrow> 'd \<Rightarrow> bool \<times> 'd"
  assumes push_accept: "wf d \<Longrightarrow> push bs d = (True, d') \<Longrightarrow> contents d' = contents d @ bs"
    and push_reject: "wf d \<Longrightarrow> push bs d = (False, d') \<Longrightarrow> contents d' = contents d"
    and wf_push: "wf d \<Longrightarrow> push bs d = (b, d') \<Longrightarrow> wf d'"
    and capacity_push: "wf d \<Longrightarrow> push bs d = (b, d') \<Longrightarrow> capacity d' = capacity d"

text \<open>A producer and a consumer working on one buffer: what was accepted, what was taken.\<close>

datatype buf_op = Push bytes | Pop nat

fun run_ops :: "('d \<Rightarrow> bytes) \<Rightarrow> (nat \<Rightarrow> 'd \<Rightarrow> 'd) \<Rightarrow> (bytes \<Rightarrow> 'd \<Rightarrow> bool \<times> 'd) \<Rightarrow>
    buf_op list \<Rightarrow> 'd \<Rightarrow> bytes \<times> bytes \<times> 'd" where
  "run_ops cont pp psh [] d = ([], [], d)"
| "run_ops cont pp psh (Push bs # ops) d =
     (let (ok, d1) = psh bs d; (i, out, d2) = run_ops cont pp psh ops d1
      in ((if ok then bs else []) @ i, out, d2))"
| "run_ops cont pp psh (Pop n # ops) d =
     (let k = min n (length (cont d)); (i, out, d2) = run_ops cont pp psh ops (pp k d)
      in (i, take k (cont d) @ out, d2))"

context event_sink
begin

lemma run_ops_fifo:
  "wf d \<Longrightarrow> run_ops contents pop push ops d = (i, out, d') \<Longrightarrow>
    contents d @ i = out @ contents d' \<and> wf d' \<and> capacity d' = capacity d"
proof (induction ops arbitrary: d i out d')
  case Nil
  then show ?case by simp
next
  case (Cons op ops)
  show ?case
  proof (cases op)
    case (Push bs)
    obtain ok d1 where p: "push bs d = (ok, d1)" by fastforce
    obtain i1 o1 d2 where r: "run_ops contents pop push ops d1 = (i1, o1, d2)"
      by (metis prod_cases3)
    have c: "contents d1 = contents d @ (if ok then bs else [])"
      using push_accept [OF Cons.prems(1)] push_reject [OF Cons.prems(1)] p by (cases ok) auto
    from Cons.IH [OF wf_push [OF Cons.prems(1) p] r] Cons.prems Push p r c
    show ?thesis by (auto simp: capacity_push)
  next
    case (Pop n)
    let ?k = "min n (length (contents d))"
    obtain i1 o1 d2 where r: "run_ops contents pop push ops (pop ?k d) = (i1, o1, d2)"
      by (metis prod_cases3)
    have "contents d = take ?k (contents d) @ contents (pop ?k d)"
      by (simp add: contents_pop Cons.prems(1))
    with Cons.IH [OF wf_pop [OF Cons.prems(1)] r] Cons.prems Pop r
    show ?thesis by (auto simp: capacity_pop simp del: contents_pop) (metis append.assoc)
  qed
qed

end

subsection \<open>The receive buffer\<close>

record recv_data =
  rd_mem :: bytes
  rd_size :: nat

definition recv_contents :: "recv_data \<Rightarrow> bytes" where
  "recv_contents d = segment 0 (rd_size d) (rd_mem d)"

definition recv_capacity :: "recv_data \<Rightarrow> nat" where
  "recv_capacity d = length (rd_mem d)"

definition recv_unused_size :: "recv_data \<Rightarrow> nat" where
  "recv_unused_size d = length (rd_mem d) - rd_size d"

definition recv_wf :: "recv_data \<Rightarrow> bool" where
  "recv_wf d \<longleftrightarrow> rd_size d \<le> length (rd_mem d)"

text \<open>
  \<open>push\<close>: a null \<open>data\<close> only moves the size (the bytes were put there by the I/O); any other
  data is copied to \<open>begin()\<close>. It always answers true; \<open>_size <= _capacity\<close> is asserted.
\<close>

definition recv_push :: "bytes option \<Rightarrow> nat \<Rightarrow> recv_data \<Rightarrow> bool \<times> recv_data" where
  "recv_push data n d =
     (let m = (case data of None \<Rightarrow> rd_mem d | Some bs \<Rightarrow> blit 0 (take n bs) (rd_mem d))
      in (True, d\<lparr>rd_mem := m, rd_size := rd_size d + n\<rparr>))"

text \<open>\<open>pop\<close> moves the remaining bytes to the front (\<open>_size >= n\<close> is asserted).\<close>

definition recv_pop :: "nat \<Rightarrow> recv_data \<Rightarrow> recv_data" where
  "recv_pop n d =
     (let s = rd_size d - n
      in if s \<noteq> 0 then d\<lparr>rd_mem := blit 0 (segment n s (rd_mem d)) (rd_mem d), rd_size := s\<rparr>
         else d\<lparr>rd_size := s\<rparr>)"

text \<open>
  A completed receive: registered I/O wrote the bytes to the posted range \<open>[end, end +
  unused_size)\<close>, and the completion handler then pushes null with their number.
\<close>

definition recv_fill :: "bytes \<Rightarrow> recv_data \<Rightarrow> recv_data" where
  "recv_fill bs d = d\<lparr>rd_mem := blit (rd_size d) bs (rd_mem d)\<rparr>"

definition recv_io_push :: "bytes \<Rightarrow> recv_data \<Rightarrow> bool \<times> recv_data" where
  "recv_io_push bs d =
     (if length bs \<le> recv_unused_size d then recv_push None (length bs) (recv_fill bs d)
      else (False, d))"

definition recv_new :: "nat \<Rightarrow> recv_data" where
  "recv_new cap = \<lparr>rd_mem = replicate cap 0, rd_size = 0\<rparr>"

lemmas recv_defs = recv_contents_def recv_capacity_def recv_unused_size_def recv_wf_def
  recv_push_def recv_pop_def recv_fill_def recv_io_push_def

declare recv_defs [buf_simps]

lemma length_recv_contents: "recv_wf d \<Longrightarrow> length (recv_contents d) = rd_size d"
  by (simp add: buf_simps)

lemma recv_contents_pop:
  assumes "recv_wf d" and "n \<le> rd_size d"
  shows "recv_contents (recv_pop n d) = drop n (recv_contents d)"
proof (cases "n = rd_size d")
  case True
  then show ?thesis by (simp add: buf_simps drop_segment)
next
  case False
  let ?src = "segment n (rd_size d - n) (rd_mem d)"
  have len: "length ?src = rd_size d - n"
    using assms by (simp add: buf_simps)
  then have "segment 0 (rd_size d - n) (blit 0 ?src (rd_mem d)) = ?src"
    using segment_blit_same [of 0 ?src "rd_mem d"] assms by (simp add: buf_simps)
  with False assms show ?thesis
    by (simp add: recv_contents_def recv_pop_def Let_def drop_segment)
qed

lemma recv_wf_pop: "recv_wf d \<Longrightarrow> n \<le> rd_size d \<Longrightarrow> recv_wf (recv_pop n d)"
  by (auto simp: buf_simps Let_def)

lemma recv_contents_io_push:
  assumes "recv_wf d" and "length bs \<le> recv_unused_size d"
  shows "recv_contents (snd (recv_io_push bs d)) = recv_contents d @ bs"
  using assms segment_blit_extend [of 0 "rd_size d" bs "rd_mem d"]
  by (simp add: buf_simps)

interpretation recv: event_sink recv_contents recv_capacity recv_pop recv_wf recv_io_push
proof (unfold_locales, goal_cases)
  case (1 d n)
  then show ?case by (simp add: length_recv_contents recv_contents_pop)
next
  case (2 d n)
  then show ?case by (simp add: length_recv_contents recv_wf_pop)
next
  case (3 d n)
  then show ?case by (auto simp: buf_simps Let_def)
next
  case (4 d)
  then show ?case by (simp add: buf_simps)
next
  case (5 d bs d')
  then have "length bs \<le> recv_unused_size d"
    by (auto simp: recv_io_push_def split: if_splits)
  from recv_contents_io_push [OF 5(1) this] 5(2) show ?case by simp
next
  case (6 d bs d')
  then show ?case by (auto simp: recv_io_push_def recv_push_def Let_def split: if_splits)
next
  case (7 d bs b d')
  then show ?case by (auto simp: buf_simps Let_def split: if_splits)
next
  case (8 d bs b d')
  then show ?case by (auto simp: buf_simps Let_def split: if_splits)
qed

subsection \<open>The linear send buffer\<close>

record send_data =
  sd_mem :: bytes
  sd_head :: nat
  sd_tail :: nat

definition send_contents :: "send_data \<Rightarrow> bytes" where
  "send_contents d = segment (sd_head d) (sd_tail d - sd_head d) (sd_mem d)"

definition send_capacity :: "send_data \<Rightarrow> nat" where
  "send_capacity d = length (sd_mem d)"

definition send_unused_size :: "send_data \<Rightarrow> nat" where
  "send_unused_size d = length (sd_mem d) - sd_tail d"

definition send_wf :: "send_data \<Rightarrow> bool" where
  "send_wf d \<longleftrightarrow> sd_head d \<le> sd_tail d \<and> sd_tail d \<le> length (sd_mem d)"

text \<open>An empty buffer is rewound before the space is checked, also when the push then fails.\<close>

definition send_rewind :: "send_data \<Rightarrow> send_data" where
  "send_rewind d = (if sd_head d = sd_tail d then d\<lparr>sd_head := 0, sd_tail := 0\<rparr> else d)"

definition send_push :: "bytes \<Rightarrow> send_data \<Rightarrow> bool \<times> send_data" where
  "send_push bs d =
     (let d1 = send_rewind d
      in if length bs > send_unused_size d1 then (False, d1)
         else (True, d1\<lparr>sd_mem := blit (sd_tail d1) bs (sd_mem d1), sd_tail := sd_tail d1 + length bs\<rparr>))"

definition send_pop :: "nat \<Rightarrow> send_data \<Rightarrow> send_data" where
  "send_pop n d = d\<lparr>sd_head := sd_head d + n\<rparr>"

definition send_new :: "nat \<Rightarrow> send_data" where
  "send_new cap = \<lparr>sd_mem = replicate cap 0, sd_head = 0, sd_tail = 0\<rparr>"

lemmas send_defs = send_contents_def send_capacity_def send_unused_size_def send_wf_def
  send_rewind_def send_push_def send_pop_def

declare send_defs [buf_simps]

lemma length_send_contents: "send_wf d \<Longrightarrow> length (send_contents d) = sd_tail d - sd_head d"
  by (auto simp: buf_simps)

lemma send_rewind_contents [simp]: "send_contents (send_rewind d) = send_contents d"
  by (simp add: buf_simps)

lemma send_rewind_wf [simp]: "send_wf d \<Longrightarrow> send_wf (send_rewind d)"
  by (auto simp: buf_simps)

lemma send_contents_push:
  assumes "send_wf d" and "send_push bs d = (True, d')"
  shows "send_contents d' = send_contents d @ bs"
proof -
  obtain m h t where d: "send_rewind d = \<lparr>sd_mem = m, sd_head = h, sd_tail = t\<rparr>"
    by (rule send_data.cases)
  have wf: "h \<le> t" "t \<le> length m"
    using send_rewind_wf [OF assms(1)] by (simp_all add: d send_wf_def)
  have d': "d' = \<lparr>sd_mem = blit t bs m, sd_head = h, sd_tail = t + length bs\<rparr>"
    and sp: "t + length bs \<le> length m"
    using assms(2) wf by (auto simp: send_push_def d send_unused_size_def Let_def split: if_splits)
  have "send_contents d' = segment h (t - h + length bs) (blit t bs m)"
    using wf by (simp add: d' send_contents_def)
  also have "\<dots> = segment h (t - h) m @ bs"
    by (rule segment_blit_extend [OF wf(1) sp])
  also have "segment h (t - h) m = send_contents (send_rewind d)"
    by (simp add: d send_contents_def)
  finally show ?thesis by simp
qed

interpretation send: event_sink send_contents send_capacity send_pop send_wf send_push
proof (unfold_locales, goal_cases)
  case (1 d n)
  then show ?case by (simp add: length_send_contents) (simp add: buf_simps drop_segment)
next
  case (2 d n)
  then show ?case by (auto simp: buf_simps)
next
  case (3 d n)
  then show ?case by (simp add: buf_simps)
next
  case (4 d)
  then show ?case by (simp add: buf_simps)
next
  case (5 d bs d')
  then show ?case by (rule send_contents_push)
next
  case (6 d bs d')
  then have "d' = send_rewind d" by (auto simp: send_push_def Let_def split: if_splits)
  then show ?case by simp
next
  case (7 d bs b d')
  then show ?case by (auto simp: buf_simps Let_def split: if_splits)
next
  case (8 d bs b d')
  then show ?case by (auto simp: buf_simps Let_def split: if_splits)
qed

subsection \<open>The lock-free send buffer, one call at a time\<close>

record lf_data =
  lf_mem :: bytes
  lf_head :: nat
  lf_tail :: nat

definition lf_contents :: "lf_data \<Rightarrow> bytes" where
  "lf_contents d = segment (lf_head d) (lf_tail d - lf_head d) (lf_mem d)"

definition lf_capacity :: "lf_data \<Rightarrow> nat" where
  "lf_capacity d = length (lf_mem d)"

definition lf_unused_size :: "lf_data \<Rightarrow> nat" where
  "lf_unused_size d = length (lf_mem d) - lf_tail d"

definition lf_size :: "lf_data \<Rightarrow> nat" where
  "lf_size d = lf_tail d - lf_head d"

definition lf_wf :: "lf_data \<Rightarrow> bool" where
  "lf_wf d \<longleftrightarrow> lf_head d \<le> lf_tail d \<and> lf_tail d \<le> length (lf_mem d)"

definition lf_push :: "bytes \<Rightarrow> lf_data \<Rightarrow> bool \<times> lf_data" where
  "lf_push bs d =
     (if lf_tail d + length bs > length (lf_mem d) then (False, d)
      else (True, d\<lparr>lf_mem := blit (lf_tail d) bs (lf_mem d), lf_tail := lf_tail d + length bs\<rparr>))"

text \<open>\<open>pop\<close> advances the head and rewinds both ends when the buffer is drained.\<close>

definition lf_pop :: "nat \<Rightarrow> lf_data \<Rightarrow> lf_data" where
  "lf_pop n d =
     (let h = lf_head d + n
      in if lf_tail d = h then d\<lparr>lf_head := 0, lf_tail := 0\<rparr> else d\<lparr>lf_head := h\<rparr>)"

definition lf_new :: "nat \<Rightarrow> lf_data" where
  "lf_new cap = \<lparr>lf_mem = replicate cap 0, lf_head = 0, lf_tail = 0\<rparr>"

lemmas lf_defs = lf_contents_def lf_capacity_def lf_unused_size_def lf_size_def lf_wf_def
  lf_push_def lf_pop_def

declare lf_defs [buf_simps]

lemma length_lf_contents: "lf_wf d \<Longrightarrow> length (lf_contents d) = lf_size d"
  by (auto simp: buf_simps)

lemma lf_new_wf [simp]: "lf_wf (lf_new cap)"
  by (simp add: lf_new_def buf_simps)

lemma lf_new_contents [simp]: "lf_contents (lf_new cap) = []"
  by (simp add: lf_new_def buf_simps)

lemma lf_contents_push:
  assumes "lf_wf d" and "lf_push bs d = (True, d')"
  shows "lf_contents d' = lf_contents d @ bs"
proof -
  obtain m h t where d: "d = \<lparr>lf_mem = m, lf_head = h, lf_tail = t\<rparr>"
    by (rule lf_data.cases)
  have wf: "h \<le> t" "t \<le> length m"
    using assms(1) by (simp_all add: d lf_wf_def)
  have d': "d' = \<lparr>lf_mem = blit t bs m, lf_head = h, lf_tail = t + length bs\<rparr>"
    and sp: "t + length bs \<le> length m"
    using assms(2) by (auto simp: lf_push_def d split: if_splits)
  have "lf_contents d' = segment h (t - h + length bs) (blit t bs m)"
    using wf by (simp add: d' lf_contents_def)
  also have "\<dots> = segment h (t - h) m @ bs"
    by (rule segment_blit_extend [OF wf(1) sp])
  finally show ?thesis
    by (simp add: d lf_contents_def)
qed

interpretation lf: event_sink lf_contents lf_capacity lf_pop lf_wf lf_push
proof (unfold_locales, goal_cases)
  case (1 d n)
  then show ?case
    by (auto simp: length_lf_contents) (auto simp: buf_simps Let_def drop_segment)
next
  case (2 d n)
  then show ?case by (auto simp: length_lf_contents) (auto simp: buf_simps Let_def)
next
  case (3 d n)
  then show ?case by (simp add: buf_simps Let_def)
next
  case (4 d)
  then show ?case by (simp add: buf_simps)
next
  case (5 d bs d')
  then show ?case by (rule lf_contents_push)
next
  case (6 d bs d')
  then show ?case by (auto simp: lf_push_def split: if_splits)
next
  case (7 d bs b d')
  then show ?case by (auto simp: buf_simps split: if_splits)
next
  case (8 d bs b d')
  then show ?case by (auto simp: buf_simps split: if_splits)
qed

lemma lf_push_accept_iff: "fst (lf_push bs d) \<longleftrightarrow> lf_tail d + length bs \<le> lf_capacity d"
  by (auto simp: buf_simps)

text \<open>A drained buffer offers its whole capacity again.\<close>

lemma lf_drained_accepts:
  "lf_wf d \<Longrightarrow> length bs \<le> lf_capacity d \<Longrightarrow> fst (lf_push bs (lf_pop (lf_size d) d))"
  by (auto simp: buf_simps Let_def)

subsection \<open>The read-only view of a multicast\<close>

record ro_data =
  ro_bytes :: bytes

definition ro_contents :: "ro_data \<Rightarrow> bytes" where
  "ro_contents d = ro_bytes d"

definition ro_unused_size :: "ro_data \<Rightarrow> nat" where
  "ro_unused_size d = 0"

definition ro_push :: "bytes \<Rightarrow> ro_data \<Rightarrow> bool \<times> ro_data" where
  "ro_push bs d = (False, d)"

definition ro_pop :: "nat \<Rightarrow> ro_data \<Rightarrow> ro_data" where
  "ro_pop n d = d"

definition ro_set_data :: "bytes \<Rightarrow> ro_data \<Rightarrow> ro_data" where
  "ro_set_data bs d = d\<lparr>ro_bytes := bs\<rparr>"

subsection \<open>Events and the posting of I/O\<close>

text \<open>
  \<open>io::IoEvent\<close> with its data. \<open>post_rio_event\<close> hands the buffer to registered I/O unless the
  event is already in flight; \<open>rio\<close> is what the request call answers. The result names the bytes
  (or, for a receive, the room) that were submitted. \<open>max_packet\<close> is \<open>sizeof(PacketHandshake)\<close>,
  a number the compiler's layout decides.
\<close>

record recv_event =
  re_processing :: bool
  re_data :: recv_data

record send_event =
  se_processing :: bool
  se_data :: lf_data

record multicast_event =
  me_processing :: bool
  me_data :: ro_data

definition recv_post_rio :: "nat \<Rightarrow> bool \<Rightarrow> recv_event \<Rightarrow> bool \<times> recv_event \<times> nat option" where
  "recv_post_rio max_packet rio e =
     (if re_processing e \<or> recv_unused_size (re_data e) < max_packet then (False, e, None)
      else if \<not> rio then (False, e\<lparr>re_processing := False\<rparr>, None)
      else (True, e\<lparr>re_processing := True\<rparr>, Some (recv_unused_size (re_data e))))"

definition send_post_rio :: "bool \<Rightarrow> send_event \<Rightarrow> bool \<times> send_event \<times> bytes option" where
  "send_post_rio rio e =
     (if se_processing e \<or> lf_size (se_data e) = 0 then (False, e, None)
      else if \<not> rio then (False, e\<lparr>se_processing := False\<rparr>, None)
      else (True, e\<lparr>se_processing := True\<rparr>, Some (lf_contents (se_data e))))"

definition multicast_post_rio :: "bool \<Rightarrow> multicast_event \<Rightarrow> bool \<times> multicast_event \<times> bytes option" where
  "multicast_post_rio rio e =
     (if me_processing e \<or> length (ro_contents (me_data e)) = 0 then (False, e, None)
      else if \<not> rio then (False, e\<lparr>me_processing := False\<rparr>, None)
      else (True, e\<lparr>me_processing := True\<rparr>, Some (ro_contents (me_data e))))"

lemma send_post_rio_exclusive:
  "send_post_rio rio e = (ok, e', sub) \<Longrightarrow> ok \<Longrightarrow> \<not> se_processing e \<and> se_processing e' \<and>
     sub = Some (lf_contents (se_data e)) \<and> se_data e' = se_data e"
  by (auto simp: send_post_rio_def split: if_splits)

lemma recv_post_rio_room:
  "recv_post_rio mp rio e = (ok, e', sub) \<Longrightarrow> ok \<Longrightarrow> \<not> re_processing e \<and> re_processing e' \<and>
     sub = Some (recv_unused_size (re_data e)) \<and> mp \<le> recv_unused_size (re_data e)"
  by (auto simp: recv_post_rio_def split: if_splits)

subsection \<open>The buffers are streams\<close>

text \<open>
  The receive buffer is a first-in first-out byte stream when it is filled the way the
  completion of a receive fills it: whatever the order of receives (some refused for want of
  room) and pops, no byte is lost, reordered or duplicated.
\<close>

theorem recv_buffer_fifo:
  assumes "recv_wf d" and "run_ops recv_contents recv_pop recv_io_push ops d = (accepted, taken, d')"
  shows "recv_contents d @ accepted = taken @ recv_contents d' \<and> recv_wf d' \<and> recv_capacity d' = recv_capacity d"
  by (rule recv.run_ops_fifo [OF assms])

theorem recv_buffer_fifo_witness:
  "recv_contents (recv_new 4) @ [1, 2, 3, 4] = [1, 2] @ [3, 4] \<and>
   run_ops recv_contents recv_pop recv_io_push [Push [1, 2, 3], Pop 2, Push [4], Push [7, 7, 7]] (recv_new 4) =
     ([1, 2, 3, 4], [1, 2], \<lparr>rd_mem = [3, 4, 3, 0], rd_size = 2\<rparr>)"
proof -
  have run: "run_ops recv_contents recv_pop recv_io_push [Push [1, 2, 3], Pop 2, Push [4], Push [7, 7, 7]] (recv_new 4) =
     ([1, 2, 3, 4], [1, 2], \<lparr>rd_mem = [3, 4, 3, 0], rd_size = 2\<rparr>)"
    by code_simp
  have wf: "recv_wf (recv_new 4)" by code_simp
  have "recv_contents \<lparr>rd_mem = [3, 4, 3, 0], rd_size = 2\<rparr> = [3, 4]" by code_simp
  with recv_buffer_fifo [OF wf run] run show ?thesis by simp
qed

end
