(* ===== verification/Lockfree_Send.thy ===== *)
theory Lockfree_Send
  imports Event_Data
begin

section \<open>The lock-free send buffer under interleaving\<close>

text \<open>
  \<open>IoSendEventLockFreeDataImpl::push\<close> is two actions: a compare-and-swap that moves
  \<open>data_tail\<close> and so reserves a range, and the \<open>memcpy\<close> into it. Any number of event threads
  push at once, while the main thread posts what lies between head and tail and the completion
  of the send pops it. A step of \<open>lf_step\<close> is one atomic action; \<open>pend\<close> holds the
  reservations whose copy is still to come, \<open>log\<close> the accepted bytes in the order of their
  reservations, less the popped ones (the content the buffer should have), and \<open>posted\<close> the
  range a send was last posted for.
\<close>

record lf_conc =
  buf :: lf_data
  pend :: "(nat \<times> bytes) list"
  log :: bytes
  posted :: "bytes option"

definition lf_init :: "nat \<Rightarrow> lf_conc" where
  "lf_init cap = \<lparr>buf = lf_new cap, pend = [], log = [], posted = None\<rparr>"

text \<open>The reservation: the successful compare-and-swap of \<open>push\<close>.\<close>

definition lf_reserve :: "bytes \<Rightarrow> lf_conc \<Rightarrow> lf_conc option" where
  "lf_reserve bs s =
     (let t = lf_tail (buf s)
      in if t + length bs > length (lf_mem (buf s)) then None
         else Some (s\<lparr>buf := (buf s)\<lparr>lf_tail := t + length bs\<rparr>,
                      pend := (t, bs) # pend s, log := log s @ bs\<rparr>))"

text \<open>The \<open>memcpy\<close> of an earlier reservation.\<close>

definition lf_copy :: "nat \<times> bytes \<Rightarrow> lf_conc \<Rightarrow> lf_conc" where
  "lf_copy p s = s\<lparr>buf := (buf s)\<lparr>lf_mem := blit (fst p) (snd p) (lf_mem (buf s))\<rparr>,
                   pend := remove1 p (pend s)\<rparr>"

definition lf_post :: "lf_conc \<Rightarrow> lf_conc" where
  "lf_post s = s\<lparr>posted := Some (lf_contents (buf s))\<rparr>"

definition lf_consume :: "nat \<Rightarrow> lf_conc \<Rightarrow> lf_conc" where
  "lf_consume n s = s\<lparr>buf := lf_pop n (buf s), log := drop n (log s)\<rparr>"

text \<open>No copy is outstanding in the first \<open>n\<close> bytes.\<close>

definition settled :: "nat \<Rightarrow> lf_conc \<Rightarrow> bool" where
  "settled n s \<longleftrightarrow> list_all (\<lambda>p. lf_head (buf s) + n \<le> fst p) (pend s)"

text \<open>
  The steps of the code: \<open>post\<close> and \<open>consume\<close> ask nothing of the outstanding copies.
  \<open>lf_step True\<close> restricts both to settled ranges, the discipline under which the buffer is
  a queue; \<open>lf_step False\<close> is the code as it is.
\<close>

inductive lf_step :: "bool \<Rightarrow> lf_conc \<Rightarrow> lf_conc \<Rightarrow> bool" for disciplined :: bool where
  reserve: "lf_reserve bs s = Some t \<Longrightarrow> lf_step disciplined s t"
| copy: "p \<in> set (pend s) \<Longrightarrow> lf_step disciplined s (lf_copy p s)"
| post: "lf_size (buf s) \<noteq> 0 \<Longrightarrow> (disciplined \<Longrightarrow> pend s = []) \<Longrightarrow> lf_step disciplined s (lf_post s)"
| consume: "n \<le> lf_size (buf s) \<Longrightarrow> (disciplined \<Longrightarrow> settled n s) \<Longrightarrow>
     lf_step disciplined s (lf_consume n s)"

inductive lf_reachable :: "bool \<Rightarrow> nat \<Rightarrow> lf_conc \<Rightarrow> bool" for disciplined :: bool and cap :: nat where
  init: "lf_reachable disciplined cap (lf_init cap)"
| step: "lf_reachable disciplined cap s \<Longrightarrow> lf_step disciplined s t \<Longrightarrow> lf_reachable disciplined cap t"

inductive_cases lf_stepE: "lf_step disciplined s t"

subsection \<open>The invariant\<close>

definition covered :: "lf_conc \<Rightarrow> nat \<Rightarrow> bool" where
  "covered s i \<longleftrightarrow> (\<exists>p \<in> set (pend s). fst p \<le> i \<and> i < fst p + length (snd p))"

definition lf_inv :: "nat \<Rightarrow> lf_conc \<Rightarrow> bool" where
  "lf_inv cap s \<longleftrightarrow>
     lf_wf (buf s) \<and> length (lf_mem (buf s)) = cap \<and> length (log s) = lf_size (buf s) \<and>
     (\<forall>p \<in> set (pend s). snd p \<noteq> [] \<longrightarrow> lf_head (buf s) \<le> fst p \<and> fst p + length (snd p) \<le> lf_tail (buf s) \<and>
        segment (fst p - lf_head (buf s)) (length (snd p)) (log s) = snd p) \<and>
     (\<forall>i. lf_head (buf s) \<le> i \<longrightarrow> i < lf_tail (buf s) \<longrightarrow> \<not> covered s i \<longrightarrow>
        lf_mem (buf s) ! i = log s ! (i - lf_head (buf s)))"

lemma lf_invD:
  assumes "lf_inv cap s"
  shows "lf_head (buf s) \<le> lf_tail (buf s)" and "lf_tail (buf s) \<le> cap"
    and "length (lf_mem (buf s)) = cap" and "length (log s) = lf_tail (buf s) - lf_head (buf s)"
  using assms by (auto simp: lf_inv_def lf_wf_def lf_size_def)

lemma lf_inv_pend:
  assumes "lf_inv cap s" and "(off, bs) \<in> set (pend s)" and "bs \<noteq> []"
  shows "lf_head (buf s) \<le> off" and "off + length bs \<le> lf_tail (buf s)"
    and "segment (off - lf_head (buf s)) (length bs) (log s) = bs"
  using assms by (auto simp: lf_inv_def dest!: bspec)

lemma lf_inv_mem:
  "lf_inv cap s \<Longrightarrow> lf_head (buf s) \<le> i \<Longrightarrow> i < lf_tail (buf s) \<Longrightarrow> \<not> covered s i \<Longrightarrow>
     lf_mem (buf s) ! i = log s ! (i - lf_head (buf s))"
  by (simp add: lf_inv_def)

lemma lf_invI:
  assumes "lf_head (buf s) \<le> lf_tail (buf s)" and "lf_tail (buf s) \<le> cap"
    and "length (lf_mem (buf s)) = cap" and "length (log s) = lf_tail (buf s) - lf_head (buf s)"
    and "\<And>off bs. (off, bs) \<in> set (pend s) \<Longrightarrow> bs \<noteq> [] \<Longrightarrow>
       lf_head (buf s) \<le> off \<and> off + length bs \<le> lf_tail (buf s) \<and>
       segment (off - lf_head (buf s)) (length bs) (log s) = bs"
    and "\<And>i. lf_head (buf s) \<le> i \<Longrightarrow> i < lf_tail (buf s) \<Longrightarrow> \<not> covered s i \<Longrightarrow>
       lf_mem (buf s) ! i = log s ! (i - lf_head (buf s))"
  shows "lf_inv cap s"
  using assms by (auto simp: lf_inv_def lf_wf_def lf_size_def)

lemma lf_inv_init: "lf_inv cap (lf_init cap)"
  by (rule lf_invI) (simp_all add: lf_init_def lf_new_def)

lemma segment_append_left:
  "off + n \<le> length xs \<Longrightarrow> segment off n (xs @ ys) = segment off n xs"
  by (simp add: segment_def)

lemma lf_inv_reserve:
  assumes inv: "lf_inv cap s" and res: "lf_reserve bs s = Some t"
  shows "lf_inv cap t"
proof -
  note d = lf_invD [OF inv]
  let ?h = "lf_head (buf s)" and ?t = "lf_tail (buf s)"
  have sp: "?t + length bs \<le> cap"
    and t: "t = s\<lparr>buf := (buf s)\<lparr>lf_tail := ?t + length bs\<rparr>, pend := (?t, bs) # pend s, log := log s @ bs\<rparr>"
    using res d by (auto simp: lf_reserve_def Let_def split: if_splits)
  show ?thesis
  proof (rule lf_invI, goal_cases)
    case (5 off bs')
    then consider "off = ?t" "bs' = bs" | "(off, bs') \<in> set (pend s)"
      by (auto simp: t)
    then show ?case
    proof cases
      case 1
      then show ?thesis using d by (simp add: t segment_def)
    next
      case 2
      from lf_inv_pend [OF inv 2 5(2)] show ?thesis using d by (simp add: t segment_append_left)
    qed
  next
    case (6 i)
    then have "i < ?t" and nc: "\<not> covered s i"
      by (auto simp: t covered_def not_less)
    with lf_inv_mem [OF inv _ _ nc] 6 d show ?case
      by (auto simp: t nth_append)
  qed (use d sp in \<open>simp_all add: t\<close>)
qed

lemma nth_of_segment:
  assumes "segment off (length bs) xs = bs" and "off \<le> i" and "i < off + length bs"
  shows "bs ! (i - off) = xs ! i"
proof -
  have "length (segment off (length bs) xs) = length bs"
    using assms(1) by simp
  then have "off + length bs \<le> length xs \<or> bs = []"
    by (cases bs) (auto simp: min_def split: if_splits)
  with assms(2,3) have "segment off (length bs) xs ! (i - off) = xs ! i"
    by auto
  then show ?thesis by (simp add: assms(1))
qed

lemma lf_inv_copy_nonempty:
  assumes inv: "lf_inv cap s" and mem: "(off, bs) \<in> set (pend s)" and ne: "bs \<noteq> []"
  shows "lf_inv cap (lf_copy (off, bs) s)"
proof -
  note d = lf_invD [OF inv] and p = lf_inv_pend [OF inv mem ne]
  let ?s = "lf_copy (off, bs) s" and ?h = "lf_head (buf s)"
  have len: "off + length bs \<le> length (lf_mem (buf s))"
    using d p by simp
  show ?thesis
  proof (rule lf_invI, goal_cases)
    case (5 off' bs')
    then have "(off', bs') \<in> set (pend s)"
      using set_remove1_subset by (fastforce simp: lf_copy_def)
    from lf_inv_pend [OF inv this 5(2)] show ?case by (simp add: lf_copy_def)
  next
    case (6 i)
    show ?case
    proof (cases "off \<le> i \<and> i < off + length bs")
      case True
      have a: "off - ?h \<le> i - ?h" "i - ?h < off - ?h + length bs" "i - ?h - (off - ?h) = i - off"
        using True p(1) by auto
      have "bs ! (i - off) = log s ! (i - ?h)"
        using nth_of_segment [OF p(3) a(1,2)] by (simp only: a(3))
      with True len show ?thesis
        using d p by (simp add: lf_copy_def nth_blit)
    next
      case False
      have "\<not> covered s i"
      proof
        assume "covered s i"
        then obtain q where q: "q \<in> set (pend s)" "fst q \<le> i" "i < fst q + length (snd q)"
          by (auto simp: covered_def)
        with False have "q \<noteq> (off, bs)" by auto
        with q have "covered ?s i" by (auto simp: covered_def lf_copy_def in_set_remove1)
        with 6 show False by simp
      qed
      with lf_inv_mem [OF inv _ _ this] 6 False len d show ?thesis
        by (auto simp: lf_copy_def nth_blit)
    qed
  qed (use d len in \<open>simp_all add: lf_copy_def\<close>)
qed

lemma lf_inv_copy:
  assumes inv: "lf_inv cap s" and mem: "p \<in> set (pend s)"
  shows "lf_inv cap (lf_copy p s)"
proof (cases "snd p = []")
  case True
  have cov: "covered (lf_copy p s) = covered s"
  proof (rule ext, rule iffI)
    show "covered s i" if "covered (lf_copy p s) i" for i
      using that set_remove1_subset by (fastforce simp: covered_def lf_copy_def)
    show "covered (lf_copy p s) i" if "covered s i" for i
    proof -
      from that obtain q where q: "q \<in> set (pend s)" "fst q \<le> i" "i < fst q + length (snd q)"
        by (auto simp: covered_def)
      with True have "q \<noteq> p" by auto
      with q show ?thesis by (auto simp: covered_def lf_copy_def in_set_remove1)
    qed
  qed
  have sub: "set (pend (lf_copy p s)) \<subseteq> set (pend s)" and same: "buf (lf_copy p s) = buf s" "log (lf_copy p s) = log s"
    by (simp_all add: lf_copy_def set_remove1_subset True)
  with inv show ?thesis
    unfolding lf_inv_def cov same by blast
next
  case False
  then show ?thesis
    using lf_inv_copy_nonempty [OF inv, of "fst p" "snd p"] mem by simp
qed

lemma lf_inv_post: "lf_inv cap s \<Longrightarrow> lf_inv cap (lf_post s)"
  by (simp add: lf_inv_def lf_post_def covered_def)

lemma segment_drop: "segment off n (drop k xs) = segment (k + off) n xs"
  by (simp add: segment_def add.commute)

lemma lf_inv_consume:
  assumes inv: "lf_inv cap s" and n: "n \<le> lf_size (buf s)" and st: "settled n s"
  shows "lf_inv cap (lf_consume n s)"
proof -
  note d = lf_invD [OF inv]
  have off: "lf_head (buf s) + n \<le> off" if "(off, bs) \<in> set (pend s)" for off bs
    using st that by (auto simp: settled_def list_all_iff)
  show ?thesis
  proof (cases "lf_tail (buf s) = lf_head (buf s) + n")
    case True
    have "bs = []" if "(off, bs) \<in> set (pend s)" for off bs
      using lf_inv_pend(2) [OF inv that] off [OF that] True by (cases bs) auto
    then show ?thesis
      using True d by (intro lf_invI) (auto simp: lf_consume_def lf_pop_def Let_def)
  next
    case False
    show ?thesis
    proof (rule lf_invI, goal_cases)
      case (5 o' bs)
      then have "(o', bs) \<in> set (pend s)" by (simp add: lf_consume_def)
      from lf_inv_pend [OF inv this 5(2)] off [OF this] False show ?case
        by (simp add: lf_consume_def lf_pop_def Let_def segment_drop)
    next
      case (6 i)
      then have "\<not> covered s i" by (simp add: covered_def lf_consume_def)
      from lf_inv_mem [OF inv _ _ this] 6 False d show ?case
        by (auto simp: lf_consume_def lf_pop_def Let_def)
    qed (use d n False in \<open>auto simp: lf_consume_def lf_pop_def Let_def lf_size_def\<close>)
  qed
qed

lemma lf_step_inv:
  assumes "lf_step True s t" and "lf_inv cap s"
  shows "lf_inv cap t"
  using assms
  by (cases rule: lf_step.cases)
     (auto intro: lf_inv_reserve lf_inv_copy lf_inv_post lf_inv_consume)

lemma lf_reachable_inv: "lf_reachable True cap s \<Longrightarrow> lf_inv cap s"
proof (induction rule: lf_reachable.induct)
  case init
  show ?case by (rule lf_inv_init)
next
  case (step s t)
  then show ?case by (blast intro: lf_step_inv)
qed

text \<open>With no copy outstanding the memory holds the accepted bytes in reservation order.\<close>

lemma lf_inv_quiescent:
  assumes "lf_inv cap s" and "pend s = []"
  shows "lf_contents (buf s) = log s"
proof (rule nth_equalityI)
  note d = lf_invD [OF assms(1)]
  show len: "length (lf_contents (buf s)) = length (log s)"
    using d by (auto simp: lf_contents_def)
  fix i assume "i < length (lf_contents (buf s))"
  with len d have i: "i < lf_tail (buf s) - lf_head (buf s)" by simp
  have "\<not> covered s (lf_head (buf s) + i)"
    by (simp add: covered_def assms(2))
  from lf_inv_mem [OF assms(1) _ _ this] i d show "lf_contents (buf s) ! i = log s ! i"
    by (simp add: lf_contents_def)
qed

text \<open>A sequential \<open>lf_push\<close> is a reservation followed at once by its copy.\<close>

lemma lf_push_is_reserve_copy:
  assumes "lf_reserve bs s = Some t"
  shows "lf_push bs (buf s) = (True, buf (lf_copy (lf_tail (buf s), bs) t))"
  using assms by (auto simp: lf_reserve_def lf_push_def lf_copy_def Let_def split: if_splits)

subsection \<open>The code's own schedule\<close>

text \<open>
  The code posts and pops without waiting for the copies: from an empty buffer, a reservation
  followed by a post hands out memory the pusher has not written yet.
\<close>

lemma lf_undisciplined_run:
  assumes "bs \<noteq> []" and "length bs \<le> cap"
  defines "s1 \<equiv> \<lparr>buf = (lf_new cap)\<lparr>lf_tail := length bs\<rparr>, pend = [(0, bs)], log = bs, posted = None\<rparr>"
  shows "lf_reachable False cap (lf_post s1)"
    and "posted (lf_post s1) = Some (replicate (length bs) 0)"
proof -
  have "lf_reserve bs (lf_init cap) = Some s1"
    using assms(2) by (simp add: lf_reserve_def lf_init_def lf_new_def s1_def)
  then have "lf_reachable False cap s1"
    by (blast intro: lf_reachable.intros lf_step.reserve)
  moreover have "lf_step False s1 (lf_post s1)"
    using assms(1) by (intro lf_step.post) (simp_all add: s1_def lf_size_def lf_new_def)
  ultimately show "lf_reachable False cap (lf_post s1)"
    by (rule lf_reachable.step)
  show "posted (lf_post s1) = Some (replicate (length bs) 0)"
    using assms(2) by (simp add: lf_post_def s1_def lf_contents_def lf_new_def segment_def)
qed

subsection \<open>What the buffer guarantees, and where it does not\<close>

text \<open>
  C3: Under every interleaving of pushing threads in which a send is posted or popped only over
  ranges whose copies are done, a buffer with no copy outstanding holds exactly the accepted
  bytes in the order of their reservations.
\<close>

theorem lf_interleaving_is_queue:
  assumes "lf_reachable True cap s" and "pend s = []"
  shows "lf_contents (buf s) = log s"
  using lf_inv_quiescent [OF lf_reachable_inv [OF assms(1)] assms(2)] .

theorem lf_interleaving_is_queue_witness:
  "\<exists>s. lf_reachable True 8 s \<and> pend s = [] \<and> lf_contents (buf s) = [3] \<and> log s = [3]"
proof -
  define s1 where "s1 = the (lf_reserve [1, 2] (lf_init 8))"
  define s2 where "s2 = the (lf_reserve [3] s1)"
  define s3 where "s3 = lf_copy (2, [3]) s2"
  define s4 where "s4 = lf_copy (0, [1, 2]) s3"
  define s5 where "s5 = lf_consume 2 s4"
  note defs = s1_def s2_def s3_def s4_def s5_def
  have r1: "lf_reserve [1, 2] (lf_init 8) = Some s1" and r2: "lf_reserve [3] s1 = Some s2"
    unfolding defs by code_simp+
  have p3: "(2, [3]) \<in> set (pend s2)" and p4: "(0, [1, 2]) \<in> set (pend s3)"
    unfolding defs by code_simp+
  have n5: "2 \<le> lf_size (buf s4)" "settled 2 s4" and e: "pend s5 = []" "log s5 = [3]"
    unfolding defs by code_simp+
  have "lf_reachable True 8 s1" by (rule lf_reachable.step [OF lf_reachable.init lf_step.reserve [OF r1]])
  then have "lf_reachable True 8 s2" by (rule lf_reachable.step [OF _ lf_step.reserve [OF r2]])
  then have "lf_reachable True 8 s3" unfolding s3_def by (rule lf_reachable.step [OF _ lf_step.copy [OF p3]])
  then have "lf_reachable True 8 s4" unfolding s4_def by (rule lf_reachable.step [OF _ lf_step.copy [OF p4]])
  then have r5: "lf_reachable True 8 s5" unfolding s5_def
    by (rule lf_reachable.step) (rule lf_step.consume [OF n5(1)], rule n5(2))
  from lf_interleaving_is_queue [OF r5 e(1)] r5 e show ?thesis by auto
qed

text \<open>
  C19: The code does not wait for the copies. There is an interleaving of its steps in which the
  bytes 1, 2 were accepted and a send was posted, before they were copied, with the old memory.
\<close>

theorem lf_posts_uncopied_bytes:
  "\<exists>s. lf_reachable False 8 s \<and> log s = [1, 2] \<and> posted s = Some [0, 0]"
proof -
  let ?s = "lf_post \<lparr>buf = (lf_new 8)\<lparr>lf_tail := 2\<rparr>, pend = [(0, [1, 2])], log = [1, 2], posted = None\<rparr>"
  have "lf_reachable False 8 ?s" "posted ?s = Some [0, 0]"
    using lf_undisciplined_run [of "[1, 2]" 8] by (simp_all add: numeral_2_eq_2)
  moreover have "log ?s = [1, 2]" by (simp add: lf_post_def)
  ultimately show ?thesis by blast
qed

end
