(* ===== verification/Handles.thy ===== *)
theory Handles
  imports Prelude "HOL-Library.Multiset"
begin

section \<open>Owning handles\<close>

text \<open>
  \<open>win/smart_handle.h\<close>: \<open>UniqueSocket\<close> and \<open>UniqueHandle\<close>, which own an operating system handle and
  close it once, and \<open>SharedHandle\<close>, a reference-counted one. The two unique classes have the same
  members and the same invalid value, all bits set; they differ in the call that closes, which
  is modelled by the log of the closed handles. An object that the program can name is a variable
  of a store, so that the moves between objects (also of an object to itself) are explicit.
\<close>

type_synonym handle = u64

abbreviation invalid_handle :: handle where
  "invalid_handle \<equiv> - 1"

record unique_handle =
  uh_handle :: handle

definition uh_new :: unique_handle where
  "uh_new = \<lparr>uh_handle = invalid_handle\<rparr>"

definition uh_make :: "handle \<Rightarrow> unique_handle" where
  "uh_make h = \<lparr>uh_handle = h\<rparr>"

definition uh_is_valid :: "unique_handle \<Rightarrow> bool" where
  "uh_is_valid u \<longleftrightarrow> uh_handle u \<noteq> invalid_handle"

definition uh_get :: "unique_handle \<Rightarrow> handle" where
  "uh_get u = uh_handle u"

text \<open>\<open>clear\<close>: the log of the calls of \<open>CloseHandle\<close> or \<open>closesocket\<close> grows.\<close>

definition uh_clear :: "unique_handle \<Rightarrow> handle list \<Rightarrow> handle list" where
  "uh_clear u closed = (if uh_is_valid u then closed @ [uh_handle u] else closed)"

definition uh_move_ctor :: "unique_handle \<Rightarrow> unique_handle \<times> unique_handle" where
  "uh_move_ctor other = (\<lparr>uh_handle = uh_handle other\<rparr>, other\<lparr>uh_handle := invalid_handle\<rparr>)"

text \<open>Move assignment from another object; the result is the target, the source and the log.\<close>

definition uh_move_assign ::
    "unique_handle \<Rightarrow> unique_handle \<Rightarrow> handle list \<Rightarrow> unique_handle \<times> unique_handle \<times> handle list" where
  "uh_move_assign u other closed =
     (if uh_handle u \<noteq> uh_handle other
      then (u\<lparr>uh_handle := uh_handle other\<rparr>, other\<lparr>uh_handle := invalid_handle\<rparr>, uh_clear u closed)
      else (u, other, closed))"

definition uh_reset :: "handle \<Rightarrow> unique_handle \<Rightarrow> handle list \<Rightarrow> unique_handle \<times> handle list" where
  "uh_reset h u closed = (u\<lparr>uh_handle := h\<rparr>, uh_clear u closed)"

subsection \<open>A program with handles\<close>

text \<open>
  The variables that hold a living object, and the log. An operation on a variable without an
  object, or a construction in a variable that has one, is not a step of a C++ program and leaves
  the state alone. Assigning a variable to itself passes the same object twice.
\<close>

record handle_state =
  hs_vars :: "nat \<Rightarrow> unique_handle option"
  hs_closed :: "handle list"

datatype handle_op = H_default nat | H_make nat handle | H_move nat nat | H_assign nat nat
  | H_reset nat handle | H_destroy nat

definition hs_init :: handle_state where
  "hs_init = \<lparr>hs_vars = (\<lambda>_. None), hs_closed = []\<rparr>"

fun handle_step :: "handle_op \<Rightarrow> handle_state \<Rightarrow> handle_state" where
  "handle_step (H_default v) s =
     (if hs_vars s v = None then s\<lparr>hs_vars := (hs_vars s)(v \<mapsto> uh_new)\<rparr> else s)"
| "handle_step (H_make v h) s =
     (if hs_vars s v = None then s\<lparr>hs_vars := (hs_vars s)(v \<mapsto> uh_make h)\<rparr> else s)"
| "handle_step (H_move v w) s =
     (case (hs_vars s v, hs_vars s w) of
        (None, Some other) \<Rightarrow>
          (let (u, other) = uh_move_ctor other in s\<lparr>hs_vars := (hs_vars s)(w \<mapsto> other, v \<mapsto> u)\<rparr>)
      | _ \<Rightarrow> s)"
| "handle_step (H_assign v w) s =
     (case (hs_vars s v, hs_vars s w) of
        (Some u, Some other) \<Rightarrow>
          (let (u, other, closed) = uh_move_assign u other (hs_closed s)
           in s\<lparr>hs_vars := (hs_vars s)(w \<mapsto> other, v \<mapsto> u), hs_closed := closed\<rparr>)
      | _ \<Rightarrow> s)"
| "handle_step (H_reset v h) s =
     (case hs_vars s v of
        Some u \<Rightarrow> (let (u, closed) = uh_reset h u (hs_closed s) in s\<lparr>hs_vars := (hs_vars s)(v \<mapsto> u), hs_closed := closed\<rparr>)
      | None \<Rightarrow> s)"
| "handle_step (H_destroy v) s =
     (case hs_vars s v of
        Some u \<Rightarrow> s\<lparr>hs_vars := (hs_vars s)(v := None), hs_closed := uh_clear u (hs_closed s)\<rparr>
      | None \<Rightarrow> s)"

text \<open>The handle that an operation takes from the operating system, if it takes one.\<close>

fun handle_taken :: "handle_op \<Rightarrow> handle_state \<Rightarrow> handle list" where
  "handle_taken (H_make v h) s = (if hs_vars s v = None \<and> h \<noteq> invalid_handle then [h] else [])"
| "handle_taken (H_reset v h) s = (if hs_vars s v \<noteq> None \<and> h \<noteq> invalid_handle then [h] else [])"
| "handle_taken _ s = []"

fun run_handles :: "handle_op list \<Rightarrow> handle_state \<Rightarrow> handle list \<times> handle_state" where
  "run_handles [] s = ([], s)"
| "run_handles (op # ops) s =
     (let (taken, t) = run_handles ops (handle_step op s) in (handle_taken op s @ taken, t))"

subsection \<open>Ownership\<close>

definition owns :: "handle_state \<Rightarrow> nat \<Rightarrow> handle \<Rightarrow> bool" where
  "owns s v h \<longleftrightarrow> h \<noteq> invalid_handle \<and> map_option uh_handle (hs_vars s v) = Some h"

text \<open>The handles \<open>T\<close> that were taken: each is closed once or owned by one variable.\<close>

definition handles_ok :: "handle set \<Rightarrow> handle_state \<Rightarrow> bool" where
  "handles_ok T s \<longleftrightarrow> distinct (hs_closed s) \<and> T = set (hs_closed s) \<union> {h. \<exists>v. owns s v h} \<and>
     (\<forall>v h. owns s v h \<longrightarrow> h \<notin> set (hs_closed s)) \<and>
     (\<forall>v w h. owns s v h \<longrightarrow> owns s w h \<longrightarrow> v = w)"

lemma owns_vars_upd:
  "owns (s\<lparr>hs_vars := m, hs_closed := c\<rparr>) v h \<longleftrightarrow> h \<noteq> invalid_handle \<and> map_option uh_handle (m v) = Some h"
  "owns (s\<lparr>hs_vars := m\<rparr>) v h \<longleftrightarrow> h \<noteq> invalid_handle \<and> map_option uh_handle (m v) = Some h"
  by (simp_all add: owns_def)

lemmas uh_defs = uh_new_def uh_make_def uh_is_valid_def uh_clear_def uh_move_ctor_def uh_move_assign_def uh_reset_def
text \<open>Every operation rearranges the owners by one of three changes.\<close>

lemma owns_init [simp]: "\<not> owns hs_init v h"
  by (simp add: owns_def hs_init_def)

lemma handles_ok_init: "handles_ok {} hs_init"
  by (simp add: handles_ok_def) (simp add: hs_init_def)

lemma handles_ok_same:
  assumes "handles_ok T s" "hs_closed t = hs_closed s" "\<And>v h. owns t v h = owns s v h"
  shows "handles_ok T t"
  using assms by (simp add: handles_ok_def)

lemma handles_ok_take:
  assumes "handles_ok T s" "h \<notin> T" "hs_closed t = hs_closed s" "\<And>w. \<not> owns s v w"
    and "\<And>w g. owns t w g \<longleftrightarrow> (w = v \<and> g = h) \<or> owns s w g"
  shows "handles_ok (insert h T) t"
  using assms by (auto simp: handles_ok_def)

lemma handles_ok_move:
  assumes "handles_ok T s" "hs_closed t = hs_closed s" "\<And>h. \<not> owns s v h"
    and "\<And>u h. owns t u h \<longleftrightarrow> (if u = v then owns s w h else u \<noteq> w \<and> owns s u h)"
  shows "handles_ok T t"
proof -
  have fwd: "owns t u h \<Longrightarrow> owns s (if u = v then w else u) h" for u h
    using assms(4) by (simp split: if_splits)
  have bwd: "owns s u h \<Longrightarrow> owns t (if u = w then v else u) h" for u h
    using assms(3,4) by (cases "u = w"; cases "u = v") auto
  have ran: "(\<exists>u. owns t u h) \<longleftrightarrow> (\<exists>u. owns s u h)" for h
    using fwd bwd by blast
  have uniq: "a = b" if "owns t a h" "owns t b h" for a b h
  proof -
    have "(if a = v then w else a) = (if b = v then w else b)"
      using fwd [OF that(1)] fwd [OF that(2)] assms(1) unfolding handles_ok_def by blast
    moreover have "a \<noteq> w \<or> w = v" "b \<noteq> w \<or> w = v" using assms(4) that by (auto split: if_splits)
    ultimately show ?thesis by (auto split: if_splits)
  qed
  have "h \<notin> set (hs_closed s)" if "owns t a h" for a h
    using fwd [OF that] assms(1) unfolding handles_ok_def by blast
  with assms(1,2) ran uniq show ?thesis by (simp add: handles_ok_def)
qed

lemma handles_ok_close:
  assumes "handles_ok T s" "owns s v h" "hs_closed t = hs_closed s @ [h]"
    and "\<And>u g. owns t u g \<longleftrightarrow> u \<noteq> v \<and> owns s u g"
  shows "handles_ok T t"
proof -
  have one: "owns s v g \<longleftrightarrow> g = h" for g
    using assms(2) by (auto simp: owns_def)
  have h: "h \<notin> set (hs_closed s)" "u \<noteq> v \<Longrightarrow> \<not> owns s u h" for u
    using assms(1,2) unfolding handles_ok_def by blast+
  have own: "{g. \<exists>u. owns s u g} = insert h {g. \<exists>u. owns t u g}"
  proof (intro set_eqI)
    fix g
    show "g \<in> {g. \<exists>u. owns s u g} \<longleftrightarrow> g \<in> insert h {g. \<exists>u. owns t u g}"
    proof (cases "g = h")
      case True
      then show ?thesis using assms(2) by blast
    next
      case False
      then have "\<not> owns s v g" using one by simp
      then have "owns s u g \<Longrightarrow> owns t u g" for u using assms(4) by (cases "u = v") auto
      then show ?thesis using False assms(4) by auto
    qed
  qed
  show ?thesis
    unfolding handles_ok_def
  proof (intro conjI allI impI)
    show "distinct (hs_closed t)" using assms(1,3) h(1) by (simp add: handles_ok_def)
    show "T = set (hs_closed t) \<union> {g. \<exists>u. owns t u g}" using assms(1,3) own by (auto simp: handles_ok_def)
    fix u g assume t: "owns t u g"
    with assms(4) have "u \<noteq> v" "owns s u g" by simp_all
    then show "g \<notin> set (hs_closed t)" using assms(1,3) h(2) unfolding handles_ok_def by auto
    fix w assume "owns t w g"
    with t assms(1,4) show "u = w" unfolding handles_ok_def by blast
  qed
qed

lemma handles_ok_clear:
  assumes "handles_ok T s" "hs_vars s v = Some u"
  shows "handles_ok T (s\<lparr>hs_vars := (hs_vars s)(v := None), hs_closed := uh_clear u (hs_closed s)\<rparr>)" (is "handles_ok T ?t")
proof (cases "uh_is_valid u")
  case True
  then show ?thesis
    using assms by (intro handles_ok_close [OF assms(1), of v "uh_handle u"]) (auto simp: owns_def uh_defs)
next
  case False
  then show ?thesis
    using assms by (intro handles_ok_same [OF assms(1)]) (auto simp: owns_def uh_defs)
qed

lemma handles_ok_put:
  assumes "handles_ok T s" "hs_vars s v = None" "h = invalid_handle \<or> h \<notin> T"
  shows "handles_ok (if h = invalid_handle then T else insert h T) (s\<lparr>hs_vars := (hs_vars s)(v \<mapsto> uh_make h)\<rparr>)"
proof (cases "h = invalid_handle")
  case True
  then show ?thesis
    using assms by (simp, intro handles_ok_same [OF assms(1)]) (auto simp: owns_def uh_defs split: if_splits)
next
  case False
  then show ?thesis
    using assms by (simp, intro handles_ok_take [OF assms(1), of h _ v]) (auto simp: owns_def uh_defs split: if_splits)
qed

lemma handles_ok_transfer:
  assumes "handles_ok T s" "hs_vars s w = Some x" "w \<noteq> v" "\<And>h. \<not> owns s v h"
  shows "handles_ok T (s\<lparr>hs_vars := (hs_vars s)(w \<mapsto> x\<lparr>uh_handle := invalid_handle\<rparr>, v \<mapsto> \<lparr>uh_handle = uh_handle x\<rparr>)\<rparr>)"
  using assms by (intro handles_ok_move [OF assms(1), of _ v w]) (auto simp: owns_def)

lemma handle_state_upd_commute: "s\<lparr>hs_closed := c, hs_vars := m\<rparr> = s\<lparr>hs_vars := m, hs_closed := c\<rparr>"
  by (cases s) simp

lemma unique_handle_eq: "u\<lparr>uh_handle := h\<rparr> = \<lparr>uh_handle = h\<rparr>"
  by (simp_all add: uh_make_def)

lemma handle_step_ok:
  assumes ok: "handles_ok T s" and fresh: "set (handle_taken op s) \<inter> T = {}"
  shows "handles_ok (T \<union> set (handle_taken op s)) (handle_step op s)"
proof (cases op)
  case (H_default v)
  then show ?thesis
    using handles_ok_put [OF ok, of v invalid_handle] ok by (cases "hs_vars s v") (auto simp: uh_new_def uh_make_def)
next
  case (H_make v h)
  then show ?thesis
    using handles_ok_put [OF ok, of v h] ok fresh
    by (cases "hs_vars s v"; cases "h = invalid_handle") simp_all
next
  case (H_move v w)
  show ?thesis
  proof (cases "hs_vars s v = None \<and> hs_vars s w \<noteq> None")
    case True
    then obtain x where x: "hs_vars s w = Some x" by blast
    moreover from True have "w \<noteq> v" by auto
    ultimately have x: "hs_vars s w = Some x" "w \<noteq> v" by simp_all
    then show ?thesis
      using handles_ok_transfer [OF ok x] True H_move by (simp add: uh_defs owns_def)
  next
    case False
    then show ?thesis using ok H_move by (auto split: option.splits)
  qed
next
  case (H_assign v w)
  show ?thesis
  proof (cases "\<exists>u x. hs_vars s v = Some u \<and> hs_vars s w = Some x \<and> uh_handle u \<noteq> uh_handle x")
    case True
    then obtain u x where ux: "hs_vars s v = Some u" "hs_vars s w = Some x" "uh_handle u \<noteq> uh_handle x" by blast
    let ?s = "s\<lparr>hs_vars := (hs_vars s)(v := None), hs_closed := uh_clear u (hs_closed s)\<rparr>"
    have wv: "w \<noteq> v" using ux by auto
    have "handles_ok T ?s" by (rule handles_ok_clear [OF ok ux(1)])
    from handles_ok_transfer [OF this, of w x v] ux wv show ?thesis
      using H_assign by (cases "uh_is_valid u") (simp_all add: uh_defs owns_def unique_handle_eq handle_state_upd_commute)
  next
    case False
    have "handle_step op s = s"
    proof (cases "hs_vars s v"; cases "hs_vars s w")
      fix u x assume ux: "hs_vars s v = Some u" "hs_vars s w = Some x"
      with False have "uh_handle u = uh_handle x" by blast
      moreover have "(hs_vars s)(w \<mapsto> x, v \<mapsto> u) = hs_vars s" using ux by (metis fun_upd_triv)
      ultimately show ?thesis using H_assign ux by (simp add: uh_move_assign_def)
    qed (simp_all add: H_assign)
    with ok H_assign show ?thesis by simp
  qed
next
  case (H_reset v h)
  show ?thesis
  proof (cases "hs_vars s v")
    case (Some u)
    let ?s = "s\<lparr>hs_vars := (hs_vars s)(v := None), hs_closed := uh_clear u (hs_closed s)\<rparr>"
    have "handles_ok T ?s" by (rule handles_ok_clear [OF ok Some])
    from handles_ok_put [OF this, of v h] fresh Some show ?thesis
      using H_reset
      by (cases "h = invalid_handle") (simp_all add: uh_reset_def uh_make_def unique_handle_eq handle_state_upd_commute)
  qed (use ok H_reset in simp)
next
  case (H_destroy v)
  then show ?thesis using ok handles_ok_clear [OF ok] by (cases "hs_vars s v") simp_all
qed

lemma run_handles_ok:
  "handles_ok T s \<Longrightarrow> run_handles ops s = (taken, t) \<Longrightarrow> distinct taken \<Longrightarrow> set taken \<inter> T = {} \<Longrightarrow>
    handles_ok (T \<union> set taken) t"
proof (induction ops arbitrary: s T taken)
  case (Cons op ops)
  obtain a where r: "run_handles ops (handle_step op s) = (a, t)" and a: "taken = handle_taken op s @ a"
    using Cons.prems(2) by (auto split: prod.splits)
  have "handles_ok (T \<union> set (handle_taken op s)) (handle_step op s)"
    using Cons.prems(1,4) by (intro handle_step_ok) (auto simp: a)
  from Cons.IH [OF this r] Cons.prems(3,4) show ?case by (auto simp: a Un_assoc)
qed simp

text \<open>
  C35: Whatever a program does with its owning handles (construct, move, assign, also to itself,
  reset and destroy, in any order), no handle of the operating system is closed twice, none that
  an object still owns is closed, no two objects own one, and none is lost: when every object is
  destroyed, exactly the handles that were taken have been closed, each once.
\<close>

theorem handles_closed_once:
  assumes "run_handles ops hs_init = (taken, t)" "distinct taken"
  shows "distinct (hs_closed t) \<and> set taken = set (hs_closed t) \<union> {h. \<exists>v. owns t v h} \<and>
    (\<forall>v h. owns t v h \<longrightarrow> h \<notin> set (hs_closed t)) \<and> (\<forall>v w h. owns t v h \<longrightarrow> owns t w h \<longrightarrow> v = w) \<and>
    (hs_vars t = (\<lambda>_. None) \<longrightarrow> mset (hs_closed t) = mset taken)"
proof -
  have ok: "handles_ok (set taken) t" using run_handles_ok [OF handles_ok_init assms(1)] assms(2) by simp
  have "mset (hs_closed t) = mset taken" if "hs_vars t = (\<lambda>_. None)"
  proof -
    have "set (hs_closed t) = set taken" "distinct (hs_closed t)" using ok that by (auto simp: handles_ok_def owns_def)
    with assms(2) show ?thesis by (simp add: set_eq_iff_mset_eq_distinct)
  qed
  with ok show ?thesis by (simp add: handles_ok_def)
qed

theorem handles_closed_once_witness:
  "\<exists>t. run_handles [H_make 0 8, H_default 1, H_assign 1 0, H_assign 1 1, H_reset 1 9, H_destroy 0, H_destroy 1] hs_init = ([8, 9], t) \<and>
    mset (hs_closed t) = {#8, 9#}"
proof -
  let ?ops = "[H_make 0 8, H_default 1, H_assign 1 0, H_assign 1 1, H_reset 1 9, H_destroy 0, H_destroy 1]"
  have taken: "fst (run_handles ?ops hs_init) = [8, 9]" and gone: "hs_vars (snd (run_handles ?ops hs_init)) = (\<lambda>_. None)"
    by (simp_all add: hs_init_def uh_defs)
  then obtain t where r: "run_handles ?ops hs_init = ([8, 9], t)" and t: "hs_vars t = (\<lambda>_. None)"
    by (metis prod.collapse)
  have "distinct [8, 9 :: handle]" by simp
  from handles_closed_once [OF r this] t have "mset (hs_closed t) = mset [8, 9]" by blast
  then have "mset (hs_closed t) = {#8, 9#}" by (simp only: mset.simps)
  with r show ?thesis by (intro exI conjI)
qed

end
