(* ===== verification/Slot_Allocator.thy ===== *)
theory Slot_Allocator
  imports Prelude
begin

section \<open>Allocators of numbered slots\<close>

text \<open>
  The contract of everything in the program that hands out numbered slots of a bounded table:
  the object pools of \<open>win/object_pool.h\<close> and the connection table of
  \<open>net/connection_environment.h\<close>. A slot handed out was not in use, and stays in use until it is
  given back.
\<close>

locale slot_allocator =
  fixes used :: "'p \<Rightarrow> nat set"
    and limit :: "'p \<Rightarrow> nat"
    and alloc :: "'p \<Rightarrow> (nat \<times> 'p) option"
    and release :: "nat \<Rightarrow> 'p \<Rightarrow> 'p"
    and wf :: "'p \<Rightarrow> bool"
  assumes used_bound: "wf p \<Longrightarrow> used p \<subseteq> {..<limit p}"
    and alloc_fresh: "wf p \<Longrightarrow> alloc p = Some (i, p') \<Longrightarrow> i \<notin> used p"
    and alloc_used: "wf p \<Longrightarrow> alloc p = Some (i, p') \<Longrightarrow> used p' = insert i (used p)"
    and alloc_limit: "wf p \<Longrightarrow> alloc p = Some (i, p') \<Longrightarrow> limit p' = limit p"
    and alloc_wf: "wf p \<Longrightarrow> alloc p = Some (i, p') \<Longrightarrow> wf p'"
    and release_used: "wf p \<Longrightarrow> i \<in> used p \<Longrightarrow> used (release i p) = used p - {i}"
    and release_limit: "wf p \<Longrightarrow> i \<in> used p \<Longrightarrow> limit (release i p) = limit p"
    and release_wf: "wf p \<Longrightarrow> i \<in> used p \<Longrightarrow> wf (release i p)"

text \<open>
  Clients that take slots and give back what they hold: \<open>held\<close> are the slots handed out and not
  yet given back, in order. A client only gives back a slot that is held.
\<close>

datatype slot_op = Take | Give nat

fun run_slots :: "('p \<Rightarrow> (nat \<times> 'p) option) \<Rightarrow> (nat \<Rightarrow> 'p \<Rightarrow> 'p) \<Rightarrow>
    slot_op list \<Rightarrow> nat list \<Rightarrow> 'p \<Rightarrow> nat list \<times> 'p" where
  "run_slots al rl [] held p = (held, p)"
| "run_slots al rl (Take # ops) held p =
     (case al p of None \<Rightarrow> run_slots al rl ops held p
      | Some (i, p') \<Rightarrow> run_slots al rl ops (i # held) p')"
| "run_slots al rl (Give i # ops) held p =
     (if i \<in> set held then run_slots al rl ops (removeAll i held) (rl i p)
      else run_slots al rl ops held p)"

context slot_allocator
begin

lemma run_slots_exclusive:
  "wf p \<Longrightarrow> distinct held \<Longrightarrow> set held = used p \<Longrightarrow> run_slots alloc release ops held p = (held', p') \<Longrightarrow>
    distinct held' \<and> set held' = used p' \<and> wf p' \<and> limit p' = limit p"
proof (induction ops arbitrary: held p)
  case Nil
  then show ?case by simp
next
  case (Cons op ops)
  show ?case
  proof (cases op)
    case Take
    show ?thesis
    proof (cases "alloc p")
      case None
      with Take Cons show ?thesis by simp
    next
      case (Some r)
      obtain i q where q: "alloc p = Some (i, q)" using Some by (cases r) simp
      have "distinct (i # held)" "set (i # held) = used q"
        using Cons.prems q by (simp_all add: alloc_fresh alloc_used)
      from Cons.IH [OF alloc_wf [OF Cons.prems(1) q] this] Cons.prems(1,4) Take q
      show ?thesis by (simp add: alloc_limit)
    qed
  next
    case (Give i)
    show ?thesis
    proof (cases "i \<in> set held")
      case True
      then have u: "i \<in> used p" using Cons.prems by simp
      have "distinct (removeAll i held)" "set (removeAll i held) = used (release i p)"
        using Cons.prems u by (simp_all add: release_used distinct_removeAll)
      from Cons.IH [OF release_wf [OF Cons.prems(1) u] this] Cons.prems(1,4) Give True u
      show ?thesis by (simp add: release_limit)
    next
      case False
      with Give Cons show ?thesis by simp
    qed
  qed
qed

lemma held_bounded:
  assumes "wf p" "used p = {}" "run_slots alloc release ops [] p = (held, p')"
  shows "length held \<le> limit p"
proof -
  have r: "distinct held" "set held = used p'" "wf p'" "limit p' = limit p"
    using run_slots_exclusive [OF assms(1) _ _ assms(3)] assms(2) by simp_all
  then have "card (set held) \<le> card {..<limit p}"
    using used_bound [of p'] by (intro card_mono) auto
  with r distinct_card [OF r(1)] show ?thesis by simp
qed

end

end
