(* ===== verification/Object_Pool.thy ===== *)
theory Object_Pool
  imports Slot_Allocator
begin

section \<open>Object pools\<close>

text \<open>
  \<open>win/object_pool.h\<close>: a pool that commits its storage on demand and finds a free object by
  scanning a bitmap of 64-bit words, in which a set bit is a free slot. The outcome of
  \<open>VirtualAlloc\<close> is a parameter: \<open>commit n\<close> tells whether committing \<open>n\<close> objects succeeds.
  The storage maps an index to the object constructed there.
\<close>

datatype object_pool_error = TOO_MANY_POOL_ERROR | RESERVE_ERROR | COMMIT_ERROR | EXCEED_MAX_CAPACITY_ERROR

record 'a object_pool =
  op_storage :: "nat \<Rightarrow> 'a option"
  op_capacity :: nat
  op_max_capacity :: nat
  op_bitmap_size :: nat
  op_bitmaps :: "u64 list"

abbreviation default_capacity :: nat where
  "default_capacity \<equiv> 512"

abbreviation invalid_index :: nat where
  "invalid_index \<equiv> 0xFFFFFFFF"

definition object_pool_new ::
    "(nat \<Rightarrow> bool) \<Rightarrow> (nat \<Rightarrow> bool) \<Rightarrow> nat \<Rightarrow> object_pool_error + 'a object_pool" where
  "object_pool_new reserve_ok commit max_capacity =
     (if \<not> reserve_ok max_capacity then Inl RESERVE_ERROR
      else if \<not> commit (min default_capacity max_capacity) then Inl COMMIT_ERROR
      else Inr \<lparr>op_storage = (\<lambda>_. None), op_capacity = min default_capacity max_capacity,
                op_max_capacity = max_capacity, op_bitmap_size = 1 + max_capacity div 64,
                op_bitmaps = replicate (1 + max_capacity div 64) (NOT 0)\<rparr>)"

definition is_exceed_max_capacity :: "'a object_pool \<Rightarrow> bool" where
  "is_exceed_max_capacity p \<longleftrightarrow> op_max_capacity p \<le> op_capacity p"

definition pool_reserve :: "(nat \<Rightarrow> bool) \<Rightarrow> nat \<Rightarrow> 'a object_pool \<Rightarrow> bool \<times> 'a object_pool" where
  "pool_reserve commit new_capacity p =
     (if new_capacity \<le> op_capacity p then (True, p)
      else if is_exceed_max_capacity p then (False, p)
      else let n = min new_capacity (op_max_capacity p)
           in if commit n then (True, p\<lparr>op_capacity := n\<rparr>) else (False, p))"

definition extend_capacity :: "(nat \<Rightarrow> bool) \<Rightarrow> nat \<Rightarrow> 'a object_pool \<Rightarrow> bool \<times> 'a object_pool" where
  "extend_capacity commit minimum_capacity p =
     pool_reserve commit (max (op_capacity p * 2) minimum_capacity) p"

text \<open>\<open>_BitScanForward64\<close>: the position of the lowest set bit.\<close>

definition bit_scan_forward64 :: "u64 \<Rightarrow> nat" where
  "bit_scan_forward64 w = length (takeWhile (\<lambda>n. \<not> bit w n) [0..<64])"

fun free_index_from :: "nat \<Rightarrow> u64 list \<Rightarrow> nat" where
  "free_index_from i [] = invalid_index"
| "free_index_from i (w # masks) =
     (if w \<noteq> 0 then i * 64 + bit_scan_forward64 w else free_index_from (Suc i) masks)"

definition get_free_object_index :: "'a object_pool \<Rightarrow> nat" where
  "get_free_object_index p = free_index_from 0 (op_bitmaps p)"

definition transition_to_ready :: "nat \<Rightarrow> 'a object_pool \<Rightarrow> nat \<times> 'a object_pool" where
  "transition_to_ready i p =
     (i, p\<lparr>op_bitmaps := (op_bitmaps p)
            [i div 64 := (op_bitmaps p ! (i div 64)) AND NOT (push_bit (i mod 64) 1)]\<rparr>)"

definition transition_to_free :: "nat \<Rightarrow> 'a object_pool \<Rightarrow> bool \<times> 'a object_pool" where
  "transition_to_free i p =
     (let prev_state = (op_bitmaps p ! (i div 64)) AND push_bit (i mod 64) 1 \<noteq> 0
      in (\<not> prev_state, p\<lparr>op_bitmaps := (op_bitmaps p)
            [i div 64 := (op_bitmaps p ! (i div 64)) OR push_bit (i mod 64) 1]\<rparr>))"

definition new_object_internal :: "(nat \<Rightarrow> bool) \<Rightarrow> 'a \<Rightarrow> 'a object_pool \<Rightarrow> nat \<times> 'a object_pool" where
  "new_object_internal commit obj p =
     (let i = get_free_object_index p;
          (ok, q) = (if op_capacity p \<le> i then extend_capacity commit (i + 1) p else (True, p))
      in if \<not> ok then (invalid_index, q)
         else transition_to_ready i (q\<lparr>op_storage := (op_storage q)(i \<mapsto> obj)\<rparr>))"

text \<open>An object pointer is the index of its storage; \<open>None\<close> is the null pointer.\<close>

definition new_object_raw :: "(nat \<Rightarrow> bool) \<Rightarrow> 'a \<Rightarrow> 'a object_pool \<Rightarrow> nat option \<times> 'a object_pool" where
  "new_object_raw commit obj p =
     (let (i, q) = new_object_internal commit obj p
      in if i = invalid_index then (None, q) else (Some i, q))"

definition pool_free_object :: "nat \<Rightarrow> 'a object_pool \<Rightarrow> bool \<times> 'a object_pool" where
  "pool_free_object i p = transition_to_free i (p\<lparr>op_storage := (op_storage p)(i := None)\<rparr>)"

subsection \<open>The slots in use\<close>

definition slot_free :: "u64 list \<Rightarrow> nat \<Rightarrow> bool" where
  "slot_free ms i \<longleftrightarrow> bit (ms ! (i div 64)) (i mod 64)"

definition pool_used :: "'a object_pool \<Rightarrow> nat set" where
  "pool_used p = {i. i < 64 * length (op_bitmaps p) \<and> \<not> slot_free (op_bitmaps p) i}"

definition pool_wf :: "'a object_pool \<Rightarrow> bool" where
  "pool_wf p \<longleftrightarrow> op_max_capacity p < 2 ^ 31 \<and> op_capacity p \<le> op_max_capacity p \<and>
     op_bitmap_size p = 1 + op_max_capacity p div 64 \<and> length (op_bitmaps p) = op_bitmap_size p \<and>
     (\<forall>i < 64 * length (op_bitmaps p). slot_free (op_bitmaps p) i \<or> i < op_capacity p)"

lemma bit_scan_forward64:
  assumes "w \<noteq> 0"
  shows "bit w (bit_scan_forward64 w)" "bit_scan_forward64 w < 64"
    "n < bit_scan_forward64 w \<Longrightarrow> \<not> bit w n"
proof -
  let ?P = "\<lambda>n. \<not> bit w n" and ?k = "bit_scan_forward64 w"
  obtain m where m: "bit w m" using assms by (metis bit_eq_iff bit_0_eq bot_apply bot_boolE)
  then have m64: "m < 64" by (auto dest: bit_imp_le_length)
  then have "\<exists>x \<in> set [0..<64]. \<not> ?P x" using m by (intro bexI [of _ m]) auto
  then have "takeWhile ?P [0..<64] \<noteq> [0..<64]" by (metis takeWhile_eq_all_conv)
  then have "length (takeWhile ?P [0..<64]) < length [0..<64]"
    by (metis length_takeWhile_le nat_less_le takeWhile_eq_take take_all_iff order_refl)
  then show lt: "?k < 64" by (simp add: bit_scan_forward64_def)
  have "\<not> ?P ([0..<64] ! length (takeWhile ?P [0..<64]))"
    using lt by (intro nth_length_takeWhile) (simp add: bit_scan_forward64_def)
  then show "bit w ?k" using lt by (simp add: bit_scan_forward64_def)
  show "\<not> bit w n" if "n < ?k"
    using nth_mem [of n "takeWhile ?P [0..<64]"] set_takeWhileD [of "takeWhile ?P [0..<64] ! n" ?P] that lt
    by (simp add: bit_scan_forward64_def takeWhile_nth)
qed

lemma free_index_from_spec:
  assumes "free_index_from k ms = r"
  shows "(\<forall>m \<in> set ms. m = 0) \<and> r = invalid_index \<or>
    (\<exists>j. r = 64 * k + j \<and> j < 64 * length ms \<and> slot_free ms j \<and> (\<forall>i<j. \<not> slot_free ms i))"
  using assms
proof (induction ms arbitrary: k)
  case Nil
  then show ?case by simp
next
  case (Cons m ms)
  show ?case
  proof (cases "m = 0")
    case False
    let ?b = "bit_scan_forward64 m"
    have b: "bit m ?b" "?b < 64" "\<And>n. n < ?b \<Longrightarrow> \<not> bit m n"
      using bit_scan_forward64 [OF False] by auto
    then have "slot_free (m # ms) ?b" "\<forall>i<?b. \<not> slot_free (m # ms) i"
      by (auto simp: slot_free_def)
    with b(2) Cons.prems False show ?thesis by (intro disjI2 exI [of _ ?b]) simp
  next
    case True
    have "(64 + i) div 64 = Suc (i div 64)" for i :: nat
      by (metis add.commute div_add_self2 Suc_eq_plus1 numeral_neq_zero)
    then have shift: "slot_free (m # ms) (64 + i) = slot_free ms i" for i
      by (simp add: slot_free_def)
    have low: "\<not> slot_free (m # ms) i" if "i < 64" for i
      using that True by (simp add: slot_free_def)
    from True Cons.prems have "free_index_from (Suc k) ms = r" by simp
    from Cons.IH [OF this] show ?thesis
    proof
      assume "\<exists>j. r = 64 * Suc k + j \<and> j < 64 * length ms \<and> slot_free ms j \<and> (\<forall>i<j. \<not> slot_free ms i)"
      then obtain j where j: "r = 64 * Suc k + j" "j < 64 * length ms" "slot_free ms j"
        "\<forall>i<j. \<not> slot_free ms i" by blast
      have "\<not> slot_free (m # ms) i" if "i < 64 + j" for i
        using that low j(4) shift [of "i - 64"] by (cases "i < 64") auto
      with j show ?thesis by (intro disjI2 exI [of _ "64 + j"]) (simp add: shift)
    qed (use True in simp)
  qed
qed

lemma slot_free_set:
  assumes "j < 64 * length ms" "i < 64 * length ms"
  shows "slot_free (ms[i div 64 := (ms ! (i div 64)) OR push_bit (i mod 64) 1]) j \<longleftrightarrow> j = i \<or> slot_free ms j"
proof (cases "j div 64 = i div 64")
  case True
  have "j mod 64 = i mod 64 \<longleftrightarrow> j = i" using True by (metis div_mult_mod_eq)
  moreover have "j div 64 < length ms" using assms(1) by (simp add: less_mult_imp_div_less mult.commute)
  ultimately show ?thesis using True by (auto simp: slot_free_def bit_simps)
qed (auto simp: slot_free_def)

lemma slot_free_clear:
  assumes "j < 64 * length ms" "i < 64 * length ms"
  shows "slot_free (ms[i div 64 := (ms ! (i div 64)) AND NOT (push_bit (i mod 64) 1)]) j \<longleftrightarrow>
    j \<noteq> i \<and> slot_free ms j"
proof (cases "j div 64 = i div 64")
  case True
  have "j mod 64 = i mod 64 \<longleftrightarrow> j = i" using True by (metis div_mult_mod_eq)
  moreover have "j div 64 < length ms" using assms(1) by (simp add: less_mult_imp_div_less mult.commute)
  ultimately show ?thesis using True by (auto simp: slot_free_def bit_simps)
qed (auto simp: slot_free_def)

lemma pool_wf_slots: "pool_wf p \<Longrightarrow> op_capacity p < 64 * length (op_bitmaps p)"
proof -
  assume "pool_wf p"
  then have "op_capacity p \<le> op_max_capacity p" "length (op_bitmaps p) = 1 + op_max_capacity p div 64"
    by (simp_all add: pool_wf_def)
  then show ?thesis by simp
qed

lemma get_free_object_index:
  assumes "pool_wf p"
  shows "get_free_object_index p \<le> op_capacity p" "slot_free (op_bitmaps p) (get_free_object_index p)"
    "j < get_free_object_index p \<Longrightarrow> \<not> slot_free (op_bitmaps p) j"
proof -
  let ?ms = "op_bitmaps p" and ?r = "get_free_object_index p"
  have c: "op_capacity p < 64 * length ?ms" using assms by (rule pool_wf_slots)
  then have f: "slot_free ?ms (op_capacity p)" using assms by (auto simp: pool_wf_def)
  have "op_capacity p div 64 < length ?ms" using c by (simp add: less_mult_imp_div_less mult.commute)
  then have "?ms ! (op_capacity p div 64) \<in> set ?ms" by simp
  moreover have "?ms ! (op_capacity p div 64) \<noteq> 0" using f by (auto simp: slot_free_def)
  ultimately have "\<not> (\<forall>m \<in> set ?ms. m = 0)" by blast
  then have *: "slot_free ?ms ?r \<and> (\<forall>i<?r. \<not> slot_free ?ms i)"
    using free_index_from_spec [of 0 ?ms ?r] by (auto simp: get_free_object_index_def)
  then show "slot_free ?ms ?r" "j < ?r \<Longrightarrow> \<not> slot_free ?ms j" by auto
  show "?r \<le> op_capacity p" using * f by (metis not_less)
qed

lemma extend_capacity_cases:
  assumes "pool_wf p" "extend_capacity commit (op_capacity p + 1) p = (ok, q)"
  shows "\<not> ok \<and> q = p \<or> ok \<and> op_capacity p < op_max_capacity p \<and>
    (\<exists>n. q = p\<lparr>op_capacity := n\<rparr> \<and> op_capacity p < n \<and> n \<le> op_max_capacity p)"
  using assms(2)
  by (auto simp: extend_capacity_def pool_reserve_def is_exceed_max_capacity_def Let_def split: if_splits)

lemma pool_wf_grow:
  "pool_wf p \<Longrightarrow> op_capacity p \<le> n \<Longrightarrow> n \<le> op_max_capacity p \<Longrightarrow> pool_wf (p\<lparr>op_capacity := n, op_storage := s\<rparr>)"
  by (auto simp: pool_wf_def)

lemma transition_to_ready_effect:
  assumes "pool_wf p" "i < op_capacity p"
  shows "pool_used (snd (transition_to_ready i p)) = insert i (pool_used p)"
    "pool_wf (snd (transition_to_ready i p))"
proof -
  have i: "i < 64 * length (op_bitmaps p)" using assms pool_wf_slots [OF assms(1)] by simp
  show "pool_used (snd (transition_to_ready i p)) = insert i (pool_used p)"
    using i slot_free_clear [OF _ i] by (auto simp: transition_to_ready_def pool_used_def)
  show "pool_wf (snd (transition_to_ready i p))"
    using assms slot_free_clear [OF _ i] by (auto simp: transition_to_ready_def pool_wf_def)
qed

lemma new_object_internal_effect:
  assumes wf: "pool_wf p" and new: "new_object_internal commit obj p = (i, q)" and ok: "i \<noteq> invalid_index"
  shows "i \<notin> pool_used p" "pool_used q = insert i (pool_used p)" "pool_wf q"
    "op_max_capacity q = op_max_capacity p" "i < op_max_capacity p"
    "op_storage q = (op_storage p)(i \<mapsto> obj)" "\<forall>j<i. j \<in> pool_used p"
proof -
  let ?i = "get_free_object_index p"
  note g = get_free_object_index [OF wf]
  have "\<exists>c. i = ?i \<and> i < c \<and> op_capacity p \<le> c \<and> c \<le> op_max_capacity p \<and>
      q = snd (transition_to_ready i (p\<lparr>op_capacity := c, op_storage := (op_storage p)(i \<mapsto> obj)\<rparr>))"
  proof (cases "op_capacity p \<le> ?i")
    case True
    then have e: "?i = op_capacity p" using g(1) by simp
    obtain b q' where x: "extend_capacity commit (op_capacity p + 1) p = (b, q')" by fastforce
    from new True e x ok have b: b by (auto simp: new_object_internal_def Let_def split: if_splits)
    with extend_capacity_cases [OF wf x] obtain n where n: "q' = p\<lparr>op_capacity := n\<rparr>"
      "op_capacity p < n" "n \<le> op_max_capacity p" by auto
    with new True e x b show ?thesis
      by (intro exI [of _ n]) (auto simp: new_object_internal_def Let_def transition_to_ready_def)
  next
    case False
    have "op_capacity p \<le> op_max_capacity p" using wf by (simp add: pool_wf_def)
    with new False ok show ?thesis
      by (intro exI [of _ "op_capacity p"]) (auto simp: new_object_internal_def Let_def transition_to_ready_def)
  qed
  then obtain c where c: "i = ?i" "i < c" "op_capacity p \<le> c" "c \<le> op_max_capacity p"
    and q: "q = snd (transition_to_ready i (p\<lparr>op_capacity := c, op_storage := (op_storage p)(i \<mapsto> obj)\<rparr>))"
    by blast
  let ?p = "p\<lparr>op_capacity := c, op_storage := (op_storage p)(i \<mapsto> obj)\<rparr>"
  have wf': "pool_wf ?p" using wf c(3,4) by (rule pool_wf_grow)
  have "pool_used ?p = pool_used p" by (simp add: pool_used_def)
  with transition_to_ready_effect [OF wf', of i] c(2)
  show "pool_used q = insert i (pool_used p)" "pool_wf q" by (simp_all add: q)
  show "i \<notin> pool_used p" using g(2) c(1) by (simp add: pool_used_def)
  show "op_max_capacity q = op_max_capacity p" "op_storage q = (op_storage p)(i \<mapsto> obj)"
    by (simp_all add: q transition_to_ready_def)
  show "i < op_max_capacity p" using c(2,4) by simp
  show "\<forall>j<i. j \<in> pool_used p"
    using g(1,3) c(1) pool_wf_slots [OF wf] by (auto simp: pool_used_def)
qed

lemma pool_free_object_effect:
  assumes wf: "pool_wf p" and used: "i \<in> pool_used p"
  shows "fst (pool_free_object i p)" "pool_used (snd (pool_free_object i p)) = pool_used p - {i}"
    "pool_wf (snd (pool_free_object i p))" "op_max_capacity (snd (pool_free_object i p)) = op_max_capacity p"
proof -
  have i: "i < 64 * length (op_bitmaps p)" "\<not> slot_free (op_bitmaps p) i"
    using used by (simp_all add: pool_used_def)
  have "bit ((op_bitmaps p ! (i div 64)) AND push_bit (i mod 64) 1) n \<longleftrightarrow> False" for n
    using i(2) by (auto simp: slot_free_def bit_simps)
  then have "(op_bitmaps p ! (i div 64)) AND push_bit (i mod 64) 1 = 0"
    by (auto intro: bit_eqI)
  then show "fst (pool_free_object i p)"
    by (simp add: pool_free_object_def transition_to_free_def Let_def)
  show "pool_used (snd (pool_free_object i p)) = pool_used p - {i}"
    using slot_free_set [OF _ i(1)]
    by (auto simp: pool_free_object_def transition_to_free_def Let_def pool_used_def)
  show "pool_wf (snd (pool_free_object i p))"
    using wf slot_free_set [OF _ i(1)]
    by (auto simp: pool_free_object_def transition_to_free_def Let_def pool_wf_def)
  show "op_max_capacity (snd (pool_free_object i p)) = op_max_capacity p"
    by (simp add: pool_free_object_def transition_to_free_def Let_def)
qed

lemma pool_free_object_wf:
  assumes "pool_wf p"
  shows "pool_wf (snd (pool_free_object i p))" "op_max_capacity (snd (pool_free_object i p)) = op_max_capacity p"
proof -
  show "pool_wf (snd (pool_free_object i p))"
  proof (cases "i < 64 * length (op_bitmaps p)")
    case True
    with assms slot_free_set [OF _ True] show ?thesis
      by (auto simp: pool_free_object_def transition_to_free_def Let_def pool_wf_def)
  next
    case False
    then have "length (op_bitmaps p) \<le> i div 64" by (simp add: less_eq_div_iff_mult_less_eq mult.commute)
    with assms show ?thesis
      by (simp add: pool_free_object_def transition_to_free_def Let_def pool_wf_def list_update_beyond)
  qed
  show "op_max_capacity (snd (pool_free_object i p)) = op_max_capacity p"
    by (simp add: pool_free_object_def transition_to_free_def Let_def)
qed

lemma pool_free_object_unused:
  assumes "\<not> slot_free (op_bitmaps p) i = False"
  shows "\<not> fst (pool_free_object i p)"
proof -
  have "bit ((op_bitmaps p ! (i div 64)) AND push_bit (i mod 64) 1) (i mod 64)"
    using assms by (auto simp: slot_free_def bit_simps)
  then have "(op_bitmaps p ! (i div 64)) AND push_bit (i mod 64) 1 \<noteq> 0" by auto
  then show ?thesis by (simp add: pool_free_object_def transition_to_free_def Let_def)
qed

lemma object_pool_new_wf:
  assumes "object_pool_new r c n = Inr p" "n < 2 ^ 31"
  shows "pool_wf p \<and> pool_used p = {} \<and> op_max_capacity p = n"
proof -
  have s: "slot_free (replicate k (NOT 0)) i" if "i < 64 * k" for i k
    using that by (simp add: slot_free_def less_mult_imp_div_less mult.commute)
  from assms have p: "p = \<lparr>op_storage = (\<lambda>_. None), op_capacity = min default_capacity n,
      op_max_capacity = n, op_bitmap_size = 1 + n div 64,
      op_bitmaps = replicate (1 + n div 64) (NOT 0)\<rparr>"
    by (auto simp: object_pool_new_def split: if_splits)
  show ?thesis
    using assms(2) s [of _ "1 + n div 64"] by (auto simp: p pool_wf_def pool_used_def)
qed

definition pool_alloc :: "(nat \<Rightarrow> bool) \<Rightarrow> 'a \<Rightarrow> 'a object_pool \<Rightarrow> (nat \<times> 'a object_pool) option" where
  "pool_alloc commit obj p =
     (case new_object_raw commit obj p of (None, q) \<Rightarrow> None | (Some i, q) \<Rightarrow> Some (i, q))"

lemma pool_alloc_Some:
  "pool_alloc commit obj p = Some (i, q) \<longleftrightarrow> new_object_internal commit obj p = (i, q) \<and> i \<noteq> invalid_index"
  by (auto simp: pool_alloc_def new_object_raw_def split: prod.splits if_splits)

interpretation pool: slot_allocator pool_used op_max_capacity "pool_alloc commit obj"
  "\<lambda>i p. snd (pool_free_object i p)" pool_wf
  for commit :: "nat \<Rightarrow> bool" and obj :: 'a
proof (unfold_locales, goal_cases)
  case (1 p)
  then show ?case by (fastforce simp: pool_used_def pool_wf_def)
qed (auto simp: pool_alloc_Some new_object_internal_effect pool_free_object_effect)

lemma new_object_raw_None:
  assumes wf: "pool_wf p" and none: "new_object_raw commit obj p = (None, q)"
  shows "q = p"
proof -
  note g = get_free_object_index [OF wf]
  have cap: "op_capacity p \<le> op_max_capacity p" "op_max_capacity p < 2 ^ 31" using wf by (simp_all add: pool_wf_def)
  have n: "new_object_internal commit obj p = (invalid_index, q)"
    using none by (auto simp: new_object_raw_def split: prod.splits if_splits)
  have f: "get_free_object_index p \<noteq> invalid_index" using g(1) cap by simp
  show ?thesis
  proof (cases "op_capacity p \<le> get_free_object_index p")
    case True
    then have e: "get_free_object_index p = op_capacity p" using g(1) by simp
    obtain b q' where x: "extend_capacity commit (op_capacity p + 1) p = (b, q')" by fastforce
    with n True e f have "\<not> b \<and> q = q'"
      by (auto simp: new_object_internal_def Let_def transition_to_ready_def split: if_splits)
    with extend_capacity_cases [OF wf x] show ?thesis by simp
  next
    case False
    with n f show ?thesis by (auto simp: new_object_internal_def Let_def transition_to_ready_def)
  qed
qed

text \<open>A pool whose commits succeed refuses only when every object is in use.\<close>

lemma pool_alloc_None:
  assumes wf: "pool_wf p" and "commit = (\<lambda>_. True)" and none: "pool_alloc commit obj p = None"
  shows "pool_used p = {..<op_max_capacity p}"
proof -
  let ?i = "get_free_object_index p"
  note g = get_free_object_index [OF wf]
  have cap: "op_capacity p \<le> op_max_capacity p" "op_max_capacity p < 2 ^ 31" using wf by (simp_all add: pool_wf_def)
  have inv: "fst (new_object_internal commit obj p) = invalid_index"
    using none by (cases "new_object_internal commit obj p") (auto simp: pool_alloc_def new_object_raw_def split: if_splits)
  have "op_capacity p \<le> ?i"
  proof (rule ccontr)
    assume "\<not> op_capacity p \<le> ?i"
    with inv have "?i = invalid_index" by (simp add: new_object_internal_def Let_def transition_to_ready_def)
    with g(1) cap show False by simp
  qed
  then have e: "?i = op_capacity p" using g(1) by simp
  have "op_capacity p = op_max_capacity p"
  proof (rule ccontr)
    assume "op_capacity p \<noteq> op_max_capacity p"
    then have lt: "op_capacity p < op_max_capacity p" using cap by simp
    then have "fst (extend_capacity commit (?i + 1) p)"
      by (simp add: extend_capacity_def pool_reserve_def is_exceed_max_capacity_def Let_def assms(2) e)
    then have "fst (new_object_internal commit obj p) = ?i"
      by (auto simp: new_object_internal_def Let_def transition_to_ready_def split: prod.splits if_splits)
    with inv e cap show False by simp
  qed
  then have "\<forall>j < op_max_capacity p. j \<in> pool_used p"
    using g(3) e pool_wf_slots [OF wf] by (auto simp: pool_used_def)
  moreover have "pool_used p \<subseteq> {..<op_max_capacity p}"
    by (rule pool.used_bound [OF wf])
  ultimately show ?thesis by auto
qed

subsection \<open>A pool hands out objects exclusively\<close>

text \<open>
  C9: Whatever the order in which clients take objects from a pool and give them back, no object
  is handed out to two of them, and there are never more than the pool's capacity.
\<close>

theorem pool_objects_exclusive:
  assumes "object_pool_new reserve_ok commit0 n = Inr p" "n < 2 ^ 31"
    and "run_slots (pool_alloc commit obj) (\<lambda>i p. snd (pool_free_object i p)) ops [] p = (held, q)"
  shows "distinct held \<and> set held = pool_used q \<and> length held \<le> n \<and> pool_wf q"
proof -
  note new = object_pool_new_wf [OF assms(1,2)]
  from pool.run_slots_exclusive [of p "[]", OF _ _ _ assms(3)] pool.held_bounded [OF _ _ assms(3)] new
  show ?thesis by simp
qed

theorem pool_objects_exclusive_witness:
  "\<exists>p held q. object_pool_new (\<lambda>_. True) (\<lambda>_. True) 2 = Inr p \<and>
     run_slots (pool_alloc (\<lambda>_. True) ()) (\<lambda>i p. snd (pool_free_object i p)) [Take, Take, Take, Give 0, Take] [] p = (held, q) \<and>
     distinct held \<and> set held = pool_used q \<and> length held \<le> 2"
proof -
  let ?new = "object_pool_new (\<lambda>_. True) (\<lambda>_. True) 2 :: object_pool_error + unit object_pool"
  obtain p where p: "?new = Inr p" by (simp add: object_pool_new_def)
  obtain held q where r: "run_slots (pool_alloc (\<lambda>_. True) ()) (\<lambda>i p. snd (pool_free_object i p))
      [Take, Take, Take, Give 0, Take] [] p = (held, q)" by fastforce
  have n: "(2 :: nat) < 2 ^ 31" by simp
  from pool_objects_exclusive [OF p n r] p r show ?thesis by blast
qed

text \<open>
  A pool refuses an object only when every object is in use: the bitmap search misses no
  free slot, also after the capacity was extended.
\<close>

theorem pool_refuses_only_when_full:
  assumes "pool_wf p" "fst (new_object_raw (\<lambda>_. True) obj p) = None"
  shows "pool_used p = {..<op_max_capacity p}"
  by (rule pool_alloc_None [OF assms(1) refl, of obj])
    (use assms(2) in \<open>auto simp: pool_alloc_def split: prod.splits option.splits\<close>)

theorem pool_refuses_only_when_full_witness:
  "\<exists>p q. object_pool_new (\<lambda>_. True) (\<lambda>_. True) 1 = Inr p \<and>
     pool_alloc (\<lambda>_. True) () p = Some (0, q) \<and> pool_used q = {..<op_max_capacity q}"
proof -
  let ?new = "object_pool_new (\<lambda>_. True) (\<lambda>_. True) 1 :: object_pool_error + unit object_pool"
  obtain p where p: "?new = Inr p" by (simp add: object_pool_new_def)
  have new: "pool_wf p" "pool_used p = {}" "op_max_capacity p = 1"
    using object_pool_new_wf [OF p] by simp_all
  have "pool_alloc (\<lambda>_. True) () p \<noteq> None"
  proof
    assume "pool_alloc (\<lambda>_. True) () p = None"
    from pool_alloc_None [OF new(1) refl this] new show False by (simp add: lessThan_Suc)
  qed
  then obtain i q where a: "pool_alloc (\<lambda>_. True) () p = Some (i, q)" by (metis not_None_eq surj_pair)
  have q: "pool_wf q" "pool_used q = {i}" "op_max_capacity q = 1"
    using pool.alloc_wf [OF new(1) a] pool.alloc_used [OF new(1) a] pool.alloc_limit [OF new(1) a] new by simp_all
  have "i = 0" using pool.used_bound [OF q(1)] q by auto
  have "pool_alloc (\<lambda>_. True) () q = None"
  proof (rule ccontr)
    assume "pool_alloc (\<lambda>_. True) () q \<noteq> None"
    then obtain j r where b: "pool_alloc (\<lambda>_. True) () q = Some (j, r)" by (metis not_None_eq surj_pair)
    have "pool_used r = {j, i}" "j \<noteq> i" "op_max_capacity r = 1"
      using pool.alloc_used [OF q(1) b] pool.alloc_fresh [OF q(1) b] pool.alloc_limit [OF q(1) b] q by simp_all
    with pool.used_bound [OF pool.alloc_wf [OF q(1) b]] show False by auto
  qed
  then have "fst (new_object_raw (\<lambda>_. True) () q) = None"
    by (auto simp: pool_alloc_def split: prod.splits option.splits)
  from pool_refuses_only_when_full [OF q(1) this] p a \<open>i = 0\<close> show ?thesis by blast
qed

text \<open>
  The class is used by one thread at a time: \<open>transition_to_free\<close> reads a word of the bitmap and writes
  it back. Were a slot of the same word handed out in between, the write would make it free again.
  (\<open>ConnectionIO\<close> takes a lock for \<open>new_object_raw\<close>, but not for freeing a multicast event.)
\<close>

definition free_write :: "nat \<Rightarrow> u64 \<Rightarrow> 'a object_pool \<Rightarrow> 'a object_pool" where
  "free_write i w p = p\<lparr>op_bitmaps := (op_bitmaps p)[i div 64 := w OR push_bit (i mod 64) 1]\<rparr>"

lemma unlocked_free_exposes_slot:
  assumes wf: "pool_wf p" and new: "new_object_internal commit obj p = (j, q)" "j \<noteq> invalid_index" and same: "j div 64 = i div 64"
  shows "snd (transition_to_free i p) = free_write i (op_bitmaps p ! (i div 64)) p"
    "j \<in> pool_used q" "j \<notin> pool_used (free_write i (op_bitmaps p ! (i div 64)) q)"
proof -
  note e = new_object_internal_effect [OF wf new]
  show "snd (transition_to_free i p) = free_write i (op_bitmaps p ! (i div 64)) p"
    by (simp add: transition_to_free_def free_write_def)
  show j: "j \<in> pool_used q" using e(2) by simp
  have len: "length (op_bitmaps q) = length (op_bitmaps p)"
    using new by (auto simp: new_object_internal_def extend_capacity_def pool_reserve_def transition_to_ready_def Let_def
        split: if_splits prod.splits)
  with j have b: "j < 64 * length (op_bitmaps p)" by (simp add: pool_used_def)
  with e(1) have "slot_free (op_bitmaps p) j" by (simp add: pool_used_def)
  moreover have "j div 64 < length (op_bitmaps q)" using b len by (simp add: less_mult_imp_div_less mult.commute)
  ultimately have "slot_free (op_bitmaps (free_write i (op_bitmaps p ! (i div 64)) q)) j"
    using same by (simp add: slot_free_def free_write_def bit_simps)
  then show "j \<notin> pool_used (free_write i (op_bitmaps p ! (i div 64)) q)" by (simp add: pool_used_def)
qed

end
