(* ===== verification/Global_Pool.thy ===== *)
theory Global_Pool
  imports Object_Pool
begin

section \<open>The table of object pools\<close>

text \<open>
  \<open>ObjectGlobalPool\<close> of \<open>win/object_pool.h\<close> and the globals of \<open>win/object_pool.cpp\<close>: a pool takes a
  number from an 8-bit counter and registers itself in a table; an object identifier is the
  number of its pool in the upper and its index in the lower 32 bits. The pools are kept in the
  table by value. A lookup past the 256 entries of the table is undefined and has no result.
\<close>

type_synonym object_id = u64

record 'a pool_table =
  num_of_free_object_pool :: u8
  gp_table :: "'a object_pool option list"

definition pool_table_init :: "'a pool_table" where
  "pool_table_init = \<lparr>num_of_free_object_pool = 0xFF, gp_table = replicate 256 None\<rparr>"

abbreviation invalid_object_id :: object_id where
  "invalid_object_id \<equiv> 0"

text \<open>The counter is decremented before the check, also when the check then fails.\<close>

definition global_pool_new ::
    "(nat \<Rightarrow> bool) \<Rightarrow> (nat \<Rightarrow> bool) \<Rightarrow> nat \<Rightarrow> 'a pool_table \<Rightarrow> (object_pool_error + u8) \<times> 'a pool_table" where
  "global_pool_new reserve_ok commit max_capacity g =
     (case object_pool_new reserve_ok commit max_capacity of
        Inl e \<Rightarrow> (Inl e, g)
      | Inr p \<Rightarrow>
          (let i = num_of_free_object_pool g;
               g = g\<lparr>num_of_free_object_pool := i - 1\<rparr>
           in if i = 0 then (Inl TOO_MANY_POOL_ERROR, g)
              else (Inr i, g\<lparr>gp_table := (gp_table g)[unat i := Some p]\<rparr>)))"

definition global_pool_delete :: "u8 \<Rightarrow> 'a pool_table \<Rightarrow> 'a pool_table" where
  "global_pool_delete i g = g\<lparr>gp_table := (gp_table g)[unat i := None]\<rparr>"

definition make_object_id :: "u32 \<Rightarrow> u32 \<Rightarrow> object_id" where
  "make_object_id pool index = push_bit 32 (ucast pool) OR ucast index"

definition get_object_index :: "object_id \<Rightarrow> u32" where
  "get_object_index i = ucast (i AND 0xFFFFFFFF)"

definition pool_index_of :: "object_id \<Rightarrow> nat" where
  "pool_index_of i = unat (drop_bit 32 i)"

definition find_pool :: "'a pool_table \<Rightarrow> object_id \<Rightarrow> 'a object_pool option" where
  "find_pool g i = (if pool_index_of i < length (gp_table g) then gp_table g ! pool_index_of i else None)"

definition new_object_unsafe ::
    "(nat \<Rightarrow> bool) \<Rightarrow> u8 \<Rightarrow> 'a \<Rightarrow> 'a pool_table \<Rightarrow> (object_id \<times> 'a pool_table) option" where
  "new_object_unsafe commit pool obj g =
     (case gp_table g ! unat pool of
        None \<Rightarrow> None
      | Some p \<Rightarrow>
          (let (i, q) = new_object_internal commit obj p;
               g = g\<lparr>gp_table := (gp_table g)[unat pool := Some q]\<rparr>
           in if i = invalid_index then Some (invalid_object_id, g)
              else Some (make_object_id (ucast pool) (of_nat i), g)))"

definition free_object :: "object_id \<Rightarrow> 'a pool_table \<Rightarrow> bool \<times> 'a pool_table" where
  "free_object i g =
     (if i = invalid_object_id then (False, g)
      else case find_pool g i of
             None \<Rightarrow> (False, g)
           | Some p \<Rightarrow>
               (let (was_used, q) = pool_free_object (unat (get_object_index i)) p
                in (was_used, g\<lparr>gp_table := (gp_table g)[pool_index_of i := Some q]\<rparr>)))"

text \<open>The object an identifier leads to: \<open>None\<close> for the null pointer or a destroyed object.\<close>

definition find_object :: "'a pool_table \<Rightarrow> object_id \<Rightarrow> 'a option" where
  "find_object g i =
     (if i = invalid_object_id then None
      else case find_pool g i of None \<Rightarrow> None | Some p \<Rightarrow> op_storage p (unat (get_object_index i)))"

subsection \<open>The owning pointer\<close>

record pool_pointer =
  pp_id :: object_id

definition pp_empty :: pool_pointer where
  "pp_empty = \<lparr>pp_id = invalid_object_id\<rparr>"

definition pp_bool :: "pool_pointer \<Rightarrow> bool" where
  "pp_bool x \<longleftrightarrow> pp_id x \<noteq> invalid_object_id"

definition pp_get :: "'a pool_table \<Rightarrow> pool_pointer \<Rightarrow> 'a option" where
  "pp_get g x = find_object g (pp_id x)"

definition pp_release :: "pool_pointer \<Rightarrow> pool_pointer" where
  "pp_release x = x\<lparr>pp_id := invalid_object_id\<rparr>"

definition pp_reset :: "pool_pointer \<Rightarrow> 'a pool_table \<Rightarrow> bool \<times> pool_pointer \<times> 'a pool_table" where
  "pp_reset x g = (let (ok, g) = free_object (pp_id x) g in (ok, x\<lparr>pp_id := invalid_object_id\<rparr>, g))"

definition pp_move_ctor :: "pool_pointer \<Rightarrow> pool_pointer \<times> pool_pointer" where
  "pp_move_ctor other = (\<lparr>pp_id = pp_id other\<rparr>, other\<lparr>pp_id := invalid_object_id\<rparr>)"

text \<open>Assigning from another pointer; the result is the target, the source and the pools.\<close>

definition pp_move_assign ::
    "pool_pointer \<Rightarrow> pool_pointer \<Rightarrow> 'a pool_table \<Rightarrow> pool_pointer \<times> pool_pointer \<times> 'a pool_table" where
  "pp_move_assign x other g =
     (let (_, x, g) = pp_reset x g in (x\<lparr>pp_id := pp_id other\<rparr>, other\<lparr>pp_id := pp_id x\<rparr>, g))"

text \<open>\<open>to_index\<close> is declared to return \<open>bool\<close>: the index is converted.\<close>

definition pp_to_index :: "pool_pointer \<Rightarrow> bool" where
  "pp_to_index x \<longleftrightarrow> get_object_index (pp_id x) \<noteq> 0"

definition global_new_object ::
    "(nat \<Rightarrow> bool) \<Rightarrow> u8 \<Rightarrow> 'a \<Rightarrow> 'a pool_table \<Rightarrow> (pool_pointer \<times> 'a pool_table) option" where
  "global_new_object commit pool obj g =
     (case new_object_unsafe commit pool obj g of
        None \<Rightarrow> None
      | Some (i, g) \<Rightarrow> Some (if i \<noteq> invalid_object_id then \<lparr>pp_id = i\<rparr> else pp_empty, g))"

subsection \<open>Identifiers\<close>

lemma mask32_obj: "(0xFFFFFFFF :: u64) = mask 32"
  by (simp add: mask_eq_exp_minus_1)

lemma unat_lt_u8: "unat (p :: u8) < 256"
  using unsigned_less [of p, where ?'a = nat] by simp

declare unat_ucast_u32_u64 [simp]

lemma unat_ucast_u8_u32 [simp]: "unat (ucast (p :: u8) :: u32) = unat p"
  using unat_lt_u8 [of p] by (simp add: unsigned_ucast_eq take_bit_nat_eq_self)

lemma object_id_index [simp]: "get_object_index (make_object_id p i) = i"
  unfolding get_object_index_def make_object_id_def mask32_obj
  by (rule bit_word_eqI) (auto simp: bit_simps)

lemma object_id_pool [simp]: "pool_index_of (make_object_id p i) = unat p"
proof -
  have "drop_bit 32 (make_object_id p i) = (ucast p :: u64)"
    unfolding make_object_id_def
    by (rule bit_word_eqI) (auto simp: bit_simps dest: bit_imp_le_length)
  then show ?thesis by (simp add: pool_index_of_def)
qed

lemma make_object_id_valid: "p \<noteq> 0 \<Longrightarrow> make_object_id (ucast (p :: u8)) i \<noteq> invalid_object_id"
proof
  assume "p \<noteq> 0" "make_object_id (ucast p) i = 0"
  then have "unat (ucast p :: u32) = 0" by (metis object_id_pool pool_index_of_def drop_bit_of_0 unat_0)
  with \<open>p \<noteq> 0\<close> show False by (simp add: unsigned_eq_0_iff)
qed

definition table_wf :: "'a pool_table \<Rightarrow> bool" where
  "table_wf g \<longleftrightarrow> length (gp_table g) = 256 \<and>
     (\<forall>i p. i < 256 \<longrightarrow> gp_table g ! i = Some p \<longrightarrow> pool_wf p)"

lemma pool_table_init_wf: "table_wf pool_table_init"
  by (simp add: table_wf_def pool_table_init_def)

text \<open>
  A new object is found under its identifier, is in use until it is freed, and freeing it
  reports that it was.
\<close>

lemma new_object_found:
  assumes wf: "table_wf g" and pool: "pool \<noteq> 0" and new: "new_object_unsafe commit pool obj g = Some (i, g')"
    and ok: "i \<noteq> invalid_object_id"
  shows "find_object g' i = Some obj" "table_wf g'" "fst (free_object i g')"
    "find_object (snd (free_object i g')) i = None"
proof -
  have l: "unat pool < 256" by (rule unat_lt_u8)
  obtain p where p: "gp_table g ! unat pool = Some p"
    using new by (auto simp: new_object_unsafe_def split: option.splits)
  then have pwf: "pool_wf p" using wf l by (auto simp: table_wf_def)
  obtain n q where n: "new_object_internal commit obj p = (n, q)" by fastforce
  with new p ok have n': "n \<noteq> invalid_index" and i: "i = make_object_id (ucast pool) (of_nat n)"
    and g': "g' = g\<lparr>gp_table := (gp_table g)[unat pool := Some q]\<rparr>"
    by (auto simp: new_object_unsafe_def Let_def split: if_splits)
  note e = new_object_internal_effect [OF pwf n n']
  have "n < 2 ^ 31" using e(5) pwf by (simp add: pool_wf_def)
  then have un: "unat (of_nat n :: u32) = n" by (simp add: unat_of_nat)
  have fp: "find_pool g' i = Some q"
    using wf l by (simp add: find_pool_def i g' table_wf_def)
  show "find_object g' i = Some obj"
    using ok fp e(6) un by (simp add: find_object_def i)
  show "table_wf g'" using wf l e(3) by (auto simp: table_wf_def g' nth_list_update)
  have "n \<in> pool_used q" using e(2) by simp
  then have "fst (pool_free_object n q)" by (rule pool_free_object_effect [OF e(3)])
  then obtain q' where "pool_free_object n q = (True, q')" by (cases "pool_free_object n q") simp
  then show "fst (free_object i g')"
    using ok fp un by (simp add: free_object_def i Let_def)
  show "find_object (snd (free_object i g')) i = None"
    using ok fp un wf l
    by (auto simp: free_object_def find_object_def find_pool_def i g' Let_def pool_free_object_def
        transition_to_free_def table_wf_def split: prod.splits)
qed

text \<open>An owning pointer frees its object once: a second reset finds no identifier.\<close>

lemma pp_reset_twice:
  "pp_reset x g = (ok, y, g') \<Longrightarrow> pp_reset y g' = (False, y, g')"
  by (cases x) (auto simp: pp_reset_def free_object_def Let_def split: prod.splits)

lemma pp_move_ctor_source: "pp_move_ctor x = (y, z) \<Longrightarrow> pp_reset z g = (False, z, g) \<and> pp_id y = pp_id x"
  by (cases x) (auto simp: pp_move_ctor_def pp_reset_def free_object_def Let_def)

text \<open>
  A new object is found under its identifier while it lives; freeing it reports that it was in
  use, and from then on its identifier leads to nothing. The table of pools stays well-formed.
\<close>

theorem object_lifetime:
  assumes "table_wf g" "pool \<noteq> 0" "new_object_unsafe commit pool obj g = Some (i, g')" "i \<noteq> invalid_object_id"
  shows "find_object g' i = Some obj \<and> table_wf g' \<and> fst (free_object i g') \<and>
    find_object (snd (free_object i g')) i = None"
  using new_object_found [OF assms] by simp

text \<open>A table with one pool of one object.\<close>

definition sample_table :: "nat pool_table" where
  "sample_table = pool_table_init
     \<lparr>gp_table := (gp_table pool_table_init)[1 := (case object_pool_new (\<lambda>_. True) (\<lambda>_. True) 1 of Inr p \<Rightarrow> Some p | _ \<Rightarrow> None)]\<rparr>"

theorem object_lifetime_witness:
  "\<exists>i g'. new_object_unsafe (\<lambda>_. True) 1 42 sample_table = Some (i, g') \<and> i \<noteq> invalid_object_id \<and>
    find_object g' i = Some (42 :: nat) \<and> find_object (snd (free_object i g')) i = None"
proof -
  have "\<exists>p. object_pool_new (\<lambda>_. True) (\<lambda>_. True) 1 = Inr (p :: nat object_pool)" by (simp add: object_pool_new_def)
  then obtain p :: "nat object_pool" where p: "object_pool_new (\<lambda>_. True) (\<lambda>_. True) 1 = Inr p" by blast
  note wf = object_pool_new_wf [OF p]
  have t: "gp_table sample_table = (replicate 256 None)[1 := Some p]"
    by (simp add: sample_table_def pool_table_init_def p [unfolded One_nat_def])
  have g: "table_wf sample_table" "gp_table sample_table ! unat (1 :: u8) = Some p"
    using wf by (auto simp: table_wf_def t nth_list_update split: if_splits)
  obtain n q where n: "new_object_internal (\<lambda>_. True) 42 p = (n, q)" by fastforce
  have "n \<noteq> invalid_index"
  proof
    assume "n = invalid_index"
    then have "pool_alloc (\<lambda>_. True) 42 p = None" using n by (simp add: pool_alloc_def new_object_raw_def)
    from pool_alloc_None [OF _ refl this] wf show False by (simp add: lessThan_Suc)
  qed
  then have new: "new_object_unsafe (\<lambda>_. True) 1 42 sample_table =
      Some (make_object_id (ucast (1 :: u8)) (of_nat n), sample_table\<lparr>gp_table := (gp_table sample_table)[unat (1 :: u8) := Some q]\<rparr>)"
    using g(2) n by (simp add: new_object_unsafe_def Let_def)
  have ok: "make_object_id (ucast (1 :: u8)) (of_nat n) \<noteq> invalid_object_id" by (rule make_object_id_valid) simp
  from object_lifetime [OF g(1) one_neq_zero new ok] new ok show ?thesis by blast
qed

text \<open>
  The constructor that fails for want of a number leaves the counter at 255, so that the next
  pool is registered in the place of the first one: the first pool's identifiers then lead into
  the new pool.
\<close>

lemma pool_counter_wraps:
  fixes g :: "'a pool_table" and p :: "'a object_pool"
  assumes "num_of_free_object_pool g = 0" "object_pool_new r c n = Inr p" "object_pool_new r c m = Inr q"
  shows "\<exists>g' g''. global_pool_new r c n g = (Inl TOO_MANY_POOL_ERROR, g') \<and>
    global_pool_new r c m g' = (Inr 0xFF, g'') \<and> gp_table g'' = (gp_table g)[255 := Some q]"
proof -
  have "unat (- 1 :: u8) = 255" by (simp add: unsigned_minus_1_eq_mask mask_eq_exp_minus_1)
  with assms show ?thesis by (simp add: global_pool_new_def Let_def)
qed

end
