(* ===== verification/Util.thy ===== *)
theory Util
  imports Prelude
begin

section \<open>Utilities: strings and coordinates\<close>

text \<open>
  \<open>util/string_util.h\<close> and \<open>util/math.h\<close>: the character classes, the bounded string copy
  into a fixed array, and the 16-bit coordinates. \<open>std::isalnum\<close> is the one of the C locale.
\<close>

subsection \<open>Characters\<close>

definition isalnum :: "u8 \<Rightarrow> bool" where
  "isalnum c \<longleftrightarrow> (0x30 \<le> c \<and> c \<le> 0x39) \<or> (0x41 \<le> c \<and> c \<le> 0x5A) \<or> (0x61 \<le> c \<and> c \<le> 0x7A)"

definition is_alphanumeric :: "bytes \<Rightarrow> bool" where
  "is_alphanumeric s = list_all isalnum s"

text \<open>\<open>char\<close> is signed: bytes from 0x80 on are negative and never in the range 0x9 to 0xD.\<close>

definition is_whitespace :: "u8 \<Rightarrow> bool" where
  "is_whitespace c \<longleftrightarrow> c = space \<or> (9 \<le> sint c \<and> sint c \<le> 0xD)"

lemma isalnum_not_whitespace: "isalnum c \<Longrightarrow> \<not> is_whitespace c"
proof
  assume a: "isalnum c" and w: "is_whitespace c"
  have "c = word_of_int (sint c)"
    by simp
  moreover from w have "sint c \<in> {9, 10, 11, 12, 13} \<or> c = space"
    by (auto simp: is_whitespace_def)
  ultimately have "c \<in> {9, 10, 11, 12, 13, space}"
    by (elim disjE insertE) (metis insert_iff word_of_int_numeral | simp)+
  with a show False
    by (auto simp: isalnum_def)
qed

subsection \<open>C strings in arrays\<close>

text \<open>The string an array of \<open>char\<close> holds: the bytes up to the first NUL.\<close>

definition c_str :: "bytes \<Rightarrow> bytes" where
  "c_str a = takeWhile (\<lambda>c. c \<noteq> 0) a"

text \<open>
  \<open>string_copy\<close>: \<open>memcpy\<close> of at most \<open>SIZE\<close> bytes, then a NUL at the end of the source or in
  the last slot. \<open>dst\<close> is the array before, its length is \<open>SIZE\<close>.
\<close>

definition string_copy :: "bytes \<Rightarrow> bytes \<Rightarrow> bytes" where
  "string_copy dst src =
     (blit 0 (take (length dst) src) dst) [min (length src) (length dst - 1) := 0]"

lemma length_string_copy [simp]: "length (string_copy dst src) = length dst"
  by (simp add: string_copy_def)

lemma string_copy_prefix:
  assumes "dst \<noteq> []"
  shows "take (min (length src) (length dst - 1)) (string_copy dst src) = take (length dst - 1) src"
  using assms
  by (cases "length src \<le> length dst - 1") (simp_all add: string_copy_def blit_def take_update_swap min_def list_update_beyond)

lemma string_copy_terminated:
  assumes "dst \<noteq> []"
  shows "string_copy dst src ! min (length src) (length dst - 1) = 0"
proof -
  have "min (length src) (length dst - 1) < length (blit 0 (take (length dst) src) dst)"
    using assms by (cases dst) auto
  then show ?thesis by (simp add: string_copy_def)
qed

text \<open>What is read back is the source cut to \<open>SIZE - 1\<close> bytes and at its first NUL.\<close>

lemma c_str_string_copy:
  assumes "dst \<noteq> []"
  shows "c_str (string_copy dst src) = c_str (take (length dst - 1) src)"
proof -
  let ?d = "string_copy dst src" and ?n = "min (length src) (length dst - 1)"
  have n: "?n < length ?d"
    using assms by (cases dst) auto
  have "?d = take ?n ?d @ ?d ! ?n # drop (Suc ?n) ?d"
    by (rule id_take_nth_drop [OF n])
  also have "\<dots> = take (length dst - 1) src @ 0 # drop (Suc ?n) ?d"
    unfolding string_copy_prefix [OF assms] string_copy_terminated [OF assms] ..
  finally have "c_str ?d = c_str (take (length dst - 1) src @ 0 # drop (Suc ?n) ?d)"
    by simp
  then show ?thesis
    by (simp add: c_str_def takeWhile_tail)
qed

subsection \<open>Coordinates\<close>

record coordinate3d =
  cx :: i16
  cy :: i16
  cz :: i16

text \<open>The constructor narrows its \<open>int\<close> arguments to \<open>short\<close>.\<close>

definition Coordinate3D :: "i32 \<Rightarrow> i32 \<Rightarrow> i32 \<Rightarrow> coordinate3d" where
  "Coordinate3D x y z = \<lparr>cx = ucast x, cy = ucast y, cz = ucast z\<rparr>"

text \<open>A \<open>short\<close> passed where the constructor takes an \<open>int\<close> is sign-extended first.\<close>

definition coord_of_shorts :: "i16 \<Rightarrow> i16 \<Rightarrow> i16 \<Rightarrow> coordinate3d" where
  "coord_of_shorts x y z = Coordinate3D (scast x) (scast y) (scast z)"

lemma ucast_scast_short [simp]: "(ucast (scast (x :: i16) :: i32) :: i16) = x"
  by (rule bit_word_eqI) (auto simp: bit_simps)

lemma coord_of_shorts_simps [simp]:
  "coord_of_shorts x y z = \<lparr>cx = x, cy = y, cz = z\<rparr>"
  by (simp add: coord_of_shorts_def Coordinate3D_def)

end
