(* ===== verification/Connection_Key.thy ===== *)
theory Connection_Key
  imports Prelude
begin

section \<open>Connection keys\<close>

text \<open>
  \<open>net::ConnectionKey\<close> (\<open>net/connection_key.h\<close>) packs the slot of a connection in the table and
  the 32-bit tick of its creation into 64 bits. The key travels to the login server and back
  as its raw number.
\<close>

datatype connection_key = ConnectionKey (raw_key: u64)

definition key_default :: connection_key where
  "key_default = ConnectionKey 0"

text \<open>\<open>created_at\<close> is a \<open>std::size_t\<close>; \<open>created_at << 32\<close> loses its upper half.\<close>

definition key_make :: "u32 \<Rightarrow> u64 \<Rightarrow> connection_key" where
  "key_make index created_at = ConnectionKey (ucast index OR push_bit 32 created_at)"

definition key_index :: "connection_key \<Rightarrow> u32" where
  "key_index k = ucast (raw_key k AND 0xFFFFFFFF)"

definition key_created_at :: "connection_key \<Rightarrow> u32" where
  "key_created_at k = ucast (drop_bit 32 (raw_key k))"

lemma mask32: "(0xFFFFFFFF :: u64) = mask 32"
  by (simp add: mask_eq_exp_minus_1)

lemma key_index_make [simp]: "key_index (key_make i c) = i"
  unfolding key_index_def key_make_def mask32
  by (rule bit_word_eqI) (auto simp: bit_simps)

lemma key_created_at_make [simp]: "key_created_at (key_make i c) = ucast c"
  unfolding key_created_at_def key_make_def
  by (rule bit_word_eqI) (auto simp: bit_simps dest: bit_imp_le_length)

lemma key_eqI:
  assumes "key_index k = key_index l" and "key_created_at k = key_created_at l"
  shows "k = l"
proof -
  have split: "raw_key k = ucast (key_index k) OR push_bit 32 (ucast (key_created_at k))" for k
    unfolding key_index_def key_created_at_def mask32
    by (rule bit_word_eqI) (auto simp: bit_simps)
  have "raw_key k = raw_key l"
    by (simp only: split [of k] split [of l] assms)
  then show ?thesis
    by (cases k; cases l) simp
qed

lemma key_make_eq_iff: "key_make i c = key_make j d \<longleftrightarrow> i = j \<and> (ucast c :: u32) = ucast d"
  by (metis key_eqI key_created_at_make key_index_make)

end
