(* ===== verification/Player.thy ===== *)
theory Player
  imports Util Connection_Key Ids
begin

section \<open>Players\<close>

text \<open>
  \<open>game/player.h\<close> and \<open>game/player.cpp\<close>: the session state of a player with its pending
  transition, the position packed into one 64-bit word, and the player object with the data
  that is saved to the database.
\<close>

subsection \<open>Session states\<close>

datatype session_state =
    S_invaild
  | S_disconnecting
  | S_disconnected
  | S_initialized
  | S_handshaking
  | S_ex_handshaking
  | S_handshaked
  | S_ex_handshaked
  | S_extension_syncing
  | S_extension_synced
  | S_level_initializing
  | S_level_initialized
  | S_spawning
  | S_spawned

fun state_value :: "session_state \<Rightarrow> nat" where
  "state_value S_invaild = 0"
| "state_value S_disconnecting = 1"
| "state_value S_disconnected = 2"
| "state_value S_initialized = 3"
| "state_value S_handshaking = 4"
| "state_value S_ex_handshaking = 5"
| "state_value S_handshaked = 6"
| "state_value S_ex_handshaked = 7"
| "state_value S_extension_syncing = 8"
| "state_value S_extension_synced = 9"
| "state_value S_level_initializing = 10"
| "state_value S_level_initialized = 11"
| "state_value S_spawning = 12"
| "state_value S_spawned = 13"

lemma state_value_inject: "state_value s = state_value t \<Longrightarrow> s = t"
  by (cases s; cases t) simp_all

text \<open>The code compares enumerators by their numbers.\<close>

instantiation session_state :: linorder
begin

definition less_eq_session_state :: "session_state \<Rightarrow> session_state \<Rightarrow> bool" where
  "s \<le> t \<longleftrightarrow> state_value s \<le> state_value t"

definition less_session_state :: "session_state \<Rightarrow> session_state \<Rightarrow> bool" where
  "s < t \<longleftrightarrow> state_value s < state_value t"

instance
  by standard (auto simp: less_eq_session_state_def less_session_state_def intro: state_value_inject)

end

lemmas state_order = less_eq_session_state_def less_session_state_def

record pstate =
  ps_prev :: session_state
  ps_cur :: session_state
  ps_next :: session_state

text \<open>
  \<open>transit_state(hint)\<close> enters the prepared state. The hint is only asserted: a release build
  ignores it, so it is a predicate of its own.
\<close>

definition transit_state :: "'a pstate_scheme \<Rightarrow> 'a pstate_scheme" where
  "transit_state p = p\<lparr>ps_prev := ps_cur p, ps_cur := ps_next p\<rparr>"

definition transit_assert :: "session_state \<Rightarrow> 'a pstate_scheme \<Rightarrow> bool" where
  "transit_assert hint p \<longleftrightarrow> hint = S_invaild \<or> ps_next p = hint"

definition prepare_state_transition ::
    "session_state \<Rightarrow> session_state \<Rightarrow> 'a pstate_scheme \<Rightarrow> 'a pstate_scheme" where
  "prepare_state_transition c n p = p\<lparr>ps_prev := ps_cur p, ps_cur := c, ps_next := n\<rparr>"

lemma transit_state_simps [simp]:
  "ps_cur (transit_state p) = ps_next p" "ps_prev (transit_state p) = ps_cur p"
  "ps_next (transit_state p) = ps_next p"
  by (simp_all add: transit_state_def)

lemma prepare_state_transition_simps [simp]:
  "ps_cur (prepare_state_transition c n p) = c" "ps_prev (prepare_state_transition c n p) = ps_cur p"
  "ps_next (prepare_state_transition c n p) = n"
  by (simp_all add: prepare_state_transition_def)

lemma prepare_then_transit:
  "ps_cur (transit_state (prepare_state_transition c n p)) = n"
  "ps_prev (transit_state (prepare_state_transition c n p)) = c"
  "transit_assert n (prepare_state_transition c n p)"
  by (simp_all add: transit_assert_def)

subsection \<open>Positions\<close>

text \<open>
  The union overlays three 16-bit coordinates, yaw and pitch on one 64-bit word: \<open>x\<close> in the
  lowest bits, \<open>pitch\<close> in the highest.
\<close>

type_synonym position = u64

definition coordinate_mask :: u64 where
  "coordinate_mask = 0x0000FFFFFFFFFFFF"

definition orientation_mask :: u64 where
  "orientation_mask = 0xFFFF000000000000"

definition pos_x :: "position \<Rightarrow> i16" where
  "pos_x p = ucast p"

definition pos_y :: "position \<Rightarrow> i16" where
  "pos_y p = ucast (drop_bit 16 p)"

definition pos_z :: "position \<Rightarrow> i16" where
  "pos_z p = ucast (drop_bit 32 p)"

definition pos_yaw :: "position \<Rightarrow> u8" where
  "pos_yaw p = ucast (drop_bit 48 p)"

definition pos_pitch :: "position \<Rightarrow> u8" where
  "pos_pitch p = ucast (drop_bit 56 p)"

text \<open>The word whose view has the given fields: what writing the five fields leaves in \<open>raw\<close>.\<close>

definition pos_of_view :: "i16 \<Rightarrow> i16 \<Rightarrow> i16 \<Rightarrow> u8 \<Rightarrow> u8 \<Rightarrow> position" where
  "pos_of_view x y z yaw pitch =
     ucast x OR push_bit 16 (ucast y) OR push_bit 32 (ucast z)
       OR push_bit 48 (ucast yaw) OR push_bit 56 (ucast pitch)"

definition raw_coordinate :: "position \<Rightarrow> u64" where
  "raw_coordinate p = p AND coordinate_mask"

definition raw_orientation :: "position \<Rightarrow> u64" where
  "raw_orientation p = p AND orientation_mask"

definition pos_coordinate :: "position \<Rightarrow> coordinate3d" where
  "pos_coordinate p = coord_of_shorts (pos_x p) (pos_y p) (pos_z p)"

definition set_raw_coordinate :: "i32 \<Rightarrow> i32 \<Rightarrow> i32 \<Rightarrow> position \<Rightarrow> position" where
  "set_raw_coordinate x y z p =
     ucast (x AND 0xFFFF) OR push_bit 16 (ucast (y AND 0xFFFF)) OR push_bit 32 (ucast (z AND 0xFFFF))
       OR raw_orientation p"

definition set_raw_orientation :: "u32 \<Rightarrow> u32 \<Rightarrow> position \<Rightarrow> position" where
  "set_raw_orientation yaw pitch p =
     raw_coordinate p OR push_bit 48 (ucast (yaw AND 0xFF)) OR push_bit 56 (ucast (pitch AND 0xFF))"

text \<open>\<open>operator-\<close> subtracts field by field, each result narrowed to its field.\<close>

definition pos_diff :: "position \<Rightarrow> position \<Rightarrow> position" where
  "pos_diff a b = pos_of_view (pos_x a - pos_x b) (pos_y a - pos_y b) (pos_z a - pos_z b)
     (pos_yaw a - pos_yaw b) (pos_pitch a - pos_pitch b)"

lemmas pos_view_defs = pos_x_def pos_y_def pos_z_def pos_yaw_def pos_pitch_def

lemma coordinate_mask_eq: "coordinate_mask = mask 48"
  by (simp add: coordinate_mask_def mask_eq_exp_minus_1)

lemma orientation_mask_eq: "orientation_mask = push_bit 48 (mask 16)"
  by (simp add: orientation_mask_def mask_eq_exp_minus_1)

lemma mask_8_16: "(0xFF :: u32) = mask 8" "(0xFFFF :: i32) = mask 16"
  by (simp_all add: mask_eq_exp_minus_1)

lemmas pos_bit_defs = raw_coordinate_def raw_orientation_def set_raw_coordinate_def
  set_raw_orientation_def coordinate_mask_eq orientation_mask_eq mask_8_16

lemma pos_of_view_fields [simp]:
  "pos_x (pos_of_view x y z yaw pitch) = x"
  "pos_y (pos_of_view x y z yaw pitch) = y"
  "pos_z (pos_of_view x y z yaw pitch) = z"
  "pos_yaw (pos_of_view x y z yaw pitch) = yaw"
  "pos_pitch (pos_of_view x y z yaw pitch) = pitch"
  unfolding pos_of_view_def pos_view_defs
  by ((rule bit_word_eqI, auto simp: bit_simps dest: bit_imp_le_length) [])+

lemma pos_of_view_eta [simp]:
  "pos_of_view (pos_x p) (pos_y p) (pos_z p) (pos_yaw p) (pos_pitch p) = p"
  unfolding pos_of_view_def pos_view_defs
proof (rule bit_word_eqI, goal_cases)
  case (1 n)
  consider "n < 16" | "16 \<le> n" "n < 32" | "32 \<le> n" "n < 48" | "48 \<le> n" "n < 56" | "56 \<le> n"
    by linarith
  then show ?case
    using 1 by cases (auto simp: bit_simps)
qed

text \<open>A position is determined by its five fields.\<close>

lemma position_eqI:
  assumes "pos_x p = pos_x q" "pos_y p = pos_y q" "pos_z p = pos_z q"
    "pos_yaw p = pos_yaw q" "pos_pitch p = pos_pitch q"
  shows "p = q"
  by (metis assms pos_of_view_eta)

lemma set_raw_coordinate_fields [simp]:
  "pos_x (set_raw_coordinate x y z p) = ucast x"
  "pos_y (set_raw_coordinate x y z p) = ucast y"
  "pos_z (set_raw_coordinate x y z p) = ucast z"
  "pos_yaw (set_raw_coordinate x y z p) = pos_yaw p"
  "pos_pitch (set_raw_coordinate x y z p) = pos_pitch p"
  unfolding pos_bit_defs pos_view_defs
  by ((rule bit_word_eqI, auto simp: bit_simps dest: bit_imp_le_length) [])+

lemma set_raw_orientation_fields [simp]:
  "pos_x (set_raw_orientation yaw pitch p) = pos_x p"
  "pos_y (set_raw_orientation yaw pitch p) = pos_y p"
  "pos_z (set_raw_orientation yaw pitch p) = pos_z p"
  "pos_yaw (set_raw_orientation yaw pitch p) = ucast yaw"
  "pos_pitch (set_raw_orientation yaw pitch p) = ucast pitch"
  unfolding pos_bit_defs pos_view_defs
  by ((rule bit_word_eqI, auto simp: bit_simps dest: bit_imp_le_length) [])+

lemma raw_coordinate_view:
  "raw_coordinate p = pos_of_view (pos_x p) (pos_y p) (pos_z p) 0 0"
  unfolding pos_bit_defs
  by (rule position_eqI) (simp_all, (unfold pos_view_defs, (rule bit_word_eqI, auto simp: bit_simps)+))

lemma raw_orientation_view:
  "raw_orientation p = pos_of_view 0 0 0 (pos_yaw p) (pos_pitch p)"
  unfolding pos_bit_defs
  by (rule position_eqI) (simp_all, (unfold pos_view_defs, (rule bit_word_eqI, auto simp: bit_simps)+))

lemma pos_zero_fields [simp]:
  "pos_x 0 = 0" "pos_y 0 = 0" "pos_z 0 = 0" "pos_yaw 0 = 0" "pos_pitch 0 = 0"
  by (simp_all add: pos_view_defs)

lemma raw_coordinate_eq_0_iff: "raw_coordinate p = 0 \<longleftrightarrow> pos_x p = 0 \<and> pos_y p = 0 \<and> pos_z p = 0"
  unfolding raw_coordinate_view by (metis pos_of_view_fields pos_of_view_eta pos_zero_fields)

lemma raw_orientation_eq_0_iff: "raw_orientation p = 0 \<longleftrightarrow> pos_yaw p = 0 \<and> pos_pitch p = 0"
  unfolding raw_orientation_view by (metis pos_of_view_fields pos_of_view_eta pos_zero_fields)

lemma pos_diff_fields [simp]:
  "pos_x (pos_diff a b) = pos_x a - pos_x b"
  "pos_y (pos_diff a b) = pos_y a - pos_y b"
  "pos_z (pos_diff a b) = pos_z a - pos_z b"
  "pos_yaw (pos_diff a b) = pos_yaw a - pos_yaw b"
  "pos_pitch (pos_diff a b) = pos_pitch a - pos_pitch b"
  by (simp_all add: pos_diff_def)

lemma pos_diff_zero_iff:
  "raw_coordinate (pos_diff a b) = 0 \<and> raw_orientation (pos_diff a b) = 0 \<longleftrightarrow> a = b"
  by (auto simp: raw_coordinate_eq_0_iff raw_orientation_eq_0_iff intro: position_eqI)

subsection \<open>The player object\<close>

datatype player_type_id = PTY_invalid | PTY_guest | PTY_authenticated_user | PTY_admin

fun player_type_value :: "player_type_id \<Rightarrow> nat" where
  "player_type_value PTY_invalid = 0"
| "player_type_value PTY_guest = 1"
| "player_type_value PTY_authenticated_user = 2"
| "player_type_value PTY_admin = 3"

text \<open>
  A type received from the login server is cast to the enumeration: any number can occur, so
  the field holds the number.
\<close>

abbreviation username_array_size :: nat where
  "username_array_size \<equiv> 17"

record player_gamedata =
  gd_latest_pos :: u64
  gd_spawn_pos :: u64
  gd_level :: u32
  gd_exp :: u32

record player = pstate +
  pl_key :: connection_key
  pl_type :: nat
  pl_username :: bytes
  pl_gamedata :: player_gamedata
  pl_uuid :: bytes
  pl_pending_extensions :: u32
  pl_extensions :: u64
  pl_last_transferred :: position
  pl_last_transferred_tmp :: position
  pl_last_ping :: u64

text \<open>
  The constructor. \<open>_player_type\<close> and the tail of the username array have no initialiser:
  they keep what the memory \<open>mem0\<close> held.
\<close>

definition player_ctor :: "player \<Rightarrow> connection_key \<Rightarrow> bytes \<Rightarrow> player" where
  "player_ctor mem0 key username =
     \<lparr>ps_prev = S_initialized, ps_cur = S_initialized, ps_next = S_initialized,
      pl_key = key, pl_type = pl_type mem0,
      pl_username = string_copy (pl_username mem0) username,
      pl_gamedata = \<lparr>gd_latest_pos = 0, gd_spawn_pos = 0, gd_level = 0, gd_exp = 0\<rparr>,
      pl_uuid = [], pl_pending_extensions = 0, pl_extensions = 0,
      pl_last_transferred = 0, pl_last_transferred_tmp = 0, pl_last_ping = 0\<rparr>"

text \<open>\<open>username()\<close>: the C string in the array.\<close>

definition player_username :: "player \<Rightarrow> bytes" where
  "player_username p = c_str (pl_username p)"

text \<open>\<open>game_id()\<close>: the connection index cut to one byte.\<close>

definition game_id :: "player \<Rightarrow> u8" where
  "game_id p = ucast (key_index (pl_key p))"

definition spawn_position :: "player \<Rightarrow> position" where
  "spawn_position p = gd_spawn_pos (pl_gamedata p)"

definition spawn_yaw :: "player \<Rightarrow> u8" where
  "spawn_yaw p = pos_yaw (spawn_position p)"

definition spawn_pitch :: "player \<Rightarrow> u8" where
  "spawn_pitch p = pos_pitch (spawn_position p)"

definition last_position :: "player \<Rightarrow> position" where
  "last_position p = gd_latest_pos (pl_gamedata p)"

definition set_position :: "position \<Rightarrow> player \<Rightarrow> player" where
  "set_position pos p = p\<lparr>pl_gamedata := (pl_gamedata p)\<lparr>gd_latest_pos := pos\<rparr>\<rparr>"

definition set_spawn_position :: "position \<Rightarrow> player \<Rightarrow> player" where
  "set_spawn_position pos p = p\<lparr>pl_gamedata := (pl_gamedata p)\<lparr>gd_spawn_pos := pos\<rparr>\<rparr>"

definition set_spawn_coordinate :: "i32 \<Rightarrow> i32 \<Rightarrow> i32 \<Rightarrow> bool \<Rightarrow> player \<Rightarrow> player" where
  "set_spawn_coordinate x y z force p =
     (let pos = spawn_position p
      in if force \<or> raw_coordinate pos = 0
         then set_spawn_position (set_raw_coordinate (x * 32) (y * 32 + 51) (z * 32) pos) p
         else p)"

definition set_spawn_orientation :: "u32 \<Rightarrow> u32 \<Rightarrow> bool \<Rightarrow> player \<Rightarrow> player" where
  "set_spawn_orientation yaw pitch force p =
     (let pos = spawn_position p
      in if force \<or> raw_orientation pos = 0
         then set_spawn_position (set_raw_orientation yaw pitch pos) p
         else p)"

definition update_last_transferred_position :: "position \<Rightarrow> player \<Rightarrow> player" where
  "update_last_transferred_position pos p = p\<lparr>pl_last_transferred_tmp := pos\<rparr>"

definition commit_last_transferred_position :: "player \<Rightarrow> player" where
  "commit_last_transferred_position p = p\<lparr>pl_last_transferred := pl_last_transferred_tmp p\<rparr>"

definition update_ping_time :: "u64 \<Rightarrow> player \<Rightarrow> player" where
  "update_ping_time now p = p\<lparr>pl_last_ping := now\<rparr>"

definition set_player_type :: "nat \<Rightarrow> player \<Rightarrow> player" where
  "set_player_type t p = p\<lparr>pl_type := t\<rparr>"

definition set_uuid :: "bytes \<Rightarrow> player \<Rightarrow> player" where
  "set_uuid u p = p\<lparr>pl_uuid := u\<rparr>"

definition set_gamedata :: "player_gamedata \<Rightarrow> player \<Rightarrow> player" where
  "set_gamedata g p = p\<lparr>pl_gamedata := g\<rparr>"

text \<open>The count is \<open>unsigned\<close>; a \<open>Short\<close> from the packet is sign-extended on its way in.\<close>

definition set_extension_count :: "u32 \<Rightarrow> player \<Rightarrow> player" where
  "set_extension_count n p = p\<lparr>pl_pending_extensions := n\<rparr>"

definition decrease_pending_extension_count :: "player \<Rightarrow> u32 \<times> player" where
  "decrease_pending_extension_count p =
     (let n = pl_pending_extensions p - 1 in (n, p\<lparr>pl_pending_extensions := n\<rparr>))"

text \<open>\<open>std::bitset<64>::set\<close> and \<open>test\<close> throw \<open>std::out_of_range\<close> (\<open>None\<close>) from bit 64 on.\<close>

definition register_extension :: "u8 \<Rightarrow> player \<Rightarrow> player option" where
  "register_extension ext p =
     (if unat ext < 64 then Some (p\<lparr>pl_extensions := set_bit (unat ext) (pl_extensions p)\<rparr>) else None)"

definition is_supported_extension :: "u8 \<Rightarrow> player \<Rightarrow> bool option" where
  "is_supported_extension ext p =
     (if unat ext < 64 then Some (bit (pl_extensions p) (unat ext)) else None)"

definition is_support_gamedata_saving :: "player \<Rightarrow> bool" where
  "is_support_gamedata_saving p \<longleftrightarrow>
     player_type_value PTY_authenticated_user \<le> pl_type p \<or>
     (S_handshaked \<le> ps_cur p \<or> S_handshaked \<le> ps_prev p)"

lemmas player_ops = spawn_position_def last_position_def set_position_def set_spawn_position_def
  set_spawn_coordinate_def set_spawn_orientation_def update_last_transferred_position_def
  commit_last_transferred_position_def update_ping_time_def set_player_type_def set_uuid_def
  set_gamedata_def set_extension_count_def decrease_pending_extension_count_def

declare player_ops [env_simps]

lemma player_username_ctor:
  assumes "length (pl_username mem0) = username_array_size"
  shows "player_username (player_ctor mem0 key name) = c_str (take 16 name)"
proof -
  have "pl_username mem0 \<noteq> []" using assms by auto
  from c_str_string_copy [OF this, of name] assms show ?thesis
    by (simp add: player_username_def player_ctor_def)
qed

lemma set_spawn_coordinate_unforced:
  assumes "raw_coordinate (spawn_position p) \<noteq> 0"
  shows "set_spawn_coordinate x y z False p = p"
  using assms by (simp add: set_spawn_coordinate_def)

lemma set_spawn_coordinate_keeps_orientation:
  "spawn_yaw (set_spawn_coordinate x y z f p) = spawn_yaw p"
  "spawn_pitch (set_spawn_coordinate x y z f p) = spawn_pitch p"
  by (simp_all add: spawn_yaw_def spawn_pitch_def player_ops Let_def)

lemma register_then_supported:
  assumes "register_extension e p = Some q" and "unat e' < 64"
  shows "is_supported_extension e' q = (if e' = e then Some True else is_supported_extension e' p)"
  using assms
  by (auto simp: register_extension_def is_supported_extension_def bit_simps word_unat_eq_iff split: if_splits)

text \<open>Once the handshake was accepted, a guest passes the test that allows saving.\<close>

lemma guest_supports_saving:
  "S_handshaked \<le> ps_prev p \<Longrightarrow> is_support_gamedata_saving p"
  by (simp add: is_support_gamedata_saving_def)

text \<open>A new player in zeroed memory, for examples.\<close>

definition sample_player :: player where
  "sample_player = player_ctor
     \<lparr>ps_prev = S_initialized, ps_cur = S_initialized, ps_next = S_initialized, pl_key = key_default, pl_type = 0,
      pl_username = replicate 17 0, pl_gamedata = \<lparr>gd_latest_pos = 0, gd_spawn_pos = 0, gd_level = 0, gd_exp = 0\<rparr>,
      pl_uuid = [], pl_pending_extensions = 0, pl_extensions = 0, pl_last_transferred = 0,
      pl_last_transferred_tmp = 0, pl_last_ping = 0\<rparr> key_default []"

end
