(* ===== verification/Packet.thy ===== *)
theory Packet
  imports Player Ids
begin

section \<open>The packet protocol\<close>

text \<open>
  \<open>net/packet.h\<close> and \<open>net/packet.cpp\<close>: the scalar and string fields, the table of packet
  sizes, and one record per packet with its parser or serialiser. A cursor into a buffer is the
  list of bytes from it on: a reader returns the value with the advanced cursor, and \<open>None\<close>
  where the code would read past the end of the buffer. A writer appends to what was written
  so far.
\<close>

subsection \<open>Reading fields\<close>

fun read_byte :: "bytes \<Rightarrow> (u8 \<times> bytes) option" where
  "read_byte [] = None"
| "read_byte (b # bs) = Some (b, bs)"

definition read_short :: "bytes \<Rightarrow> (i16 \<times> bytes) option" where
  "read_short bs = (if length bs < 2 then None else Some (byteswap (of_le (take 2 bs)), drop 2 bs))"

definition read_int :: "bytes \<Rightarrow> (i32 \<times> bytes) option" where
  "read_int bs = (if length bs < 4 then None else Some (byteswap (of_le (take 4 bs)), drop 4 bs))"

definition read_uint64 :: "bytes \<Rightarrow> (u64 \<times> bytes) option" where
  "read_uint64 bs = (if length bs < 8 then None else Some (byteswap (of_le (take 8 bs)), drop 8 bs))"

abbreviation max_string_length :: nat where
  "max_string_length \<equiv> 64"

abbreviation max_username_length :: nat where
  "max_username_length \<equiv> 16"

abbreviation max_password_length :: nat where
  "max_password_length \<equiv> 32"

text \<open>The loop of \<open>read_string\<close> counts the padding from the end of the 64-byte field.\<close>

function padding_size :: "bytes \<Rightarrow> nat \<Rightarrow> nat" where
  "padding_size buf p =
     (if p < 64 \<and> buf ! (63 - p) = space then padding_size buf (Suc p) else p)"
  by pat_completeness auto
termination
  by (relation "measure (\<lambda>(buf, p). 64 - p)") auto

declare padding_size.simps [simp del]

definition read_string :: "bytes \<Rightarrow> (bytes \<times> bytes) option" where
  "read_string bs =
     (if length bs < 64 then None else Some (take (64 - padding_size bs 0) bs, drop 64 bs))"

text \<open>A packet parser skips the identifier byte: \<open>buf_start++\<close>.\<close>

definition skip_id :: "bytes \<Rightarrow> bytes" where
  "skip_id bs = drop 1 bs"

subsection \<open>Writing fields\<close>

definition write_byte :: "u8 \<Rightarrow> bytes \<Rightarrow> bytes" where
  "write_byte v out = out @ [v]"

definition write_short :: "i16 \<Rightarrow> bytes \<Rightarrow> bytes" where
  "write_short v out = out @ to_le 2 (byteswap v)"

definition write_int :: "i32 \<Rightarrow> bytes \<Rightarrow> bytes" where
  "write_int v out = out @ to_le 4 (byteswap v)"

definition write_uint64 :: "u64 \<Rightarrow> bytes \<Rightarrow> bytes" where
  "write_uint64 v out = out @ to_le 8 (byteswap v)"

definition write_string :: "bytes \<Rightarrow> bytes \<Rightarrow> bytes" where
  "write_string s out =
     (let size = min (length s) max_string_length
      in out @ take size s @ replicate (max_string_length - size) space)"

text \<open>The overload for \<open>const char*\<close> measures the string with \<open>std::strlen\<close>.\<close>

definition write_cstring :: "bytes \<Rightarrow> bytes \<Rightarrow> bytes" where
  "write_cstring s out = write_string (c_str s) out"

text \<open>The overload for a pointer with an explicit size.\<close>

definition write_string_data :: "bytes \<Rightarrow> nat \<Rightarrow> bytes \<Rightarrow> bytes" where
  "write_string_data d data_size out =
     (let size = min data_size max_string_length
      in out @ take size d @ replicate (max_string_length - size) space)"

definition write_coordinate :: "coordinate3d \<Rightarrow> bytes \<Rightarrow> bytes" where
  "write_coordinate pos out = write_short (cz pos) (write_short (cy pos) (write_short (cx pos) out))"

definition write_orientation :: "u8 \<Rightarrow> u8 \<Rightarrow> bytes \<Rightarrow> bytes" where
  "write_orientation yaw pitch out = write_byte pitch (write_byte yaw out)"

lemmas write_defs = write_byte_def write_short_def write_int_def write_uint64_def write_string_def
  write_cstring_def write_coordinate_def write_orientation_def

subsection \<open>Fields round-trip\<close>

lemma read_write_byte [wire_simps]: "read_byte (write_byte v [] @ r) = Some (v, r)"
  by (simp add: write_byte_def)

lemma read_write_short [wire_simps]: "read_short (write_short v [] @ r) = Some (v, r)"
proof -
  have "of_le (to_le 2 (byteswap v)) = byteswap v"
    by (rule of_le_to_le_full) simp
  then show ?thesis by (simp add: read_short_def write_short_def del: to_le_numeral)
qed

lemma read_write_int [wire_simps]: "read_int (write_int v [] @ r) = Some (v, r)"
proof -
  have "of_le (to_le 4 (byteswap v)) = byteswap v"
    by (rule of_le_to_le_full) simp
  then show ?thesis by (simp add: read_int_def write_int_def del: to_le_numeral)
qed

lemma read_write_uint64 [wire_simps]: "read_uint64 (write_uint64 v [] @ r) = Some (v, r)"
proof -
  have "of_le (to_le 8 (byteswap v)) = byteswap v"
    by (rule of_le_to_le_full) simp
  then show ?thesis by (simp add: read_uint64_def write_uint64_def del: to_le_numeral)
qed

text \<open>On the wire an integer is big-endian.\<close>

lemma write_short_big_endian: "write_short v out = out @ [ucast (drop_bit 8 v), ucast v]"
  using to_le_byteswap [of 2 v] by (simp add: write_short_def)

lemma write_acc:
  "write_byte v out = out @ write_byte v []"
  "write_short s out = out @ write_short s []"
  "write_int i out = out @ write_int i []"
  "write_uint64 u out = out @ write_uint64 u []"
  "write_string t out = out @ write_string t []"
  "write_cstring t out = out @ write_cstring t []"
  "write_coordinate c out = out @ write_coordinate c []"
  "write_orientation y p out = out @ write_orientation y p []"
  by (simp_all add: write_defs Let_def)

lemma length_write [simp]:
  "length (write_byte v out) = length out + 1"
  "length (write_short s out) = length out + 2"
  "length (write_int i out) = length out + 4"
  "length (write_uint64 u out) = length out + 8"
  "length (write_string t out) = length out + 64"
  "length (write_cstring t out) = length out + 64"
  "length (write_coordinate c out) = length out + 6"
  "length (write_orientation y p out) = length out + 2"
  by (simp_all add: write_defs Let_def)

text \<open>The reference for \<open>read_string\<close>: the field without its trailing spaces.\<close>

definition rstrip :: "bytes \<Rightarrow> bytes" where
  "rstrip s = rev (dropWhile ((=) space) (rev s))"

lemma padding_size_stop: "\<not> (p < 64 \<and> buf ! (63 - p) = space) \<Longrightarrow> padding_size buf p = p"
  by (subst padding_size.simps) (rule if_not_P)

lemma padding_size_step: "p < 64 \<and> buf ! (63 - p) = space \<Longrightarrow> padding_size buf p = padding_size buf (Suc p)"
  by (subst padding_size.simps) (rule if_P)

lemma padding_size_64 [simp]: "padding_size buf 64 = 64"
  by (simp add: padding_size_stop)

lemma padding_size_bounds: "p \<le> 64 \<Longrightarrow> p \<le> padding_size buf p \<and> padding_size buf p \<le> 64"
proof (induction buf p rule: padding_size.induct)
  case (1 buf p)
  show ?case
  proof (cases "p < 64 \<and> buf ! (63 - p) = space")
    case True
    with 1 show ?thesis by (simp add: padding_size_step)
  next
    case False
    then have "padding_size buf p = p" by (rule padding_size_stop)
    with "1.prems" show ?thesis by simp
  qed
qed

lemma rstrip_snoc: "rstrip (s @ [c]) = (if c = space then rstrip s else s @ [c])"
  by (simp add: rstrip_def)

lemma padding_size_rstrip:
  "p \<le> 64 \<Longrightarrow> length buf = 64 \<Longrightarrow> take (64 - padding_size buf p) buf = rstrip (take (64 - p) buf)"
proof (induction buf p rule: padding_size.induct)
  case (1 buf p)
  show ?case
  proof (cases "p < 64")
    case False
    with "1.prems" have "p = 64" by simp
    then show ?thesis by (simp add: rstrip_def)
  next
    case True
    have "64 - p = Suc (63 - p)" using True by simp
    then have last: "take (64 - p) buf = take (63 - p) buf @ [buf ! (63 - p)]"
      using "1.prems" by (simp add: take_Suc_conv_app_nth)
    show ?thesis
    proof (cases "buf ! (63 - p) = space")
      case sp: True
      have "take (64 - padding_size buf (Suc p)) buf = rstrip (take (64 - Suc p) buf)"
        using 1 True sp by simp
      then show ?thesis
        using True sp by (simp add: padding_size.simps [of buf p] last rstrip_snoc)
    next
      case False
      then show ?thesis
        by (simp add: padding_size.simps [of buf p] last rstrip_snoc)
    qed
  qed
qed

lemma padding_size_append: "p \<le> 64 \<Longrightarrow> length buf = 64 \<Longrightarrow> padding_size (buf @ r) p = padding_size buf p"
proof (induction buf p rule: padding_size.induct)
  case (1 buf p)
  show ?case
  proof (cases "p < 64")
    case True
    have "63 - p < length buf" using "1.prems" by linarith
    with 1 True show ?thesis
      by (subst (1 2) padding_size.simps) (simp add: nth_append)
  next
    case False
    then show ?thesis by (simp add: padding_size_stop)
  qed
qed

lemma read_string_eq:
  assumes "64 \<le> length bs"
  shows "read_string bs = Some (rstrip (take 64 bs), drop 64 bs)"
proof -
  let ?f = "take 64 bs"
  have len: "length ?f = 64" using assms by simp
  have "padding_size bs 0 = padding_size ?f 0"
    using padding_size_append [of 0 ?f "drop 64 bs"] len by simp
  moreover have "take (64 - padding_size ?f 0) bs = take (64 - padding_size ?f 0) ?f"
    by (simp add: min_def)
  ultimately show ?thesis
    using assms padding_size_rstrip [of 0 ?f] len by (simp add: read_string_def)
qed

lemma dropWhile_replicate_append: "dropWhile ((=) x) (replicate n x @ ys) = dropWhile ((=) x) ys"
  by (induction n) simp_all

lemma rstrip_padded: "rstrip (s @ replicate n space) = rstrip s"
  by (simp add: rstrip_def dropWhile_replicate_append)

lemma read_write_string [wire_simps]:
  "read_string (write_string s [] @ r) = Some (rstrip (take 64 s), r)"
proof -
  have "take 64 (write_string s [] @ r) = take (min (length s) 64) s @ replicate (64 - min (length s) 64) space"
    by (simp add: write_string_def Let_def)
  moreover have "take (min (length s) 64) s = take 64 s"
    by (simp add: min_def)
  ultimately show ?thesis
    by (simp add: read_string_eq rstrip_padded)
qed

lemma rstrip_id: "s = [] \<or> last s \<noteq> space \<Longrightarrow> rstrip s = s"
  by (cases s rule: rev_cases) (auto simp: rstrip_snoc rstrip_def)

lemma rstrip_idem [simp]: "rstrip (rstrip s) = rstrip s"
  by (simp add: rstrip_def)

lemma length_rstrip: "length (rstrip s) \<le> length s"
  using length_dropWhile_le [of "(=) space" "rev s"] by (simp add: rstrip_def)

subsection \<open>The table of packet sizes\<close>

abbreviation handshake_packet_size :: nat where "handshake_packet_size \<equiv> 131"
abbreviation ping_packet_size :: nat where "ping_packet_size \<equiv> 1"
abbreviation level_init_packet_size :: nat where "level_init_packet_size \<equiv> 1"
abbreviation level_data_chunk_packet_size :: nat where "level_data_chunk_packet_size \<equiv> 1028"
abbreviation set_block_client_packet_size :: nat where "set_block_client_packet_size \<equiv> 9"
abbreviation set_block_server_packet_size :: nat where "set_block_server_packet_size \<equiv> 8"
abbreviation set_player_position_packet_size :: nat where "set_player_position_packet_size \<equiv> 10"
abbreviation spawn_player_packet_size :: nat where "spawn_player_packet_size \<equiv> 74"
abbreviation despawn_player_packet_size :: nat where "despawn_player_packet_size \<equiv> 2"
abbreviation chat_message_packet_size :: nat where "chat_message_packet_size \<equiv> 66"
abbreviation disconnect_player_packet_size :: nat where "disconnect_player_packet_size \<equiv> 65"
abbreviation set_player_id_packet_size :: nat where "set_player_id_packet_size \<equiv> 2"
abbreviation ext_info_packet_size :: nat where "ext_info_packet_size \<equiv> 67"
abbreviation ext_entry_packet_size :: nat where "ext_entry_packet_size \<equiv> 69"
abbreviation two_way_ping_packet_size :: nat where "two_way_ping_packet_size \<equiv> 4"
abbreviation ext_message_packet_size :: nat where "ext_message_packet_size \<equiv> 66"
abbreviation ext_ping_packet_size :: nat where "ext_ping_packet_size \<equiv> 9"

definition protocol_db :: "u8 \<Rightarrow> nat" where
  "protocol_db pid =
     (if pid = PT_handshake then handshake_packet_size
      else if pid = PT_ping then ping_packet_size
      else if pid = PT_set_block_client then set_block_client_packet_size
      else if pid = PT_set_player_position then set_player_position_packet_size
      else if pid = PT_chat_message then chat_message_packet_size
      else if pid = PT_ext_info then ext_info_packet_size
      else if pid = PT_two_way_ping then two_way_ping_packet_size
      else if pid = PT_ext_entry then ext_entry_packet_size
      else if pid = PT_ext_ping then ext_ping_packet_size
      else 0)"

text \<open>The identifier and the size of the packet at the cursor.\<close>

definition parse_packet :: "bytes \<Rightarrow> (u8 \<times> nat) option" where
  "parse_packet bs =
     (case bs of
        [] \<Rightarrow> None
      | pid # _ \<Rightarrow> Some (if protocol_db pid \<noteq> 0 then pid else PT_invalid, protocol_db pid))"

lemma protocol_db_invalid [simp]: "protocol_db PT_invalid = 0"
  by (simp add: protocol_db_def)

lemma parse_packet_Cons:
  "parse_packet (pid # r) = Some (if protocol_db pid \<noteq> 0 then pid else PT_invalid, protocol_db pid)"
  by (simp add: parse_packet_def)

text \<open>A packet that is not rejected has a positive size, at most that of a handshake.\<close>

lemma parse_packet_size:
  assumes "parse_packet bs = Some (pid, n)"
  shows "pid = PT_invalid \<and> n = 0 \<or> pid \<noteq> PT_invalid \<and> 0 < n \<and> n \<le> handshake_packet_size"
  using assms
  by (auto simp: parse_packet_def protocol_db_def split: list.splits if_splits)

subsection \<open>Strings\<close>

text \<open>
  Reading a string field, whose loop counts the padding from the end of the field, is the
  reference function that takes 64 bytes and drops the trailing spaces; with fewer than 64 bytes
  there is nothing to read. What was written comes back cut to 64 bytes and without its trailing
  spaces.
\<close>

theorem string_field_correct:
  "read_string bs = (if length bs < 64 then None else Some (rstrip (take 64 bs), drop 64 bs)) \<and>
   read_string (write_string s [] @ r) = Some (rstrip (take 64 s), r) \<and>
   read_string (write_cstring s [] @ r) = Some (rstrip (take 64 (c_str s)), r)"
proof (intro conjI)
  show "read_string bs = (if length bs < 64 then None else Some (rstrip (take 64 bs), drop 64 bs))"
    using read_string_eq [of bs] by (cases "length bs < 64") (simp_all add: read_string_def)
qed (simp_all add: write_cstring_def wire_simps)

end
