(* ===== verification/Packets.thy ===== *)
theory Packets
  imports Packet
begin

section \<open>The packets\<close>

text \<open>
  One record per packet of \<open>net/packet.h\<close>, extending the base \<open>Packet\<close>: \<open>*_parse\<close> is the
  constructor from a buffer that starts at the packet's identifier, \<open>*_bytes\<close> the local buffer
  that \<open>serialize\<close> fills, and \<open>*_serialize\<close> the method, which hands the buffer to the
  \<open>push\<close> of the event data it is given and returns that result.
\<close>

record packet =
  pk_id :: u8

definition packet_ctor :: packet where
  "packet_ctor = \<lparr>pk_id = PT_invalid\<rparr>"

subsection \<open>Handshake\<close>

text \<open>The unions: user name and server name, password and motd, CPE magic and user type.\<close>

record packet_handshake = packet +
  hs_protocol_version :: u8
  hs_username :: bytes
  hs_password :: bytes
  hs_cpe_magic :: u8

definition handshake_reply :: "bytes \<Rightarrow> bytes \<Rightarrow> i32 \<Rightarrow> packet_handshake" where
  "handshake_reply server_name motd user_type =
     \<lparr>pk_id = PT_handshake, hs_protocol_version = 7, hs_username = server_name,
      hs_password = motd, hs_cpe_magic = ucast user_type\<rparr>"

definition handshake_parse :: "bytes \<Rightarrow> packet_handshake option" where
  "handshake_parse buf =
     (case read_byte (skip_id buf) of None \<Rightarrow> None | Some (v, buf) \<Rightarrow>
      (case read_string buf of None \<Rightarrow> None | Some (u, buf) \<Rightarrow>
       (case read_string buf of None \<Rightarrow> None | Some (pw, buf) \<Rightarrow>
        (case read_byte buf of None \<Rightarrow> None | Some (m, buf) \<Rightarrow>
           Some \<lparr>pk_id = PT_handshake, hs_protocol_version = v, hs_username = u,
                 hs_password = pw, hs_cpe_magic = m\<rparr>))))"

definition handshake_validate :: "packet_handshake \<Rightarrow> int" where
  "handshake_validate p =
     (if hs_protocol_version p \<noteq> 7 then ec_invalid_protocol_version
      else if length (hs_username p) = 0 \<or> max_username_length < length (hs_username p)
        then ec_improper_username_length
      else if \<not> is_alphanumeric (hs_username p) then ec_improper_username_format
      else if max_password_length < length (hs_password p) then ec_improper_password_length
      else ec_success)"

definition handshake_bytes :: "packet_handshake \<Rightarrow> bytes" where
  "handshake_bytes p =
     write_byte (hs_cpe_magic p) (write_string (hs_password p) (write_string (hs_username p)
       (write_byte (hs_protocol_version p) (write_byte (pk_id p) []))))"

definition handshake_serialize ::
    "(bytes \<Rightarrow> 'd \<Rightarrow> bool \<times> 'd) \<Rightarrow> packet_handshake \<Rightarrow> 'd \<Rightarrow> bool \<times> 'd" where
  "handshake_serialize push p d = push (handshake_bytes p) d"

definition has_cpe_support :: "packet_handshake \<Rightarrow> bool" where
  "has_cpe_support p \<longleftrightarrow> hs_cpe_magic p = 0x42"

subsection \<open>Ping and level initialisation\<close>

definition ping_parse :: "bytes \<Rightarrow> packet option" where
  "ping_parse buf = Some \<lparr>pk_id = PT_ping\<rparr>"

definition level_init_bytes :: bytes where
  "level_init_bytes = write_byte PT_level_initialize []"

definition level_init_serialize :: "(bytes \<Rightarrow> 'd \<Rightarrow> bool \<times> 'd) \<Rightarrow> 'd \<Rightarrow> bool \<times> 'd" where
  "level_init_serialize push d = push level_init_bytes d"

subsection \<open>Blocks\<close>

record packet_set_block_client = packet +
  sbc_x :: i16
  sbc_y :: i16
  sbc_z :: i16
  sbc_mode :: u8
  sbc_block_id :: u8

definition set_block_client_make :: "coordinate3d \<Rightarrow> u8 \<Rightarrow> u8 \<Rightarrow> packet_set_block_client" where
  "set_block_client_make pos mode blk =
     \<lparr>pk_id = PT_set_block_client, sbc_x = cx pos, sbc_y = cy pos, sbc_z = cz pos,
      sbc_mode = mode, sbc_block_id = blk\<rparr>"

definition set_block_client_parse :: "bytes \<Rightarrow> packet_set_block_client option" where
  "set_block_client_parse buf =
     (case read_short (skip_id buf) of None \<Rightarrow> None | Some (x, buf) \<Rightarrow>
      (case read_short buf of None \<Rightarrow> None | Some (y, buf) \<Rightarrow>
       (case read_short buf of None \<Rightarrow> None | Some (z, buf) \<Rightarrow>
        (case read_byte buf of None \<Rightarrow> None | Some (m, buf) \<Rightarrow>
         (case read_byte buf of None \<Rightarrow> None | Some (b, buf) \<Rightarrow>
            Some \<lparr>pk_id = PT_set_block_client, sbc_x = x, sbc_y = y, sbc_z = z,
                  sbc_mode = m, sbc_block_id = b\<rparr>)))))"

definition set_block_client_bytes :: "packet_set_block_client \<Rightarrow> bytes" where
  "set_block_client_bytes p =
     write_byte (sbc_block_id p) (write_byte (sbc_mode p) (write_short (sbc_z p)
       (write_short (sbc_y p) (write_short (sbc_x p) (write_byte PT_set_block_client [])))))"

definition set_block_client_serialize ::
    "(bytes \<Rightarrow> 'd \<Rightarrow> bool \<times> 'd) \<Rightarrow> packet_set_block_client \<Rightarrow> 'd \<Rightarrow> bool \<times> 'd" where
  "set_block_client_serialize push p d = push (set_block_client_bytes p) d"

definition sbc_block_creation_mode :: "packet_set_block_client \<Rightarrow> block_creation_mode" where
  "sbc_block_creation_mode p = block_creation_mode_of (sbc_mode p)"

record packet_set_block_server = packet +
  sbs_pos :: coordinate3d
  sbs_block_id :: u8

definition set_block_server_make :: "coordinate3d \<Rightarrow> u8 \<Rightarrow> packet_set_block_server" where
  "set_block_server_make pos blk =
     \<lparr>pk_id = PT_set_block_server, sbs_pos = pos, sbs_block_id = blk\<rparr>"

definition set_block_server_bytes :: "packet_set_block_server \<Rightarrow> bytes" where
  "set_block_server_bytes p =
     write_byte (sbs_block_id p) (write_short (cz (sbs_pos p)) (write_short (cy (sbs_pos p))
       (write_short (cx (sbs_pos p)) (write_byte PT_set_block_server []))))"

definition set_block_server_serialize ::
    "(bytes \<Rightarrow> 'd \<Rightarrow> bool \<times> 'd) \<Rightarrow> packet_set_block_server \<Rightarrow> 'd \<Rightarrow> bool \<times> 'd" where
  "set_block_server_serialize push p d = push (set_block_server_bytes p) d"

subsection \<open>Chat, disconnection and identifiers\<close>

record packet_chat_message = packet +
  cm_player_id :: u8
  cm_message :: bytes

definition chat_message_make :: "bytes \<Rightarrow> packet_chat_message" where
  "chat_message_make msg = \<lparr>pk_id = PT_chat_message, cm_player_id = 0xFF, cm_message = msg\<rparr>"

definition chat_message_parse :: "bytes \<Rightarrow> packet_chat_message option" where
  "chat_message_parse buf =
     (case read_byte (skip_id buf) of None \<Rightarrow> None | Some (i, buf) \<Rightarrow>
      (case read_string buf of None \<Rightarrow> None | Some (m, buf) \<Rightarrow>
         Some \<lparr>pk_id = PT_chat_message, cm_player_id = i, cm_message = m\<rparr>))"

definition chat_message_bytes :: "packet_chat_message \<Rightarrow> bytes" where
  "chat_message_bytes p =
     write_string (cm_message p) (write_byte (cm_player_id p) (write_byte PT_chat_message []))"

definition chat_message_serialize ::
    "(bytes \<Rightarrow> 'd \<Rightarrow> bool \<times> 'd) \<Rightarrow> packet_chat_message \<Rightarrow> 'd \<Rightarrow> bool \<times> 'd" where
  "chat_message_serialize push p d = push (chat_message_bytes p) d"

definition is_commmand_message :: "packet_chat_message \<Rightarrow> bool" where
  "is_commmand_message p \<longleftrightarrow> cm_message p \<noteq> [] \<and> hd (cm_message p) = 0x2F"

record packet_disconnect_player = packet +
  dp_reason :: bytes

definition disconnect_player_make :: "bytes \<Rightarrow> packet_disconnect_player" where
  "disconnect_player_make reason = \<lparr>pk_id = PT_disconnect_player, dp_reason = reason\<rparr>"

definition disconnect_player_bytes :: "packet_disconnect_player \<Rightarrow> bytes" where
  "disconnect_player_bytes p = write_string (dp_reason p) (write_byte (pk_id p) [])"

definition disconnect_player_serialize ::
    "(bytes \<Rightarrow> 'd \<Rightarrow> bool \<times> 'd) \<Rightarrow> packet_disconnect_player \<Rightarrow> 'd \<Rightarrow> bool \<times> 'd" where
  "disconnect_player_serialize push p d = push (disconnect_player_bytes p) d"

record packet_set_player_id = packet +
  spi_player_id :: u8

definition set_player_id_make :: "u32 \<Rightarrow> packet_set_player_id" where
  "set_player_id_make i = \<lparr>pk_id = PT_set_playerid, spi_player_id = ucast i\<rparr>"

definition set_player_id_bytes :: "packet_set_player_id \<Rightarrow> bytes" where
  "set_player_id_bytes p = write_byte (spi_player_id p) (write_byte (pk_id p) [])"

definition set_player_id_serialize ::
    "(bytes \<Rightarrow> 'd \<Rightarrow> bool \<times> 'd) \<Rightarrow> packet_set_player_id \<Rightarrow> 'd \<Rightarrow> bool \<times> 'd" where
  "set_player_id_serialize push p d = push (set_player_id_bytes p) d"

subsection \<open>The player position packet\<close>

record packet_set_player_position = packet +
  spp_player_id :: u8
  spp_pos :: position

definition set_player_position_parse :: "bytes \<Rightarrow> packet_set_player_position option" where
  "set_player_position_parse buf =
     (case read_byte (skip_id buf) of None \<Rightarrow> None | Some (i, buf) \<Rightarrow>
      (case read_short buf of None \<Rightarrow> None | Some (x, buf) \<Rightarrow>
       (case read_short buf of None \<Rightarrow> None | Some (y, buf) \<Rightarrow>
        (case read_short buf of None \<Rightarrow> None | Some (z, buf) \<Rightarrow>
         (case read_byte buf of None \<Rightarrow> None | Some (yaw, buf) \<Rightarrow>
          (case read_byte buf of None \<Rightarrow> None | Some (pitch, buf) \<Rightarrow>
             Some \<lparr>pk_id = PT_set_player_position, spp_player_id = i,
                   spp_pos = pos_of_view x y z yaw pitch\<rparr>))))))"

subsection \<open>Sizes, totality and round trips\<close>

lemmas packet_bytes_defs = handshake_bytes_def level_init_bytes_def set_block_client_bytes_def
  set_block_server_bytes_def chat_message_bytes_def disconnect_player_bytes_def set_player_id_bytes_def

lemma length_packet_bytes [simp]:
  "length (handshake_bytes h) = handshake_packet_size"
  "length level_init_bytes = level_init_packet_size"
  "length (set_block_client_bytes b) = set_block_client_packet_size"
  "length (set_block_server_bytes s) = set_block_server_packet_size"
  "length (chat_message_bytes c) = chat_message_packet_size"
  "length (disconnect_player_bytes d) = disconnect_player_packet_size"
  "length (set_player_id_bytes i) = set_player_id_packet_size"
  by (simp_all add: packet_bytes_defs)

lemma write_wire: 
  "write_byte v out @ r = out @ (write_byte v [] @ r)"
  "write_short s out @ r = out @ (write_short s [] @ r)"
  "write_int i out @ r = out @ (write_int i [] @ r)"
  "write_uint64 u out @ r = out @ (write_uint64 u [] @ r)"
  "write_string t out @ r = out @ (write_string t [] @ r)"
  by (simp_all add: write_defs Let_def)

lemma skip_id_write [wire_simps]: "skip_id (write_byte v [] @ r) = r"
  by (simp add: skip_id_def write_byte_def)

lemma handshake_unfold:
  "handshake_bytes p @ r = write_byte (pk_id p) [] @ write_byte (hs_protocol_version p) [] @
     write_string (hs_username p) [] @ write_string (hs_password p) [] @ write_byte (hs_cpe_magic p) [] @ r"
  by (simp add: handshake_bytes_def write_defs Let_def)

lemma handshake_parse_bytes:
  "handshake_parse (handshake_bytes p @ r) =
     Some \<lparr>pk_id = PT_handshake, hs_protocol_version = hs_protocol_version p,
           hs_username = rstrip (take 64 (hs_username p)),
           hs_password = rstrip (take 64 (hs_password p)), hs_cpe_magic = hs_cpe_magic p\<rparr>"
  by (simp add: handshake_parse_def handshake_unfold wire_simps)

lemma set_block_client_unfold:
  "set_block_client_bytes p @ r = write_byte PT_set_block_client [] @ write_short (sbc_x p) [] @
     write_short (sbc_y p) [] @ write_short (sbc_z p) [] @ write_byte (sbc_mode p) [] @
     write_byte (sbc_block_id p) [] @ r"
  by (simp add: set_block_client_bytes_def write_defs)

lemma set_block_client_parse_bytes:
  "set_block_client_parse (set_block_client_bytes p @ r) =
     Some \<lparr>pk_id = PT_set_block_client, sbc_x = sbc_x p, sbc_y = sbc_y p, sbc_z = sbc_z p,
           sbc_mode = sbc_mode p, sbc_block_id = sbc_block_id p\<rparr>"
  by (simp add: set_block_client_parse_def set_block_client_unfold wire_simps)

lemma chat_message_unfold:
  "chat_message_bytes p @ r =
     write_byte PT_chat_message [] @ write_byte (cm_player_id p) [] @ write_string (cm_message p) [] @ r"
  by (simp add: chat_message_bytes_def write_defs Let_def)

lemma chat_message_parse_bytes:
  "chat_message_parse (chat_message_bytes p @ r) =
     Some \<lparr>pk_id = PT_chat_message, cm_player_id = cm_player_id p,
           cm_message = rstrip (take 64 (cm_message p))\<rparr>"
  by (simp add: chat_message_parse_def chat_message_unfold wire_simps)

subsection \<open>Round trips\<close>

lemma rstrip_alphanumeric: "is_alphanumeric s \<Longrightarrow> rstrip s = s"
  by (cases s rule: rev_cases) (auto simp: is_alphanumeric_def isalnum_def rstrip_snoc rstrip_def)

lemma parse_packet_write: "parse_packet (write_byte pid [] @ r) = Some (if protocol_db pid \<noteq> 0 then pid else PT_invalid, protocol_db pid)"
  by (simp add: write_byte_def parse_packet_Cons)

text \<open>
  C28: A handshake that passes validation, with a password that does not end in a space, is
  recognised by its first byte and size and read back exactly, whatever follows it in the buffer.
\<close>

theorem valid_handshake_roundtrip:
  assumes "handshake_validate p = ec_success" "pk_id p = PT_handshake"
    and "hs_password p = [] \<or> last (hs_password p) \<noteq> space"
  shows "parse_packet (handshake_bytes p @ r) = Some (PT_handshake, length (handshake_bytes p)) \<and>
    handshake_parse (handshake_bytes p @ r) = Some p"
proof
  show "parse_packet (handshake_bytes p @ r) = Some (PT_handshake, length (handshake_bytes p))"
    using assms(2) by (simp add: handshake_unfold parse_packet_write protocol_db_def)
  from assms(1) have "hs_protocol_version p = 7" "length (hs_username p) \<le> 16" "is_alphanumeric (hs_username p)"
    "length (hs_password p) \<le> 32"
    by (auto simp: handshake_validate_def split: if_splits)
  then show "handshake_parse (handshake_bytes p @ r) = Some p"
    using assms(2,3) by (simp add: handshake_parse_bytes rstrip_id rstrip_alphanumeric)
qed

text \<open>
  The other packets of a client: a block change is read back exactly, a chat message without what is beyond 64 bytes and without trailing spaces.
\<close>

theorem client_packets_roundtrip:
  "set_block_client_parse (set_block_client_bytes b @ r) = Some (b\<lparr>pk_id := PT_set_block_client\<rparr>) \<and>
   chat_message_parse (chat_message_bytes m @ r) =
     Some (m\<lparr>pk_id := PT_chat_message, cm_message := rstrip (take 64 (cm_message m))\<rparr>) \<and>
   parse_packet (set_block_client_bytes b @ r) = Some (PT_set_block_client, length (set_block_client_bytes b)) \<and>
   parse_packet (chat_message_bytes m @ r) = Some (PT_chat_message, length (chat_message_bytes m))"
  by (simp add: set_block_client_parse_bytes chat_message_parse_bytes)
    (simp add: set_block_client_unfold chat_message_unfold parse_packet_write protocol_db_def)

theorem valid_handshake_roundtrip_witness:
  "\<exists>p :: packet_handshake. handshake_validate p = ec_success \<and> handshake_parse (handshake_bytes p @ [7]) = Some p"
proof -
  let ?p = "\<lparr>pk_id = PT_handshake, hs_protocol_version = 7, hs_username = cstr ''alice'', hs_password = cstr ''pw 1'',
    hs_cpe_magic = 0x42\<rparr>"
  have "handshake_validate ?p = ec_success"
    by (simp add: handshake_validate_def is_alphanumeric_def isalnum_def)
  with valid_handshake_roundtrip [of ?p "[7]"] show ?thesis by auto
qed

end
