(* ===== verification/Snapshot_Queue.thy ===== *)
theory Snapshot_Queue
  imports Prelude
begin

section \<open>Queues that are delivered by snapshot\<close>

text \<open>
  The contract between the world's tasks and the data they carry, in \<open>game/world_task.h\<close>:
  producers append to a collecting side; scheduling a task turns it into the snapshot side;
  completing the task hands the snapshot to the handler and clears it. \<open>History\<close> interprets it
  for the double buffers, \<open>Tasks\<close> for the two vectors of a \<open>WorldPlayerTask\<close>. An element \<open>e\<close>
  contributes \<open>items e\<close>.
\<close>

locale snapshot_queue =
  fixes live :: "'d \<Rightarrow> 'a list"
    and snap :: "'d \<Rightarrow> 'a list"
    and items :: "'e \<Rightarrow> 'a list"
    and push :: "'e \<Rightarrow> 'd \<Rightarrow> bool \<times> 'd"
    and swap :: "'d \<Rightarrow> 'd"
    and clear :: "'d \<Rightarrow> 'd"
    and wf :: "'d \<Rightarrow> bool"
  assumes live_push: "wf d \<Longrightarrow> push e d = (ok, d') \<Longrightarrow> live d' = live d @ (if ok then items e else [])"
    and snap_push: "wf d \<Longrightarrow> push e d = (ok, d') \<Longrightarrow> snap d' = snap d"
    and wf_push: "wf d \<Longrightarrow> push e d = (ok, d') \<Longrightarrow> wf d'"
    and live_swap: "wf d \<Longrightarrow> live (swap d) = snap d"
    and snap_swap: "wf d \<Longrightarrow> snap (swap d) = live d"
    and wf_swap: "wf d \<Longrightarrow> wf (swap d)"
    and live_clear: "wf d \<Longrightarrow> live (clear d) = live d"
    and snap_clear: "wf d \<Longrightarrow> snap (clear d) = []"
    and wf_clear: "wf d \<Longrightarrow> wf (clear d)"

text \<open>
  The protocol of a task that owns such a buffer: producers push at any time; scheduling takes a
  snapshot, completion delivers the snapshot and clears it. A task is scheduled only when it is
  idle (\<open>idle\<close>), and completes only after it was scheduled.
\<close>

datatype 'e snap_op = HPush 'e | HSchedule | HComplete

fun run_snap :: "('d \<Rightarrow> 'a list) \<Rightarrow> ('e \<Rightarrow> 'a list) \<Rightarrow> ('e \<Rightarrow> 'd \<Rightarrow> bool \<times> 'd) \<Rightarrow> ('d \<Rightarrow> 'd) \<Rightarrow> ('d \<Rightarrow> 'd) \<Rightarrow>
    'e snap_op list \<Rightarrow> bool \<Rightarrow> 'd \<Rightarrow> 'a list \<times> 'a list \<times> bool \<times> 'd" where
  "run_snap sn it psh sw cl [] idle d = ([], [], idle, d)"
| "run_snap sn it psh sw cl (HPush e # ops) idle d =
     (let (ok, d1) = psh e d; (i, out, idl, d2) = run_snap sn it psh sw cl ops idle d1
      in ((if ok then it e else []) @ i, out, idl, d2))"
| "run_snap sn it psh sw cl (HSchedule # ops) idle d =
     run_snap sn it psh sw cl ops False (if idle then sw d else d)"
| "run_snap sn it psh sw cl (HComplete # ops) idle d =
     (if idle then run_snap sn it psh sw cl ops idle d
      else let (i, out, idl, d2) = run_snap sn it psh sw cl ops True (cl d) in (i, sn d @ out, idl, d2))"

context snapshot_queue
begin

lemma run_snap_delivers:
  "wf d \<Longrightarrow> idle \<longrightarrow> snap d = [] \<Longrightarrow> run_snap snap items push swap clear ops idle d = (i, out, idl, d') \<Longrightarrow>
    snap d @ live d @ i = out @ snap d' @ live d' \<and> wf d' \<and> (idl \<longrightarrow> snap d' = [])"
proof (induction ops arbitrary: idle d i out idl d')
  case Nil
  then show ?case by simp
next
  case (Cons op ops)
  show ?case
  proof (cases op)
    case (HPush e)
    obtain ok d1 where p: "push e d = (ok, d1)" by fastforce
    obtain i1 o1 l1 d2 where r: "run_snap snap items push swap clear ops idle d1 = (i1, o1, l1, d2)"
      by (metis prod_cases4)
    have "idle \<longrightarrow> snap d1 = []" using Cons.prems p by (simp add: snap_push)
    from Cons.IH [OF wf_push [OF Cons.prems(1) p] this r] Cons.prems HPush p r
    show ?thesis by (auto simp: live_push snap_push)
  next
    case HSchedule
    show ?thesis
    proof (cases idle)
      case True
      with HSchedule Cons.prems have r: "run_snap snap items push swap clear ops False (swap d) = (i, out, idl, d')"
        by simp
      from Cons.IH [OF wf_swap [OF Cons.prems(1)] _ r] Cons.prems(1,2) True
      show ?thesis by (simp add: live_swap snap_swap)
    next
      case False
      with HSchedule Cons.prems have r: "run_snap snap items push swap clear ops False d = (i, out, idl, d')"
        by simp
      from Cons.IH [OF Cons.prems(1) _ r] show ?thesis by simp
    qed
  next
    case HComplete
    show ?thesis
    proof (cases idle)
      case True
      with HComplete Cons.prems show ?thesis by (intro Cons.IH [of d True]) auto
    next
      case False
      obtain i1 o1 l1 d2 where r: "run_snap snap items push swap clear ops True (clear d) = (i1, o1, l1, d2)"
        by (metis prod_cases4)
      from Cons.IH [OF wf_clear [OF Cons.prems(1)] _ r] Cons.prems(1,3) HComplete False r
      show ?thesis by (auto simp: live_clear snap_clear)
    qed
  qed
qed

end

end
