(* ===== verification/History.thy ===== *)
theory History
  imports Packets Snapshot_Queue
begin

section \<open>Double-buffered histories\<close>

text \<open>
  \<open>util/double_buffering.h\<close> and \<open>game/history_buffer.h/.cpp\<close>: two buffers of fixed size whose
  roles (collecting and snapshot) are exchanged by flipping an index, with the block history
  and the common chat history on top of them. The interpretation of \<open>snapshot_queue\<close> gives the
  clients their law: what is pushed is delivered once and in order.
\<close>

subsection \<open>The buffers\<close>

text \<open>
  Pushes run on many threads. Here a push is one step, from reading the index of the input buffer to the
  copied bytes; \<open>Concurrent_History\<close> takes it apart into the steps of the code and looks at their
  interleavings with each other and with the switch of the buffers.
\<close>

record hist_buffer =
  hb_size :: nat
  hb_buf :: bytes

definition hb_push :: "bytes \<Rightarrow> hist_buffer \<Rightarrow> bool \<times> hist_buffer" where
  "hb_push data b =
     (let before_size = hb_size b;
          b = b\<lparr>hb_size := hb_size b + length data\<rparr>
      in if length (hb_buf b) < before_size + length data
         then (False, b\<lparr>hb_size := hb_size b - length data\<rparr>)
         else (True, b\<lparr>hb_buf := blit before_size data (hb_buf b)\<rparr>))"

definition hb_contents :: "hist_buffer \<Rightarrow> bytes" where
  "hb_contents b = segment 0 (hb_size b) (hb_buf b)"

definition hb_clear :: "hist_buffer \<Rightarrow> hist_buffer" where
  "hb_clear b = b\<lparr>hb_size := 0\<rparr>"

definition hb_wf :: "hist_buffer \<Rightarrow> bool" where
  "hb_wf b \<longleftrightarrow> hb_size b \<le> length (hb_buf b)"

record double_buffering =
  db_input_index :: nat
  db_bufs :: "hist_buffer list"

definition db_new :: "bytes \<Rightarrow> bytes \<Rightarrow> double_buffering" where
  "db_new mem0 mem1 =
     \<lparr>db_input_index = 0, db_bufs = [\<lparr>hb_size = 0, hb_buf = mem0\<rparr>, \<lparr>hb_size = 0, hb_buf = mem1\<rparr>]\<rparr>"

definition input_buffer_index :: "double_buffering \<Rightarrow> nat" where
  "input_buffer_index d = db_input_index d"

definition output_buffer_index :: "double_buffering \<Rightarrow> nat" where
  "output_buffer_index d = xor (db_input_index d) 1"

definition input_buffer :: "double_buffering \<Rightarrow> hist_buffer" where
  "input_buffer d = db_bufs d ! input_buffer_index d"

definition output_buffer :: "double_buffering \<Rightarrow> hist_buffer" where
  "output_buffer d = db_bufs d ! output_buffer_index d"

definition switch_buffer :: "double_buffering \<Rightarrow> double_buffering" where
  "switch_buffer d = d\<lparr>db_input_index := xor (db_input_index d) 1\<rparr>"

definition db_snapshot :: "double_buffering \<Rightarrow> double_buffering" where
  "db_snapshot d = switch_buffer d"

definition db_clear_snapshot :: "double_buffering \<Rightarrow> double_buffering" where
  "db_clear_snapshot d =
     d\<lparr>db_bufs := (db_bufs d)[output_buffer_index d := hb_clear (output_buffer d)]\<rparr>"

definition get_snapshot_data :: "double_buffering \<Rightarrow> bytes" where
  "get_snapshot_data d = hb_contents (output_buffer d)"

definition has_live_data :: "double_buffering \<Rightarrow> bool" where
  "has_live_data d \<longleftrightarrow> 0 < hb_size (input_buffer d)"

definition db_push :: "bytes \<Rightarrow> double_buffering \<Rightarrow> bool \<times> double_buffering" where
  "db_push data d =
     (let (ok, b) = hb_push data (input_buffer d)
      in (ok, d\<lparr>db_bufs := (db_bufs d)[input_buffer_index d := b]\<rparr>))"

definition db_live :: "double_buffering \<Rightarrow> bytes" where
  "db_live d = hb_contents (input_buffer d)"

definition db_wf :: "double_buffering \<Rightarrow> bool" where
  "db_wf d \<longleftrightarrow> db_input_index d < 2 \<and> length (db_bufs d) = 2 \<and> list_all hb_wf (db_bufs d)"

lemmas db_defs = input_buffer_index_def output_buffer_index_def input_buffer_def output_buffer_def
  switch_buffer_def db_snapshot_def db_clear_snapshot_def get_snapshot_data_def has_live_data_def
  db_push_def db_live_def

lemma hb_push_contents:
  assumes "hb_wf b" "hb_push bs b = (ok, b')"
  shows "hb_contents b' = hb_contents b @ (if ok then bs else [])" "hb_wf b'"
    "length (hb_buf b') = length (hb_buf b)"
  using assms
  by (auto simp: hb_push_def hb_contents_def hb_wf_def Let_def segment_blit_extend [of 0, simplified]
      split: if_splits)

lemma db_wf_cases:
  assumes "db_wf d"
  obtains (first) b0 b1 where "d = \<lparr>db_input_index = 0, db_bufs = [b0, b1]\<rparr>" "hb_wf b0" "hb_wf b1"
    | (second) b0 b1 where "d = \<lparr>db_input_index = 1, db_bufs = [b0, b1]\<rparr>" "hb_wf b0" "hb_wf b1"
proof -
  obtain i bs where d: "d = \<lparr>db_input_index = i, db_bufs = bs\<rparr>" by (rule double_buffering.cases)
  with assms have "i = 0 \<or> i = 1" "length bs = Suc (Suc 0)" "list_all hb_wf bs"
    by (auto simp: db_wf_def)
  then show thesis using that d by (auto simp: length_Suc_conv)
qed

lemma hb_clear_simps [simp]: "hb_contents (hb_clear b) = []" "hb_wf (hb_clear b)"
  by (simp_all add: hb_clear_def hb_contents_def hb_wf_def)

lemma xor_one [simp]: "xor 0 1 = (1 :: nat)" "xor (Suc 0) 1 = (0 :: nat)" "xor 0 (Suc 0) = (1 :: nat)"
  "xor (Suc 0) (Suc 0) = (0 :: nat)"
  by simp_all

lemma db_push_laws:
  assumes "db_wf d" "db_push bs d = (ok, d')"
  shows "db_live d' = db_live d @ (if ok then bs else [])" "get_snapshot_data d' = get_snapshot_data d"
    "db_wf d'"
  using assms(1)
proof (atomize (full), cases rule: db_wf_cases)
  case (first b0 b1)
  with assms(2) obtain b where "hb_push bs b0 = (ok, b)" "d' = \<lparr>db_input_index = 0, db_bufs = [b, b1]\<rparr>"
    by (auto simp: db_defs split: prod.splits)
  with first show "db_live d' = db_live d @ (if ok then bs else []) \<and>
      get_snapshot_data d' = get_snapshot_data d \<and> db_wf d'"
    using hb_push_contents [of b0 bs ok b] by (simp add: db_defs db_wf_def)
next
  case (second b0 b1)
  with assms(2) obtain b where "hb_push bs b1 = (ok, b)" "d' = \<lparr>db_input_index = 1, db_bufs = [b0, b]\<rparr>"
    by (auto simp: db_defs split: prod.splits)
  with second show "db_live d' = db_live d @ (if ok then bs else []) \<and>
      get_snapshot_data d' = get_snapshot_data d \<and> db_wf d'"
    using hb_push_contents [of b1 bs ok b] by (simp add: db_defs db_wf_def)
qed

interpretation db: snapshot_queue db_live get_snapshot_data "\<lambda>bs. bs" db_push db_snapshot db_clear_snapshot db_wf
proof (unfold_locales, goal_cases)
  case (1 d bs ok d')
  then show ?case by (rule db_push_laws)
next
  case (2 d bs ok d')
  then show ?case by (rule db_push_laws)
next
  case (3 d bs ok d')
  then show ?case by (rule db_push_laws)
qed (erule db_wf_cases; simp add: db_defs db_wf_def)+

lemma db_new_wf: "db_wf (db_new m0 m1)" "db_live (db_new m0 m1) = []" "get_snapshot_data (db_new m0 m1) = []"
  by (simp_all add: db_new_def db_wf_def hb_wf_def db_defs hb_contents_def)

subsection \<open>The histories\<close>

definition chat_history_add_record :: "bytes \<Rightarrow> double_buffering \<Rightarrow> bool \<times> double_buffering" where
  "chat_history_add_record packet_data h = db_push packet_data h"

text \<open>The packed record; a \<open>std::uint16_t\<close> holds the coordinate with its bytes swapped.\<close>

record block_history_record =
  bhr_packet_id :: u8
  bhr_x :: u16
  bhr_y :: u16
  bhr_z :: u16
  bhr_block_id :: u8

abbreviation history_data_unit_size :: nat where
  "history_data_unit_size \<equiv> 8"

definition record_to_bytes :: "block_history_record \<Rightarrow> bytes" where
  "record_to_bytes r = [bhr_packet_id r] @ to_le 2 (bhr_x r) @ to_le 2 (bhr_y r) @ to_le 2 (bhr_z r) @
     [bhr_block_id r]"

definition record_of_bytes :: "bytes \<Rightarrow> block_history_record" where
  "record_of_bytes bs =
     \<lparr>bhr_packet_id = bs ! 0, bhr_x = of_le (segment 1 2 bs), bhr_y = of_le (segment 3 2 bs),
      bhr_z = of_le (segment 5 2 bs), bhr_block_id = bs ! 7\<rparr>"

definition block_history_add_record ::
    "coordinate3d \<Rightarrow> u8 \<Rightarrow> double_buffering \<Rightarrow> bool \<times> double_buffering" where
  "block_history_add_record pos blk h =
     (let record = \<lparr>bhr_packet_id = PT_set_block_server, bhr_x = byteswap (cx pos),
                    bhr_y = byteswap (cy pos), bhr_z = byteswap (cz pos), bhr_block_id = blk\<rparr>
      in db_push (record_to_bytes record) h)"

definition block_history_get_record :: "nat \<Rightarrow> double_buffering \<Rightarrow> block_history_record" where
  "block_history_get_record index h =
     record_of_bytes (segment (index * history_data_unit_size) history_data_unit_size (hb_buf (output_buffer h)))"

definition block_history_size :: "double_buffering \<Rightarrow> nat" where
  "block_history_size h = length (get_snapshot_data h) div history_data_unit_size"

lemma length_record_to_bytes [simp]: "length (record_to_bytes r) = history_data_unit_size"
  by (simp add: record_to_bytes_def)

lemma record_of_to_bytes [simp]: "record_of_bytes (record_to_bytes r) = r"
proof -
  have "bhr_x r = of_le (to_le 2 (bhr_x r))" "bhr_y r = of_le (to_le 2 (bhr_y r))"
    "bhr_z r = of_le (to_le 2 (bhr_z r))"
    by (simp_all del: to_le_numeral)
  then show ?thesis
    by (simp add: record_of_bytes_def record_to_bytes_def segment_def)
qed

text \<open>The bytes of a history record are a \<open>PacketSetBlockServer\<close>: the history is sent as it is.\<close>

lemma record_is_packet:
  "record_to_bytes \<lparr>bhr_packet_id = PT_set_block_server, bhr_x = byteswap (cx pos),
     bhr_y = byteswap (cy pos), bhr_z = byteswap (cz pos), bhr_block_id = blk\<rparr> =
   set_block_server_bytes (set_block_server_make pos blk)"
  by (simp add: record_to_bytes_def set_block_server_bytes_def set_block_server_make_def write_defs
      del: to_le_numeral)

lemma block_history_add_record_eq:
  "block_history_add_record pos blk h = db_push (set_block_server_bytes (set_block_server_make pos blk)) h"
  by (simp add: block_history_add_record_def record_is_packet)

lemma block_history_get_record_nth:
  assumes "db_wf h" "get_snapshot_data h = concat (map record_to_bytes rs)" "i < length rs"
  shows "block_history_get_record i h = rs ! i"
proof -
  have c: "length (concat (map record_to_bytes xs)) = length xs * 8" for xs
    by (induction xs) simp_all
  have "i * 8 + 8 \<le> length (concat (map record_to_bytes rs))"
    using assms(3) by (simp add: c)
  moreover have "segment (i * 8) 8 (concat (map record_to_bytes rs)) = record_to_bytes (rs ! i)"
    using assms(3)
  proof (induction rs arbitrary: i)
    case (Cons r rs)
    then show ?case by (cases i) (simp_all add: segment_def)
  qed simp
  moreover have "segment (i * 8) 8 (hb_buf (output_buffer h)) = segment (i * 8) 8 (get_snapshot_data h)"
    if "i * 8 + 8 \<le> length (get_snapshot_data h)"
  proof -
    have "i * 8 + 8 \<le> hb_size (output_buffer h)"
      using that by (simp add: get_snapshot_data_def hb_contents_def)
    then have "8 \<le> hb_size (output_buffer h) - i * 8"
      by linarith
    then show ?thesis
      by (simp add: get_snapshot_data_def hb_contents_def segment_def drop_take min_absorb1)
  qed
  ultimately show ?thesis
    using assms(2) by (simp add: block_history_get_record_def)
qed

lemma block_history_size_records:
  "get_snapshot_data h = concat (map record_to_bytes rs) \<Longrightarrow> block_history_size h = length rs"
proof -
  have "length (concat (map record_to_bytes rs)) = length rs * 8"
    by (induction rs) simp_all
  then show "get_snapshot_data h = concat (map record_to_bytes rs) \<Longrightarrow> ?thesis"
    by (simp add: block_history_size_def)
qed

end
