(* ===== verification/World_Map.thy ===== *)
theory World_Map
  imports History
begin

section \<open>The block map\<close>

text \<open>
  \<open>game/world_generator.h\<close>/\<open>.cpp\<close> and the block map of \<open>game/world.cpp\<close>: the file with the
  blocks of the world, its generation, and the commit of the recorded block changes to the mapped
  file. The file starts with a header of four bytes, the volume.
\<close>

record world_metadata =
  md_format_version :: i32
  md_width :: i32
  md_height :: i32
  md_length :: i32
  md_volume :: u32
  md_spawn_x :: i32
  md_spawn_y :: i32
  md_spawn_z :: i32
  md_spawn_yaw :: u32
  md_spawn_pitch :: u32
  md_created_at :: u64

abbreviation block_file_header_size :: nat where
  "block_file_header_size \<equiv> 4"

subsection \<open>Generation\<close>

definition memset :: "nat \<Rightarrow> u8 \<Rightarrow> nat \<Rightarrow> bytes \<Rightarrow> bytes" where
  "memset off v n mem = blit off (replicate n v) mem"

text \<open>
  The sizes of the map, three shorts, are multiplied as \<open>int\<close>. A world is generated from positive
  sizes, so the lengths are natural numbers.
\<close>

definition generate_flat_world :: "nat \<Rightarrow> nat \<Rightarrow> nat \<Rightarrow> bytes" where
  "generate_flat_world sx sy sz =
     (let plain_size = sx * sz;
          blocks = replicate (plain_size * sy) 0;
          num_of_dirt_block = plain_size * (sy div 2);
          blocks = memset 0 B_dirt num_of_dirt_block blocks;
          blocks = memset num_of_dirt_block B_grass plain_size blocks
      in memset 0 B_bedrock plain_size blocks)"

text \<open>
  The file is opened without \<open>std::ios::binary\<close>: on Windows, where this program runs, each byte
  \<open>0x0A\<close> is written as \<open>0x0D 0x0A\<close>.
\<close>

definition text_mode_write :: "bytes \<Rightarrow> bytes" where
  "text_mode_write bs = concat (map (\<lambda>b. if b = 0x0A then [0x0D, 0x0A] else [b]) bs)"

text \<open>\<open>htonl\<close> stores the volume with the most significant byte first.\<close>

definition create_block_file :: "nat \<Rightarrow> nat \<Rightarrow> nat \<Rightarrow> u32 \<Rightarrow> bytes" where
  "create_block_file sx sy sz map_volume =
     (let blocks = generate_flat_world sx sy sz
      in text_mode_write (take block_file_header_size (to_le 8 (ucast (byteswap map_volume) :: u64)))
         @ text_mode_write (take (sx * sy * sz) blocks))"

definition create_metadata :: "u64 \<Rightarrow> coordinate3d \<Rightarrow> world_metadata" where
  "create_metadata now size3 =
     (let x = scast (cx size3) :: i32; y = scast (cy size3) :: i32; z = scast (cz size3) :: i32
      in \<lparr>md_format_version = 1, md_width = x, md_height = y, md_length = z,
          md_volume = x * y * z,
          md_spawn_x = word_of_int (sint x div 2), md_spawn_y = y, md_spawn_z = word_of_int (sint z div 2),
          md_spawn_yaw = 0, md_spawn_pitch = 0, md_created_at = now\<rparr>)"

text \<open>
  \<open>create_world_if_not_exist\<close>: nothing when there is a metadata file; otherwise the two files. A
  size below 10 is a fatal log message, which ends the process: \<open>None\<close>. The sizes of the
  configuration are cut to shorts; a size above 32767 becomes negative, and then the allocation
  of the blocks is undefined, also \<open>None\<close>.
\<close>

definition create_world_if_not_exist ::
    "bool \<Rightarrow> u64 \<Rightarrow> i32 \<Rightarrow> i32 \<Rightarrow> i32 \<Rightarrow> (bytes \<times> world_metadata) option option" where
  "create_world_if_not_exist metadata_exists now width height len =
     (if metadata_exists then Some None
      else if sint width < 10 \<or> sint height < 10 \<or> sint len < 10 then None
      else let m = Coordinate3D width height len;
               volume = (scast (cx m) * scast (cy m) * scast (cz m) :: i32)
           in if sint (cx m) \<le> 0 \<or> sint (cy m) \<le> 0 \<or> sint (cz m) \<le> 0 then None
              else Some (Some (create_block_file (unat (cx m)) (unat (cy m)) (unat (cz m)) volume,
                             create_metadata now m)))"

subsection \<open>Block changes\<close>

text \<open>
  The coordinates come from a history record, with their bytes swapped. The products with the
  sizes of the map are \<open>int\<close>, extended to \<open>std::size_t\<close> in the sum.
\<close>

definition coordinate_to_block_map_index :: "world_metadata \<Rightarrow> u16 \<Rightarrow> u16 \<Rightarrow> u16 \<Rightarrow> u64" where
  "coordinate_to_block_map_index md x y z =
     4 + scast (ucast (byteswap x) :: i32)
       + scast (md_width md * ucast (byteswap z) :: i32)
       + scast (md_width md * md_length md * ucast (byteswap y) :: i32)"

definition commit_record :: "world_metadata \<Rightarrow> block_history_record \<Rightarrow> bytes \<Rightarrow> bytes" where
  "commit_record md r blocks =
     (let i = coordinate_to_block_map_index md (bhr_x r) (bhr_y r) (bhr_z r)
      in if i < ucast (md_volume md) then blocks[unat i := bhr_block_id r] else blocks)"

definition commit_block_changes :: "world_metadata \<Rightarrow> double_buffering \<Rightarrow> bytes \<Rightarrow> bytes" where
  "commit_block_changes md h blocks =
     fold (\<lambda>i. commit_record md (block_history_get_record i h)) [0..<block_history_size h] blocks"

text \<open>What the level packet compresses: \<open>volume\<close> bytes of the mapped file.\<close>

definition level_input :: "world_metadata \<Rightarrow> bytes \<Rightarrow> bytes" where
  "level_input md blocks = take (unat (md_volume md)) blocks"

subsection \<open>The generated world\<close>

lemma length_memset [simp]: "off + n \<le> length mem \<Longrightarrow> length (memset off v n mem) = length mem"
  by (simp add: memset_def)

lemma nth_memset: "off + n \<le> length mem \<Longrightarrow> i < length mem \<Longrightarrow>
    memset off v n mem ! i = (if off \<le> i \<and> i < off + n then v else mem ! i)"
  by (auto simp: memset_def nth_blit)

lemma flat_world_room:
  assumes "0 < (sy :: nat)"
  shows "n * (sy div 2) \<le> n * sy" "n * (sy div 2) + n \<le> n * sy" "n \<le> n * sy"
proof -
  have "sy div 2 + 1 \<le> sy" using assms by linarith
  then have "n * (sy div 2 + 1) \<le> n * sy" by (rule mult_le_mono2)
  then show "n * (sy div 2) \<le> n * sy" "n * (sy div 2) + n \<le> n * sy" "n \<le> n * sy"
    using assms by (simp_all add: Suc_leI)
qed

lemma length_generate_flat_world:
  "0 < sy \<Longrightarrow> length (generate_flat_world sx sy sz) = sx * sz * sy"
  using flat_world_room [of sy "sx * sz"] by (simp add: generate_flat_world_def Let_def)

definition flat_world_block :: "nat \<Rightarrow> nat \<Rightarrow> u8" where
  "flat_world_block sy layer =
     (if layer = 0 then B_bedrock else if layer < sy div 2 then B_dirt
      else if layer = sy div 2 then B_grass else B_air)"

text \<open>Layer by layer: bedrock, dirt, one layer of grass, air.\<close>

lemma generate_flat_world_nth:
  assumes "0 < sy" "i < sx * sz * sy"
  shows "generate_flat_world sx sy sz ! i = flat_world_block sy (i div (sx * sz))"
proof -
  let ?n = "sx * sz"
  note r = flat_world_room [OF assms(1), of ?n]
  have n: "0 < ?n" using assms(2) by (cases "?n = 0") auto
  have "generate_flat_world sx sy sz ! i = (if i < ?n then B_bedrock
      else if ?n * (sy div 2) \<le> i \<and> i < ?n * (sy div 2) + ?n then B_grass
      else if i < ?n * (sy div 2) then B_dirt else 0)"
    using r assms(2) by (simp add: generate_flat_world_def Let_def nth_memset)
  moreover have "i < ?n \<longleftrightarrow> i div ?n = 0" using n by (metis div_less div_eq_0_iff not_gr_zero)
  moreover have "?n * (sy div 2) \<le> i \<longleftrightarrow> sy div 2 \<le> i div ?n"
    using n by (simp add: less_eq_div_iff_mult_less_eq mult.commute)
  moreover have "i < ?n * (sy div 2) + ?n \<longleftrightarrow> i div ?n < sy div 2 + 1"
    using n by (simp add: div_less_iff_less_mult algebra_simps)
  ultimately show ?thesis by (auto simp: flat_world_block_def)
qed

subsection \<open>The index of a block\<close>

text \<open>The sizes of a world whose volume fits an \<open>int\<close>.\<close>

definition md_wf :: "world_metadata \<Rightarrow> nat \<Rightarrow> nat \<Rightarrow> nat \<Rightarrow> bool" where
  "md_wf md w h l \<longleftrightarrow> md_width md = of_nat w \<and> md_height md = of_nat h \<and> md_length md = of_nat l \<and>
     unat (md_volume md) = w * l * h \<and> 0 < w \<and> 0 < h \<and> 0 < l \<and> w < 2 ^ 15 \<and> l < 2 ^ 15 \<and> h < 2 ^ 15 \<and>
     w * l * h < 2 ^ 31"

lemma scast_of_nat:
  assumes "n < 2 ^ 31"
  shows "scast (of_nat n :: i32) = (of_nat n :: u64)"
proof -
  have s: "sint (of_nat n :: i32) = int n"
    using assms by (simp add: signed_of_nat signed_take_bit_int_eq_self)
  show ?thesis unfolding scast_eq s by simp
qed

lemma ucast_of_nat_unat: "(ucast (x :: u16) :: i32) = of_nat (unat x)"
  by simp

lemma coordinate_index:
  assumes md: "md_wf md w h l" and y: "w * l * unat y < 2 ^ 31"
  shows "unat (coordinate_to_block_map_index md (byteswap x) (byteswap y) (byteswap z)) =
    4 + unat x + w * unat z + w * l * unat y"
proof -
  from md have w: "md_width md = of_nat w" and l: "md_length md = of_nat l" and b: "w < 2 ^ 15"
    by (simp_all add: md_wf_def)
  have x: "unat x < 2 ^ 16" "unat z < 2 ^ 16" using unsigned_less [of x] unsigned_less [of z] by simp_all
  have "w * unat z \<le> 2 ^ 15 * (2 ^ 16 - 1)" using b x(2) by (intro mult_le_mono) simp_all
  then have z: "w * unat z < 2 ^ 31" by simp
  have x': "unat x < 2 ^ 31" using x(1) by simp
  have e: "coordinate_to_block_map_index md (byteswap x) (byteswap y) (byteswap z) =
      of_nat (4 + unat x + w * unat z + w * l * unat y)"
    using scast_of_nat [OF x'] scast_of_nat [OF z] scast_of_nat [OF y]
    by (simp add: coordinate_to_block_map_index_def w l)
  show ?thesis unfolding e unat_of_nat using x' y z by (simp add: take_bit_nat_eq_self)
qed

subsection \<open>Committing a history\<close>

type_synonym change = "u16 \<times> u16 \<times> u16 \<times> u8"

definition change_record :: "change \<Rightarrow> block_history_record" where
  "change_record c = (case c of (x, y, z, b) \<Rightarrow>
     \<lparr>bhr_packet_id = PT_set_block_server, bhr_x = byteswap x, bhr_y = byteswap y, bhr_z = byteswap z,
      bhr_block_id = b\<rparr>)"

definition in_world :: "nat \<Rightarrow> nat \<Rightarrow> nat \<Rightarrow> change \<Rightarrow> bool" where
  "in_world w h l c = (case c of (x, y, z, b) \<Rightarrow> unat x < w \<and> unat y < h \<and> unat z < l)"

definition block_index :: "nat \<Rightarrow> nat \<Rightarrow> nat \<Rightarrow> nat \<Rightarrow> nat \<Rightarrow> nat" where
  "block_index w l x y z = 4 + x + w * z + w * l * y"

definition change_index :: "nat \<Rightarrow> nat \<Rightarrow> change \<Rightarrow> nat" where
  "change_index w l c = (case c of (x, y, z, b) \<Rightarrow> block_index w l (unat x) (unat y) (unat z))"

text \<open>
  The coordinates of a change are what the client sent, nothing checks them. As long as the product
  with the height is an \<open>int\<close> (otherwise the code is undefined), \<open>change_index\<close> is where the change goes.
\<close>

definition index_defined :: "nat \<Rightarrow> nat \<Rightarrow> change \<Rightarrow> bool" where
  "index_defined w l c = (case c of (x, y, z, b) \<Rightarrow> w * l * unat y < 2 ^ 31)"

text \<open>
  The references, the last change winning: the byte at an index after the changes, and the block at a
  place of the world.
\<close>

definition byte_after :: "nat \<Rightarrow> nat \<Rightarrow> nat \<Rightarrow> change list \<Rightarrow> u8 \<Rightarrow> u8" where
  "byte_after w l i = fold (\<lambda>c v. if change_index w l c = i then snd (snd (snd c)) else v)"

definition block_after :: "u16 \<Rightarrow> u16 \<Rightarrow> u16 \<Rightarrow> change list \<Rightarrow> u8 \<Rightarrow> u8" where
  "block_after x y z = fold (\<lambda>(x', y', z', b) v. if x' = x \<and> y' = y \<and> z' = z then b else v)"

lemma block_index_inject:
  assumes "x < w" "x' < w" "z < l" "z' < l" "block_index w l x y z = block_index w l x' y' z'"
  shows "x = x' \<and> z = z' \<and> y = y'"
proof -
  have e: "x + w * (z + l * y) = x' + w * (z' + l * y')"
    using assms(5) by (simp add: block_index_def algebra_simps)
  have x: "x = x'" using arg_cong [OF e, of "\<lambda>n. n mod w"] assms(1,2) by simp
  have f: "z + l * y = z' + l * y'" using e x assms(1) by simp
  have "z = z'" using arg_cong [OF f, of "\<lambda>n. n mod l"] assms(3,4) by simp
  with x f assms(3) show ?thesis by simp
qed

lemma in_world_index_defined:
  assumes "md_wf md w h l" "in_world w h l c"
  shows "index_defined w l c"
proof -
  obtain x y z b where c: "c = (x, y, z, b)" by (metis prod_cases4)
  have "w * l * unat y \<le> w * l * h" using assms(2) by (intro mult_le_mono2) (simp add: c in_world_def)
  moreover have "w * l * h < 2 ^ 31" using assms(1) by (simp only: md_wf_def)
  ultimately have "w * l * unat y < 2 ^ 31" by (rule le_less_trans)
  then show ?thesis by (simp only: c index_defined_def prod.case)
qed

lemma commit_record_index:
  assumes md: "md_wf md w h l" and c: "index_defined w l c"
  shows "commit_record md (change_record c) blocks =
    (if change_index w l c < w * l * h then blocks[change_index w l c := snd (snd (snd c))] else blocks)"
proof -
  obtain x y z b where e: "c = (x, y, z, b)" by (metis prod_cases4)
  let ?i = "coordinate_to_block_map_index md (byteswap x) (byteswap y) (byteswap z)"
  have i: "unat ?i = change_index w l c"
    using coordinate_index [OF md, of y x z] c by (simp add: e index_defined_def change_index_def block_index_def)
  have "unat (ucast (md_volume md) :: u64) = w * l * h"
    using md by (simp add: md_wf_def unsigned_ucast_eq take_bit_nat_eq_self)
  then have "?i < ucast (md_volume md) \<longleftrightarrow> unat ?i < w * l * h" by (simp add: word_less_nat_alt)
  with i show ?thesis by (simp add: e commit_record_def change_record_def Let_def)
qed

lemma commit_block_changes_fold:
  assumes "db_wf hist" "get_snapshot_data hist = concat (map record_to_bytes rs)"
  shows "commit_block_changes md hist blocks = fold (commit_record md) rs blocks"
proof -
  have n: "block_history_size hist = length rs" by (rule block_history_size_records [OF assms(2)])
  have "commit_block_changes md hist blocks = fold (\<lambda>i. commit_record md (rs ! i)) [0..<length rs] blocks"
    unfolding commit_block_changes_def n
    by (rule fold_cong) (auto simp: block_history_get_record_nth [OF assms])
  also have "\<dots> = fold (commit_record md) (map ((!) rs) [0..<length rs]) blocks"
    by (simp add: fold_map comp_def)
  finally show ?thesis by (simp add: map_nth)
qed

lemma fold_commit_length:
  "length (fold (commit_record md) rs blocks) = length blocks"
  by (induction rs arbitrary: blocks) (simp_all add: commit_record_def Let_def)

lemma fold_commit_byte:
  assumes md: "md_wf md w h l" and "list_all (index_defined w l) cs" "length blocks = 4 + w * l * h"
  shows "fold (commit_record md) (map change_record cs) blocks ! i =
    (if i < w * l * h then byte_after w l i cs (blocks ! i) else blocks ! i)"
  using assms(2,3)
proof (induction cs arbitrary: blocks)
  case Nil
  then show ?case by (simp add: byte_after_def)
next
  case (Cons c cs)
  let ?blocks = "commit_record md (change_record c) blocks"
  have b: "?blocks ! i = (if i < w * l * h \<and> change_index w l c = i then snd (snd (snd c)) else blocks ! i)"
    using commit_record_index [OF md, of c blocks] Cons.prems by (auto simp: nth_list_update)
  have "length ?blocks = 4 + w * l * h"
    using fold_commit_length [of md "[change_record c]" blocks] Cons.prems(2) by simp
  with Cons.IH [of ?blocks] Cons.prems(1)
  have "fold (commit_record md) (map change_record cs) ?blocks ! i =
      (if i < w * l * h then byte_after w l i cs (?blocks ! i) else ?blocks ! i)" by simp
  then show ?case using b by (simp add: byte_after_def)
qed

lemma byte_after_block:
  assumes "list_all (in_world w h l) cs" "in_world w h l (x, y, z, b0)"
  shows "byte_after w l (block_index w l (unat x) (unat y) (unat z)) cs v = block_after x y z cs v"
  using assms(1)
proof (induction cs arbitrary: v)
  case (Cons c cs)
  obtain x' y' z' b where c: "c = (x', y', z', b)" by (metis prod_cases4)
  have "change_index w l c = block_index w l (unat x) (unat y) (unat z) \<longleftrightarrow> x' = x \<and> y' = y \<and> z' = z"
    using block_index_inject [of "unat x'" w "unat x" "unat z'" l "unat z" "unat y'" "unat y"] Cons.prems assms(2)
    by (auto simp: c change_index_def in_world_def word_unat_eq_iff)
  with Cons show ?case by (simp add: c byte_after_def block_after_def)
qed (simp add: byte_after_def block_after_def)

lemma byte_after_header: "i < 4 \<Longrightarrow> byte_after w l i cs v = v"
  by (induction cs arbitrary: v) (auto simp: byte_after_def change_index_def block_index_def)

text \<open>The blocks at the end of the file, whose index is not below the volume, cannot be changed.\<close>

lemma last_blocks_exist:
  assumes "md_wf md w h l" "4 \<le> w"
  shows "block_index w l (w - 1) (h - 1) (l - 1) = w * l * h + 3"
proof -
  have pos: "0 < w" "0 < l" "0 < h" using assms by (auto simp: md_wf_def)
  obtain h' where h: "h = Suc h'" using pos by (cases h) auto
  obtain l' where l: "l = Suc l'" using pos by (cases l) auto
  obtain w' where w: "w = Suc w'" using pos by (cases w) auto
  show ?thesis by (simp add: block_index_def h l w algebra_simps)
qed

subsection \<open>The file of a new world\<close>

text \<open>
  Without a byte \<open>0x0A\<close> in the volume, the file is the volume, most significant byte first, and
  then the blocks. Otherwise text mode inserts a byte and shifts every block.
\<close>

lemma text_mode_write_id: "0x0A \<notin> set bs \<Longrightarrow> text_mode_write bs = bs"
  by (induction bs) (auto simp: text_mode_write_def)

lemma text_mode_write_longer: "0x0A \<in> set bs \<Longrightarrow> length bs < length (text_mode_write bs)"
proof -
  have le: "length bs \<le> length (text_mode_write bs)" for bs
    by (induction bs) (auto simp: text_mode_write_def)
  show "0x0A \<in> set bs \<Longrightarrow> length bs < length (text_mode_write bs)"
  proof (induction bs)
    case (Cons b bs)
    then show ?case using le [of bs] by (auto simp: text_mode_write_def)
  qed simp
qed

lemma volume_header:
  "take block_file_header_size (to_le 8 (ucast (byteswap v) :: u64)) = rev (to_le 4 (v :: u32))"
proof -
  have "take 4 (to_le 8 (ucast (byteswap v) :: u64)) = to_le 4 (byteswap v)"
    by (simp, intro conjI; rule bit_word_eqI; auto simp: bit_simps dest: bit_imp_le_length)
  also have "\<dots> = rev (to_le 4 v)" by (rule to_le_byteswap) simp
  finally show ?thesis .
qed

lemma flat_world_bytes: "0 < sy \<Longrightarrow> 0x0A \<notin> set (generate_flat_world sx sy sz)"
proof
  assume s: "0 < sy" and "0x0A \<in> set (generate_flat_world sx sy sz)"
  then obtain i where "i < sx * sz * sy" "generate_flat_world sx sy sz ! i = 0x0A"
    by (auto simp: in_set_conv_nth length_generate_flat_world)
  then have "flat_world_block sy (i div (sx * sz)) = 0x0A" using generate_flat_world_nth [OF s] by simp
  then show False by (simp add: flat_world_block_def split: if_splits)
qed

lemma create_block_file_eq:
  assumes "0 < sy" "0x0A \<notin> set (rev (to_le 4 v))"
  shows "create_block_file sx sy sz v = rev (to_le 4 v) @ generate_flat_world sx sy sz"
proof -
  have "take (sx * sy * sz) (generate_flat_world sx sy sz) = generate_flat_world sx sy sz"
    using length_generate_flat_world [OF assms(1), of sx sz] by (simp add: algebra_simps)
  moreover have "text_mode_write (rev (to_le 4 v)) = rev (to_le 4 v)"
    by (rule text_mode_write_id [OF assms(2)])
  ultimately show ?thesis
    using text_mode_write_id [OF flat_world_bytes [OF assms(1), of sx sz]]
    unfolding create_block_file_def Let_def volume_header by (simp only:)
qed

subsection \<open>From the changes of the clients to the map\<close>

text \<open>Clients change blocks; the history accepts a change or has no room for it.\<close>

fun record_changes :: "change list \<Rightarrow> double_buffering \<Rightarrow> change list \<times> double_buffering" where
  "record_changes [] hist = ([], hist)"
| "record_changes ((x, y, z, b) # cs) hist =
     (let (ok, hist) = block_history_add_record \<lparr>cx = x, cy = y, cz = z\<rparr> b hist;
          (accepted, hist) = record_changes cs hist
      in ((if ok then [(x, y, z, b)] else []) @ accepted, hist))"

lemma record_changes_live:
  "db_wf hist \<Longrightarrow> record_changes cs hist = (accepted, hist') \<Longrightarrow>
    db_wf hist' \<and> set accepted \<subseteq> set cs \<and>
    db_live hist' = db_live hist @ concat (map (record_to_bytes \<circ> change_record) accepted)"
proof (induction cs arbitrary: hist accepted hist')
  case (Cons c cs)
  obtain x y z b where c: "c = (x, y, z, b)" by (metis prod_cases4)
  obtain ok h1 where a: "block_history_add_record \<lparr>cx = x, cy = y, cz = z\<rparr> b hist = (ok, h1)" by fastforce
  obtain acc where r: "record_changes cs h1 = (acc, hist')" and acc: "accepted = (if ok then [c] else []) @ acc"
    using Cons.prems(2) by (auto simp: c a Let_def split: prod.splits)
  have "db_push (record_to_bytes (change_record c)) hist = (ok, h1)"
    using a by (simp add: block_history_add_record_def change_record_def c)
  from db_push_laws [OF Cons.prems(1) this] Cons.IH [OF _ r] show ?case
    by (auto simp: acc comp_def)
qed simp

lemma commit_snapshot:
  assumes "db_wf hist" "db_live hist = []" "record_changes cs hist = (accepted, hist')"
  shows "commit_block_changes md (db_snapshot hist') blocks = fold (commit_record md) (map change_record accepted) blocks"
proof -
  note r = record_changes_live [OF assms(1,3)]
  have "get_snapshot_data (db_snapshot hist') = concat (map record_to_bytes (map change_record accepted))"
    using r assms(2) by (simp add: db.snap_swap)
  from commit_block_changes_fold [OF _ this, of md blocks] r show ?thesis by (simp add: db.wf_swap)
qed

text \<open>
  C6: The block changes that the history accepted are what the next commit writes to the mapped file. The
  coordinates may be any that a client sends, inside the world or not; only those for which the product with
  the height leaves the range of an \<open>int\<close>, where the code is undefined, are left out. Every byte
  of the file whose index is below the volume then has the block of the last accepted change whose index is
  that of the byte, or what it had; the other bytes, the header and the size of the file are kept. When all
  accepted changes are inside the world, every place of it has the block of the last accepted change there,
  or the block it had, as long as its index is below the volume. A change outside the world is not refused:
  one whose x is the width goes to the place with x 0 in the next row.
\<close>

theorem accepted_changes_committed:
  assumes "md_wf md w h l" "length blocks = 4 + w * l * h"
    and "db_wf hist" "db_live hist = []" "record_changes cs hist = (accepted, hist')"
    and "list_all (index_defined w l) cs"
  shows "let blocks' = commit_block_changes md (db_snapshot hist') blocks
    in (\<forall>i < length blocks. blocks' ! i = (if i < w * l * h then byte_after w l i accepted (blocks ! i) else blocks ! i)) \<and>
      length blocks' = length blocks \<and> take 4 blocks' = take 4 blocks \<and>
      (list_all (in_world w h l) accepted \<longrightarrow>
        (\<forall>x y z b. let i = block_index w l (unat x) (unat y) (unat z)
           in in_world w h l (x, y, z, b) \<and> i < w * l * h \<longrightarrow> blocks' ! i = block_after x y z accepted (blocks ! i)))"
proof -
  let ?blocks = "commit_block_changes md (db_snapshot hist') blocks"
  have cs: "list_all (index_defined w l) accepted"
    using record_changes_live [OF assms(3,5)] assms(6) by (auto simp: list_all_iff)
  have e: "?blocks ! i = (if i < w * l * h then byte_after w l i accepted (blocks ! i) else blocks ! i)" for i
    using fold_commit_byte [OF assms(1) cs assms(2)] commit_snapshot [OF assms(3,4,5)] by simp
  have len: "length ?blocks = length blocks" using commit_snapshot [OF assms(3,4,5)] fold_commit_length by simp
  moreover have "take 4 ?blocks = take 4 blocks"
    by (rule nth_equalityI) (simp_all add: len e byte_after_header)
  moreover have "?blocks ! block_index w l (unat x) (unat y) (unat z) =
      block_after x y z accepted (blocks ! block_index w l (unat x) (unat y) (unat z))"
    if "list_all (in_world w h l) accepted" "in_world w h l (x, y, z, b)"
      "block_index w l (unat x) (unat y) (unat z) < w * l * h" for x y z b
    using e byte_after_block [OF that(1,2)] that(3) by simp
  ultimately show ?thesis using e unfolding Let_def by blast
qed

definition sample_md :: world_metadata where
  "sample_md = \<lparr>md_format_version = 1, md_width = 16, md_height = 16, md_length = 16, md_volume = 4096,
     md_spawn_x = 8, md_spawn_y = 16, md_spawn_z = 8, md_spawn_yaw = 0, md_spawn_pitch = 0, md_created_at = 0\<rparr>"

lemma sample_md_wf: "md_wf sample_md 16 16 16"
  by (simp add: md_wf_def sample_md_def)

theorem accepted_changes_committed_witness:
  "\<exists>accepted hist'. record_changes [(16, 2, 3, B_stone)] (db_new (replicate 64 0) (replicate 64 0)) = (accepted, hist') \<and>
    commit_block_changes sample_md (db_snapshot hist') (replicate 4100 7) ! block_index 16 16 0 2 4 =
      byte_after 16 16 (block_index 16 16 0 2 4) accepted 7"
proof -
  obtain accepted hist' where r:
    "record_changes [(16, 2, 3, B_stone)] (db_new (replicate 64 0) (replicate 64 0)) = (accepted, hist')" by fastforce
  have "list_all (index_defined 16 16) [(16, 2, 3, B_stone)]" by (simp add: index_defined_def)
  from accepted_changes_committed [OF sample_md_wf _ db_new_wf(1,2) r this, of "replicate 4100 7"] r
  show ?thesis by (simp add: block_index_def Let_def)
qed

text \<open>
  C27: The block in the far corner of a world can never be changed: its index, which counts the
  header, is not below the volume, and the commit ignores every change to it.
\<close>

theorem far_corner_never_changes:
  assumes "md_wf md w h l" "4 \<le> w" "length blocks = 4 + w * l * h"
    and "db_wf hist" "db_live hist = []"
    and "list_all (in_world w h l) cs" "record_changes cs hist = (accepted, hist')"
  shows "block_index w l (w - 1) (h - 1) (l - 1) = w * l * h + 3 \<and>
    commit_block_changes md (db_snapshot hist') blocks ! (w * l * h + 3) = blocks ! (w * l * h + 3)"
proof -
  have "list_all (in_world w h l) accepted"
    using record_changes_live [OF assms(4,7)] assms(6) by (auto simp: list_all_iff)
  then have cs: "list_all (index_defined w l) accepted"
    using in_world_index_defined [OF assms(1)] by (auto simp: list_all_iff)
  show ?thesis
    using fold_commit_byte [OF assms(1) cs assms(3), of "w * l * h + 3"] commit_snapshot [OF assms(4,5,7)]
      last_blocks_exist [OF assms(1,2)] by simp
qed

theorem far_corner_never_changes_witness:
  "\<exists>accepted hist'. record_changes [(15, 15, 15, B_stone)] (db_new (replicate 64 0) (replicate 64 0)) = (accepted, hist') \<and>
    commit_block_changes sample_md (db_snapshot hist') (replicate 4100 7) ! 4099 = 7"
proof -
  obtain accepted hist' where r:
    "record_changes [(15, 15, 15, B_stone)] (db_new (replicate 64 0) (replicate 64 0)) = (accepted, hist')" by fastforce
  have "list_all (in_world 16 16 16) [(15, 15, 15, B_stone)]" by (simp add: in_world_def)
  from far_corner_never_changes [OF sample_md_wf _ _ db_new_wf(1,2) this r, of "replicate 4100 7"] r show ?thesis by simp
qed

text \<open>
  The file of a new world is its volume in network order and then the blocks, exactly when no
  byte of the volume is a line feed: the file is written in text mode, which puts a carriage
  return before each of them and moves every block behind it.
\<close>

theorem block_file_correct:
  assumes "0 < sy"
  shows "create_block_file sx sy sz v = rev (to_le 4 v) @ generate_flat_world sx sy sz \<longleftrightarrow> 0x0A \<notin> set (to_le 4 v)"
proof (cases "0x0A \<in> set (to_le 4 v)")
  case True
  have "take (sx * sy * sz) (generate_flat_world sx sy sz) = generate_flat_world sx sy sz"
    using length_generate_flat_world [OF assms, of sx sz] by (simp add: algebra_simps)
  with text_mode_write_id [OF flat_world_bytes [OF assms, of sx sz]]
  have "create_block_file sx sy sz v = text_mode_write (rev (to_le 4 v)) @ generate_flat_world sx sy sz"
    unfolding create_block_file_def Let_def volume_header by (simp only:)
  moreover have "length (rev (to_le 4 v)) < length (text_mode_write (rev (to_le 4 v)))"
    using True by (intro text_mode_write_longer) (simp del: to_le_numeral)
  ultimately show ?thesis using True by (metis append_same_eq less_irrefl)
next
  case False
  then show ?thesis using create_block_file_eq [OF assms, of v] by (simp del: to_le_numeral)
qed

theorem block_file_correct_witness:
  "create_block_file 16 16 16 4096 = rev (to_le 4 (4096 :: u32)) @ generate_flat_world 16 16 16 \<and>
   create_block_file 16 10 16 2560 \<noteq> rev (to_le 4 (2560 :: u32)) @ generate_flat_world 16 10 16"
  using block_file_correct [of 16 16 16 4096] block_file_correct [of 10 16 16 2560] by simp

text \<open>
  In the file of a new world the index by which the server finds a block leads to the block of
  its layer: bedrock at the bottom, dirt below and grass at half the height, air above.
\<close>

theorem new_world_blocks:
  assumes "md_wf md w h l" "unat x < w" "unat y < h" "unat z < l" "0x0A \<notin> set (to_le 4 (md_volume md))"
  shows "create_block_file w h l (md_volume md) !
      unat (coordinate_to_block_map_index md (byteswap x) (byteswap y) (byteswap z)) = flat_world_block h (unat y)"
proof -
  have h: "0 < h" using assms(3) by linarith
  let ?i = "unat x + w * unat z + w * l * unat y"
  have z: "w * unat z + w \<le> w * l"
    using assms(4) by (metis Suc_leI add.commute mult_Suc_right mult_le_mono2)
  with assms(2) have lo: "unat x + w * unat z < w * l" by linarith
  have "w * l * unat y + w * l \<le> w * l * h"
    using assms(3) by (metis Suc_leI add.commute mult_Suc_right mult_le_mono2)
  with lo have i: "?i < w * l * h" by linarith
  have "?i div (w * l) = unat y"
    by (rule div_nat_eqI) (use lo in \<open>simp_all add: mult.commute [of "unat y"] mult.assoc [symmetric]\<close>)
  with generate_flat_world_nth [OF h i] have g: "generate_flat_world w h l ! ?i = flat_world_block h (unat y)" by simp
  have "in_world w h l (x, y, z, 0)" using assms(2-4) by (simp add: in_world_def)
  from in_world_index_defined [OF assms(1) this] have "w * l * unat y < 2 ^ 31" by (simp only: index_defined_def prod.case)
  note c = coordinate_index [OF assms(1) this, of x z]
  from g show ?thesis
    using create_block_file_eq [OF h, of "md_volume md" w l] assms(5) c
    by (simp add: nth_append add.assoc del: to_le_numeral)
qed

theorem new_world_blocks_witness:
  "create_block_file 16 16 16 4096 ! unat (coordinate_to_block_map_index sample_md (byteswap 1) (byteswap 8) (byteswap 3)) = B_grass"
  using new_world_blocks [OF sample_md_wf, of 1 8 3] by (simp add: sample_md_def flat_world_block_def)

end
