(* ===== verification/Tasks.thy ===== *)
theory Tasks
  imports History
begin

section \<open>Tasks\<close>

text \<open>
  \<open>io/task.h\<close> and \<open>game/world_task.h\<close>: the task state with its cooldown, and the four kinds
  of tasks of the world. \<open>now\<close> is what \<open>current_monotonic_tick()\<close> returns, in milliseconds
  since boot; the sums with it do not reach \<open>2 ^ 64\<close> and are natural numbers. A handler is a
  function on the rest of the program's state \<open>'w\<close>. Players are named by their addresses.
\<close>

datatype task_state = T_unused | T_processing | T_failed

record task =
  tk_state :: task_state
  tk_interval_ms :: nat
  tk_cooldown_at :: nat

definition task_new :: "nat \<Rightarrow> task" where
  "task_new interval = \<lparr>tk_state = T_unused, tk_interval_ms = interval, tk_cooldown_at = 0\<rparr>"

definition task_status :: "'a task_scheme \<Rightarrow> task_state" where
  "task_status t = tk_state t"

definition task_ready :: "nat \<Rightarrow> 'a task_scheme \<Rightarrow> bool" where
  "task_ready now t \<longleftrightarrow> tk_state t = T_unused \<and> tk_cooldown_at t < now"

definition task_set_state :: "nat \<Rightarrow> task_state \<Rightarrow> 'a task_scheme \<Rightarrow> 'a task_scheme" where
  "task_set_state now s t =
     (let t = (if s = T_processing then t\<lparr>tk_cooldown_at := tk_interval_ms t + now\<rparr> else t)
      in t\<lparr>tk_state := s\<rparr>)"

definition task_transit_state :: "task_state \<Rightarrow> task_state \<Rightarrow> 'a task_scheme \<Rightarrow> bool \<times> 'a task_scheme" where
  "task_transit_state old new t =
     (let s = (if tk_state t = old then new else old)
      in (s = new, t\<lparr>tk_state := s\<rparr>))"

definition task_before_scheduling :: "nat \<Rightarrow> 'a task_scheme \<Rightarrow> 'a task_scheme" where
  "task_before_scheduling now t = task_set_state now T_processing t"

definition simple_on_event_complete ::
    "('w \<Rightarrow> 'w) \<Rightarrow> nat \<Rightarrow> 'a task_scheme \<Rightarrow> 'w \<Rightarrow> 'a task_scheme \<times> 'w" where
  "simple_on_event_complete handler now t w = (task_set_state now T_unused t, handler w)"

lemma task_set_state_simps [simp]:
  "tk_state (task_set_state now s t) = s"
  "tk_interval_ms (task_set_state now s t) = tk_interval_ms t"
  "tk_cooldown_at (task_set_state now s t) =
     (if s = T_processing then tk_interval_ms t + now else tk_cooldown_at t)"
  "task.more (task_set_state now s t) = task.more t"
  by (simp_all add: task_set_state_def Let_def)

lemma task_set_state_more: "task_set_state now s t =
    \<lparr>tk_state = s, tk_interval_ms = tk_interval_ms t,
     tk_cooldown_at = (if s = T_processing then tk_interval_ms t + now else tk_cooldown_at t),
     \<dots> = task.more t\<rparr>"
  by (cases t) (simp add: task_set_state_def Let_def)

subsection \<open>Player tasks\<close>

record world_player_task = task +
  wp_players_target :: "nat list"
  wp_players_queue :: "nat list"

definition world_player_task_new :: "nat \<Rightarrow> world_player_task" where
  "world_player_task_new interval =
     \<lparr>tk_state = T_unused, tk_interval_ms = interval, tk_cooldown_at = 0,
      wp_players_target = [], wp_players_queue = []\<rparr>"

definition wp_ready :: "nat \<Rightarrow> world_player_task \<Rightarrow> bool" where
  "wp_ready now t \<longleftrightarrow> task_ready now t \<and> wp_players_queue t \<noteq> []"

definition wp_before_scheduling :: "nat \<Rightarrow> world_player_task \<Rightarrow> world_player_task" where
  "wp_before_scheduling now t =
     (let t = task_set_state now T_processing t
      in t\<lparr>wp_players_queue := wp_players_target t, wp_players_target := wp_players_queue t\<rparr>)"

definition wp_push :: "nat \<Rightarrow> world_player_task \<Rightarrow> world_player_task" where
  "wp_push player t = t\<lparr>wp_players_queue := wp_players_queue t @ [player]\<rparr>"

definition wp_on_event_complete ::
    "(nat list \<Rightarrow> 'w \<Rightarrow> 'w) \<Rightarrow> nat \<Rightarrow> world_player_task \<Rightarrow> 'w \<Rightarrow> world_player_task \<times> 'w" where
  "wp_on_event_complete handler now t w =
     (let w = handler (wp_players_target t) w;
          t = t\<lparr>wp_players_target := []\<rparr>
      in (task_set_state now T_unused t, w))"

lemma wp_simps [simp]:
  "wp_players_queue (task_set_state now s t) = wp_players_queue t"
  "wp_players_target (task_set_state now s t) = wp_players_target t"
  by (cases t, simp add: task_set_state_more)+

text \<open>
  The two vectors are a snapshot queue: a player pushed while the task runs waits for the next
  run, and no player is lost or handled twice for one push.
\<close>

definition wp_swap :: "world_player_task \<Rightarrow> world_player_task" where
  "wp_swap t = wp_before_scheduling 0 t"

definition wp_clear :: "world_player_task \<Rightarrow> world_player_task" where
  "wp_clear t = fst (wp_on_event_complete (\<lambda>_ w. w) 0 t ())"

interpretation wpq: snapshot_queue wp_players_queue wp_players_target "\<lambda>p. [p]" "\<lambda>p t. (True, wp_push p t)"
  wp_swap wp_clear "\<lambda>_. True"
  by unfold_locales (auto simp: wp_push_def wp_swap_def wp_clear_def wp_before_scheduling_def
      wp_on_event_complete_def Let_def)

subsection \<open>The block synchronisation task\<close>

record block_sync_task = task +
  bs_history :: double_buffering
  bs_level_wait_players :: "nat list"
  bs_level_wait_player_queue :: "nat list"

definition block_sync_task_new :: "double_buffering \<Rightarrow> nat \<Rightarrow> block_sync_task" where
  "block_sync_task_new h interval =
     \<lparr>tk_state = T_unused, tk_interval_ms = interval, tk_cooldown_at = 0,
      bs_history = h, bs_level_wait_players = [], bs_level_wait_player_queue = []\<rparr>"

definition bs_ready :: "nat \<Rightarrow> block_sync_task \<Rightarrow> bool" where
  "bs_ready now t \<longleftrightarrow>
     task_ready now t \<and> (has_live_data (bs_history t) \<or> bs_level_wait_player_queue t \<noteq> [])"

definition bs_before_scheduling :: "nat \<Rightarrow> block_sync_task \<Rightarrow> block_sync_task" where
  "bs_before_scheduling now t =
     (let t = t\<lparr>bs_level_wait_player_queue := bs_level_wait_players t,
                bs_level_wait_players := bs_level_wait_player_queue t\<rparr>;
          t = t\<lparr>bs_history := db_snapshot (bs_history t)\<rparr>
      in task_set_state now T_processing t)"

definition bs_push_player :: "nat \<Rightarrow> block_sync_task \<Rightarrow> block_sync_task" where
  "bs_push_player player t = t\<lparr>bs_level_wait_player_queue := bs_level_wait_player_queue t @ [player]\<rparr>"

definition bs_push_block :: "coordinate3d \<Rightarrow> u8 \<Rightarrow> block_sync_task \<Rightarrow> bool \<times> block_sync_task" where
  "bs_push_block pos blk t =
     (let (ok, h) = block_history_add_record pos blk (bs_history t) in (ok, t\<lparr>bs_history := h\<rparr>))"

definition bs_on_event_complete ::
    "(nat list \<Rightarrow> double_buffering \<Rightarrow> 'w \<Rightarrow> 'w) \<Rightarrow> nat \<Rightarrow> block_sync_task \<Rightarrow> 'w \<Rightarrow> block_sync_task \<times> 'w" where
  "bs_on_event_complete handler now t w =
     (let w = handler (bs_level_wait_players t) (bs_history t) w;
          t = t\<lparr>bs_level_wait_players := []\<rparr>;
          t = t\<lparr>bs_history := db_clear_snapshot (bs_history t)\<rparr>
      in (task_set_state now T_unused t, w))"

lemma bs_simps [simp]:
  "bs_history (task_set_state now s t) = bs_history t"
  "bs_level_wait_players (task_set_state now s t) = bs_level_wait_players t"
  "bs_level_wait_player_queue (task_set_state now s t) = bs_level_wait_player_queue t"
  by (cases t, simp add: task_set_state_more)+

subsection \<open>The common chat task\<close>

record common_chat_task = task +
  cc_history :: double_buffering

definition common_chat_task_new :: "double_buffering \<Rightarrow> nat \<Rightarrow> common_chat_task" where
  "common_chat_task_new h interval =
     \<lparr>tk_state = T_unused, tk_interval_ms = interval, tk_cooldown_at = 0, cc_history = h\<rparr>"

definition cc_ready :: "nat \<Rightarrow> common_chat_task \<Rightarrow> bool" where
  "cc_ready now t \<longleftrightarrow> task_ready now t \<and> has_live_data (cc_history t)"

definition cc_before_scheduling :: "nat \<Rightarrow> common_chat_task \<Rightarrow> common_chat_task" where
  "cc_before_scheduling now t =
     task_set_state now T_processing (t\<lparr>cc_history := db_snapshot (cc_history t)\<rparr>)"

definition cc_push :: "bytes \<Rightarrow> common_chat_task \<Rightarrow> bool \<times> common_chat_task" where
  "cc_push chat t =
     (let (ok, h) = chat_history_add_record chat (cc_history t) in (ok, t\<lparr>cc_history := h\<rparr>))"

definition cc_on_event_complete ::
    "(bytes \<Rightarrow> 'w \<Rightarrow> 'w) \<Rightarrow> nat \<Rightarrow> common_chat_task \<Rightarrow> 'w \<Rightarrow> common_chat_task \<times> 'w" where
  "cc_on_event_complete handler now t w =
     (let w = handler (get_snapshot_data (cc_history t)) w;
          t = t\<lparr>cc_history := db_clear_snapshot (cc_history t)\<rparr>
      in (task_set_state now T_unused t, w))"

lemma cc_simps [simp]: "cc_history (task_set_state now s t) = cc_history t"
  by (cases t) (simp add: task_set_state_more)

subsection \<open>Scheduling\<close>

text \<open>A scheduled task is not ready again before it completed and its cooldown passed.\<close>

lemma task_ready_set_state:
  "task_ready now (task_set_state t0 T_processing t) \<longleftrightarrow> False"
  "task_ready now (task_set_state t1 T_unused (task_set_state t0 T_processing t)) \<longleftrightarrow> tk_interval_ms t + t0 < now"
  by (simp_all add: task_ready_def)

text \<open>
  \<open>transit_state\<close> with an unexpected current state does not keep that state: it enters the
  state that was expected.
\<close>

lemma task_transit_state_mismatch:
  "tk_state t \<noteq> old \<Longrightarrow> tk_state (snd (task_transit_state old new t)) = old"
  by (simp add: task_transit_state_def)

subsection \<open>What is handed to a task is delivered once\<close>

text \<open>
  The life of a task, as \<open>World::tick\<close> and the event loop drive it: data is pushed at any time;
  a tick schedules the task when it is ready; the completion runs the handler, here one that
  notes what it was given. A completion only comes for a scheduled task.
\<close>

datatype 'e task_op = Task_push 'e | Task_tick nat | Task_complete nat

fun run_chat_task :: "bytes task_op list \<Rightarrow> common_chat_task \<Rightarrow> bytes \<times> bytes \<times> common_chat_task" where
  "run_chat_task [] t = ([], [], t)"
| "run_chat_task (Task_push bs # ops) t =
     (let (ok, t) = cc_push bs t; (accepted, delivered, t) = run_chat_task ops t
      in ((if ok then bs else []) @ accepted, delivered, t))"
| "run_chat_task (Task_tick now # ops) t = run_chat_task ops (if cc_ready now t then cc_before_scheduling now t else t)"
| "run_chat_task (Task_complete now # ops) t =
     (if task_status t = T_processing then
        let (t, out) = cc_on_event_complete (\<lambda>bs out. out @ bs) now t [];
            (accepted, delivered, t) = run_chat_task ops t
        in (accepted, out @ delivered, t)
      else run_chat_task ops t)"

fun run_player_task :: "nat task_op list \<Rightarrow> world_player_task \<Rightarrow> nat list \<times> nat list \<times> world_player_task" where
  "run_player_task [] t = ([], [], t)"
| "run_player_task (Task_push p # ops) t =
     (let (pushed, handled, t) = run_player_task ops (wp_push p t) in (p # pushed, handled, t))"
| "run_player_task (Task_tick now # ops) t = run_player_task ops (if wp_ready now t then wp_before_scheduling now t else t)"
| "run_player_task (Task_complete now # ops) t =
     (if task_status t = T_processing then
        let (t, out) = wp_on_event_complete (\<lambda>ps out. out @ ps) now t [];
            (pushed, handled, t) = run_player_task ops t
        in (pushed, out @ handled, t)
      else run_player_task ops t)"

lemma cc_push_laws:
  assumes "db_wf (cc_history t)" "cc_push bs t = (ok, t')"
  shows "db_live (cc_history t') = db_live (cc_history t) @ (if ok then bs else [])"
    "get_snapshot_data (cc_history t') = get_snapshot_data (cc_history t)" "db_wf (cc_history t')"
    "tk_state t' = tk_state t"
  using assms db_push_laws [of "cc_history t" bs ok "cc_history t'"]
  by (auto simp: cc_push_def chat_history_add_record_def split: prod.splits)

lemma run_chat_task_delivers:
  "db_wf (cc_history t) \<Longrightarrow> tk_state t = T_unused \<longrightarrow> get_snapshot_data (cc_history t) = [] \<Longrightarrow>
    run_chat_task ops t = (accepted, delivered, t') \<Longrightarrow>
    get_snapshot_data (cc_history t) @ db_live (cc_history t) @ accepted =
      delivered @ get_snapshot_data (cc_history t') @ db_live (cc_history t')"
proof (induction ops t arbitrary: accepted delivered rule: run_chat_task.induct)
  case (2 bs ops t)
  obtain ok t1 where p: "cc_push bs t = (ok, t1)" by fastforce
  obtain a d where r: "run_chat_task ops t1 = (a, d, t')" "accepted = (if ok then bs else []) @ a" "delivered = d"
    using "2.prems"(3) by (auto simp: p Let_def split: prod.splits)
  note l = cc_push_laws [OF "2.prems"(1) p]
  from "2.IH" [OF p [symmetric] refl l(3) _ r(1)] l "2.prems"(2) show ?case by (simp add: r)
next
  case (3 now ops t)
  show ?case
  proof (cases "cc_ready now t")
    case True
    with 3 show ?thesis
      by (simp add: cc_before_scheduling_def cc_ready_def task_ready_def db.live_swap db.snap_swap db.wf_swap)
  next
    case False
    with 3 show ?thesis by simp
  qed
next
  case (4 now ops t)
  show ?case
  proof (cases "task_status t = T_processing")
    case True
    let ?t = "fst (cc_on_event_complete (\<lambda>bs out. out @ bs) now t [])"
    have c: "cc_on_event_complete (\<lambda>bs out. out @ bs) now t [] = (?t, get_snapshot_data (cc_history t))"
      by (simp add: cc_on_event_complete_def Let_def)
    have h: "cc_history ?t = db_clear_snapshot (cc_history t)" "tk_state ?t = T_unused"
      by (simp_all add: cc_on_event_complete_def Let_def)
    obtain d where r: "run_chat_task ops ?t = (accepted, d, t')" "delivered = get_snapshot_data (cc_history t) @ d"
      using "4.prems"(3) True c by (auto simp: Let_def split: prod.splits)
    from "4.IH"(1) [OF True c [symmetric] refl _ _ r(1)] "4.prems"(1) show ?thesis
      by (simp add: h r(2) db.live_clear db.snap_clear db.wf_clear)
  next
    case False
    with 4 show ?thesis by simp
  qed
qed simp

lemma run_player_task_delivers:
  "tk_state t = T_unused \<longrightarrow> wp_players_target t = [] \<Longrightarrow> run_player_task ops t = (pushed, handled, t') \<Longrightarrow>
    wp_players_target t @ wp_players_queue t @ pushed = handled @ wp_players_target t' @ wp_players_queue t'"
proof (induction ops t arbitrary: pushed handled rule: run_player_task.induct)
  case (2 p ops t)
  then show ?case by (auto simp: wp_push_def Let_def split: prod.splits)
next
  case (3 now ops t)
  then show ?case
    by (auto simp: wp_before_scheduling_def wp_ready_def task_ready_def Let_def split: if_splits)
next
  case (4 now ops t)
  then show ?case
    by (auto simp: wp_on_event_complete_def task_status_def Let_def split: prod.splits if_splits)
qed simp

text \<open>
  With every push as one step, the chat that was accepted is delivered once, completely and in order: at any
  moment it is what completions handed out, what the running task holds and what waits for the next one,
  whatever the order of messages, ticks and completions. \<open>Concurrent_History\<close> splits the pushes.
\<close>

theorem chat_delivered_once:
  "case run_chat_task ops (common_chat_task_new (db_new mem0 mem1) interval) of
     (accepted, delivered, t) \<Rightarrow> accepted = delivered @ get_snapshot_data (cc_history t) @ db_live (cc_history t)"
  using run_chat_task_delivers [of "common_chat_task_new (db_new mem0 mem1) interval" ops] db_new_wf [of mem0 mem1]
  by (simp add: common_chat_task_new_def split: prod.split)

text \<open>
  A player handed to a task of the world (to be spawned or to be disconnected) is handled
  once for each time it was handed over, in that order, also when it comes while the task runs.
\<close>

theorem players_handled_once:
  "case run_player_task ops (world_player_task_new interval) of
     (pushed, handled, t) \<Rightarrow> pushed = handled @ wp_players_target t @ wp_players_queue t"
  using run_player_task_delivers [of "world_player_task_new interval" ops]
  by (simp add: world_player_task_new_def split: prod.split)

end
