(* ===== verification/Level_Packet.thy ===== *)
theory Level_Packet
  imports Packets
begin

section \<open>The level data packet\<close>

text \<open>
  \<open>PacketLevelDataChunk\<close> and the part of \<open>util::Compressor\<close> it relies on. zlib is outside the
  repository: \<open>deflate_n z n\<close> is a parameter, the bytes one call of \<open>deflate\<close> writes into a
  buffer of \<open>n\<close> bytes, with the next stream state. What the code relies on is \<open>deflates\<close>: the
  stream \<open>z\<close> still holds the output \<open>out z\<close>, and a call takes as much of it as fits.
\<close>

abbreviation chunk_size :: nat where
  "chunk_size \<equiv> 1024"

definition deflates :: "('z \<Rightarrow> nat \<Rightarrow> bytes \<times> 'z) \<Rightarrow> ('z \<Rightarrow> bytes) \<Rightarrow> bool" where
  "deflates deflate_n out \<longleftrightarrow>
     (\<forall>z n. fst (deflate_n z n) = take n (out z) \<and> out (snd (deflate_n z n)) = drop n (out z))"

record 'z packet_level_data =
  ld_max_chunk_count :: nat
  ld_x :: i16
  ld_y :: i16
  ld_z :: i16
  ld_compressor :: 'z

text \<open>\<open>max_chunk_count\<close> is computed in \<open>std::size_t\<close>: the decrement of a zero bound wraps.\<close>

definition level_data_make :: "'z \<Rightarrow> nat \<Rightarrow> i16 \<Rightarrow> i16 \<Rightarrow> i16 \<Rightarrow> 'z packet_level_data" where
  "level_data_make compressor deflate_bound width height len =
     \<lparr>ld_max_chunk_count = (deflate_bound + 2 ^ 64 - 1) mod 2 ^ 64 div chunk_size + 1,
      ld_x = width, ld_y = height, ld_z = len, ld_compressor = compressor\<rparr>"

definition data_capacity :: "'z packet_level_data \<Rightarrow> nat" where
  "data_capacity p = ld_max_chunk_count p * (chunk_size + 4) + 7"

text \<open>A write at an offset of the allocation; outside of it there is no result.\<close>

definition put :: "nat \<Rightarrow> bytes \<Rightarrow> bytes \<Rightarrow> bytes option" where
  "put off bs mem = (if off + length bs \<le> length mem then Some (blit off bs mem) else None)"

text \<open>
  The loop: compress behind the space for the header, stop when nothing was written, otherwise
  write the identifier and the chunk length before the data and the percentage after it. The
  result is the offset \<open>buf_start\<close> and \<open>remain_bytes\<close>.
\<close>

partial_function (option) level_chunks ::
    "('z \<Rightarrow> nat \<Rightarrow> bytes \<times> 'z) \<Rightarrow> 'z \<Rightarrow> nat \<Rightarrow> bytes \<Rightarrow> (nat \<times> nat \<times> bytes) option" where
  "level_chunks deflate_n z off mem =
     (case put (off + 3) (fst (deflate_n z chunk_size)) mem of
        None \<Rightarrow> None
      | Some mem \<Rightarrow>
          (let remain = chunk_size - length (fst (deflate_n z chunk_size))
           in if remain = chunk_size then Some (off, remain, mem)
              else case put off (write_short (of_nat (chunk_size - remain))
                                  (write_byte PT_level_datachunk [])) mem of
                     None \<Rightarrow> None
                   | Some mem \<Rightarrow>
                       (case put (off + 3 + chunk_size) (write_byte 0 []) mem of
                          None \<Rightarrow> None
                        | Some mem \<Rightarrow>
                            level_chunks deflate_n (snd (deflate_n z chunk_size))
                              (off + chunk_size + 4) mem)))"

text \<open>
  The whole method. The allocation \<open>mem0\<close> is not initialised. The call of \<open>memset\<close> between
  the loop and the final packet fills \<open>remain_bytes != chunk_size ? remain_bytes : 0\<close> bytes.
\<close>

definition level_finalize :: "i16 \<Rightarrow> i16 \<Rightarrow> i16 \<Rightarrow> bytes" where
  "level_finalize x y z = write_short z (write_short y (write_short x (write_byte PT_level_finalize [])))"

definition level_data_serialize ::
    "('z \<Rightarrow> nat \<Rightarrow> bytes \<times> 'z) \<Rightarrow> bytes \<Rightarrow> 'z packet_level_data \<Rightarrow> (nat \<times> bytes) option" where
  "level_data_serialize deflate_n mem0 p =
     (if length mem0 \<noteq> data_capacity p then None
      else case level_chunks deflate_n (ld_compressor p) 0 mem0 of
        None \<Rightarrow> None
      | Some (off, remain, mem) \<Rightarrow>
          (case put (off - remain - 1) (replicate (if remain \<noteq> chunk_size then remain else 0) 0) mem of
             None \<Rightarrow> None
           | Some mem \<Rightarrow>
               (case put off (level_finalize (ld_x p) (ld_y p) (ld_z p)) mem of
                  None \<Rightarrow> None
                | Some mem \<Rightarrow> Some (off + 7, mem))))"

subsection \<open>The frames the loop leaves\<close>

text \<open>The chunks of a stream, each with the bytes of \<open>pad\<close> that the last one does not reach.\<close>

definition level_frame :: "bytes \<Rightarrow> bytes \<Rightarrow> bytes" where
  "level_frame chunk pad =
     write_short (of_nat (length chunk)) (write_byte PT_level_datachunk []) @ chunk @
       drop (length chunk) pad @ [0]"

fun level_frames :: "nat \<Rightarrow> bytes \<Rightarrow> bytes \<Rightarrow> bytes" where
  "level_frames 0 s mem = []"
| "level_frames (Suc k) s mem =
     level_frame (take chunk_size s) (segment 3 chunk_size mem) @
       level_frames k (drop chunk_size s) (drop (chunk_size + 4) mem)"

definition chunk_count :: "bytes \<Rightarrow> nat" where
  "chunk_count s = (length s + 1023) div chunk_size"

text \<open>A client: the payloads of the level chunks up to the final packet with the dimensions.\<close>

function client_level :: "bytes \<Rightarrow> (bytes \<times> i16 \<times> i16 \<times> i16) option" where
  "client_level bs =
     (if bs \<noteq> [] \<and> hd bs = PT_level_datachunk \<and> chunk_size + 4 \<le> length bs then
        (case read_short (drop 1 bs) of
           None \<Rightarrow> None
         | Some (n, body) \<Rightarrow>
             map_option (\<lambda>(s, dims). (take (unat n) body @ s, dims)) (client_level (drop (chunk_size + 4) bs)))
      else if bs \<noteq> [] \<and> hd bs = PT_level_finalize then
        (case read_short (drop 1 bs) of None \<Rightarrow> None | Some (x, bs) \<Rightarrow>
         (case read_short bs of None \<Rightarrow> None | Some (y, bs) \<Rightarrow>
          (case read_short bs of None \<Rightarrow> None | Some (z, bs) \<Rightarrow> Some ([], x, y, z))))
      else None)"
  by pat_completeness auto
termination
  by (relation "measure length") auto

declare client_level.simps [simp del]

lemma chunk_count_0 [simp]: "chunk_count s = 0 \<longleftrightarrow> s = []"
proof
  assume "chunk_count s = 0"
  then have "length s + 1023 < chunk_size" unfolding chunk_count_def by (simp only: div_eq_0_iff) simp
  then show "s = []" by simp
qed (simp add: chunk_count_def)

lemma chunk_count_Nil [simp]: "chunk_count [] = 0"
  by (simp add: chunk_count_def)

lemma chunk_count_Suc: "s \<noteq> [] \<Longrightarrow> chunk_count s = Suc (chunk_count (drop chunk_size s))"
proof (cases "length s \<le> chunk_size")
  case True
  assume "s \<noteq> []"
  then have "0 < length s" by simp
  with True have "(length s + 1023) div chunk_size = 1"
    by (intro div_nat_eqI) (simp_all add: Suc_leI)
  with True show ?thesis by (simp add: chunk_count_def)
next
  case False
  then have "length s + 1023 = (length s - chunk_size + 1023) + chunk_size" by simp
  then show ?thesis using False by (simp add: chunk_count_def)
qed

lemma length_level_frame: "length pad = chunk_size \<Longrightarrow> length chunk \<le> chunk_size \<Longrightarrow>
    length (level_frame chunk pad) = chunk_size + 4"
  by (simp add: level_frame_def)

lemma length_level_frames:
  "k * (chunk_size + 4) \<le> length mem \<Longrightarrow> length (level_frames k s mem) = k * (chunk_size + 4)"
  by (induction k arbitrary: s mem) (simp_all add: length_level_frame)

lemma chunk_writes:
  assumes "length A = off" "length h = 3" "length B = chunk_size" "length chunk \<le> chunk_size" "length hdr = 3"
  shows "blit (off + 3 + chunk_size) [b] (blit off hdr (blit (off + 3) chunk (A @ h @ B @ [c] @ R))) =
    A @ (hdr @ chunk @ drop (length chunk) B @ [b]) @ R"
proof -
  have "blit (off + 3) chunk (A @ h @ B @ [c] @ R) = A @ h @ (chunk @ drop (length chunk) B) @ [c] @ R"
    using assms by (simp add: blit_def)
  moreover have "blit off hdr (A @ h @ (chunk @ drop (length chunk) B) @ [c] @ R) =
      A @ hdr @ (chunk @ drop (length chunk) B) @ [c] @ R"
    using assms by (simp add: blit_def)
  moreover have "blit (off + 3 + chunk_size) [b] (A @ hdr @ (chunk @ drop (length chunk) B) @ [c] @ R) =
      A @ hdr @ (chunk @ drop (length chunk) B) @ [b] @ R"
    using assms by (simp add: blit_def)
  ultimately show ?thesis by simp
qed

lemma split_frame:
  assumes "off + (chunk_size + 4) \<le> length mem"
  obtains A h B c R where "mem = A @ h @ B @ [c] @ R" "length A = off" "length h = 3" "length B = chunk_size"
proof -
  let ?T = "drop off mem"
  have "drop chunk_size (drop 3 ?T) \<noteq> []" using assms by simp
  then obtain c R where X: "drop chunk_size (drop 3 ?T) = [c] @ R"
    by (metis append_Cons append_Nil neq_Nil_conv)
  have "mem = take off mem @ ?T" by simp
  also have "?T = take 3 ?T @ drop 3 ?T" by (rule append_take_drop_id [symmetric])
  also have "drop 3 ?T = take chunk_size (drop 3 ?T) @ [c] @ R"
    unfolding X [symmetric] by (rule append_take_drop_id [symmetric])
  finally show ?thesis
    using assms by (intro that [of "take off mem" "take 3 ?T" "take chunk_size (drop 3 ?T)" c R]) simp_all
qed

lemma level_chunks_stop:
  assumes "deflates d out" "out z = []" "off + 3 \<le> length mem"
  shows "level_chunks d z off mem = Some (off, chunk_size, mem)"
  using assms by (subst level_chunks.simps) (simp add: deflates_def put_def)

lemma level_chunks_step:
  assumes d: "deflates d out" and s: "out z \<noteq> []"
    and A: "length A = off" "length h = 3" "length B = chunk_size"
  shows "level_chunks d z off (A @ h @ B @ [c] @ R) =
    level_chunks d (snd (d z chunk_size)) (off + chunk_size + 4)
      (A @ level_frame (take chunk_size (out z)) B @ R)"
proof -
  let ?c = "take chunk_size (out z)" and ?mem = "A @ h @ B @ [c] @ R"
  let ?hdr = "write_short (of_nat (length ?c)) (write_byte PT_level_datachunk [])"
  have c: "fst (d z chunk_size) = ?c" using d by (simp add: deflates_def)
  have l: "length ?c \<le> chunk_size" "0 < length ?c" "length ?mem = off + chunk_size + 4 + length R"
    using s A by simp_all
  then have r: "chunk_size - length ?c \<noteq> chunk_size" "chunk_size - (chunk_size - length ?c) = length ?c"
    by linarith+
  have p1: "put (off + 3) ?c ?mem = Some (blit (off + 3) ?c ?mem)"
    using l by (simp add: put_def)
  have p2: "put off ?hdr (blit (off + 3) ?c ?mem) = Some (blit off ?hdr (blit (off + 3) ?c ?mem))"
    using l by (simp add: put_def)
  have p3: "put (off + 3 + chunk_size) (write_byte 0 []) (blit off ?hdr (blit (off + 3) ?c ?mem)) =
      Some (A @ (?hdr @ ?c @ drop (length ?c) B @ [0]) @ R)"
    using l chunk_writes [OF A l(1), of ?hdr 0 c R] by (simp add: put_def write_byte_def)
  show ?thesis
    by (subst level_chunks.simps)
      (simp only: c p1 p2 p3 r option.case Let_def if_False level_frame_def)
qed

lemma level_chunks_frames:
  assumes "deflates d out" "off + chunk_count (out z) * (chunk_size + 4) + 7 \<le> length mem"
  shows "level_chunks d z off mem =
    Some (off + chunk_count (out z) * (chunk_size + 4), chunk_size,
      take off mem @ level_frames (chunk_count (out z)) (out z) (drop off mem) @
        drop (off + chunk_count (out z) * (chunk_size + 4)) mem)"
  using assms
proof (induction "chunk_count (out z)" arbitrary: z off mem)
  case 0
  then have "out z = []" by (metis chunk_count_0)
  with 0 show ?case by (simp add: level_chunks_stop)
next
  case (Suc k)
  let ?z = "snd (d z chunk_size)" and ?c = "take chunk_size (out z)"
  from Suc.hyps(2) have ne: "out z \<noteq> []" by (metis chunk_count_0 nat.distinct(1))
  have out: "out ?z = drop chunk_size (out z)" using Suc.prems(1) by (simp add: deflates_def)
  with ne Suc.hyps(2) have k: "k = chunk_count (out ?z)" by (simp add: chunk_count_Suc)
  have len: "off + (chunk_size + 4) + k * (chunk_size + 4) + 7 \<le> length mem"
    using Suc.prems(2) unfolding Suc.hyps(2) [symmetric] by simp
  then obtain A h B c R where m: "mem = A @ h @ B @ [c] @ R" and
    l: "length A = off" "length h = 3" "length B = chunk_size"
    by (elim split_frame [rotated]) linarith
  let ?f = "level_frame ?c B"
  have lf: "length ?f = chunk_size + 4" using l by (simp add: length_level_frame)
  have "level_chunks d z off mem = level_chunks d ?z (off + chunk_size + 4) (A @ ?f @ R)"
    unfolding m by (rule level_chunks_step [OF Suc.prems(1) ne l])
  also have "\<dots> = Some (off + chunk_size + 4 + k * (chunk_size + 4), chunk_size,
      take (off + chunk_size + 4) (A @ ?f @ R) @
      level_frames k (out ?z) (drop (off + chunk_size + 4) (A @ ?f @ R)) @
      drop (off + chunk_size + 4 + k * (chunk_size + 4)) (A @ ?f @ R))"
    using Suc.hyps(1) [OF k Suc.prems(1)] len l lf m unfolding k [symmetric] by simp
  finally show ?case
    using l lf by (simp add: m out segment_def flip: Suc.hyps(2))
qed

subsection \<open>The serialised level\<close>

lemma chunk_count_le_max:
  assumes "length s \<le> bound" "0 < bound" "bound < 2 ^ 64"
  shows "chunk_count s \<le> ld_max_chunk_count (level_data_make z bound w h l)"
proof -
  have "(bound + 2 ^ 64 - 1) mod 2 ^ 64 = (bound - 1 + 2 ^ 64) mod 2 ^ 64"
    using assms(2) by simp
  also have "\<dots> = bound - 1" using assms(3) by (simp only: mod_add_self2) simp
  finally have "ld_max_chunk_count (level_data_make z bound w h l) = (bound - 1) div chunk_size + 1"
    by (simp add: level_data_make_def)
  also have "\<dots> = (bound - 1 + chunk_size) div chunk_size" by simp
  also have "chunk_count s \<le> \<dots>"
    unfolding chunk_count_def using assms by (intro div_le_mono) simp
  finally show ?thesis .
qed

lemma length_level_finalize [simp]: "length (level_finalize x y z) = 7"
  by (simp add: level_finalize_def)

lemma level_data_serialize_eq:
  assumes d: "deflates d out" and len: "length mem0 = data_capacity p"
    and c: "chunk_count (out (ld_compressor p)) \<le> ld_max_chunk_count p"
  defines "s \<equiv> out (ld_compressor p)" and "n \<equiv> chunk_count (out (ld_compressor p)) * (chunk_size + 4)"
  shows "level_data_serialize d mem0 p = Some (n + 7,
    level_frames (chunk_count s) s mem0 @ level_finalize (ld_x p) (ld_y p) (ld_z p) @ drop (n + 7) mem0)"
proof -
  have room: "n + 7 \<le> length mem0"
    using c by (simp add: len data_capacity_def n_def)
  let ?mem = "level_frames (chunk_count s) s mem0 @ drop n mem0"
  have chunks: "level_chunks d (ld_compressor p) 0 mem0 = Some (n, chunk_size, ?mem)"
    using level_chunks_frames [OF d, of 0 "ld_compressor p" mem0] room by (simp add: n_def s_def)
  have lf: "length (level_frames (chunk_count s) s mem0) = n"
    using room by (simp add: length_level_frames n_def s_def)
  have pad: "put (n - chunk_size - 1) [] ?mem = Some ?mem"
    using room lf by (simp add: put_def)
  have "put n (level_finalize (ld_x p) (ld_y p) (ld_z p)) ?mem =
      Some (level_frames (chunk_count s) s mem0 @ level_finalize (ld_x p) (ld_y p) (ld_z p) @ drop (n + 7) mem0)"
    using room lf by (simp add: put_def blit_def add.commute)
  with chunks pad len show ?thesis
    by (simp add: level_data_serialize_def)
qed

lemma read_short_write: "read_short (write_short v out) = read_short (out @ (write_short v []))"
  by (simp add: write_short_def)

lemma client_level_finalize:
  "client_level (level_finalize x y z) = Some ([], x, y, z)"
proof -
  have e: "level_finalize x y z = PT_level_finalize # write_short x [] @ write_short y [] @ write_short z []"
    by (simp add: level_finalize_def write_defs)
  show ?thesis
    using read_write_short [of z "[]"]
    by (subst client_level.simps) (simp add: e wire_simps)
qed

lemma client_level_frame:
  assumes "length pad = chunk_size" "length chunk \<le> chunk_size"
  shows "client_level (level_frame chunk pad @ r) = map_option (\<lambda>(s, dims). (chunk @ s, dims)) (client_level r)"
proof -
  have e: "level_frame chunk pad @ r = PT_level_datachunk # write_short (of_nat (length chunk)) [] @
      (chunk @ drop (length chunk) pad @ [0] @ r)"
    by (simp add: level_frame_def write_defs)
  have len: "length (level_frame chunk pad) = chunk_size + 4"
    using assms by (rule length_level_frame)
  have u: "unat (of_nat (length chunk) :: i16) = length chunk"
    using assms(2) by (simp add: unat_of_nat)
  have d: "drop (chunk_size + 4) (level_frame chunk pad @ r) = r"
    using len by simp
  have l: "chunk_size + 4 \<le> length (level_frame chunk pad @ r)"
    using len by simp
  have r1: "drop 1 (level_frame chunk pad @ r) =
      write_short (of_nat (length chunk)) [] @ (chunk @ drop (length chunk) pad @ [0] @ r)"
    by (simp add: e)
  have c: "level_frame chunk pad @ r \<noteq> [] \<and> hd (level_frame chunk pad @ r) = PT_level_datachunk \<and>
      chunk_size + 4 \<le> length (level_frame chunk pad @ r)"
    using l by (simp add: e)
  have tk: "take (unat (of_nat (length chunk) :: i16)) (chunk @ x) = chunk" for x
    using u by simp
  show ?thesis
    apply (subst client_level.simps)
    apply (subst if_P, rule c)
    apply (simp only: r1 read_write_short option.case prod.case d tk)
    done
qed

lemma client_level_frames:
  "chunk_count s * (chunk_size + 4) \<le> length mem \<Longrightarrow> client_level r = Some ([], dims) \<Longrightarrow>
     client_level (level_frames (chunk_count s) s mem @ r) = Some (s, dims)"
proof (induction "chunk_count s" arbitrary: s mem)
  case 0
  then have "s = []" by (metis chunk_count_0)
  with 0 show ?case by simp
next
  case (Suc k)
  from Suc.hyps(2) have ne: "s \<noteq> []" by (metis chunk_count_0 nat.distinct(1))
  with Suc.hyps(2) have k: "k = chunk_count (drop chunk_size s)" by (simp add: chunk_count_Suc)
  have len: "chunk_count (drop chunk_size s) * (chunk_size + 4) \<le> length (drop (chunk_size + 4) mem)"
    and pad: "length (segment 3 chunk_size mem) = chunk_size"
    using Suc.prems(1) unfolding Suc.hyps(2) [symmetric] k [symmetric] by simp_all
  have "client_level (level_frames (chunk_count (drop chunk_size s)) (drop chunk_size s)
      (drop (chunk_size + 4) mem) @ r) = Some (drop chunk_size s, dims)"
    by (rule Suc.hyps(1) [OF k len Suc.prems(2)])
  then show ?case
    using pad by (simp add: client_level_frame k [symmetric] flip: Suc.hyps(2))
qed

text \<open>What the serialiser leaves in its buffer: the frames of the compressed stream, then the final packet.\<close>

lemma level_data_serialize_frames:
  assumes "deflates d out" and "0 < bound" "bound < 2 ^ 64" "length (out z) \<le> bound"
    and "length mem0 = data_capacity (level_data_make z bound w h l)"
  shows "\<exists>n mem. level_data_serialize d mem0 (level_data_make z bound w h l) = Some (n, mem) \<and> n \<le> length mem \<and>
    chunk_count (out z) * (chunk_size + 4) \<le> length mem0 \<and>
    take n mem = level_frames (chunk_count (out z)) (out z) mem0 @ level_finalize w h l"
proof -
  let ?p = "level_data_make z bound w h l"
  let ?n = "chunk_count (out z) * (chunk_size + 4)"
  have comp: "ld_compressor ?p = z" "ld_x ?p = w" "ld_y ?p = h" "ld_z ?p = l"
    by (simp_all add: level_data_make_def)
  have c: "chunk_count (out z) \<le> ld_max_chunk_count ?p"
    using assms by (intro chunk_count_le_max)
  then have room: "?n + 7 \<le> length mem0"
    by (simp add: assms(5) data_capacity_def)
  let ?f = "level_frames (chunk_count (out z)) (out z) mem0"
  have lf: "length ?f = ?n" using room by (simp add: length_level_frames)
  have "level_data_serialize d mem0 ?p = Some (?n + 7, ?f @ level_finalize w h l @ drop (?n + 7) mem0)"
    using level_data_serialize_eq [OF assms(1) assms(5)] c by (simp add: comp)
  with lf room show ?thesis by auto
qed

text \<open>
  C7: What a client puts together from the level packet is the compressed stream and the size of
  the map, whatever the uninitialised buffer held and however the stream fills the chunks; the
  serialiser ends, and never writes outside the buffer it allocated.
\<close>

theorem level_data_received:
  assumes "deflates d out" and "0 < bound" "bound < 2 ^ 64" "length (out z) \<le> bound"
    and "length mem0 = data_capacity (level_data_make z bound w h l)"
  shows "\<exists>n mem. level_data_serialize d mem0 (level_data_make z bound w h l) = Some (n, mem) \<and>
    n \<le> length mem \<and> client_level (take n mem) = Some (out z, w, h, l)"
  using level_data_serialize_frames [OF assms] client_level_frames [OF _ client_level_finalize] by fastforce

theorem level_data_received_witness:
  "\<exists>n mem. level_data_serialize (\<lambda>z n. (take n z, drop n z))
      (replicate (data_capacity (level_data_make [1, 2, 3 :: u8] 10 4 5 6)) 0) (level_data_make [1, 2, 3] 10 4 5 6) = Some (n, mem) \<and>
    client_level (take n mem) = Some ([1, 2, 3], 4, 5, 6)"
  using level_data_received [of "\<lambda>z n. (take n z, drop n z)" "\<lambda>z. z" 10 "[1, 2, 3]"
      "replicate (data_capacity (level_data_make [1, 2, 3 :: u8] 10 4 5 6)) 0" 4 5 6]
  by (auto simp: deflates_def)

end
