(* ===== verification/Packet_Extension.thy ===== *)
theory Packet_Extension
  imports Packets
begin

section \<open>The protocol extensions\<close>

text \<open>\<open>net/packet_extension.h\<close> and \<open>net/packet_extension.cpp\<close>.\<close>

definition cpe_server_name :: bytes where
  "cpe_server_name = cstr ''mmocraft-cpe''"

record cpe_info =
  cpe_index :: u8
  cpe_version :: i32

definition supported_cpe_map :: "(bytes \<times> cpe_info) list" where
  "supported_cpe_map =
     [(cstr ''MessageTypes'', \<lparr>cpe_index = PT_ext_message, cpe_version = 1\<rparr>),
      (cstr ''TwoWayPing'', \<lparr>cpe_index = PT_two_way_ping, cpe_version = 1\<rparr>)]"

definition is_available_cpe :: "bytes \<Rightarrow> i32 \<Rightarrow> bool" where
  "is_available_cpe name version =
     (case map_of supported_cpe_map name of None \<Rightarrow> False | Some info \<Rightarrow> cpe_version info = version)"

text \<open>\<open>unordered_map::at\<close> throws for an unknown key: \<open>None\<close>.\<close>

definition cpe_index_of :: "bytes \<Rightarrow> u8 option" where
  "cpe_index_of name = map_option cpe_index (map_of supported_cpe_map name)"

subsection \<open>Packets\<close>

record packet_ext_info = packet +
  ei_app_name :: bytes
  ei_extension_count :: i16

definition ext_info_parse :: "bytes \<Rightarrow> packet_ext_info option" where
  "ext_info_parse buf =
     (case read_string (skip_id buf) of None \<Rightarrow> None | Some (n, buf) \<Rightarrow>
      (case read_short buf of None \<Rightarrow> None | Some (c, buf) \<Rightarrow>
         Some \<lparr>pk_id = PT_ext_info, ei_app_name = n, ei_extension_count = c\<rparr>))"

definition ext_info_bytes :: bytes where
  "ext_info_bytes =
     write_short (of_nat (length supported_cpe_map))
       (write_cstring cpe_server_name (write_byte PT_ext_info []))"

definition ext_info_serialize :: "(bytes \<Rightarrow> 'd \<Rightarrow> bool \<times> 'd) \<Rightarrow> 'd \<Rightarrow> bool \<times> 'd" where
  "ext_info_serialize push d = push ext_info_bytes d"

record packet_ext_entry = packet +
  ee_extenstion_name :: bytes
  ee_version :: i32

definition ext_entry_parse :: "bytes \<Rightarrow> packet_ext_entry option" where
  "ext_entry_parse buf =
     (case read_string (skip_id buf) of None \<Rightarrow> None | Some (n, buf) \<Rightarrow>
      (case read_int buf of None \<Rightarrow> None | Some (v, buf) \<Rightarrow>
         Some \<lparr>pk_id = PT_ext_entry, ee_extenstion_name = n, ee_version = v\<rparr>))"

definition ext_entry_bytes :: "bytes \<times> cpe_info \<Rightarrow> bytes" where
  "ext_entry_bytes e =
     write_int (cpe_version (snd e)) (write_string (fst e) (write_byte PT_ext_entry []))"

text \<open>
  One packet per entry, in the iteration order of the hash map (the argument \<open>order\<close>). The
  results of \<open>push\<close> are dropped.
\<close>

fun ext_entry_serialize ::
    "(bytes \<Rightarrow> 'd \<Rightarrow> bool \<times> 'd) \<Rightarrow> (bytes \<times> cpe_info) list \<Rightarrow> 'd \<Rightarrow> bool \<times> 'd" where
  "ext_entry_serialize push [] d = (True, d)"
| "ext_entry_serialize push (e # order) d =
     ext_entry_serialize push order (snd (push (ext_entry_bytes e) d))"

datatype chat_message_type_id = CMT_chat | CMT_status1 | CMT_status2 | CMT_status3
  | CMT_bottom_right1 | CMT_bottom_right2 | CMT_bottom_right3 | CMT_announcement

fun chat_message_type_value :: "chat_message_type_id \<Rightarrow> u8" where
  "chat_message_type_value CMT_chat = 0"
| "chat_message_type_value CMT_status1 = 1"
| "chat_message_type_value CMT_status2 = 2"
| "chat_message_type_value CMT_status3 = 3"
| "chat_message_type_value CMT_bottom_right1 = 11"
| "chat_message_type_value CMT_bottom_right2 = 12"
| "chat_message_type_value CMT_bottom_right3 = 13"
| "chat_message_type_value CMT_announcement = 100"

record packet_ext_message = packet +
  em_msg_type :: chat_message_type_id
  em_message :: bytes

definition ext_message_make :: "chat_message_type_id \<Rightarrow> bytes \<Rightarrow> packet_ext_message" where
  "ext_message_make t msg = \<lparr>pk_id = PT_ext_message, em_msg_type = t, em_message = c_str msg\<rparr>"

definition ext_message_bytes :: "packet_ext_message \<Rightarrow> bytes" where
  "ext_message_bytes p =
     write_string (em_message p)
       (write_byte (chat_message_type_value (em_msg_type p)) (write_byte PT_ext_message []))"

definition ext_message_serialize ::
    "(bytes \<Rightarrow> 'd \<Rightarrow> bool \<times> 'd) \<Rightarrow> packet_ext_message \<Rightarrow> 'd \<Rightarrow> bool \<times> 'd" where
  "ext_message_serialize push p d = push (ext_message_bytes p) d"

record packet_ext_ping = packet +
  ep_request_time :: u64

definition ext_ping_make :: packet_ext_ping where
  "ext_ping_make = \<lparr>pk_id = PT_invalid, ep_request_time = 0\<rparr>"

definition ext_ping_parse :: "bytes \<Rightarrow> packet_ext_ping option" where
  "ext_ping_parse buf =
     (case read_uint64 (skip_id buf) of None \<Rightarrow> None | Some (t, buf) \<Rightarrow>
        Some \<lparr>pk_id = PT_ext_ping, ep_request_time = t\<rparr>)"

definition set_request_time :: "u64 \<Rightarrow> packet_ext_ping \<Rightarrow> packet_ext_ping" where
  "set_request_time now p = p\<lparr>ep_request_time := now\<rparr>"

definition get_rtt_ns :: "u64 \<Rightarrow> packet_ext_ping \<Rightarrow> u64" where
  "get_rtt_ns now p = now - ep_request_time p"

definition ext_ping_bytes :: "packet_ext_ping \<Rightarrow> bytes" where
  "ext_ping_bytes p = write_uint64 (ep_request_time p) (write_byte PT_ext_ping [])"

definition ext_ping_serialize ::
    "(bytes \<Rightarrow> 'd \<Rightarrow> bool \<times> 'd) \<Rightarrow> packet_ext_ping \<Rightarrow> 'd \<Rightarrow> bool \<times> 'd" where
  "ext_ping_serialize push p d = push (ext_ping_bytes p) d"

subsection \<open>Sizes and round trips\<close>

lemma length_ext_bytes [simp]:
  "length ext_info_bytes = ext_info_packet_size"
  "length (ext_entry_bytes e) = ext_entry_packet_size"
  "length (ext_message_bytes m) = ext_message_packet_size"
  "length (ext_ping_bytes q) = ext_ping_packet_size"
  by (simp_all add: ext_info_bytes_def ext_entry_bytes_def ext_message_bytes_def ext_ping_bytes_def)

text \<open>What the server advertises is what it accepts: its own entries pass the lookup.\<close>

lemma ext_entry_parse_bytes:
  "ext_entry_parse (ext_entry_bytes e @ r) =
     Some \<lparr>pk_id = PT_ext_entry, ee_extenstion_name = rstrip (take 64 (fst e)), ee_version = cpe_version (snd e)\<rparr>"
proof -
  have "ext_entry_bytes e @ r = write_byte PT_ext_entry [] @ write_string (fst e) [] @
      write_int (cpe_version (snd e)) [] @ r"
    by (simp add: ext_entry_bytes_def write_defs Let_def)
  then show ?thesis by (simp add: ext_entry_parse_def wire_simps)
qed

lemma ext_ping_parse_bytes:
  "ext_ping_parse (ext_ping_bytes p @ r) = Some \<lparr>pk_id = PT_ext_ping, ep_request_time = ep_request_time p\<rparr>"
proof -
  have "ext_ping_bytes p @ r = write_byte PT_ext_ping [] @ write_uint64 (ep_request_time p) [] @ r"
    by (simp add: ext_ping_bytes_def write_defs)
  then show ?thesis by (simp add: ext_ping_parse_def wire_simps)
qed

lemma cpe_names_stripped:
  "e \<in> set supported_cpe_map \<Longrightarrow> rstrip (take 64 (fst e)) = fst e"
  by (auto simp: supported_cpe_map_def rstrip_def)

text \<open>A name that is available has an index, and the index fits the player's extension set.\<close>

lemma available_has_index:
  "is_available_cpe n v \<Longrightarrow> \<exists>i. cpe_index_of n = Some i \<and> unat i < 64"
  by (auto simp: is_available_cpe_def cpe_index_of_def supported_cpe_map_def split: if_splits option.splits)

text \<open>
  What the server advertises is what it accepts: an entry it sends, sent back by the client,
  is read back, is available and is registered under its own index.
\<close>

theorem advertised_is_available:
  assumes "e \<in> set supported_cpe_map"
  shows "\<exists>p. ext_entry_parse (ext_entry_bytes e @ r) = Some p \<and>
    is_available_cpe (ee_extenstion_name p) (ee_version p) \<and>
    cpe_index_of (ee_extenstion_name p) = Some (cpe_index (snd e))"
proof -
  have "distinct (map fst supported_cpe_map)"
    by (simp add: supported_cpe_map_def)
  then have "map_of supported_cpe_map (fst e) = Some (snd e)"
    using assms by simp
  then show ?thesis
    using cpe_names_stripped [OF assms]
    by (simp add: ext_entry_parse_bytes is_available_cpe_def cpe_index_of_def)
qed

theorem advertised_is_available_witness:
  "\<exists>p. ext_entry_parse (ext_entry_bytes (hd supported_cpe_map)) = Some p \<and>
    is_available_cpe (ee_extenstion_name p) (ee_version p)"
  using advertised_is_available [of "hd supported_cpe_map" "[]"] by (auto simp: supported_cpe_map_def)

end
