(* ===== verification/Connection_IO.thy ===== *)
theory Connection_IO
  imports Event_Data Object_Pool Packets
begin

section \<open>The I/O side of a connection\<close>

text \<open>
  \<open>net::ConnectionIO\<close> of \<open>net/connection.h\<close>/\<open>.cpp\<close>: the receive and the send event with their
  buffers, and the multicast events that wait to be posted. A multicast event is named by its
  index in the pool of the connection. What a request to registered I/O answers is a parameter
  (\<open>rio\<close>); the last component of a posting operation is what was submitted to it.
\<close>

text \<open>The number that a completed event carries: a signal or the bytes transferred.\<close>

datatype io_signal = Sig_eof | Sig_event_failed | Sig_retry_packet_process | Transferred nat

fun io_signal_of :: "nat \<Rightarrow> io_signal" where
  "io_signal_of n =
     (if n = 0 then Sig_eof else if n = 2 ^ 32 - 1 then Sig_event_failed
      else if n = 2 ^ 32 - 2 then Sig_retry_packet_process else Transferred n)"

record connection_io =
  cio_recv :: recv_event
  cio_send :: send_event
  cio_ready_multicast :: "nat list"
  cio_multicast_pool :: "multicast_event object_pool"

definition multicast_pool_init :: "multicast_event object_pool" where
  "multicast_pool_init =
     \<lparr>op_storage = (\<lambda>_. None), op_capacity = num_of_multicast_events,
      op_max_capacity = num_of_multicast_events, op_bitmap_size = 1 + num_of_multicast_events div 64,
      op_bitmaps = replicate (1 + num_of_multicast_events div 64) (NOT 0)\<rparr>"

definition connection_io_new :: connection_io where
  "connection_io_new =
     \<lparr>cio_recv = \<lparr>re_processing = False, re_data = recv_new tcp_recv_buffer_size\<rparr>,
      cio_send = \<lparr>se_processing = False, se_data = lf_new tcp_send_buffer_size\<rparr>,
      cio_ready_multicast = [], cio_multicast_pool = multicast_pool_init\<rparr>"

definition is_receive_io_busy :: "connection_io \<Rightarrow> bool" where
  "is_receive_io_busy c = re_processing (cio_recv c)"

definition is_send_io_busy :: "connection_io \<Rightarrow> bool" where
  "is_send_io_busy c = se_processing (cio_send c)"

definition cio_push :: "bytes \<Rightarrow> connection_io \<Rightarrow> bool \<times> connection_io" where
  "cio_push bs c =
     (let (ok, d) = lf_push bs (se_data (cio_send c))
      in (ok, c\<lparr>cio_send := (cio_send c)\<lparr>se_data := d\<rparr>\<rparr>))"

definition send_raw_data :: "bytes \<Rightarrow> connection_io \<Rightarrow> bool \<times> connection_io" where
  "send_raw_data bs c = cio_push bs c"

definition send_ping :: "connection_io \<Rightarrow> bool \<times> connection_io" where
  "send_ping c = cio_push [PT_ping] c"

text \<open>\<open>send_packet\<close> calls \<open>packet.serialize\<close> on the data of the send event.\<close>

definition send_packet ::
    "((bytes \<Rightarrow> connection_io \<Rightarrow> bool \<times> connection_io) \<Rightarrow> connection_io \<Rightarrow> bool \<times> connection_io) \<Rightarrow>
      connection_io \<Rightarrow> bool \<times> connection_io" where
  "send_packet serialize c = serialize cio_push c"

definition post_recv_event :: "nat \<Rightarrow> bool \<Rightarrow> connection_io \<Rightarrow> bool \<times> connection_io \<times> nat option" where
  "post_recv_event max_packet rio c =
     (let (ok, e, sub) = recv_post_rio max_packet rio (cio_recv c) in (ok, c\<lparr>cio_recv := e\<rparr>, sub))"

definition post_send_event :: "bool \<Rightarrow> connection_io \<Rightarrow> bool \<times> connection_io \<times> bytes option" where
  "post_send_event rio c =
     (let (ok, e, sub) = send_post_rio rio (cio_send c) in (ok, c\<lparr>cio_send := e\<rparr>, sub))"

definition multicast_event_new :: multicast_event where
  "multicast_event_new = \<lparr>me_processing = False, me_data = \<lparr>ro_bytes = []\<rparr>\<rparr>"

definition set_multicast_data :: "bytes \<Rightarrow> multicast_event \<Rightarrow> multicast_event" where
  "set_multicast_data bs e = e\<lparr>me_data := ro_set_data bs (me_data e)\<rparr>"

definition free_multicast_event :: "nat \<Rightarrow> connection_io \<Rightarrow> connection_io" where
  "free_multicast_event i c = c\<lparr>cio_multicast_pool := snd (pool_free_object i (cio_multicast_pool c))\<rparr>"

definition post_multicast_event :: "bytes \<Rightarrow> connection_io \<Rightarrow> bool \<times> connection_io" where
  "post_multicast_event data c =
     (let small = length data < lf_unused_size (se_data (cio_send c)) div 2;
          (sent, c) = (if small then send_raw_data data c else (False, c))
      in if sent then (True, c)
         else case new_object_raw (\<lambda>_. True) multicast_event_new (cio_multicast_pool c) of
                (Some i, pool) \<Rightarrow>
                  (True, c\<lparr>cio_multicast_pool :=
                             pool\<lparr>op_storage := (op_storage pool)(i \<mapsto> set_multicast_data data multicast_event_new)\<rparr>,
                          cio_ready_multicast := cio_ready_multicast c @ [i]\<rparr>)
              | (None, pool) \<Rightarrow> (False, c\<lparr>cio_multicast_pool := pool\<rparr>))"

text \<open>The loop of \<open>flush_multicast_send\<close>: an event that cannot be posted is given back.\<close>

fun flush_multicast_loop :: "(nat \<Rightarrow> bool) \<Rightarrow> nat list \<Rightarrow> connection_io \<Rightarrow> connection_io \<times> bytes list" where
  "flush_multicast_loop rio [] c = (c, [])"
| "flush_multicast_loop rio (i # is) c =
     (case op_storage (cio_multicast_pool c) i of
        None \<Rightarrow> flush_multicast_loop rio is c
      | Some e \<Rightarrow>
          (case multicast_post_rio (rio i) e of
             (True, e, sub) \<Rightarrow>
               (let pool = cio_multicast_pool c;
                    c = c\<lparr>cio_multicast_pool := pool\<lparr>op_storage := (op_storage pool)(i \<mapsto> e)\<rparr>\<rparr>;
                    (c, subs) = flush_multicast_loop rio is c
                in (c, (case sub of Some bs \<Rightarrow> bs # subs | None \<Rightarrow> subs)))
           | (False, e, sub) \<Rightarrow> flush_multicast_loop rio is (free_multicast_event i c)))"

definition flush_multicast_send :: "(nat \<Rightarrow> bool) \<Rightarrow> connection_io \<Rightarrow> connection_io \<times> bytes list" where
  "flush_multicast_send rio c =
     flush_multicast_loop rio (cio_ready_multicast c) (c\<lparr>cio_ready_multicast := []\<rparr>)"

text \<open>What \<open>flush_send\<close> and \<open>flush_receive\<close> do to one connection; the result has what was submitted.\<close>

definition flush_send_connection ::
    "bool \<Rightarrow> (nat \<Rightarrow> bool) \<Rightarrow> connection_io \<Rightarrow> connection_io \<times> bytes option \<times> bytes list" where
  "flush_send_connection rio rio_multicast c =
     (let (c, sub) = (if \<not> is_send_io_busy c
                      then (let (_, c, sub) = post_send_event rio c in (c, sub)) else (c, None));
          (c, subs) = flush_multicast_send rio_multicast c
      in (c, sub, subs))"

definition flush_receive_connection :: "nat \<Rightarrow> bool \<Rightarrow> connection_io \<Rightarrow> connection_io \<times> nat option" where
  "flush_receive_connection max_packet rio c =
     (if \<not> is_receive_io_busy c
      then (let (_, c, sub) = post_recv_event max_packet rio c in (c, sub)) else (c, None))"

subsection \<open>Sending\<close>

definition cio_pending :: "connection_io \<Rightarrow> bytes" where
  "cio_pending c = lf_contents (se_data (cio_send c))"

definition cio_wf :: "connection_io \<Rightarrow> bool" where
  "cio_wf c \<longleftrightarrow> lf_wf (se_data (cio_send c)) \<and> recv_wf (re_data (cio_recv c)) \<and>
     pool_wf (cio_multicast_pool c) \<and> op_max_capacity (cio_multicast_pool c) = num_of_multicast_events"

lemma multicast_pool_init_wf: "pool_wf multicast_pool_init \<and> pool_used multicast_pool_init = {}"
proof -
  have "object_pool_new (\<lambda>_. True) (\<lambda>_. True) num_of_multicast_events = Inr multicast_pool_init"
    by (simp add: object_pool_new_def multicast_pool_init_def)
  from object_pool_new_wf [OF this] show ?thesis by simp
qed

lemma connection_io_new_wf: "cio_wf connection_io_new" "cio_pending connection_io_new = []"
  using multicast_pool_init_wf
  by (simp_all add: cio_wf_def connection_io_new_def cio_pending_def multicast_pool_init_def recv_new_def
      recv_wf_def)

lemma cio_push_effect:
  assumes "cio_wf c" "cio_push bs c = (ok, c')"
  shows "cio_pending c' = cio_pending c @ (if ok then bs else [])" "cio_wf c'"
    "cio_recv c' = cio_recv c" "se_processing (cio_send c') = se_processing (cio_send c)"
    "cio_multicast_pool c' = cio_multicast_pool c" "cio_ready_multicast c' = cio_ready_multicast c"
proof -
  obtain d where d: "lf_push bs (se_data (cio_send c)) = (ok, d)"
    and c': "c' = c\<lparr>cio_send := (cio_send c)\<lparr>se_data := d\<rparr>\<rparr>"
    using assms(2) by (auto simp: cio_push_def split: prod.splits)
  have wf: "lf_wf (se_data (cio_send c))" using assms(1) by (simp add: cio_wf_def)
  show "cio_pending c' = cio_pending c @ (if ok then bs else [])"
    using lf.push_accept [OF wf, of bs d] lf.push_reject [OF wf, of bs d] d
    by (cases ok) (simp_all add: c' cio_pending_def)
  show "cio_wf c'" using assms(1) lf.wf_push [OF wf d] by (simp add: c' cio_wf_def)
  show "cio_recv c' = cio_recv c" "se_processing (cio_send c') = se_processing (cio_send c)"
    "cio_multicast_pool c' = cio_multicast_pool c" "cio_ready_multicast c' = cio_ready_multicast c"
    by (simp_all add: c')
qed

text \<open>
  A multicast is either appended to the send buffer or kept as one event with exactly its bytes;
  when neither has room nothing changes but the refusal is reported.
\<close>

lemma post_multicast_event_effect:
  assumes wf: "cio_wf c" and post: "post_multicast_event data c = (ok, c')"
  shows "cio_wf c'"
    and "ok \<Longrightarrow> cio_pending c' = cio_pending c @ data \<and> cio_ready_multicast c' = cio_ready_multicast c \<or>
      cio_pending c' = cio_pending c \<and>
      (\<exists>i e. cio_ready_multicast c' = cio_ready_multicast c @ [i] \<and> i \<notin> pool_used (cio_multicast_pool c) \<and>
        op_storage (cio_multicast_pool c') i = Some e \<and> ro_contents (me_data e) = data)"
    and "\<not> ok \<Longrightarrow> cio_pending c' = cio_pending c \<and> cio_ready_multicast c' = cio_ready_multicast c \<and>
      pool_used (cio_multicast_pool c) = {..<num_of_multicast_events}"
proof -
  let ?small = "length data < lf_unused_size (se_data (cio_send c)) div 2"
  obtain sent d where d: "(if ?small then send_raw_data data c else (False, c)) = (sent, d)" by fastforce
  have "cio_pending d = cio_pending c @ (if sent then data else []) \<and> cio_wf d \<and>
      cio_multicast_pool d = cio_multicast_pool c \<and> cio_ready_multicast d = cio_ready_multicast c"
  proof (cases ?small)
    case True
    then have "cio_push data c = (sent, d)" using d by (simp add: send_raw_data_def)
    from cio_push_effect [OF wf this] show ?thesis by simp
  next
    case False
    with d wf show ?thesis by auto
  qed
  then have eff: "cio_pending d = cio_pending c @ (if sent then data else [])" "cio_wf d"
    "cio_multicast_pool d = cio_multicast_pool c" "cio_ready_multicast d = cio_ready_multicast c"
    by blast+
  have pwf: "pool_wf (cio_multicast_pool c)" and cap: "op_max_capacity (cio_multicast_pool c) = num_of_multicast_events"
    using wf by (simp_all add: cio_wf_def)
  obtain j q where n: "new_object_raw (\<lambda>_. True) multicast_event_new (cio_multicast_pool c) = (j, q)" by fastforce
  consider (sent) sent | (event) i where "\<not> sent" "j = Some i" | (full) "\<not> sent" "j = None" by (cases j) auto
  then have "cio_wf c' \<and> (ok \<longrightarrow> cio_pending c' = cio_pending c @ data \<and> cio_ready_multicast c' = cio_ready_multicast c \<or>
      cio_pending c' = cio_pending c \<and>
      (\<exists>i e. cio_ready_multicast c' = cio_ready_multicast c @ [i] \<and> i \<notin> pool_used (cio_multicast_pool c) \<and>
        op_storage (cio_multicast_pool c') i = Some e \<and> ro_contents (me_data e) = data)) \<and>
     (\<not> ok \<longrightarrow> cio_pending c' = cio_pending c \<and> cio_ready_multicast c' = cio_ready_multicast c \<and>
      pool_used (cio_multicast_pool c) = {..<num_of_multicast_events})"
  proof cases
    case sent
    with post d have "ok" "c' = d" by (simp_all add: post_multicast_event_def Let_def)
    with sent eff show ?thesis by simp
  next
    case (event i)
    let ?q = "q\<lparr>op_storage := (op_storage q)(i \<mapsto> set_multicast_data data multicast_event_new)\<rparr>"
    from event post d n eff(3) have c': ok
      "c' = d\<lparr>cio_multicast_pool := ?q, cio_ready_multicast := cio_ready_multicast d @ [i]\<rparr>"
      by (simp_all add: post_multicast_event_def Let_def)
    from event n have a: "pool_alloc (\<lambda>_. True) multicast_event_new (cio_multicast_pool c) = Some (i, q)"
      by (simp add: pool_alloc_def)
    have "pool_wf ?q" "op_max_capacity q = num_of_multicast_events" "i \<notin> pool_used (cio_multicast_pool c)"
      using pool.alloc_wf [OF pwf a] pool.alloc_limit [OF pwf a] pool.alloc_fresh [OF pwf a] cap
      by (simp_all add: pool_wf_def)
    with eff event c' show ?thesis
      by (simp add: cio_wf_def cio_pending_def set_multicast_data_def ro_set_data_def ro_contents_def)
  next
    case full
    from full n have a: "pool_alloc (\<lambda>_. True) multicast_event_new (cio_multicast_pool c) = None"
      by (simp add: pool_alloc_def)
    from full post d n eff(3) have c': "\<not> ok" "c' = d\<lparr>cio_multicast_pool := q\<rparr>"
      by (simp_all add: post_multicast_event_def Let_def)
    have "pool_wf q" "op_max_capacity q = num_of_multicast_events"
      using new_object_raw_None [OF pwf n [unfolded full(2)]] pwf cap by simp_all
    with eff full c' pool_alloc_None [OF pwf refl a] cap show ?thesis
      by (simp add: cio_wf_def cio_pending_def)
  qed
  then show "cio_wf c'"
    and "ok \<Longrightarrow> cio_pending c' = cio_pending c @ data \<and> cio_ready_multicast c' = cio_ready_multicast c \<or>
      cio_pending c' = cio_pending c \<and>
      (\<exists>i e. cio_ready_multicast c' = cio_ready_multicast c @ [i] \<and> i \<notin> pool_used (cio_multicast_pool c) \<and>
        op_storage (cio_multicast_pool c') i = Some e \<and> ro_contents (me_data e) = data)"
    and "\<not> ok \<Longrightarrow> cio_pending c' = cio_pending c \<and> cio_ready_multicast c' = cio_ready_multicast c \<and>
      pool_used (cio_multicast_pool c) = {..<num_of_multicast_events}"
    by blast+
qed

text \<open>The same for every event of the pool.\<close>

definition multicast_data :: "connection_io \<Rightarrow> nat \<Rightarrow> bytes" where
  "multicast_data c i = (case op_storage (cio_multicast_pool c) i of None \<Rightarrow> [] | Some e \<Rightarrow> ro_contents (me_data e))"

abbreviation events_used :: "connection_io \<Rightarrow> nat set" where
  "events_used c \<equiv> pool_used (cio_multicast_pool c)"

abbreviation event_at :: "connection_io \<Rightarrow> nat \<Rightarrow> multicast_event option" where
  "event_at c i \<equiv> op_storage (cio_multicast_pool c) i"

lemma post_multicast_cases:
  assumes wf: "cio_wf c" and post: "post_multicast_event data c = (ok, c')"
  obtains (stream) "ok" "cio_pending c' = cio_pending c @ data" "cio_ready_multicast c' = cio_ready_multicast c"
      "cio_multicast_pool c' = cio_multicast_pool c" "cio_wf c'" "is_send_io_busy c' = is_send_io_busy c"
    | (event) i where "ok" "cio_pending c' = cio_pending c" "cio_ready_multicast c' = cio_ready_multicast c @ [i]"
      "i \<notin> events_used c" "events_used c' = insert i (events_used c)" "\<And>j. j \<noteq> i \<Longrightarrow> event_at c' j = event_at c j"
      "event_at c' i \<noteq> None" "multicast_data c' i = data" "cio_wf c'" "is_send_io_busy c' = is_send_io_busy c"
    | (refused) "\<not> ok" "cio_pending c' = cio_pending c" "cio_ready_multicast c' = cio_ready_multicast c"
      "cio_multicast_pool c' = cio_multicast_pool c" "cio_wf c'" "is_send_io_busy c' = is_send_io_busy c"
proof -
  let ?small = "length data < lf_unused_size (se_data (cio_send c)) div 2"
  obtain sent d where d: "(if ?small then send_raw_data data c else (False, c)) = (sent, d)" by fastforce
  have eff: "cio_pending d = cio_pending c @ (if sent then data else [])" "cio_wf d" "is_send_io_busy d = is_send_io_busy c"
    "cio_multicast_pool d = cio_multicast_pool c" "cio_ready_multicast d = cio_ready_multicast c"
    using d wf cio_push_effect [OF wf, of data sent d] by (auto simp: send_raw_data_def is_send_io_busy_def split: if_splits)
  obtain j q where n: "new_object_raw (\<lambda>_. True) multicast_event_new (cio_multicast_pool c) = (j, q)" by fastforce
  have wf': "cio_wf c'" by (rule post_multicast_event_effect(1) [OF wf post])
  consider (sent) sent | (new) i where "\<not> sent" "j = Some i" | (full) "\<not> sent" "j = None" by (cases j) auto
  then show thesis
  proof cases
    case sent
    with post d have "ok" "c' = d" by (simp_all add: post_multicast_event_def Let_def)
    with sent eff show thesis by (intro stream) simp_all
  next
    case (new i)
    with post d n eff(4) have c': ok
      "c' = d\<lparr>cio_multicast_pool := q\<lparr>op_storage := (op_storage q)(i \<mapsto> set_multicast_data data multicast_event_new)\<rparr>,
              cio_ready_multicast := cio_ready_multicast d @ [i]\<rparr>"
      by (simp_all add: post_multicast_event_def Let_def)
    from new n have "new_object_internal (\<lambda>_. True) multicast_event_new (cio_multicast_pool c) = (i, q)" "i \<noteq> invalid_index"
      by (auto simp: new_object_raw_def split: prod.splits if_splits)
    note q = new_object_internal_effect [OF _ this]
    have pwf: "pool_wf (cio_multicast_pool c)" using wf by (simp add: cio_wf_def)
    show thesis
      by (rule event [of i])
        (use c' eff new(1) wf' q(1,2,6) [OF pwf] in \<open>auto simp: cio_pending_def is_send_io_busy_def multicast_data_def
          set_multicast_data_def ro_set_data_def ro_contents_def pool_used_def\<close>)
  next
    case full
    with post d n eff(4) have c': "\<not> ok" "c' = d\<lparr>cio_multicast_pool := q\<rparr>"
      by (simp_all add: post_multicast_event_def Let_def)
    have "q = cio_multicast_pool c"
      using new_object_raw_None [OF _ n [unfolded full(2)]] wf by (simp add: cio_wf_def)
    with full eff c' wf' show thesis by (intro refused) (simp_all add: cio_pending_def is_send_io_busy_def)
  qed
qed

text \<open>The send event is exclusive: while a request is in flight nothing else is submitted.\<close>

lemma post_send_event_busy:
  "is_send_io_busy c \<Longrightarrow> post_send_event rio c = (False, c, None)"
  by (simp add: is_send_io_busy_def post_send_event_def send_post_rio_def)

lemma post_send_event_submits:
  "post_send_event rio c = (True, c', sub) \<Longrightarrow>
     sub = Some (cio_pending c) \<and> is_send_io_busy c' \<and> cio_pending c' = cio_pending c"
  by (auto simp: post_send_event_def cio_pending_def is_send_io_busy_def
      dest: send_post_rio_exclusive split: prod.splits)

text \<open>Completions and flushes keep a connection well-formed.\<close>

lemma pool_wf_storage: "pool_wf (p\<lparr>op_storage := st\<rparr>) = pool_wf p"
  by (simp add: pool_wf_def)

lemma free_multicast_event_wf: "cio_wf c \<Longrightarrow> cio_wf (free_multicast_event i c)"
  by (simp add: cio_wf_def free_multicast_event_def pool_free_object_wf)

lemma flush_multicast_loop_wf: "cio_wf c \<Longrightarrow> cio_wf (fst (flush_multicast_loop rio is c))"
proof (induction "is" arbitrary: c)
  case (Cons i "is")
  have step: "cio_wf (c\<lparr>cio_multicast_pool := (cio_multicast_pool c)\<lparr>op_storage := st\<rparr>\<rparr>)" for st
    using Cons.prems by (simp add: cio_wf_def pool_wf_storage)
  show ?case
  proof (cases "op_storage (cio_multicast_pool c) i")
    case None
    with Cons show ?thesis by simp
  next
    case (Some e)
    obtain ok e' sub where m: "multicast_post_rio (rio i) e = (ok, e', sub)" by (metis prod_cases3)
    show ?thesis
      using Some m Cons.IH [OF step] Cons.IH [OF free_multicast_event_wf [OF Cons.prems]]
      by (cases ok) (simp_all add: Let_def case_prod_beta)
  qed
qed simp

lemma flush_send_connection_wf: "cio_wf c \<Longrightarrow> cio_wf (fst (flush_send_connection rio rm c))"
proof -
  assume wf: "cio_wf c"
  obtain ok d sub where p: "post_send_event rio c = (ok, d, sub)" by (metis prod_cases3)
  have "se_data (cio_send d) = se_data (cio_send c)" "cio_recv d = cio_recv c"
    "cio_multicast_pool d = cio_multicast_pool c"
    using p by (auto simp: post_send_event_def send_post_rio_def split: prod.splits if_splits)
  then have "cio_wf d" using wf by (simp add: cio_wf_def)
  moreover have "cio_wf (x\<lparr>cio_ready_multicast := l\<rparr>) = cio_wf x" for x l by (simp add: cio_wf_def)
  ultimately have "cio_wf (fst (flush_multicast_send rm d))" "cio_wf (fst (flush_multicast_send rm c))"
    using wf by (simp_all add: flush_multicast_send_def flush_multicast_loop_wf)
  with p show ?thesis by (simp add: flush_send_connection_def Let_def case_prod_beta)
qed

lemma flush_receive_connection_wf: "cio_wf c \<Longrightarrow> cio_wf (fst (flush_receive_connection mp rio c))"
  by (auto simp: flush_receive_connection_def post_recv_event_def recv_post_rio_def cio_wf_def Let_def
      split: if_splits prod.splits)

text \<open>
  Data that a connection holds for its client as a whole: in one piece in the send buffer, or as an event that
  waits for the next flush. Posting keeps what it holds.
\<close>

definition queued_for :: "bytes \<Rightarrow> connection_io \<Rightarrow> bool" where
  "queued_for data c \<longleftrightarrow> (\<exists>xs ys. cio_pending c = xs @ data @ ys) \<or>
     (\<exists>i \<in> set (cio_ready_multicast c). i \<in> events_used c \<and> event_at c i \<noteq> None \<and> multicast_data c i = data)"

lemma queued_for_post:
  assumes wf: "cio_wf c" and post: "post_multicast_event data c = (ok, c')"
  shows "ok \<Longrightarrow> queued_for data c'" "queued_for data' c \<Longrightarrow> queued_for data' c'"
proof -
  have "(ok \<longrightarrow> queued_for data c') \<and> (queued_for data' c \<longrightarrow> queued_for data' c')"
    using wf post
  proof (cases rule: post_multicast_cases)
    case stream
    have "cio_pending c' = cio_pending c @ data @ []" "multicast_data c' = multicast_data c"
      using stream(2,4) by (simp_all add: fun_eq_iff multicast_data_def)
    with stream(3,4) show ?thesis unfolding queued_for_def by (metis append.assoc)
  next
    case (event i)
    have "multicast_data c' j = multicast_data c j" if "j \<noteq> i" for j
      using event(6) [OF that] by (simp add: multicast_data_def)
    then have "queued_for data' c'" if "queued_for data' c"
      using that event(2-6) unfolding queued_for_def by (metis Un_iff insertCI set_append)
    moreover have "queued_for data c'" using event(3,5,7,8) unfolding queued_for_def by auto
    ultimately show ?thesis by blast
  next
    case refused
    have "multicast_data c' = multicast_data c" using refused(4) by (simp add: fun_eq_iff multicast_data_def)
    with refused show ?thesis by (simp add: queued_for_def)
  qed
  then show "ok \<Longrightarrow> queued_for data c'" "queued_for data' c \<Longrightarrow> queued_for data' c'" by blast+
qed

text \<open>
  A multicast that is reported as posted is at the end of the send buffer or waits as one
  event of its own with exactly its bytes; it is refused only when every event of the connection
  is in use, and then nothing was queued.
\<close>

theorem multicast_delivered_or_refused:
  assumes "cio_wf c" "post_multicast_event data c = (ok, c')"
  shows "cio_wf c' \<and>
    (ok \<longrightarrow> cio_pending c' = cio_pending c @ data \<and> cio_ready_multicast c' = cio_ready_multicast c \<or>
      cio_pending c' = cio_pending c \<and>
      (\<exists>i e. cio_ready_multicast c' = cio_ready_multicast c @ [i] \<and> i \<notin> pool_used (cio_multicast_pool c) \<and>
        op_storage (cio_multicast_pool c') i = Some e \<and> ro_contents (me_data e) = data)) \<and>
    (\<not> ok \<longrightarrow> cio_pending c' = cio_pending c \<and> cio_ready_multicast c' = cio_ready_multicast c \<and>
      pool_used (cio_multicast_pool c) = {..<num_of_multicast_events})"
  using post_multicast_event_effect [OF assms] by blast

theorem multicast_delivered_or_refused_witness:
  "\<exists>c'. post_multicast_event [1, 2, 3] connection_io_new = (True, c') \<and> cio_wf c'"
proof -
  obtain ok c' where p: "post_multicast_event [1, 2, 3] connection_io_new = (ok, c')" by fastforce
  have "pool_used (cio_multicast_pool connection_io_new) = {}"
    using multicast_pool_init_wf by (simp add: connection_io_new_def)
  with multicast_delivered_or_refused [OF connection_io_new_wf(1) p] p show ?thesis by (cases ok) auto
qed

end
