(* ===== verification/Player_Packets.thy ===== *)
theory Player_Packets
  imports Packets
begin

section \<open>Packets about players\<close>

text \<open>
  The static serialisers of \<open>PacketSetPlayerPosition\<close>, \<open>PacketSpawnPlayer\<close> and
  \<open>PacketDespawnPlayer\<close>. They take a vector of \<open>Player*\<close>: a list of addresses into a heap
  of players, where an address without a player is a dangling pointer and has no result.
\<close>

type_synonym heap = "nat \<Rightarrow> player option"

definition exceeds_32 :: "i16 \<Rightarrow> bool" where
  "exceeds_32 d \<longleftrightarrow> 32 < abs (sint d)"

definition absolute_move :: "position \<Rightarrow> bool" where
  "absolute_move diff \<longleftrightarrow>
     exceeds_32 (pos_x diff) \<or> exceeds_32 (pos_y diff) \<or> exceeds_32 (pos_y diff)"

text \<open>The body of the loop for one player: its packet, if it moved, and its new state.\<close>

definition serialize_player_position :: "player \<Rightarrow> bytes \<times> player" where
  "serialize_player_position p =
     (let latest = last_position p;
          diff = pos_diff latest (pl_last_transferred p);
          p = update_last_transferred_position latest p;
          gid = game_id p
      in (if absolute_move diff then
            write_byte (pos_pitch latest) (write_byte (pos_yaw latest)
              (write_short (pos_z latest) (write_short (pos_y latest) (write_short (pos_x latest)
                (write_byte gid (write_byte PT_set_player_position []))))))
          else if raw_coordinate diff \<noteq> 0 \<and> raw_orientation diff \<noteq> 0 then
            write_byte (pos_pitch latest) (write_byte (pos_yaw latest)
              (write_byte (ucast (pos_z diff)) (write_byte (ucast (pos_y diff))
                (write_byte (ucast (pos_x diff))
                  (write_byte gid (write_byte PT_update_player_position []))))))
          else if raw_coordinate diff \<noteq> 0 then
            write_byte (ucast (pos_z diff)) (write_byte (ucast (pos_y diff))
              (write_byte (ucast (pos_x diff))
                (write_byte gid (write_byte PT_update_player_coordinate []))))
          else if raw_orientation diff \<noteq> 0 then
            write_byte (pos_pitch latest) (write_byte (pos_yaw latest)
              (write_byte gid (write_byte PT_update_player_orientation [])))
          else [], p))"

fun set_player_position_serialize :: "nat list \<Rightarrow> heap \<Rightarrow> (bytes \<times> heap) option" where
  "set_player_position_serialize [] h = Some ([], h)"
| "set_player_position_serialize (a # as) h =
     (case h a of
        None \<Rightarrow> None
      | Some p \<Rightarrow>
          (let (bs, p') = serialize_player_position p
           in case set_player_position_serialize as (h(a \<mapsto> p')) of
                None \<Rightarrow> None
              | Some (rest, h') \<Rightarrow> Some (bs @ rest, h')))"

definition spawn_packet :: "player \<Rightarrow> bytes" where
  "spawn_packet p =
     (let pos = (if last_position p \<noteq> 0 then last_position p else spawn_position p)
      in write_orientation (pos_yaw pos) (pos_pitch pos)
           (write_coordinate (pos_coordinate pos)
             (write_cstring (player_username p)
               (write_byte (game_id p) (write_byte PT_spawn_player [])))))"

fun serialize_position_packet :: "nat list \<Rightarrow> heap \<Rightarrow> bytes option" where
  "serialize_position_packet [] h = Some []"
| "serialize_position_packet (a # as) h =
     (case h a of None \<Rightarrow> None | Some p \<Rightarrow>
        map_option (\<lambda>rest. spawn_packet p @ rest) (serialize_position_packet as h))"

definition spawn_player_serialize :: "nat list \<Rightarrow> nat list \<Rightarrow> heap \<Rightarrow> (nat \<times> bytes) option" where
  "spawn_player_serialize old_players new_players h =
     (case serialize_position_packet old_players h of None \<Rightarrow> None | Some b1 \<Rightarrow>
        (case serialize_position_packet new_players h of None \<Rightarrow> None | Some b2 \<Rightarrow>
           Some ((length old_players + length new_players) * spawn_player_packet_size, b1 @ b2)))"

definition despawn_packet :: "player \<Rightarrow> bytes" where
  "despawn_packet p = write_byte (game_id p) (write_byte PT_despawn_player [])"

fun despawn_loop :: "nat list \<Rightarrow> heap \<Rightarrow> bytes option" where
  "despawn_loop [] h = Some []"
| "despawn_loop (a # as) h =
     (case h a of None \<Rightarrow> None | Some p \<Rightarrow>
        map_option (\<lambda>rest. despawn_packet p @ rest) (despawn_loop as h))"

definition despawn_player_serialize :: "nat list \<Rightarrow> heap \<Rightarrow> (nat \<times> bytes) option" where
  "despawn_player_serialize players h =
     map_option (\<lambda>b. (length players * despawn_player_packet_size, b)) (despawn_loop players h)"

subsection \<open>Sizes\<close>

lemma length_spawn_packet [simp]: "length (spawn_packet p) = spawn_player_packet_size"
  by (simp add: spawn_packet_def Let_def)

lemma length_despawn_packet [simp]: "length (despawn_packet p) = despawn_player_packet_size"
  by (simp add: despawn_packet_def)

lemma length_serialize_position_packet:
  "serialize_position_packet as h = Some bs \<Longrightarrow> length bs = length as * spawn_player_packet_size"
  by (induction as arbitrary: bs) (auto split: option.splits)

lemma serialize_position_packet_eq:
  "set as \<subseteq> dom h \<Longrightarrow> serialize_position_packet as h = Some (concat (map (spawn_packet \<circ> the \<circ> h) as))"
  by (induction as) (auto split: option.splits)

lemma length_despawn_loop:
  "despawn_loop as h = Some bs \<Longrightarrow> length bs = length as * despawn_player_packet_size"
  by (induction as arbitrary: bs) (auto split: option.splits)

lemma despawn_loop_eq:
  "set as \<subseteq> dom h \<Longrightarrow> despawn_loop as h = Some (concat (map (despawn_packet \<circ> the \<circ> h) as))"
  by (induction as) (auto split: option.splits)

lemma length_serialize_player_position:
  "length (fst (serialize_player_position p)) \<le> set_player_position_packet_size"
  by (simp add: serialize_player_position_def Let_def)

lemma length_set_player_position_serialize:
  "set_player_position_serialize as h = Some (bs, h') \<Longrightarrow>
     length bs \<le> length as * set_player_position_packet_size"
proof (induction as arbitrary: h bs h')
  case (Cons a as)
  from Cons.prems obtain p q b rest where
    p: "h a = Some p" and q: "serialize_player_position p = (b, q)"
    and rest: "set_player_position_serialize as (h(a \<mapsto> q)) = Some (rest, h')" and bs: "bs = b @ rest"
    by (auto split: option.splits prod.splits)
  have "length b \<le> set_player_position_packet_size"
    using length_serialize_player_position [of p] q by simp
  moreover have "length rest \<le> length as * set_player_position_packet_size"
    using Cons.IH [OF rest] .
  ultimately show ?case using bs by simp
qed simp

lemma set_player_position_serialize_dom:
  "set_player_position_serialize as h = Some (bs, h') \<Longrightarrow> dom h' = dom h"
proof (induction as arbitrary: h bs h')
  case (Cons a as)
  from Cons.prems obtain p q b rest where
    p: "h a = Some p" and rest: "set_player_position_serialize as (h(a \<mapsto> q)) = Some (rest, h')"
    by (auto split: option.splits prod.splits)
  from p have "dom (h(a \<mapsto> q)) = dom h" by (simp add: domI insert_absorb)
  with Cons.IH [OF rest] show ?case by (rule trans)
qed simp

lemma set_player_position_serialize_Some:
  "set as \<subseteq> dom h \<Longrightarrow> \<exists>bs h'. set_player_position_serialize as h = Some (bs, h')"
proof (induction as arbitrary: h)
  case (Cons a as)
  then obtain p where p: "h a = Some p" by auto
  obtain b q where q: "serialize_player_position p = (b, q)" by force
  have "set as \<subseteq> dom (h(a \<mapsto> q))" using Cons.prems by auto
  from Cons.IH [OF this] obtain bs h' where "set_player_position_serialize as (h(a \<mapsto> q)) = Some (bs, h')"
    by blast
  with p q show ?case by simp
qed simp

subsection \<open>What a client makes of a position packet\<close>

text \<open>
  The reading of a movement packet by a client that shows the player at \<open>pos\<close>: \<open>0x08\<close> sets
  the position, \<open>0x09\<close> and \<open>0x0a\<close> move by signed bytes, \<open>0x0b\<close> turns.
\<close>

definition move_by :: "u8 \<Rightarrow> u8 \<Rightarrow> u8 \<Rightarrow> position \<Rightarrow> u8 \<Rightarrow> u8 \<Rightarrow> position" where
  "move_by dx dy dz pos yaw pitch =
     pos_of_view (pos_x pos + scast dx) (pos_y pos + scast dy) (pos_z pos + scast dz) yaw pitch"

definition client_apply :: "bytes \<Rightarrow> position \<Rightarrow> position option" where
  "client_apply bs pos =
     (case bs of
        [] \<Rightarrow> Some pos
      | t # gid # body \<Rightarrow>
          if t = PT_set_player_position then map_option spp_pos (set_player_position_parse bs)
          else if t = PT_update_player_position \<and> length body = 5
            then Some (move_by (body ! 0) (body ! 1) (body ! 2) pos (body ! 3) (body ! 4))
          else if t = PT_update_player_coordinate \<and> length body = 3
            then Some (move_by (body ! 0) (body ! 1) (body ! 2) pos (pos_yaw pos) (pos_pitch pos))
          else if t = PT_update_player_orientation \<and> length body = 2
            then Some (pos_of_view (pos_x pos) (pos_y pos) (pos_z pos) (body ! 0) (body ! 1))
          else None
      | _ \<Rightarrow> None)"

definition fits_signed_byte :: "i16 \<Rightarrow> bool" where
  "fits_signed_byte d \<longleftrightarrow> scast (ucast d :: u8) = d"

lemma fits_signed_byte_iff: "fits_signed_byte d \<longleftrightarrow> - 128 \<le> sint d \<and> sint d \<le> 127"
proof -
  have u: "sint (ucast d :: u8) = signed_take_bit 7 (uint d)"
    by (simp add: sint_uint unsigned_ucast_eq signed_take_bit_take_bit flip: take_bit_eq_mod)
  have s: "sint d = signed_take_bit 15 (uint d)" by (simp add: sint_uint)
  have "sint (scast (ucast d :: u8) :: i16) = sint (ucast d :: u8)"
    by (simp add: signed_scast_eq min_def u signed_take_bit_signed_take_bit)
  then have "fits_signed_byte d \<longleftrightarrow> signed_take_bit 7 (uint d) = sint d"
    unfolding fits_signed_byte_def u using signed_word_eqI by (metis u)
  also have "signed_take_bit 7 (uint d) = signed_take_bit 7 (sint d)"
    unfolding s by (simp add: signed_take_bit_signed_take_bit)
  also have "signed_take_bit 7 (sint d) = sint d \<longleftrightarrow> - 128 \<le> sint d \<and> sint d \<le> 127"
    using signed_take_bit_int_eq_self_iff [of 7 "sint d"] by auto
  finally show ?thesis .
qed

lemma not_exceeds_fits: "\<not> exceeds_32 d \<Longrightarrow> fits_signed_byte d"
  by (auto simp: exceeds_32_def fits_signed_byte_iff)

lemma fits_signed_byte_0 [simp]: "fits_signed_byte 0"
  by (simp add: fits_signed_byte_def)

lemma set_player_position_unfold:
  "write_byte pt (write_byte yw (write_short z (write_short y (write_short x
     (write_byte g (write_byte i [])))))) =
   write_byte i [] @ write_byte g [] @ write_short x [] @ write_short y [] @ write_short z [] @
     write_byte yw [] @ write_byte pt [] @ []"
  by (simp add: write_defs)

lemma set_player_position_parse_bytes:
  "set_player_position_parse (write_byte i [] @ write_byte g [] @ write_short x [] @ write_short y [] @
     write_short z [] @ write_byte yw [] @ write_byte pt [] @ r) =
   Some \<lparr>pk_id = PT_set_player_position, spp_player_id = g, spp_pos = pos_of_view x y z yw pt\<rparr>"
  by (simp add: set_player_position_parse_def wire_simps)

lemma client_apply_set_position:
  "client_apply (PT_set_player_position # g # body) pos =
     map_option spp_pos (set_player_position_parse (PT_set_player_position # g # body))"
  by (simp add: client_apply_def)

lemma client_apply_absolute:
  "client_apply (write_byte pt (write_byte yw (write_short z (write_short y (write_short x
     (write_byte g (write_byte PT_set_player_position []))))))) pos = Some (pos_of_view x y z yw pt)"
proof -
  let ?body = "write_byte pt (write_byte yw (write_short z (write_short y (write_short x []))))"
  have e: "write_byte pt (write_byte yw (write_short z (write_short y (write_short x
     (write_byte g (write_byte PT_set_player_position [])))))) = PT_set_player_position # g # ?body"
    by (simp add: write_defs)
  show ?thesis
    unfolding e client_apply_set_position
    unfolding e [symmetric] set_player_position_unfold set_player_position_parse_bytes by simp
qed

lemma client_apply_relative:
  "client_apply [PT_update_player_position, g, a, b, c, yw, pt] pos = Some (move_by a b c pos yw pt)"
  "client_apply [PT_update_player_coordinate, g, a, b, c] pos =
     Some (move_by a b c pos (pos_yaw pos) (pos_pitch pos))"
  "client_apply [PT_update_player_orientation, g, yw, pt] pos =
     Some (pos_of_view (pos_x pos) (pos_y pos) (pos_z pos) yw pt)"
  "client_apply [] pos = Some pos"
  by (simp_all add: client_apply_def)

lemma pos_of_view_eq_iff: "pos_of_view x y z yw pt = q \<longleftrightarrow>
    x = pos_x q \<and> y = pos_y q \<and> z = pos_z q \<and> yw = pos_yaw q \<and> pt = pos_pitch q"
  by (metis pos_of_view_eta pos_of_view_fields)

lemma position_eq_iff: "p = q \<longleftrightarrow> pos_x p = pos_x q \<and> pos_y p = pos_y q \<and> pos_z p = pos_z q \<and>
    pos_yaw p = pos_yaw q \<and> pos_pitch p = pos_pitch q"
  by (auto intro: position_eqI)

lemma add_scast_diff: "(a :: i16) + scast (ucast (b - a) :: u8) = b \<longleftrightarrow> fits_signed_byte (b - a)"
  by (auto simp: fits_signed_byte_def algebra_simps)

text \<open>
  C26: A client that shows the player where the last transfer left it shows it at its new position
  after the packet, exactly when the move was sent absolutely or its \<open>z\<close> part fits a signed byte.
  (The test for an absolute packet looks at \<open>y\<close> twice and never at \<open>z\<close>, so a far move along
  \<open>z\<close> alone is sent as a relative one and truncated.)
\<close>

theorem position_packet_correct:
  "client_apply (fst (serialize_player_position p)) (pl_last_transferred p) = Some (last_position p) \<longleftrightarrow>
    absolute_move (pos_diff (last_position p) (pl_last_transferred p)) \<or>
    fits_signed_byte (pos_z (pos_diff (last_position p) (pl_last_transferred p)))"
proof (cases "absolute_move (pos_diff (last_position p) (pl_last_transferred p))")
  case True
  then show ?thesis
    by (simp add: serialize_player_position_def Let_def client_apply_absolute)
next
  case False
  then have f: "fits_signed_byte (pos_x (pos_diff (last_position p) (pl_last_transferred p)))"
    "fits_signed_byte (pos_y (pos_diff (last_position p) (pl_last_transferred p)))"
    by (auto simp: absolute_move_def not_exceeds_fits)
  show ?thesis
    using False f
    by (auto simp: serialize_player_position_def Let_def write_byte_def client_apply_relative move_by_def
        pos_of_view_eq_iff add_scast_diff raw_coordinate_eq_0_iff raw_orientation_eq_0_iff
        position_eq_iff [of "pl_last_transferred p" "last_position p"])
qed

end
