(* ===== verification/Connection_Table.thy ===== *)
theory Connection_Table
  imports Connection_IO Player_Packets Slot_Allocator
begin

section \<open>The connection table\<close>

text \<open>
  \<open>net/connection_environment.h\<close>/\<open>.cpp\<close>: the table of connections with a fixed number of slots,
  the allocation of a slot, and the keys that name a connection across threads and servers: an
  index with the creation time, so that a key of an earlier connection in the same slot is
  recognised as expired. A connection owns its player; the player is named by its address in
  the heap of players. Indexing the table out of range is undefined and has no result.
\<close>

record connection =
  cn_last_error :: result_code
  cn_key :: connection_key
  cn_io :: connection_io
  cn_is_kicked :: bool
  cn_is_online :: bool
  cn_last_offline_tick :: nat
  cn_last_interaction_tick :: nat
  cn_player :: "nat option"

record connection_entry =
  ce_used :: bool
  ce_will_delete :: bool
  ce_connection :: "connection option"
  ce_created_at :: u32

abbreviation invalid_tick :: u32 where
  "invalid_tick \<equiv> 0xDEADBEEF"

definition connection_entry_new :: connection_entry where
  "connection_entry_new =
     \<lparr>ce_used = False, ce_will_delete = True, ce_connection = None, ce_created_at = invalid_tick\<rparr>"

record conn_env =
  env_max_connections :: nat
  env_num_of_connections :: nat
  env_table :: "connection_entry list"

definition conn_env_new :: "nat \<Rightarrow> conn_env" where
  "conn_env_new max_connections =
     \<lparr>env_max_connections = max_connections, env_num_of_connections = 0,
      env_table = replicate max_connections connection_entry_new\<rparr>"

definition size_of_connections :: "conn_env \<Rightarrow> nat" where
  "size_of_connections env = env_num_of_connections env"

definition size_of_max_connections :: "conn_env \<Rightarrow> nat" where
  "size_of_max_connections env = env_max_connections env"

definition key_slot :: "connection_key \<Rightarrow> nat" where
  "key_slot k = unat (key_index k)"

definition env_is_expired :: "connection_key \<Rightarrow> conn_env \<Rightarrow> bool option" where
  "env_is_expired key env =
     (if key_slot key < length (env_table env)
      then Some (let e = env_table env ! key_slot key
                 in ce_will_delete e \<or> key_created_at key \<noteq> ce_created_at e)
      else None)"

text \<open>
  A connection pointer is the slot of the entry that owns the connection: \<open>Some (Some i)\<close> is a
  connection, \<open>Some None\<close> the null pointer.
\<close>

definition try_acquire_connection :: "connection_key \<Rightarrow> conn_env \<Rightarrow> nat option option" where
  "try_acquire_connection key env =
     (case env_is_expired key env of
        None \<Rightarrow> None
      | Some True \<Rightarrow> Some None
      | Some False \<Rightarrow>
          Some (map_option (\<lambda>_. key_slot key) (ce_connection (env_table env ! key_slot key))))"

fun first_unused :: "connection_entry list \<Rightarrow> nat" where
  "first_unused [] = 0"
| "first_unused (e # es) = (if \<not> ce_used e then 0 else Suc (first_unused es))"

definition get_unused_connection_id :: "conn_env \<Rightarrow> nat" where
  "get_unused_connection_id env = first_unused (env_table env)"

definition on_connection_create :: "connection_key \<Rightarrow> connection \<Rightarrow> conn_env \<Rightarrow> conn_env" where
  "on_connection_create key conn env =
     (let env = env\<lparr>env_num_of_connections := env_num_of_connections env + 1\<rparr>;
          i = key_slot key;
          e = env_table env ! i;
          e = e\<lparr>ce_created_at := key_created_at key, ce_connection := Some conn, ce_used := True,
                ce_will_delete := False\<rparr>
      in env\<lparr>env_table := (env_table env)[i := e]\<rparr>)"

definition on_connection_delete :: "connection_key \<Rightarrow> conn_env \<Rightarrow> conn_env" where
  "on_connection_delete key env =
     (let i = key_slot key;
          e = (env_table env ! i)\<lparr>ce_created_at := invalid_tick, ce_used := False\<rparr>;
          env = env\<lparr>env_table := (env_table env)[i := e]\<rparr>
      in env\<lparr>env_num_of_connections := env_num_of_connections env - 1\<rparr>)"

definition on_connection_offline :: "connection_key \<Rightarrow> conn_env \<Rightarrow> conn_env" where
  "on_connection_offline key env =
     (let i = key_slot key
      in env\<lparr>env_table := (env_table env)[i := (env_table env ! i)\<lparr>ce_will_delete := True\<rparr>]\<rparr>)"

text \<open>The constructor of a connection: online, last heard of at \<open>now\<close>.\<close>

definition connection_new :: "connection_key \<Rightarrow> nat \<Rightarrow> connection" where
  "connection_new key now =
     \<lparr>cn_last_error = ResultCode ec_success, cn_key = key, cn_io = connection_io_new,
      cn_is_kicked = False, cn_is_online = True, cn_last_offline_tick = 0,
      cn_last_interaction_tick = now, cn_player = None\<rparr>"

text \<open>
  The destructor runs when the entry's pointer is reset: the pointer is null before the
  destructor calls back into the table.
\<close>

definition entry_reset_connection :: "nat \<Rightarrow> conn_env \<Rightarrow> conn_env" where
  "entry_reset_connection i env =
     (case ce_connection (env_table env ! i) of
        None \<Rightarrow> env
      | Some c \<Rightarrow>
          on_connection_delete (cn_key c)
            (env\<lparr>env_table := (env_table env)[i := (env_table env ! i)\<lparr>ce_connection := None\<rparr>]\<rparr>))"

text \<open>\<open>set_offline\<close> of the connection in slot \<open>i\<close>.\<close>

definition env_set_offline :: "nat \<Rightarrow> nat \<Rightarrow> conn_env \<Rightarrow> conn_env" where
  "env_set_offline now i env =
     (case ce_connection (env_table env ! i) of
        None \<Rightarrow> env
      | Some c \<Rightarrow>
          on_connection_offline (cn_key c)
            (env\<lparr>env_table := (env_table env)[i := (env_table env ! i)
                \<lparr>ce_connection := Some (c\<lparr>cn_is_online := False, cn_last_offline_tick := now\<rparr>)\<rparr>]\<rparr>))"

definition required_milliseconds_for_expire :: nat where
  "required_milliseconds_for_expire = 60 * 1000"

definition required_milliseconds_for_secure_deletion :: nat where
  "required_milliseconds_for_secure_deletion = 5 * 1000"

definition connection_is_expired :: "nat \<Rightarrow> connection \<Rightarrow> bool" where
  "connection_is_expired now c \<longleftrightarrow>
     cn_last_interaction_tick c + required_milliseconds_for_expire \<le> now"

definition is_safe_delete :: "nat \<Rightarrow> connection \<Rightarrow> bool" where
  "is_safe_delete now c \<longleftrightarrow> \<not> cn_is_online c \<and>
     cn_last_offline_tick c + required_milliseconds_for_secure_deletion \<le> now"

text \<open>
  \<open>TcpServer::new_connection\<close>: the key has the first unused slot and the 32-bit tick count.
\<close>

definition env_new_connection :: "u32 \<Rightarrow> nat \<Rightarrow> conn_env \<Rightarrow> connection_key \<times> conn_env" where
  "env_new_connection tick32 now env =
     (let key = key_make (of_nat (get_unused_connection_id env)) (ucast tick32)
      in (key, on_connection_create key (connection_new key now) env))"

subsection \<open>The invariant\<close>

definition entry_wf :: "nat \<Rightarrow> connection_entry \<Rightarrow> bool" where
  "entry_wf i e \<longleftrightarrow>
     (case ce_connection e of
        None \<Rightarrow> \<not> ce_used e \<and> ce_will_delete e
      | Some c \<Rightarrow> ce_used e \<and> (ce_will_delete e \<longleftrightarrow> \<not> cn_is_online c) \<and> key_slot (cn_key c) = i \<and>
          key_created_at (cn_key c) = ce_created_at e)"

definition env_wf :: "conn_env \<Rightarrow> bool" where
  "env_wf env \<longleftrightarrow> length (env_table env) = env_max_connections env \<and> env_max_connections env < 2 ^ 32 \<and>
     env_num_of_connections env = length (filter ce_used (env_table env)) \<and>
     (\<forall>i < length (env_table env). entry_wf i (env_table env ! i))"

definition env_used :: "conn_env \<Rightarrow> nat set" where
  "env_used env = {i. i < length (env_table env) \<and> ce_used (env_table env ! i)}"

lemma first_unused_spec:
  "(\<exists>e \<in> set es. \<not> ce_used e) \<Longrightarrow> first_unused es < length es \<and> \<not> ce_used (es ! first_unused es) \<and>
     (\<forall>j < first_unused es. ce_used (es ! j))"
proof (induction es)
  case (Cons e es)
  show ?case
  proof (cases "ce_used e")
    case True
    with Cons have "first_unused es < length es \<and> \<not> ce_used (es ! first_unused es) \<and>
        (\<forall>j < first_unused es. ce_used (es ! j))" by auto
    with True show ?thesis by (auto simp: nth_Cons split: nat.splits)
  qed simp
qed simp

lemma unused_slot_exists:
  assumes "env_wf env" "env_num_of_connections env < env_max_connections env"
  shows "\<exists>e \<in> set (env_table env). \<not> ce_used e"
proof (rule ccontr)
  assume "\<not> ?thesis"
  then have "filter ce_used (env_table env) = env_table env" by (auto intro: filter_True)
  with assms show False by (simp add: env_wf_def)
qed

lemma get_unused_connection_id:
  assumes "env_wf env" "env_num_of_connections env < env_max_connections env"
  shows "get_unused_connection_id env < length (env_table env)"
    "\<not> ce_used (env_table env ! get_unused_connection_id env)"
    "ce_connection (env_table env ! get_unused_connection_id env) = None"
    "\<forall>j < get_unused_connection_id env. ce_used (env_table env ! j)"
proof -
  note s = first_unused_spec [OF unused_slot_exists [OF assms]]
  then show l: "get_unused_connection_id env < length (env_table env)"
    "\<not> ce_used (env_table env ! get_unused_connection_id env)"
    "\<forall>j < get_unused_connection_id env. ce_used (env_table env ! j)"
    by (simp_all add: get_unused_connection_id_def)
  with assms(1) have "entry_wf (get_unused_connection_id env) (env_table env ! get_unused_connection_id env)"
    by (simp add: env_wf_def)
  with l(2) show "ce_connection (env_table env ! get_unused_connection_id env) = None"
    by (auto simp: entry_wf_def split: option.splits)
qed

text \<open>One lemma for every update of one entry.\<close>

lemma env_wf_update:
  assumes wf: "env_wf env" and i: "i < length (env_table env)" and e: "entry_wf i e"
    and n: "n + (if ce_used (env_table env ! i) then 1 else 0) =
      env_num_of_connections env + (if ce_used e then 1 else 0)"
  shows "env_wf (env\<lparr>env_table := (env_table env)[i := e], env_num_of_connections := n\<rparr>)"
proof -
  have "n = length (filter ce_used ((env_table env)[i := e]))"
    using length_filter_update [OF i, of ce_used e] wf n by (simp add: env_wf_def split: if_splits)
  then show ?thesis
    using wf i e by (simp add: env_wf_def nth_list_update)
qed

lemma env_wf_update_same:
  assumes wf: "env_wf env" and i: "i < length (env_table env)" and e: "entry_wf i e"
    and "ce_used e = ce_used (env_table env ! i)"
  shows "env_wf (env\<lparr>env_table := (env_table env)[i := e]\<rparr>)"
  using env_wf_update [OF wf i e, of "env_num_of_connections env"] assms(4) by simp

lemma env_used_update:
  "i < length (env_table env) \<Longrightarrow> env_used (env\<lparr>env_table := (env_table env)[i := e]\<rparr>) =
     (if ce_used e then insert i (env_used env) else env_used env - {i})"
  by (auto simp: env_used_def nth_list_update)

lemma env_wf_entry:
  assumes "env_wf env" "i < length (env_table env)" "ce_connection (env_table env ! i) = Some c"
  shows "ce_used (env_table env ! i)" "ce_will_delete (env_table env ! i) \<longleftrightarrow> \<not> cn_is_online c"
    "key_slot (cn_key c) = i" "key_created_at (cn_key c) = ce_created_at (env_table env ! i)"
proof -
  have "entry_wf i (env_table env ! i)" using assms by (simp add: env_wf_def)
  then show "ce_used (env_table env ! i)" "ce_will_delete (env_table env ! i) \<longleftrightarrow> \<not> cn_is_online c"
    "key_slot (cn_key c) = i" "key_created_at (cn_key c) = ce_created_at (env_table env ! i)"
    using assms(3) by (simp_all add: entry_wf_def)
qed

lemma conn_env_new_wf: "n < 2 ^ 32 \<Longrightarrow> env_wf (conn_env_new n) \<and> env_used (conn_env_new n) = {}"
  by (auto simp: env_wf_def conn_env_new_def entry_wf_def connection_entry_new_def env_used_def)

lemma env_new_connection_effect:
  assumes wf: "env_wf env" and room: "env_num_of_connections env < env_max_connections env"
    and new: "env_new_connection tick now env = (key, env')"
  shows "env_wf env'" "key_slot key \<notin> env_used env" "env_used env' = insert (key_slot key) (env_used env)"
    "env_max_connections env' = env_max_connections env"
    "try_acquire_connection key env' = Some (Some (key_slot key))"
    "ce_connection (env_table env' ! key_slot key) = Some (connection_new key now)"
    "\<forall>j. j \<noteq> key_slot key \<longrightarrow> env_table env' ! j = env_table env ! j"
proof -
  let ?i = "get_unused_connection_id env"
  note u = get_unused_connection_id [OF wf room]
  have "?i < 2 ^ 32" using u(1) wf by (simp add: env_wf_def)
  then have i: "key_slot key = ?i"
    using new by (auto simp: env_new_connection_def key_slot_def Let_def unat_of_nat)
  let ?e = "(env_table env ! ?i)\<lparr>ce_created_at := key_created_at key,
      ce_connection := Some (connection_new key now), ce_used := True, ce_will_delete := False\<rparr>"
  have env': "env' = env\<lparr>env_table := (env_table env)[?i := ?e],
      env_num_of_connections := env_num_of_connections env + 1\<rparr>"
    using new i by (auto simp: env_new_connection_def on_connection_create_def Let_def)
  have "entry_wf ?i ?e" by (simp add: entry_wf_def connection_new_def i)
  then show "env_wf env'" unfolding env' using u wf by (intro env_wf_update) auto
  show "key_slot key \<notin> env_used env" using u by (simp add: i env_used_def)
  show "env_used env' = insert (key_slot key) (env_used env)"
    using u by (auto simp: env' env_used_def i nth_list_update)
  show "env_max_connections env' = env_max_connections env" by (simp add: env')
  show "try_acquire_connection key env' = Some (Some (key_slot key))"
    using u by (simp add: try_acquire_connection_def env_is_expired_def env' i Let_def)
  show "ce_connection (env_table env' ! key_slot key) = Some (connection_new key now)"
    using u by (simp add: env' i)
  show "\<forall>j. j \<noteq> key_slot key \<longrightarrow> env_table env' ! j = env_table env ! j"
    by (simp add: env' i)
qed

subsection \<open>Going offline and deletion\<close>

lemma env_set_offline_eq:
  assumes wf: "env_wf env" and i: "i < length (env_table env)" and c: "ce_connection (env_table env ! i) = Some c"
  shows "env_set_offline now i env = env\<lparr>env_table := (env_table env)[i := (env_table env ! i)
    \<lparr>ce_connection := Some (c\<lparr>cn_is_online := False, cn_last_offline_tick := now\<rparr>), ce_will_delete := True\<rparr>]\<rparr>"
  using env_wf_entry [OF wf i c] i c
  by (simp add: env_set_offline_def on_connection_offline_def Let_def)

lemma env_set_offline_effect:
  assumes wf: "env_wf env" and i: "i < length (env_table env)"
  shows "env_wf (env_set_offline now i env)" "env_used (env_set_offline now i env) = env_used env"
    "env_max_connections (env_set_offline now i env) = env_max_connections env"
    "length (env_table (env_set_offline now i env)) = length (env_table env)"
    "ce_will_delete (env_table (env_set_offline now i env) ! i)"
    "\<forall>j. j \<noteq> i \<longrightarrow> env_table (env_set_offline now i env) ! j = env_table env ! j"
proof -
  have "entry_wf i (env_table env ! i)" using wf i by (simp add: env_wf_def)
  note e = this
  have "env_wf (env_set_offline now i env) \<and> env_used (env_set_offline now i env) = env_used env \<and>
    env_max_connections (env_set_offline now i env) = env_max_connections env \<and>
    length (env_table (env_set_offline now i env)) = length (env_table env) \<and>
    ce_will_delete (env_table (env_set_offline now i env) ! i) \<and>
    (\<forall>j. j \<noteq> i \<longrightarrow> env_table (env_set_offline now i env) ! j = env_table env ! j)"
  proof (cases "ce_connection (env_table env ! i)")
    case None
    then have "env_set_offline now i env = env" by (simp add: env_set_offline_def)
    with wf e None show ?thesis by (simp add: entry_wf_def)
  next
    case (Some c)
    let ?e = "(env_table env ! i)\<lparr>ce_connection := Some (c\<lparr>cn_is_online := False, cn_last_offline_tick := now\<rparr>),
        ce_will_delete := True\<rparr>"
    have "entry_wf i ?e" using e Some by (simp add: entry_wf_def)
    then have "env_wf (env\<lparr>env_table := (env_table env)[i := ?e]\<rparr>)"
      using wf i by (intro env_wf_update_same) simp_all
    with i env_wf_entry(1) [OF wf i Some] show ?thesis
      by (auto simp: env_set_offline_eq [OF wf i Some] env_used_update) (simp add: env_used_def)
  qed
  then show "env_wf (env_set_offline now i env)" "env_used (env_set_offline now i env) = env_used env"
    "env_max_connections (env_set_offline now i env) = env_max_connections env"
    "length (env_table (env_set_offline now i env)) = length (env_table env)"
    "ce_will_delete (env_table (env_set_offline now i env) ! i)"
    "\<forall>j. j \<noteq> i \<longrightarrow> env_table (env_set_offline now i env) ! j = env_table env ! j"
    by blast+
qed

lemma entry_reset_connection_effect:
  assumes wf: "env_wf env" and i: "i < length (env_table env)"
    and off: "ce_will_delete (env_table env ! i)"
  shows "env_wf (entry_reset_connection i env)" "env_used (entry_reset_connection i env) = env_used env - {i}"
    "env_max_connections (entry_reset_connection i env) = env_max_connections env"
    "length (env_table (entry_reset_connection i env)) = length (env_table env)"
    "ce_connection (env_table (entry_reset_connection i env) ! i) = None"
    "\<forall>j. j \<noteq> i \<longrightarrow> env_table (entry_reset_connection i env) ! j = env_table env ! j"
proof -
  have e: "entry_wf i (env_table env ! i)" using wf i by (simp add: env_wf_def)
  have "env_wf (entry_reset_connection i env) \<and> env_used (entry_reset_connection i env) = env_used env - {i} \<and>
    env_max_connections (entry_reset_connection i env) = env_max_connections env \<and>
    length (env_table (entry_reset_connection i env)) = length (env_table env) \<and>
    ce_connection (env_table (entry_reset_connection i env) ! i) = None \<and>
    (\<forall>j. j \<noteq> i \<longrightarrow> env_table (entry_reset_connection i env) ! j = env_table env ! j)"
  proof (cases "ce_connection (env_table env ! i)")
    case None
    then have "entry_reset_connection i env = env" by (simp add: entry_reset_connection_def)
    with wf e None show ?thesis by (auto simp: entry_wf_def env_used_def)
  next
    case (Some c)
    note s = env_wf_entry [OF wf i Some]
    let ?e = "(env_table env ! i)\<lparr>ce_connection := None, ce_created_at := invalid_tick, ce_used := False\<rparr>"
    have r: "entry_reset_connection i env = env\<lparr>env_table := (env_table env)[i := ?e],
        env_num_of_connections := env_num_of_connections env - 1\<rparr>"
      using s i Some by (simp add: entry_reset_connection_def on_connection_delete_def Let_def)
    have "env_table env ! i \<in> set (filter ce_used (env_table env))" using s i by simp
    then have "0 < length (filter ce_used (env_table env))" by (rule length_pos_if_in_set)
    then have "0 < env_num_of_connections env" using wf by (simp add: env_wf_def)
    moreover have "entry_wf i ?e" using off by (simp add: entry_wf_def)
    ultimately have "env_wf (entry_reset_connection i env)"
      unfolding r using wf i s(1) by (intro env_wf_update) auto
    then show ?thesis using i by (auto simp: r env_used_def nth_list_update)
  qed
  then show "env_wf (entry_reset_connection i env)" "env_used (entry_reset_connection i env) = env_used env - {i}"
    "env_max_connections (entry_reset_connection i env) = env_max_connections env"
    "length (env_table (entry_reset_connection i env)) = length (env_table env)"
    "ce_connection (env_table (entry_reset_connection i env) ! i) = None"
    "\<forall>j. j \<noteq> i \<longrightarrow> env_table (entry_reset_connection i env) ! j = env_table env ! j"
    by blast+
qed

text \<open>The table as an allocator: accept while there is room; give back by going offline, then deletion.\<close>

definition env_accept :: "u32 \<Rightarrow> nat \<Rightarrow> conn_env \<Rightarrow> (nat \<times> conn_env) option" where
  "env_accept tick32 now env =
     (if size_of_max_connections env \<le> size_of_connections env then None
      else let (key, env') = env_new_connection tick32 now env in Some (key_slot key, env'))"

definition env_remove :: "nat \<Rightarrow> nat \<Rightarrow> conn_env \<Rightarrow> conn_env" where
  "env_remove now i env = entry_reset_connection i (env_set_offline now i env)"

lemma env_accept_SomeD:
  assumes "env_accept tick now env = Some (i, env')"
  obtains key where "i = key_slot key" "env_new_connection tick now env = (key, env')"
    "env_num_of_connections env < env_max_connections env"
  using assms
  by (auto simp: env_accept_def size_of_max_connections_def size_of_connections_def Let_def
      split: if_splits prod.splits)

lemma env_remove_effect:
  assumes wf: "env_wf env" and i: "i < length (env_table env)"
  shows "env_wf (env_remove now i env)" "env_used (env_remove now i env) = env_used env - {i}"
    "env_max_connections (env_remove now i env) = env_max_connections env"
proof -
  note o = env_set_offline_effect [OF wf i]
  have i': "i < length (env_table (env_set_offline now i env))" using o(4) i by simp
  note d = entry_reset_connection_effect [OF o(1) i' o(5)]
  show "env_wf (env_remove now i env)" "env_used (env_remove now i env) = env_used env - {i}"
    "env_max_connections (env_remove now i env) = env_max_connections env"
    using d o by (simp_all add: env_remove_def)
qed

lemma env_usedD: "i \<in> env_used env \<Longrightarrow> i < length (env_table env)"
  by (simp add: env_used_def)

interpretation slots: slot_allocator env_used env_max_connections "env_accept tick now" "env_remove now" env_wf
  for tick :: u32 and now :: nat
proof (unfold_locales, goal_cases)
  case (1 p)
  then show ?case by (auto simp: env_used_def env_wf_def)
next
  case (2 p i p')
  from this(2) show ?case by (rule env_accept_SomeD) (use 2 env_new_connection_effect in blast)
next
  case (3 p i p')
  from this(2) show ?case by (rule env_accept_SomeD) (use 3 env_new_connection_effect in blast)
next
  case (4 p i p')
  from this(2) show ?case by (rule env_accept_SomeD) (use 4 env_new_connection_effect in blast)
next
  case (5 p i p')
  from this(2) show ?case by (rule env_accept_SomeD) (use 5 env_new_connection_effect in blast)
qed (simp_all add: env_remove_effect env_usedD)

subsection \<open>Keys\<close>

lemma try_acquire_Some_iff:
  "try_acquire_connection key env = Some (Some i) \<longleftrightarrow>
     i = key_slot key \<and> i < length (env_table env) \<and> \<not> ce_will_delete (env_table env ! i) \<and>
     key_created_at key = ce_created_at (env_table env ! i) \<and> (\<exists>c. ce_connection (env_table env ! i) = Some c)"
proof (cases "key_slot key < length (env_table env)")
  case True
  let ?e = "env_table env ! key_slot key"
  show ?thesis
  proof (cases "ce_will_delete ?e \<or> key_created_at key \<noteq> ce_created_at ?e")
    case x: True
    then have "try_acquire_connection key env = Some None"
      using True by (simp add: try_acquire_connection_def env_is_expired_def Let_def)
    with x show ?thesis by auto
  next
    case False
    then have "try_acquire_connection key env = Some (map_option (\<lambda>_. key_slot key) (ce_connection ?e))"
      using True by (simp add: try_acquire_connection_def env_is_expired_def Let_def)
    with False True show ?thesis by (cases "ce_connection ?e") auto
  qed
next
  case False
  then have "try_acquire_connection key env = None"
    by (simp add: try_acquire_connection_def env_is_expired_def)
  with False show ?thesis by auto
qed

text \<open>A key never leads to another connection than the one it was made for, nor to one that is offline.\<close>

lemma try_acquire_sound:
  assumes wf: "env_wf env" and a: "try_acquire_connection key env = Some (Some i)"
  shows "\<exists>c. i < length (env_table env) \<and> ce_connection (env_table env ! i) = Some c \<and> cn_key c = key \<and>
    cn_is_online c"
proof -
  let ?e = "env_table env ! key_slot key"
  from a obtain c where l: "key_slot key < length (env_table env)" and live: "\<not> ce_will_delete ?e"
    "key_created_at key = ce_created_at ?e" and c: "ce_connection ?e = Some c" and i: "i = key_slot key"
    by (auto simp: try_acquire_Some_iff)
  note e = env_wf_entry [OF wf l c]
  have "key_index (cn_key c) = key_index key" using e(3) by (simp add: key_slot_def word_unat_eq_iff)
  with e(4) live(2) have "cn_key c = key" by (intro key_eqI) simp_all
  with l c i e(2) live(1) show ?thesis by blast
qed

lemma try_acquire_online:
  assumes wf: "env_wf env" and i: "i < length (env_table env)"
    and c: "ce_connection (env_table env ! i) = Some c" "cn_is_online c"
  shows "try_acquire_connection (cn_key c) env = Some (Some i)"
  using env_wf_entry [OF wf i c(1)] i c
  by (simp add: try_acquire_Some_iff)

lemma try_acquire_offline:
  assumes wf: "env_wf env" and a: "try_acquire_connection key env = Some (Some i)"
  shows "try_acquire_connection key (env_set_offline now i env) = Some None"
proof -
  from try_acquire_sound [OF wf a] obtain c where i: "i < length (env_table env)"
    and c: "ce_connection (env_table env ! i) = Some c" "cn_key c = key" by blast
  note o = env_set_offline_effect [OF wf i]
  have "key_slot key = i" using env_wf_entry(3) [OF wf i c(1)] c(2) by simp
  with o(4,5) i show ?thesis
    by (simp add: try_acquire_connection_def env_is_expired_def)
qed

subsection \<open>The table hands out slots exclusively\<close>

text \<open>
  C8: Accepting and removing clients in any order never gives one slot to two live connections,
  never exceeds the configured number of connections, and keeps the table's invariant.
\<close>

theorem connection_slots_exclusive:
  assumes "n < 2 ^ 32"
    and "run_slots (env_accept tick now) (env_remove now) ops [] (conn_env_new n) = (held, env)"
  shows "distinct held \<and> set held = env_used env \<and> length held \<le> n \<and> env_wf env"
proof -
  have new: "env_wf (conn_env_new n)" "env_used (conn_env_new n) = {}" "env_max_connections (conn_env_new n) = n"
    using conn_env_new_wf [OF assms(1)] by (simp_all add: conn_env_new_def env_used_def connection_entry_new_def)
  from slots.run_slots_exclusive [OF new(1) _ _ assms(2)] slots.held_bounded [OF new(1,2) assms(2)] new
  show ?thesis by simp
qed

theorem connection_slots_exclusive_witness:
  "\<exists>held env. run_slots (env_accept 7 0) (env_remove 0) [Take, Take, Take, Give 0, Take] [] (conn_env_new 2) = (held, env) \<and>
     distinct held \<and> set held = env_used env \<and> length held \<le> 2"
proof -
  obtain held env where r: "run_slots (env_accept 7 0) (env_remove 0) [Take, Take, Take, Give 0, Take] [] (conn_env_new 2) = (held, env)"
    by fastforce
  have n: "(2 :: nat) < 2 ^ 32" by simp
  from connection_slots_exclusive [OF n r] r show ?thesis by blast
qed

text \<open>
  A key that was handed out before, for a connection that has gone, never leads to the new
  connection that got its slot, unless both were created at the same tick (the keys are equal).
\<close>

theorem stale_key_misses_new_connection:
  assumes "env_wf env" "env_num_of_connections env < env_max_connections env"
    and "env_new_connection tick now env = (key, env')" "old \<noteq> key"
  shows "try_acquire_connection old env' \<noteq> Some (Some (key_slot key)) \<and>
    try_acquire_connection key env' = Some (Some (key_slot key))"
proof -
  note n = env_new_connection_effect [OF assms(1-3)]
  have "try_acquire_connection old env' \<noteq> Some (Some (key_slot key))"
  proof
    assume "try_acquire_connection old env' = Some (Some (key_slot key))"
    from try_acquire_sound [OF n(1) this] n(6) have "cn_key (connection_new key now) = old" by auto
    with assms(4) show False by (simp add: connection_new_def)
  qed
  with n(5) show ?thesis by blast
qed

theorem stale_key_misses_new_connection_witness:
  "\<exists>key env'. env_new_connection 9 0 (conn_env_new 1) = (key, env') \<and>
     try_acquire_connection (key_make 0 5) env' \<noteq> Some (Some (key_slot key)) \<and>
     try_acquire_connection key env' = Some (Some (key_slot key))"
proof -
  obtain key env' where new: "env_new_connection 9 0 (conn_env_new 1) = (key, env')" by fastforce
  have "key = fst (env_new_connection 9 0 (conn_env_new 1))" by (simp only: new fst_conv)
  also have "\<dots> = key_make 0 9" by code_simp
  finally have key: "key_make 0 5 \<noteq> key" by (simp add: key_make_eq_iff)
  have wf: "env_wf (conn_env_new 1)" using conn_env_new_wf [of 1] by simp
  have room: "env_num_of_connections (conn_env_new 1) < env_max_connections (conn_env_new 1)"
    by (simp add: conn_env_new_def)
  from stale_key_misses_new_connection [OF wf room new key] new show ?thesis by blast
qed

end
