(* ===== verification/Connection.thy ===== *)
theory Connection
  imports Connection_Table
begin

section \<open>Connections\<close>

text \<open>
  \<open>net::Connection\<close> of \<open>net/connection.h\<close>/\<open>.cpp\<close> and the operations of
  \<open>ConnectionEnvironment\<close> that touch connections and players. The state has the connection table
  and the heap of players; a server that handles packets extends it. A connection is named by
  its slot. Addresses of players are never reused, so that a dangling pointer stays visible.
  \<open>now\<close> is the reading of \<open>current_monotonic_tick()\<close> in the event that is processed.
\<close>

record net_state =
  ns_env :: conn_env
  ns_heap :: heap
  ns_next_addr :: nat

definition conn_of :: "nat \<Rightarrow> 'a net_state_scheme \<Rightarrow> connection option" where
  "conn_of i s = (if i < length (env_table (ns_env s)) then ce_connection (env_table (ns_env s) ! i) else None)"

definition upd_conn :: "nat \<Rightarrow> (connection \<Rightarrow> connection) \<Rightarrow> 'a net_state_scheme \<Rightarrow> 'a net_state_scheme" where
  "upd_conn i f s =
     (let env = ns_env s; e = env_table env ! i
      in s\<lparr>ns_env := env\<lparr>env_table := (env_table env)[i := e\<lparr>ce_connection := map_option f (ce_connection e)\<rparr>]\<rparr>\<rparr>)"

definition upd_player :: "nat \<Rightarrow> (player \<Rightarrow> player) \<Rightarrow> 'a net_state_scheme \<Rightarrow> 'a net_state_scheme" where
  "upd_player a f s = s\<lparr>ns_heap := (ns_heap s)(a := map_option f (ns_heap s a))\<rparr>"

definition associated_player :: "nat \<Rightarrow> 'a net_state_scheme \<Rightarrow> nat option" where
  "associated_player i s = (case conn_of i s of None \<Rightarrow> None | Some c \<Rightarrow> cn_player c)"

text \<open>An operation of the connection's I/O side that reports success.\<close>

definition on_io ::
    "nat \<Rightarrow> (connection_io \<Rightarrow> bool \<times> connection_io) \<Rightarrow> 'a net_state_scheme \<Rightarrow> bool \<times> 'a net_state_scheme" where
  "on_io i f s =
     (case conn_of i s of
        None \<Rightarrow> (False, s)
      | Some c \<Rightarrow> (let (ok, io) = f (cn_io c) in (ok, upd_conn i (\<lambda>c. c\<lparr>cn_io := io\<rparr>) s)))"

definition is_online :: "nat \<Rightarrow> 'a net_state_scheme \<Rightarrow> bool" where
  "is_online i s = (case conn_of i s of None \<Rightarrow> False | Some c \<Rightarrow> cn_is_online c)"

definition set_last_error :: "nat \<Rightarrow> result_code \<Rightarrow> 'a net_state_scheme \<Rightarrow> 'a net_state_scheme" where
  "set_last_error i r s = upd_conn i (\<lambda>c. c\<lparr>cn_last_error := r\<rparr>) s"

definition update_last_interaction_time :: "nat \<Rightarrow> nat \<Rightarrow> 'a net_state_scheme \<Rightarrow> 'a net_state_scheme" where
  "update_last_interaction_time now i s = upd_conn i (\<lambda>c. c\<lparr>cn_last_interaction_tick := now\<rparr>) s"

definition try_interact_with_client :: "nat \<Rightarrow> nat \<Rightarrow> 'a net_state_scheme \<Rightarrow> bool \<times> 'a net_state_scheme" where
  "try_interact_with_client now i s =
     (if is_online i s then (True, update_last_interaction_time now i s) else (False, s))"

definition set_offline :: "nat \<Rightarrow> nat \<Rightarrow> 'a net_state_scheme \<Rightarrow> 'a net_state_scheme" where
  "set_offline now i s = s\<lparr>ns_env := env_set_offline now i (ns_env s)\<rparr>"

text \<open>
  \<open>set_player\<close> takes over a new player; the one that was there is destroyed.
\<close>

definition set_player :: "nat \<Rightarrow> player \<Rightarrow> 'a net_state_scheme \<Rightarrow> 'a net_state_scheme" where
  "set_player i p s =
     (let a = ns_next_addr s;
          h = (ns_heap s)(a \<mapsto> p);
          h = (case associated_player i s of None \<Rightarrow> h | Some b \<Rightarrow> h(b := None))
      in upd_conn i (\<lambda>c. c\<lparr>cn_player := Some a\<rparr>) (s\<lparr>ns_heap := h, ns_next_addr := a + 1\<rparr>))"

text \<open>
  \<open>disconnect\<close>: a player that got as far as the handshake is handed to the world by its state;
  otherwise the connection goes offline at once. \<open>on_disc\<close> is the packet handler's
  \<open>on_disconnect\<close>.
\<close>

definition disconnect ::
    "(nat \<Rightarrow> 'a net_state_scheme \<Rightarrow> 'a net_state_scheme) \<Rightarrow> nat \<Rightarrow> nat \<Rightarrow> 'a net_state_scheme \<Rightarrow> 'a net_state_scheme" where
  "disconnect on_disc now i s =
     (if \<not> is_online i s then s
      else case associated_player i s of
             None \<Rightarrow> set_offline now i (on_disc i s)
           | Some a \<Rightarrow>
               (case ns_heap s a of
                  None \<Rightarrow> s
                | Some p \<Rightarrow>
                    if S_handshaking \<le> ps_cur p
                    then upd_player a (prepare_state_transition S_disconnecting S_disconnected) s
                    else set_offline now i (on_disc i s)))"

definition kick ::
    "(nat \<Rightarrow> 'a net_state_scheme \<Rightarrow> 'a net_state_scheme) \<Rightarrow> nat \<Rightarrow> bytes \<Rightarrow> nat \<Rightarrow> 'a net_state_scheme \<Rightarrow> 'a net_state_scheme" where
  "kick on_disc now msg i s =
     (let (_, s) = on_io i (send_packet (\<lambda>push. disconnect_player_serialize push (disconnect_player_make msg))) s
      in disconnect on_disc now i s)"

text \<open>
  \<open>kick(error::ResultCode)\<close>: the text of an error code is a \<open>const char*\<close>, null for a code
  without a message, and constructing a \<open>std::string_view\<close> from it is then undefined.
\<close>

definition kick_result ::
    "(nat \<Rightarrow> 'a net_state_scheme \<Rightarrow> 'a net_state_scheme) \<Rightarrow> nat \<Rightarrow> result_code \<Rightarrow> nat \<Rightarrow> 'a net_state_scheme \<Rightarrow>
      'a net_state_scheme option" where
  "kick_result on_disc now r i s =
     (case rc_to_string r of
        Some (Some m) \<Rightarrow> Some (kick on_disc now (cstr m) i s)
      | _ \<Rightarrow> None)"

subsection \<open>Parsing received packets\<close>

text \<open>
  The loop of \<open>process_packets\<close> over the bytes from \<open>data_cur\<close> to \<open>data_end\<close>: the number of
  bytes consumed and the error it stopped with, if it stopped before the end.
\<close>

function packet_loop ::
    "(nat \<Rightarrow> bytes \<Rightarrow> 's \<Rightarrow> result_code \<times> 's) \<Rightarrow> nat \<Rightarrow> bytes \<Rightarrow> 's \<Rightarrow> nat \<times> result_code option \<times> 's" where
  "packet_loop handle i data s =
     (case parse_packet data of
        None \<Rightarrow> (0, None, s)
      | Some (pid, sz) \<Rightarrow>
          if pid = PT_invalid then (0, Some (ResultCode ec_invalid_packet_id), s)
          else if length data < sz then (0, Some (ResultCode ec_insuffient_packet_data), s)
          else (let (r, s) = handle i data s
                in if \<not> is_packet_handle_success r then (0, Some r, s)
                   else (let (n, stop, s) = packet_loop handle i (drop sz data) s
                         in (sz + n, stop, s))))"
  by pat_completeness auto
termination
proof (relation "measure (\<lambda>(_, _, data, _). length data)", goal_cases)
  case (2 handle i data s a pid sz r s1)
  then have "parse_packet data = Some (pid, sz)" and "pid \<noteq> PT_invalid" by simp_all
  then have "0 < sz" and "data \<noteq> []"
    using parse_packet_size [of data pid sz] by (auto simp: parse_packet_def)
  then show ?case by simp
qed simp

declare packet_loop.simps [simp del]

definition process_packets ::
    "(nat \<Rightarrow> bytes \<Rightarrow> 'a net_state_scheme \<Rightarrow> result_code \<times> 'a net_state_scheme) \<Rightarrow> nat \<Rightarrow> bytes \<Rightarrow>
      'a net_state_scheme \<Rightarrow> nat \<times> 'a net_state_scheme" where
  "process_packets handle i data s =
     (let (n, stop, s) = packet_loop handle i data s
      in (n, case stop of None \<Rightarrow> s | Some r \<Rightarrow> set_last_error i r s))"

subsection \<open>Completed events\<close>

datatype recv_completion = Recv_eof | Recv_failed | Recv_retry | Recv_data bytes

definition upd_recv :: "nat \<Rightarrow> (recv_event \<Rightarrow> recv_event) \<Rightarrow> 'a net_state_scheme \<Rightarrow> 'a net_state_scheme" where
  "upd_recv i f s = upd_conn i (\<lambda>c. c\<lparr>cn_io := (cn_io c)\<lparr>cio_recv := f (cio_recv (cn_io c))\<rparr>\<rparr>) s"

definition recv_bytes :: "nat \<Rightarrow> 'a net_state_scheme \<Rightarrow> bytes" where
  "recv_bytes i s = (case conn_of i s of None \<Rightarrow> [] | Some c \<Rightarrow> recv_contents (re_data (cio_recv (cn_io c))))"

definition on_complete_recv ::
    "(nat \<Rightarrow> 'a net_state_scheme \<Rightarrow> 'a net_state_scheme) \<Rightarrow> nat \<Rightarrow> nat \<Rightarrow> 'a net_state_scheme \<Rightarrow>
      'a net_state_scheme option" where
  "on_complete_recv on_disc now i s =
     (let s = upd_recv i (\<lambda>e. e\<lparr>re_processing := False\<rparr>) s
      in case conn_of i s of
           None \<Rightarrow> None
         | Some c \<Rightarrow>
             if \<not> is_packet_handle_success (cn_last_error c)
             then kick_result on_disc now (cn_last_error c) i s
             else Some (set_last_error i (rc_reset (cn_last_error c)) s))"

definition handle_io_event_recv ::
    "(nat \<Rightarrow> bytes \<Rightarrow> 'a net_state_scheme \<Rightarrow> result_code \<times> 'a net_state_scheme) \<Rightarrow> nat \<Rightarrow> nat \<Rightarrow>
      'a net_state_scheme \<Rightarrow> nat \<times> 'a net_state_scheme" where
  "handle_io_event_recv handle now i s =
     (let (online, s) = try_interact_with_client now i s
      in if \<not> online then (0, s) else process_packets handle i (recv_bytes i s) s)"

definition recv_on_event_complete ::
    "(nat \<Rightarrow> bytes \<Rightarrow> 'a net_state_scheme \<Rightarrow> result_code \<times> 'a net_state_scheme) \<Rightarrow>
      (nat \<Rightarrow> 'a net_state_scheme \<Rightarrow> 'a net_state_scheme) \<Rightarrow> nat \<Rightarrow> nat \<Rightarrow> recv_completion \<Rightarrow>
      'a net_state_scheme \<Rightarrow> 'a net_state_scheme option" where
  "recv_on_event_complete handle on_disc now i completion s =
     (if completion = Recv_eof then Some (disconnect on_disc now i s)
      else if completion = Recv_failed then on_complete_recv on_disc now i s
      else
        (let s = (case completion of
                    Recv_data bs \<Rightarrow> upd_recv i (\<lambda>e. e\<lparr>re_data := snd (recv_io_push bs (re_data e))\<rparr>) s
                  | _ \<Rightarrow> s);
             (n, s) = handle_io_event_recv handle now i s;
             s = (if n \<noteq> 0 then upd_recv i (\<lambda>e. e\<lparr>re_data := recv_pop n (re_data e)\<rparr>) s else s)
         in on_complete_recv on_disc now i s))"

text \<open>A completed send: the bytes that left are taken from the buffer.\<close>

definition send_on_event_complete ::
    "(nat \<Rightarrow> 'a net_state_scheme \<Rightarrow> 'a net_state_scheme) \<Rightarrow> nat \<Rightarrow> nat \<Rightarrow> io_signal \<Rightarrow>
      'a net_state_scheme \<Rightarrow> 'a net_state_scheme" where
  "send_on_event_complete on_disc now i sig s =
     (case sig of
        Sig_eof \<Rightarrow> disconnect on_disc now i s
      | Sig_event_failed \<Rightarrow>
          upd_conn i (\<lambda>c. c\<lparr>cn_io := (cn_io c)\<lparr>cio_send := (cio_send (cn_io c))\<lparr>se_processing := False\<rparr>\<rparr>\<rparr>) s
      | _ \<Rightarrow>
          (let n = (case sig of Transferred n \<Rightarrow> n | _ \<Rightarrow> 2 ^ 32 - 2)
           in upd_conn i (\<lambda>c. c\<lparr>cn_io := (cn_io c)\<lparr>cio_send :=
                \<lparr>se_processing = False, se_data = lf_pop n (se_data (cio_send (cn_io c)))\<rparr>\<rparr>\<rparr>) s))"

definition multicast_on_event_complete ::
    "(nat \<Rightarrow> 'a net_state_scheme \<Rightarrow> 'a net_state_scheme) \<Rightarrow> nat \<Rightarrow> nat \<Rightarrow> nat \<Rightarrow> io_signal \<Rightarrow>
      'a net_state_scheme \<Rightarrow> 'a net_state_scheme" where
  "multicast_on_event_complete on_disc now i ev sig s =
     (case sig of
        Sig_eof \<Rightarrow> disconnect on_disc now i s
      | _ \<Rightarrow> upd_conn i (\<lambda>c. c\<lparr>cn_io := free_multicast_event ev (cn_io c)\<rparr>) s)"

subsection \<open>The operations over all connections\<close>

text \<open>Destroying a connection destroys its player.\<close>

definition delete_connection :: "nat \<Rightarrow> 'a net_state_scheme \<Rightarrow> 'a net_state_scheme" where
  "delete_connection i s =
     (let h = (case associated_player i s of None \<Rightarrow> ns_heap s | Some a \<Rightarrow> (ns_heap s)(a := None))
      in s\<lparr>ns_env := entry_reset_connection i (ns_env s), ns_heap := h\<rparr>)"

definition cleanup_slot ::
    "(nat \<Rightarrow> 'a net_state_scheme \<Rightarrow> 'a net_state_scheme) \<Rightarrow> nat \<Rightarrow> nat \<Rightarrow> 'a net_state_scheme \<Rightarrow> 'a net_state_scheme" where
  "cleanup_slot on_disc now i s =
     (if \<not> ce_used (env_table (ns_env s) ! i) then s
      else case conn_of i s of
             None \<Rightarrow> s
           | Some c \<Rightarrow>
               if is_safe_delete now c then delete_connection i s
               else if connection_is_expired now c then disconnect on_disc now i s
               else s)"

definition cleanup_expired_connection ::
    "(nat \<Rightarrow> 'a net_state_scheme \<Rightarrow> 'a net_state_scheme) \<Rightarrow> nat \<Rightarrow> 'a net_state_scheme \<Rightarrow> 'a net_state_scheme" where
  "cleanup_expired_connection on_disc now s =
     fold (cleanup_slot on_disc now) [0..<length (env_table (ns_env s))] s"

definition for_each_connection ::
    "(nat \<Rightarrow> 'a net_state_scheme \<Rightarrow> 'a net_state_scheme) \<Rightarrow> 'a net_state_scheme \<Rightarrow> 'a net_state_scheme" where
  "for_each_connection f s =
     fold (\<lambda>i s. if \<not> ce_will_delete (env_table (ns_env s) ! i) then f i s else s)
       [0..<length (env_table (ns_env s))] s"

definition for_each_player ::
    "(nat \<Rightarrow> nat \<Rightarrow> 'a net_state_scheme \<Rightarrow> 'a net_state_scheme) \<Rightarrow> 'a net_state_scheme \<Rightarrow> 'a net_state_scheme" where
  "for_each_player f s =
     fold (\<lambda>i s. if \<not> ce_will_delete (env_table (ns_env s) ! i)
                 then (case associated_player i s of None \<Rightarrow> s | Some a \<Rightarrow> f i a s) else s)
       [0..<length (env_table (ns_env s))] s"

definition select_players :: "(player \<Rightarrow> bool) \<Rightarrow> 'a net_state_scheme \<Rightarrow> nat list" where
  "select_players filt s =
     concat (map (\<lambda>i. if ce_will_delete (env_table (ns_env s) ! i) then []
                      else case associated_player i s of
                             None \<Rightarrow> []
                           | Some a \<Rightarrow> (case ns_heap s a of None \<Rightarrow> [] | Some p \<Rightarrow> if filt p then [a] else []))
       [0..<length (env_table (ns_env s))])"

definition flush_send :: "(nat \<Rightarrow> bool) \<Rightarrow> (nat \<Rightarrow> nat \<Rightarrow> bool) \<Rightarrow> 'a net_state_scheme \<Rightarrow> 'a net_state_scheme" where
  "flush_send rio rio_multicast s =
     for_each_connection (\<lambda>i s. upd_conn i (\<lambda>c. c\<lparr>cn_io := fst (flush_send_connection (rio i) (rio_multicast i) (cn_io c))\<rparr>) s) s"

definition flush_receive :: "nat \<Rightarrow> (nat \<Rightarrow> bool) \<Rightarrow> 'a net_state_scheme \<Rightarrow> 'a net_state_scheme" where
  "flush_receive max_packet rio s =
     for_each_connection (\<lambda>i s. upd_conn i (\<lambda>c. c\<lparr>cn_io := fst (flush_receive_connection max_packet (rio i) (cn_io c))\<rparr>) s) s"

text \<open>\<open>TcpServer::new_connection\<close> on the whole state.\<close>

definition new_connection :: "u32 \<Rightarrow> nat \<Rightarrow> 'a net_state_scheme \<Rightarrow> connection_key \<times> 'a net_state_scheme" where
  "new_connection tick32 now s =
     (let (key, env) = env_new_connection tick32 now (ns_env s) in (key, s\<lparr>ns_env := env\<rparr>))"

end
