(* ===== verification/Connection_Laws.thy ===== *)
theory Connection_Laws
  imports Connection
begin

section \<open>Laws of connections\<close>

text \<open>
  The stream law of \<open>process_packets\<close>; the ownership invariant of connections and players
  (every player belongs to exactly one connection and carries its key); and the locale
  \<open>packet_handler\<close>, the interface \<open>net::PacketHandler\<close> of \<open>net/tcp_server.h\<close>, in which the
  operations of a connection are shown to keep the invariant for every handler that does.
\<close>

subsection \<open>Packets in a stream\<close>

text \<open>A handler that reads no further than its packet.\<close>

definition handles_locally :: "(nat \<Rightarrow> bytes \<Rightarrow> 's \<Rightarrow> result_code \<times> 's) \<Rightarrow> bool" where
  "handles_locally handle \<longleftrightarrow>
     (\<forall>i data s pid n. parse_packet data = Some (pid, n) \<longrightarrow> n \<le> length data \<longrightarrow>
        handle i data s = handle i (take n data) s)"

lemma parse_packet_append: "a \<noteq> [] \<Longrightarrow> parse_packet (a @ b) = parse_packet a"
  by (cases a) (simp_all add: parse_packet_def)

lemma packet_loop_bound: "packet_loop handle i data s = (n, stop, s') \<Longrightarrow> n \<le> length data"
proof (induction handle i data s arbitrary: n stop s' rule: packet_loop.induct)
  case (1 handle i data s)
  show ?case
  proof (cases "parse_packet data")
    case None
    with 1 show ?thesis by (simp add: packet_loop.simps [of handle i data s])
  next
    case (Some p)
    obtain pid sz where p: "parse_packet data = Some (pid, sz)" using Some by (cases p) simp
    obtain r s1 where h: "handle i data s = (r, s1)" by fastforce
    show ?thesis
    proof (cases "pid = PT_invalid \<or> length data < sz \<or> \<not> is_packet_handle_success r")
      case True
      with 1(2) p h show ?thesis
        by (simp add: packet_loop.simps [of handle i data s] Let_def split: if_splits)
    next
      case False
      obtain m stop1 s2 where l: "packet_loop handle i (drop sz data) s1 = (m, stop1, s2)"
        by (metis prod_cases3)
      with 1(2) p h False have "n = sz + m"
        by (simp add: packet_loop.simps [of handle i data s] Let_def)
      moreover have "m \<le> length (drop sz data)"
        using 1(1) [of "(pid, sz)" pid sz "(r, s1)" r s1] p h False l by simp
      ultimately show ?thesis using False by auto
    qed
  qed
qed

text \<open>
  However the stream is cut into two receives, the same packets reach the handler: processing
  what came first, keeping the rest, and processing the rest with what came next is processing
  everything at once, unless the first part already ended with an error.
\<close>

lemma packet_loop_append:
  assumes loc: "handles_locally handle"
  shows "packet_loop handle i (a @ b) s =
    (let (n, stop, s1) = packet_loop handle i a s
     in if stop = None \<or> stop = Some (ResultCode ec_insuffient_packet_data) then
          (let (m, stop', s2) = packet_loop handle i (drop n a @ b) s1 in (n + m, stop', s2))
        else (n, stop, s1))"
  using loc
proof (induction handle i a s rule: packet_loop.induct)
  case (1 handle i a s)
  note step = packet_loop.simps [of handle i a s]
  show ?case
  proof (cases "a = []")
    case True
    have "packet_loop handle i [] s = (0, None, s)"
      by (simp add: packet_loop.simps [of handle i "[]" s] parse_packet_def)
    with True show ?thesis by (simp add: Let_def split: prod.splits)
  next
    case False
    then obtain pid sz where p: "parse_packet a = Some (pid, sz)" by (cases a) (simp_all add: parse_packet_def)
    with False have pab: "parse_packet (a @ b) = Some (pid, sz)" by (simp add: parse_packet_append)
    note stepab = packet_loop.simps [of handle i "a @ b" s]
    consider (invalid) "pid = PT_invalid" | (short) "pid \<noteq> PT_invalid" "length a < sz"
      | (packet) "pid \<noteq> PT_invalid" "sz \<le> length a" by linarith
    then show ?thesis
    proof cases
      case invalid
      then show ?thesis by (simp add: step stepab p pab)
    next
      case short
      then have "packet_loop handle i a s = (0, Some (ResultCode ec_insuffient_packet_data), s)"
        by (simp add: step p)
      then show ?thesis by (simp add: Let_def split: prod.splits)
    next
      case packet
      obtain r s1 where h: "handle i a s = (r, s1)" by fastforce
      have "handle i (a @ b) s = handle i (take sz (a @ b)) s"
        using 1(2) pab packet unfolding handles_locally_def by (metis le_add1 le_trans length_append)
      also have "take sz (a @ b) = take sz a" using packet by simp
      also have "handle i (take sz a) s = handle i a s"
        using 1(2) p packet unfolding handles_locally_def by metis
      finally have hab: "handle i (a @ b) s = (r, s1)" using h by simp
      show ?thesis
      proof (cases "is_packet_handle_success r")
        case False
        then have "r \<noteq> ResultCode ec_insuffient_packet_data" by auto
        with False packet h hab show ?thesis
          by (simp add: step stepab p pab)
      next
        case True
        obtain n stop s2 where l: "packet_loop handle i (drop sz a) s1 = (n, stop, s2)"
          by (metis prod_cases3)
        have da: "drop sz (a @ b) = drop sz a @ b" using packet by simp
        have IH: "packet_loop handle i (drop sz a @ b) s1 =
          (if stop = None \<or> stop = Some (ResultCode ec_insuffient_packet_data) then
             (let (m, stop', s3) = packet_loop handle i (drop n (drop sz a) @ b) s2 in (n + m, stop', s3))
           else (n, stop, s2))"
          using 1(1) [of "(pid, sz)" pid sz "(r, s1)" r s1] 1(2) p packet h True l by simp
        have L: "packet_loop handle i a s = (sz + n, stop, s2)"
          using p packet h True l by (simp add: step)
        have R: "packet_loop handle i (a @ b) s =
            (let (k, st, s3) = packet_loop handle i (drop sz a @ b) s1 in (sz + k, st, s3))"
          using pab packet hab True da by (simp add: stepab)
        show ?thesis
          unfolding L R IH by (simp add: Let_def add.commute split: prod.splits)
      qed
    qed
  qed
qed

subsection \<open>Ownership\<close>

definition owners_wf :: "(nat \<Rightarrow> connection option) \<Rightarrow> heap \<Rightarrow> nat \<Rightarrow> bool" where
  "owners_wf conns h next_addr \<longleftrightarrow>
     (\<forall>i c a. conns i = Some c \<longrightarrow> cn_player c = Some a \<longrightarrow>
        a < next_addr \<and> (\<exists>p. h a = Some p \<and> pl_key p = cn_key c)) \<and>
     (\<forall>i j c d a. conns i = Some c \<longrightarrow> conns j = Some d \<longrightarrow> cn_player c = Some a \<longrightarrow>
        cn_player d = Some a \<longrightarrow> i = j) \<and>
     (\<forall>a p. h a = Some p \<longrightarrow> (\<exists>i c. conns i = Some c \<and> cn_player c = Some a))"

definition net_wf :: "'a net_state_scheme \<Rightarrow> bool" where
  "net_wf s \<longleftrightarrow> env_wf (ns_env s) \<and> (\<forall>i c. conn_of i s = Some c \<longrightarrow> cio_wf (cn_io c)) \<and>
     owners_wf (\<lambda>i. conn_of i s) (ns_heap s) (ns_next_addr s)"

definition net_init :: "nat \<Rightarrow> 'a \<Rightarrow> 'a net_state_scheme" where
  "net_init n x = \<lparr>ns_env = conn_env_new n, ns_heap = (\<lambda>_. None), ns_next_addr = 0, \<dots> = x\<rparr>"

lemma net_wfD:
  assumes "net_wf s"
  shows "env_wf (ns_env s)" "conn_of i s = Some c \<Longrightarrow> cio_wf (cn_io c)"
    "owners_wf (\<lambda>i. conn_of i s) (ns_heap s) (ns_next_addr s)"
  using assms by (simp_all add: net_wf_def)

lemma owners_wfD:
  assumes "owners_wf conns h n"
  shows "conns i = Some c \<Longrightarrow> cn_player c = Some a \<Longrightarrow> a < n \<and> (\<exists>p. h a = Some p \<and> pl_key p = cn_key c)"
    "conns i = Some c \<Longrightarrow> conns j = Some d \<Longrightarrow> cn_player c = Some a \<Longrightarrow> cn_player d = Some a \<Longrightarrow> i = j"
    "h a = Some p \<Longrightarrow> \<exists>i c. conns i = Some c \<and> cn_player c = Some a"
  using assms unfolding owners_wf_def by blast+

lemma conn_of_lt: "conn_of i s = Some c \<Longrightarrow> i < length (env_table (ns_env s))"
  by (simp add: conn_of_def split: if_splits)

lemma net_init_wf: "n < 2 ^ 32 \<Longrightarrow> net_wf (net_init n x)"
  using conn_env_new_wf [of n]
  by (auto simp: net_wf_def net_init_def conn_of_def owners_wf_def conn_env_new_def connection_entry_new_def)

text \<open>A connection changes, its identity and its player do not.\<close>

definition same_owner :: "connection \<Rightarrow> connection \<Rightarrow> bool" where
  "same_owner c d \<longleftrightarrow> cn_key d = cn_key c \<and> cn_player d = cn_player c"

lemma owners_wf_same:
  assumes "owners_wf conns h n" "\<And>i. rel_option same_owner (conns i) (conns' i)"
  shows "owners_wf conns' h n"
proof -
  have bwd: "\<exists>c. conns i = Some c \<and> same_owner c d" if "conns' i = Some d" for i d
    using assms(2) [of i] that by (cases "conns i") auto
  have fwd: "\<exists>d. conns' i = Some d \<and> same_owner c d" if "conns i = Some c" for i c
    using assms(2) [of i] that by (cases "conns' i") auto
  note o = owners_wfD [OF assms(1)]
  show ?thesis
    unfolding owners_wf_def
  proof (intro conjI allI impI)
    fix i d a assume "conns' i = Some d" "cn_player d = Some a"
    then show "a < n" "\<exists>p. h a = Some p \<and> pl_key p = cn_key d"
      using bwd [of i d] o(1) [of i _ a] by (auto simp: same_owner_def)
  next
    fix i j c d a assume "conns' i = Some c" "conns' j = Some d" "cn_player c = Some a" "cn_player d = Some a"
    then show "i = j" using bwd [of i c] bwd [of j d] o(2) [of i _ j _ a] by (auto simp: same_owner_def)
  next
    fix a p assume "h a = Some p"
    then show "\<exists>i c. conns' i = Some c \<and> cn_player c = Some a"
      using o(3) [of a p] fwd by (fastforce simp: same_owner_def)
  qed
qed

lemma conn_of_upd_conn: "conn_of j (upd_conn i f s) = (if j = i then map_option f (conn_of i s) else conn_of j s)"
  by (auto simp: conn_of_def upd_conn_def Let_def nth_list_update)

lemma upd_conn_simps [simp]:
  "ns_heap (upd_conn i f s) = ns_heap s" "ns_next_addr (upd_conn i f s) = ns_next_addr s"
  "length (env_table (ns_env (upd_conn i f s))) = length (env_table (ns_env s))"
  "net_state.more (upd_conn i f s) = net_state.more s"
  by (simp_all add: upd_conn_def Let_def)

lemma env_wf_upd_conn:
  assumes "env_wf (ns_env s)"
    and "\<And>c. conn_of i s = Some c \<Longrightarrow> cn_key (f c) = cn_key c \<and> cn_is_online (f c) = cn_is_online c"
  shows "env_wf (ns_env (upd_conn i f s))"
proof (cases "i < length (env_table (ns_env s))")
  case True
  let ?e = "env_table (ns_env s) ! i"
  have e: "entry_wf i ?e" using assms(1) True by (simp add: env_wf_def)
  have "entry_wf i (?e\<lparr>ce_connection := map_option f (ce_connection ?e)\<rparr>)"
    using e assms(2) True by (cases "ce_connection ?e") (auto simp: entry_wf_def conn_of_def)
  then show ?thesis
    using assms(1) True by (simp add: upd_conn_def Let_def env_wf_update_same)
next
  case False
  with assms(1) show ?thesis by (simp add: upd_conn_def Let_def list_update_beyond)
qed

lemma net_wf_upd_conn:
  assumes wf: "net_wf s"
    and "\<And>c. conn_of i s = Some c \<Longrightarrow> cn_key (f c) = cn_key c \<and> cn_is_online (f c) = cn_is_online c \<and>
      cn_player (f c) = cn_player c \<and> cio_wf (cn_io (f c))"
  shows "net_wf (upd_conn i f s)"
proof -
  have "rel_option same_owner (conn_of j s) (conn_of j (upd_conn i f s))" for j
    using assms(2) by (cases "conn_of j s") (auto simp: conn_of_upd_conn same_owner_def)
  then have "owners_wf (\<lambda>j. conn_of j (upd_conn i f s)) (ns_heap s) (ns_next_addr s)"
    by (rule owners_wf_same [OF net_wfD(3) [OF wf]])
  with env_wf_upd_conn [OF net_wfD(1) [OF wf], of i f] assms net_wfD(2) [OF wf]
  show ?thesis by (auto simp: net_wf_def conn_of_upd_conn split: if_splits)
qed

lemma conn_of_heap [simp]:
  "conn_of i (s\<lparr>ns_heap := h\<rparr>) = conn_of i s" "conn_of i (s\<lparr>ns_next_addr := n\<rparr>) = conn_of i s"
  by (simp_all add: conn_of_def)

lemma keep_io: "\<exists>io. c = c\<lparr>cn_io := io\<rparr>"
  by (rule exI [of _ "cn_io c"]) simp

lemma conn_of_on_io:
  assumes "net_wf s" "on_io i f s = (ok, s')" "\<And>c. cio_wf c \<Longrightarrow> cio_wf (snd (f c))"
  shows "net_wf s'" "ns_heap s' = ns_heap s" "net_state.more s' = net_state.more s"
    "rel_option (\<lambda>c d. \<exists>io. d = c\<lparr>cn_io := io\<rparr>) (conn_of j s) (conn_of j s')"
proof -
  have "net_wf s' \<and> ns_heap s' = ns_heap s \<and> net_state.more s' = net_state.more s \<and>
    rel_option (\<lambda>c d. \<exists>io. d = c\<lparr>cn_io := io\<rparr>) (conn_of j s) (conn_of j s')"
  proof (cases "conn_of i s")
    case None
    with assms(1,2) show ?thesis
      by (simp add: on_io_def option.rel_refl [of "\<lambda>c d. \<exists>io. d = c\<lparr>cn_io := io\<rparr>", OF keep_io])
  next
    case (Some c)
    obtain io where io: "f (cn_io c) = (ok, io)" and s': "s' = upd_conn i (\<lambda>c. c\<lparr>cn_io := io\<rparr>) s"
      using assms(2) Some by (auto simp: on_io_def split: prod.splits)
    have "cio_wf io" using assms(3) [of "cn_io c"] net_wfD(2) [OF assms(1) Some] io by simp
    then have "net_wf s'" unfolding s' by (intro net_wf_upd_conn [OF assms(1)]) simp
    then show ?thesis
      by (cases "conn_of j s") (auto simp: s' conn_of_upd_conn keep_io)
  qed
  then show "net_wf s'" "ns_heap s' = ns_heap s" "net_state.more s' = net_state.more s"
    "rel_option (\<lambda>c d. \<exists>io. d = c\<lparr>cn_io := io\<rparr>) (conn_of j s) (conn_of j s')"
    by blast+
qed

lemma net_wf_upd_player:
  assumes wf: "net_wf s" and key: "\<And>p. ns_heap s a = Some p \<Longrightarrow> pl_key (f p) = pl_key p"
  shows "net_wf (upd_player a f s)"
proof -
  note o = owners_wfD [OF net_wfD(3) [OF wf]]
  have "owners_wf (\<lambda>i. conn_of i s) ((ns_heap s)(a := map_option f (ns_heap s a))) (ns_next_addr s)"
    unfolding owners_wf_def
  proof (intro conjI allI impI)
    fix i c b assume "conn_of i s = Some c" "cn_player c = Some b"
    then show "b < ns_next_addr s"
      "\<exists>p. ((ns_heap s)(a := map_option f (ns_heap s a))) b = Some p \<and> pl_key p = cn_key c"
      using o(1) [of i c b] key by auto
  next
    fix b p assume "((ns_heap s)(a := map_option f (ns_heap s a))) b = Some p"
    then show "\<exists>i c. conn_of i s = Some c \<and> cn_player c = Some b"
      using o(3) [of b] by (auto split: if_splits)
  qed (use o(2) in blast)
  with wf show ?thesis by (simp add: net_wf_def upd_player_def)
qed

lemma upd_player_simps [simp]:
  "conn_of i (upd_player a f s) = conn_of i s" "ns_env (upd_player a f s) = ns_env s"
  "ns_next_addr (upd_player a f s) = ns_next_addr s" "net_state.more (upd_player a f s) = net_state.more s"
  "ns_heap (upd_player a f s) = (ns_heap s)(a := map_option f (ns_heap s a))"
  by (simp_all add: upd_player_def conn_of_def)

subsection \<open>Operations that change owners\<close>

lemma ce_connection_mark [simp]:
  "ce_connection (xs[k := (xs ! k)\<lparr>ce_will_delete := b\<rparr>] ! j) = ce_connection (xs ! j)"
  by (cases "k < length xs"; cases "k = j") (simp_all add: list_update_beyond)

lemma conn_of_set_offline:
  assumes "net_wf s"
  shows "conn_of j (set_offline now i s) = (if j = i
    then map_option (\<lambda>c. c\<lparr>cn_is_online := False, cn_last_offline_tick := now\<rparr>) (conn_of i s) else conn_of j s)"
proof (cases "i < length (env_table (ns_env s))")
  case True
  note o = env_set_offline_effect [OF net_wfD(1) [OF assms] True, of now]
  show ?thesis
  proof (cases "ce_connection (env_table (ns_env s) ! i)")
    case None
    then have "env_set_offline now i (ns_env s) = ns_env s" by (simp add: env_set_offline_def)
    with None True show ?thesis by (simp add: conn_of_def set_offline_def)
  next
    case (Some c)
    with True o env_set_offline_eq [OF net_wfD(1) [OF assms] True Some] show ?thesis
      by (simp add: conn_of_def set_offline_def)
  qed
next
  case False
  then have c: "conn_of i s = None" by (simp add: conn_of_def)
  have "length (env_table (env_set_offline now i (ns_env s))) = length (env_table (ns_env s)) \<and>
    (\<forall>j. j \<noteq> i \<longrightarrow> j < length (env_table (ns_env s)) \<longrightarrow>
      ce_connection (env_table (env_set_offline now i (ns_env s)) ! j) = ce_connection (env_table (ns_env s) ! j))"
    using False
    by (auto simp: env_set_offline_def on_connection_offline_def Let_def nth_list_update list_update_beyond
        split: option.splits)
  with False c show ?thesis by (auto simp: conn_of_def set_offline_def)
qed

lemma set_offline_simps [simp]:
  "ns_heap (set_offline now i s) = ns_heap s" "ns_next_addr (set_offline now i s) = ns_next_addr s"
  "net_state.more (set_offline now i s) = net_state.more s"
  by (simp_all add: set_offline_def)

lemma net_wf_set_offline:
  assumes wf: "net_wf s" and i: "conn_of i s \<noteq> None"
  shows "net_wf (set_offline now i s)"
proof -
  have "i < length (env_table (ns_env s))" using i conn_of_lt by blast
  from env_set_offline_effect(1) [OF net_wfD(1) [OF wf] this, of now]
  have "env_wf (ns_env (set_offline now i s))" by (simp add: set_offline_def)
  moreover have "owners_wf (\<lambda>j. conn_of j (set_offline now i s)) (ns_heap s) (ns_next_addr s)"
    by (rule owners_wf_same [OF net_wfD(3) [OF wf]])
      (auto simp: conn_of_set_offline [OF wf] same_owner_def option.rel_map option.rel_refl intro: option.rel_refl)
  ultimately show ?thesis
    using net_wfD(2) [OF wf] by (auto simp: net_wf_def conn_of_set_offline [OF wf] split: if_splits)
qed

text \<open>A new player for a connection: the old one is destroyed, so no player is left without an owner.\<close>

lemma owners_wf_set_player:
  assumes wf: "owners_wf conns h n" and c: "conns i = Some c" and key: "pl_key p = cn_key c"
    and h': "h' = (case cn_player c of None \<Rightarrow> h(n \<mapsto> p) | Some b \<Rightarrow> (h(n \<mapsto> p))(b := None))"
  shows "owners_wf (conns(i \<mapsto> c\<lparr>cn_player := Some n\<rparr>)) h' (n + 1)"
proof -
  note o = owners_wfD [OF wf]
  have fresh: "cn_player d \<noteq> Some n" if "conns j = Some d" for j d using o(1) [OF that, of n] by auto
  have hn: "h' n = Some p" using fresh [OF c] by (auto simp: h' split: option.splits)
  have h_other: "h' a = h a" if "a \<noteq> n" "cn_player c \<noteq> Some a" for a
    using that by (auto simp: h' split: option.splits)
  show ?thesis
    unfolding owners_wf_def
  proof (intro conjI allI impI)
    fix j d a assume d: "(conns(i \<mapsto> c\<lparr>cn_player := Some n\<rparr>)) j = Some d" "cn_player d = Some a"
    have "a < n + 1 \<and> (\<exists>q. h' a = Some q \<and> pl_key q = cn_key d)"
    proof (cases "j = i")
      case True
      with d hn key show ?thesis by auto
    next
      case False
      then have j: "conns j = Some d" using d by simp
      have "cn_player c \<noteq> Some a" using o(2) [OF c j, of a] d(2) False by auto
      with o(1) [OF j d(2)] h_other [of a] fresh [OF j] d(2) show ?thesis by auto
    qed
    then show "a < n + 1" "\<exists>q. h' a = Some q \<and> pl_key q = cn_key d" by simp_all
  next
    fix j k d e a
    assume "(conns(i \<mapsto> c\<lparr>cn_player := Some n\<rparr>)) j = Some d" "(conns(i \<mapsto> c\<lparr>cn_player := Some n\<rparr>)) k = Some e"
      "cn_player d = Some a" "cn_player e = Some a"
    then show "j = k" using o(2) [of j d k e a] fresh by (auto split: if_splits)
  next
    fix a q assume q: "h' a = Some q"
    show "\<exists>j d. (conns(i \<mapsto> c\<lparr>cn_player := Some n\<rparr>)) j = Some d \<and> cn_player d = Some a"
    proof (cases "a = n")
      case True
      then show ?thesis by (intro exI [of _ i]) simp
    next
      case False
      have nc: "cn_player c \<noteq> Some a" using q False by (auto simp: h')
      then have "h a = Some q" using q h_other [OF False nc] by simp
      from o(3) [OF this] obtain j d where "conns j = Some d" "cn_player d = Some a" by blast
      with nc c show ?thesis by (intro exI [of _ j] exI [of _ d]) auto
    qed
  qed
qed

lemma set_player_effect:
  assumes wf: "net_wf s" and c: "conn_of i s = Some c" and key: "pl_key p = cn_key c"
  shows "net_wf (set_player i p s)"
    "conn_of j (set_player i p s) = (if j = i then Some (c\<lparr>cn_player := Some (ns_next_addr s)\<rparr>) else conn_of j s)"
    "ns_heap (set_player i p s) (ns_next_addr s) = Some p"
    "net_state.more (set_player i p s) = net_state.more s"
proof -
  let ?n = "ns_next_addr s"
  let ?h = "case cn_player c of None \<Rightarrow> (ns_heap s)(?n \<mapsto> p) | Some b \<Rightarrow> ((ns_heap s)(?n \<mapsto> p))(b := None)"
  have s': "set_player i p s = upd_conn i (\<lambda>c. c\<lparr>cn_player := Some ?n\<rparr>) (s\<lparr>ns_heap := ?h, ns_next_addr := ?n + 1\<rparr>)"
    using c by (simp add: set_player_def associated_player_def Let_def split: option.splits)
  show cj: "conn_of j (set_player i p s) = (if j = i then Some (c\<lparr>cn_player := Some ?n\<rparr>) else conn_of j s)" for j
    using c by (simp add: s' conn_of_upd_conn)
  have cs: "(\<lambda>j. conn_of j (set_player i p s)) = (\<lambda>j. conn_of j s)(i \<mapsto> c\<lparr>cn_player := Some ?n\<rparr>)"
    by (rule ext) (simp add: cj)
  have own: "owners_wf (\<lambda>j. conn_of j (set_player i p s)) ?h (?n + 1)"
    unfolding cs by (rule owners_wf_set_player [OF net_wfD(3) [OF wf] c key refl])
  have "env_wf (ns_env (set_player i p s))"
    unfolding s' using net_wfD(1) [OF wf] by (intro env_wf_upd_conn) simp_all
  moreover have hh: "ns_heap (set_player i p s) = ?h" "ns_next_addr (set_player i p s) = ?n + 1"
    by (simp_all add: s')
  ultimately show "net_wf (set_player i p s)"
    using own net_wfD(2) [OF wf] c by (auto simp: net_wf_def cj split: if_splits)
  have "cn_player c \<noteq> Some ?n" using owners_wfD(1) [OF net_wfD(3) [OF wf] c] by fastforce
  then show "ns_heap (set_player i p s) ?n = Some p" by (auto simp: hh split: option.splits)
  show "net_state.more (set_player i p s) = net_state.more s" by (simp add: s')
qed

text \<open>Deletion of a connection that is offline.\<close>

lemma delete_connection_effect:
  assumes wf: "net_wf s" and c: "conn_of i s = Some c" and off: "\<not> cn_is_online c"
  shows "net_wf (delete_connection i s)"
    "conn_of j (delete_connection i s) = (if j = i then None else conn_of j s)"
    "env_used (ns_env (delete_connection i s)) = env_used (ns_env s) - {i}"
proof -
  have i: "i < length (env_table (ns_env s))" "ce_connection (env_table (ns_env s) ! i) = Some c"
    using c by (simp_all add: conn_of_def split: if_splits)
  have wd: "ce_will_delete (env_table (ns_env s) ! i)"
    using env_wf_entry(2) [OF net_wfD(1) [OF wf] i] off by simp
  note e = entry_reset_connection_effect [OF net_wfD(1) [OF wf] i(1) wd]
  let ?h = "case cn_player c of None \<Rightarrow> ns_heap s | Some a \<Rightarrow> (ns_heap s)(a := None)"
  have s': "delete_connection i s = s\<lparr>ns_env := entry_reset_connection i (ns_env s), ns_heap := ?h\<rparr>"
    using c by (simp add: delete_connection_def associated_player_def)
  show cj: "conn_of j (delete_connection i s) = (if j = i then None else conn_of j s)" for j
    using e(4-6) i by (auto simp: s' conn_of_def)
  show "env_used (ns_env (delete_connection i s)) = env_used (ns_env s) - {i}"
    using e(2) by (simp add: s')
  note o = owners_wfD [OF net_wfD(3) [OF wf]]
  have ha: "?h a = (if cn_player c = Some a then None else ns_heap s a)" for a
    by (auto split: option.splits)
  have "owners_wf (\<lambda>j. conn_of j (delete_connection i s)) ?h (ns_next_addr s)"
    unfolding owners_wf_def
  proof (intro conjI allI impI)
    fix j d a assume d: "conn_of j (delete_connection i s) = Some d" "cn_player d = Some a"
    then have j: "conn_of j s = Some d" "j \<noteq> i" by (auto simp: cj split: if_splits)
    then have "cn_player c \<noteq> Some a" using o(2) [OF c j(1), of a] d(2) by auto
    with o(1) [OF j(1) d(2)] show "a < ns_next_addr s" "\<exists>p. ?h a = Some p \<and> pl_key p = cn_key d"
      by (simp_all add: ha)
  next
    fix j k d d' a assume "conn_of j (delete_connection i s) = Some d" "conn_of k (delete_connection i s) = Some d'"
      "cn_player d = Some a" "cn_player d' = Some a"
    then show "j = k" using o(2) [of j d k d' a] by (auto simp: cj split: if_splits)
  next
    fix a p assume "?h a = Some p"
    then have h: "ns_heap s a = Some p" "cn_player c \<noteq> Some a" by (simp_all add: ha split: if_splits)
    from o(3) [OF h(1)] obtain j d where "conn_of j s = Some d" "cn_player d = Some a" by blast
    with h(2) c show "\<exists>j d. conn_of j (delete_connection i s) = Some d \<and> cn_player d = Some a"
      by (intro exI [of _ j] exI [of _ d]) (auto simp: cj)
  qed
  moreover have "ns_env (delete_connection i s) = entry_reset_connection i (ns_env s)"
    "ns_heap (delete_connection i s) = ?h" "ns_next_addr (delete_connection i s) = ns_next_addr s"
    by (simp_all add: s')
  ultimately show "net_wf (delete_connection i s)"
    using e(1) net_wfD(2) [OF wf] by (auto simp: net_wf_def cj split: if_splits)
qed

subsection \<open>What the packet loop leaves\<close>

text \<open>
  The packet loop consumes whole packets only. When it ends without an error it has consumed
  everything; when it stops for want of bytes, what is left is the beginning of one packet and
  shorter than the longest one.
\<close>

theorem packet_loop_leftover:
  assumes "packet_loop handle i data s = (n, stop, s')"
  shows "n \<le> length data \<and> (stop = None \<longrightarrow> n = length data) \<and>
    (stop = Some (ResultCode ec_insuffient_packet_data) \<longrightarrow>
       (\<exists>pid size. parse_packet (drop n data) = Some (pid, size) \<and> pid \<noteq> PT_invalid \<and>
          length (drop n data) < size \<and> size \<le> handshake_packet_size))"
  using assms
proof (induction handle i data s arbitrary: n stop s' rule: packet_loop.induct)
  case (1 handle i data s)
  note step = packet_loop.simps [of handle i data s]
  show ?case
  proof (cases "parse_packet data")
    case None
    then have "data = []" by (cases data) (simp_all add: parse_packet_def)
    with 1(2) [unfolded step] None show ?thesis by auto
  next
    case (Some p)
    obtain pid sz where p: "parse_packet data = Some (pid, sz)" using Some by (cases p) simp
    then have ne: "data \<noteq> []" by (auto simp: parse_packet_def)
    obtain r s1 where h: "handle i data s = (r, s1)" by fastforce
    consider (invalid) "pid = PT_invalid" | (short) "pid \<noteq> PT_invalid" "length data < sz"
      | (stop) "pid \<noteq> PT_invalid" "sz \<le> length data" "\<not> is_packet_handle_success r"
      | (packet) "pid \<noteq> PT_invalid" "sz \<le> length data" "is_packet_handle_success r" by linarith
    then show ?thesis
    proof cases
      case invalid
      with 1(2) p show ?thesis by (auto simp: step)
    next
      case short
      with 1(2) p parse_packet_size [OF p] show ?thesis by (auto simp: step)
    next
      case stop
      then have "r \<noteq> ResultCode ec_insuffient_packet_data" by auto
      moreover have "n = 0" "stop = Some r" using stop 1(2) p h by (simp_all add: step)
      ultimately show ?thesis by auto
    next
      case packet
      obtain m stop1 s2 where l: "packet_loop handle i (drop sz data) s1 = (m, stop1, s2)"
        by (metis prod_cases3)
      with 1(2) p h packet have n: "n = sz + m" "stop = stop1" by (simp_all add: step)
      have d: "drop n data = drop m (drop sz data)" by (simp add: n add.commute)
      have ni: "\<not> pid = PT_invalid" "\<not> length data < sz" "\<not> \<not> is_packet_handle_success r"
        using packet by simp_all
      note IH = 1(1) [OF p refl ni(1,2) h [symmetric] refl ni(3) l]
      show ?thesis using IH packet(2) unfolding d n(2) by (auto simp: n(1))
    qed
  qed
qed

theorem packet_loop_leftover_witness:
  "packet_loop (\<lambda>i d s. (ResultCode ec_success, Suc s)) 0 [PT_ping, PT_handshake] 0 =
      (1, Some (ResultCode ec_insuffient_packet_data), 1) \<and>
   (\<exists>pid size. parse_packet (drop 1 [PT_ping, PT_handshake]) = Some (pid, size) \<and> size \<le> handshake_packet_size)"
proof -
  have e: "packet_loop (\<lambda>i d s. (ResultCode ec_success, Suc s)) 0 [PT_ping, PT_handshake] 0 =
      (1, Some (ResultCode ec_insuffient_packet_data), 1)"
    by (simp add: packet_loop.simps parse_packet_Cons protocol_db_def)
  from packet_loop_leftover [OF e] e show ?thesis by blast
qed

end
