(* ===== verification/Packet_Handler.thy ===== *)
theory Packet_Handler
  imports Connection_Laws
begin

section \<open>The packet handler of a server\<close>

text \<open>
  The interface \<open>net::PacketHandler\<close> (\<open>net/tcp_server.h\<close>) as a locale: a handler works on the
  connection it is given and may change connections and players, as long as it keeps the
  ownership invariant, does not delete its connection and does not touch the bytes received.
  For every such handler the events of a connection and the periodic clean-up keep the
  invariant. The stub handler of the tests is the first interpretation; the game server's
  handlers are the second.
\<close>

definition keeps_connection :: "nat \<Rightarrow> 'a net_state_scheme \<Rightarrow> 'a net_state_scheme \<Rightarrow> bool" where
  "keeps_connection i s s' \<longleftrightarrow> net_wf s' \<and> conn_of i s' \<noteq> None \<and> recv_bytes i s' = recv_bytes i s"

lemma keeps_connection_refl: "net_wf s \<Longrightarrow> conn_of i s \<noteq> None \<Longrightarrow> keeps_connection i s s"
  by (simp add: keeps_connection_def)

lemma keeps_connection_trans:
  "keeps_connection i s s' \<Longrightarrow> keeps_connection i s' s'' \<Longrightarrow> keeps_connection i s s''"
  by (simp add: keeps_connection_def)

lemma keeps_upd_conn:
  assumes wf: "net_wf s" and i: "conn_of i s \<noteq> None"
    and f: "\<And>c. conn_of j s = Some c \<Longrightarrow> cn_key (f c) = cn_key c \<and> cn_is_online (f c) = cn_is_online c \<and>
      cn_player (f c) = cn_player c \<and> cio_wf (cn_io (f c)) \<and>
      recv_contents (re_data (cio_recv (cn_io (f c)))) = recv_contents (re_data (cio_recv (cn_io c)))"
  shows "keeps_connection i s (upd_conn j f s)"
proof -
  have "net_wf (upd_conn j f s)" by (rule net_wf_upd_conn [OF wf]) (use f in blast)
  with i f show ?thesis
    by (cases "conn_of i s") (auto simp: keeps_connection_def conn_of_upd_conn recv_bytes_def)
qed

lemma keeps_set_last_error:
  "net_wf s \<Longrightarrow> conn_of i s \<noteq> None \<Longrightarrow> keeps_connection i s (set_last_error j r s)"
  unfolding set_last_error_def by (rule keeps_upd_conn) (auto dest: net_wfD(2))

lemma keeps_interaction:
  "net_wf s \<Longrightarrow> conn_of i s \<noteq> None \<Longrightarrow> keeps_connection i s (update_last_interaction_time now j s)"
  unfolding update_last_interaction_time_def by (rule keeps_upd_conn) (auto dest: net_wfD(2))

lemma keeps_upd_player:
  "net_wf s \<Longrightarrow> conn_of i s \<noteq> None \<Longrightarrow> (\<And>p. pl_key (f p) = pl_key p) \<Longrightarrow> keeps_connection i s (upd_player a f s)"
  by (simp add: keeps_connection_def net_wf_upd_player recv_bytes_def)

lemma keeps_set_offline:
  "net_wf s \<Longrightarrow> conn_of i s \<noteq> None \<Longrightarrow> conn_of j s \<noteq> None \<Longrightarrow> keeps_connection i s (set_offline now j s)"
  by (cases "conn_of i s") (auto simp: keeps_connection_def net_wf_set_offline conn_of_set_offline recv_bytes_def)

lemma keeps_on_io:
  assumes wf: "net_wf s" and i: "conn_of i s \<noteq> None" and io: "on_io j f s = (ok, s')"
    and f: "\<And>c. cio_wf c \<Longrightarrow> cio_wf (snd (f c)) \<and> cio_recv (snd (f c)) = cio_recv c"
  shows "keeps_connection i s s'"
proof (cases "conn_of j s")
  case None
  with io wf i show ?thesis by (auto simp: on_io_def intro: keeps_connection_refl)
next
  case (Some c)
  then obtain io' where e: "f (cn_io c) = (ok, io')" and s': "s' = upd_conn j (\<lambda>c. c\<lparr>cn_io := io'\<rparr>) s"
    using io by (auto simp: on_io_def split: prod.splits)
  have c: "cio_wf (cn_io c)" using wf Some by (rule net_wfD(2))
  from f [OF c] have "cio_wf io'" "cio_recv io' = cio_recv (cn_io c)" by (simp_all add: e)
  with Some show ?thesis unfolding s' by (intro keeps_upd_conn [OF wf i]) simp
qed

lemma cio_push_keeps: "cio_wf c \<Longrightarrow> cio_wf (snd (cio_push bs c)) \<and> cio_recv (snd (cio_push bs c)) = cio_recv c"
  using cio_push_effect [of c bs "fst (cio_push bs c)" "snd (cio_push bs c)"] by simp

lemma net_wf_new_connection:
  assumes wf: "net_wf s" and room: "env_num_of_connections (ns_env s) < env_max_connections (ns_env s)"
    and new: "new_connection tick now s = (key, s')"
  shows "net_wf s'" "conn_of (key_slot key) s' = Some (connection_new key now)"
    "env_used (ns_env s') = insert (key_slot key) (env_used (ns_env s))"
proof -
  obtain env where env: "env_new_connection tick now (ns_env s) = (key, env)" and s': "s' = s\<lparr>ns_env := env\<rparr>"
    using new by (auto simp: new_connection_def split: prod.splits)
  note n = env_new_connection_effect [OF net_wfD(1) [OF wf] room env]
  have slot: "key_slot key < length (env_table env)"
    using n(5) by (auto simp: try_acquire_Some_iff)
  have len: "length (env_table env) = length (env_table (ns_env s))"
    using n(1,4) net_wfD(1) [OF wf] by (simp add: env_wf_def)
  have none: "conn_of (key_slot key) s = None"
  proof (rule ccontr)
    assume "conn_of (key_slot key) s \<noteq> None"
    then obtain c where c: "conn_of (key_slot key) s = Some c" by blast
    then have "ce_used (env_table (ns_env s) ! key_slot key)"
      using env_wf_entry(1) [OF net_wfD(1) [OF wf]] slot len by (auto simp: conn_of_def split: if_splits)
    with n(2) slot len show False by (simp add: env_used_def)
  qed
  have cj: "conn_of j s' = (if j = key_slot key then Some (connection_new key now) else conn_of j s)" for j
    using n(6,7) slot len by (auto simp: conn_of_def s')
  then show "conn_of (key_slot key) s' = Some (connection_new key now)" by simp
  have "owners_wf (\<lambda>j. conn_of j s') (ns_heap s) (ns_next_addr s)"
  proof -
    note o = owners_wfD [OF net_wfD(3) [OF wf]]
    show ?thesis
      unfolding owners_wf_def
    proof (intro conjI allI impI)
      fix a p assume "ns_heap s a = Some p"
      from o(3) [OF this] none show "\<exists>j d. conn_of j s' = Some d \<and> cn_player d = Some a"
        by (metis cj option.distinct(1))
    qed (use o(1,2) in \<open>auto simp: cj connection_new_def split: if_splits\<close>)
  qed
  moreover have "ns_env s' = env" "ns_heap s' = ns_heap s" "ns_next_addr s' = ns_next_addr s"
    by (simp_all add: s')
  ultimately show "net_wf s'"
    using n(1) net_wfD(2) [OF wf]
    by (auto simp: net_wf_def cj connection_new_def connection_io_new_wf split: if_splits)
  show "env_used (ns_env s') = insert (key_slot key) (env_used (ns_env s))" using n(3) by (simp add: s')
qed

subsection \<open>The interface\<close>

locale packet_handler =
  fixes handle :: "nat \<Rightarrow> bytes \<Rightarrow> 'a net_state_scheme \<Rightarrow> result_code \<times> 'a net_state_scheme"
    and on_disc :: "nat \<Rightarrow> 'a net_state_scheme \<Rightarrow> 'a net_state_scheme"
  assumes handle_keeps: "net_wf s \<Longrightarrow> conn_of i s \<noteq> None \<Longrightarrow> parse_packet data = Some (pid, n) \<Longrightarrow>
      pid \<noteq> PT_invalid \<Longrightarrow> n \<le> length data \<Longrightarrow> handle i data s = (r, s') \<Longrightarrow> keeps_connection i s s'"
    and on_disc_keeps: "net_wf s \<Longrightarrow> conn_of i s \<noteq> None \<Longrightarrow> keeps_connection i s (on_disc i s)"
begin

lemma disconnect_keeps:
  assumes "net_wf s" "conn_of i s \<noteq> None"
  shows "keeps_connection i s (disconnect on_disc now i s)"
proof -
  have k: "keeps_connection i s (on_disc i s)" using assms by (rule on_disc_keeps)
  then have "keeps_connection i (on_disc i s) (set_offline now i (on_disc i s))"
    by (intro keeps_set_offline) (simp_all add: keeps_connection_def)
  with k have "keeps_connection i s (set_offline now i (on_disc i s))" by (rule keeps_connection_trans)
  with assms show ?thesis
    by (auto simp: disconnect_def keeps_connection_refl prepare_state_transition_def
        intro!: keeps_upd_player split: option.splits)
qed

lemma kick_keeps:
  assumes "net_wf s" "conn_of i s \<noteq> None"
  shows "keeps_connection i s (kick on_disc now msg i s)"
proof -
  obtain ok s1 where io: "on_io i (send_packet (\<lambda>push. disconnect_player_serialize push (disconnect_player_make msg))) s = (ok, s1)"
    by fastforce
  have k: "keeps_connection i s s1"
    using keeps_on_io [OF assms io] by (simp add: send_packet_def disconnect_player_serialize_def cio_push_keeps)
  then have "keeps_connection i s1 (disconnect on_disc now i s1)"
    by (intro disconnect_keeps) (simp_all add: keeps_connection_def)
  with k io show ?thesis by (simp add: kick_def keeps_connection_trans)
qed

lemma kick_result_keeps:
  "net_wf s \<Longrightarrow> conn_of i s \<noteq> None \<Longrightarrow> kick_result on_disc now r i s = Some s' \<Longrightarrow> keeps_connection i s s'"
  by (auto simp: kick_result_def kick_keeps split: option.splits)

lemma packet_loop_keeps:
  "net_wf s \<Longrightarrow> conn_of i s \<noteq> None \<Longrightarrow> packet_loop handle i data s = (n, stop, s') \<Longrightarrow> keeps_connection i s s'"
proof (induction "length data" arbitrary: data s n stop s' rule: less_induct)
  case less
  note step = packet_loop.simps [of handle i data s]
  show ?case
  proof (cases "parse_packet data")
    case None
    with less.prems show ?thesis by (simp add: step keeps_connection_refl)
  next
    case (Some p)
    obtain pid sz where p: "parse_packet data = Some (pid, sz)" using Some by (cases p) simp
    obtain r s1 where h: "handle i data s = (r, s1)" by fastforce
    show ?thesis
    proof (cases "pid = PT_invalid \<or> length data < sz")
      case True
      with less.prems p show ?thesis by (auto simp: step keeps_connection_refl split: if_splits)
    next
      case False
      then have k: "keeps_connection i s s1"
        using handle_keeps [OF less.prems(1,2) p _ _ h] by simp
      show ?thesis
      proof (cases "is_packet_handle_success r")
        case False
        with less.prems(3) p h \<open>\<not> (pid = PT_invalid \<or> length data < sz)\<close> k show ?thesis
          by (simp add: step)
      next
        case True
        obtain m st s2 where l: "packet_loop handle i (drop sz data) s1 = (m, st, s2)"
          by (metis prod_cases3)
        have "0 < sz" "data \<noteq> []" using p False parse_packet_size [OF p] by (auto simp: parse_packet_def)
        then have "keeps_connection i s1 s2"
          using k l by (intro less.hyps [of "drop sz data" s1 m st s2]) (simp_all add: keeps_connection_def)
        with k have "keeps_connection i s s2" by (rule keeps_connection_trans)
        with less.prems(3) p h True False l show ?thesis by (simp add: step)
      qed
    qed
  qed
qed

lemma process_packets_keeps:
  assumes "net_wf s" "conn_of i s \<noteq> None" "process_packets handle i data s = (n, s')"
  shows "keeps_connection i s s'" "n \<le> length data"
proof -
  obtain stop s1 where l: "packet_loop handle i data s = (n, stop, s1)"
    and s': "s' = (case stop of None \<Rightarrow> s1 | Some r \<Rightarrow> set_last_error i r s1)"
    using assms(3) by (auto simp: process_packets_def split: prod.splits)
  have k: "keeps_connection i s s1" by (rule packet_loop_keeps [OF assms(1,2) l])
  then have "keeps_connection i s1 s'"
    by (auto simp: s' keeps_connection_def [of i s] intro!: keeps_set_last_error keeps_connection_refl split: option.splits)
  with k show "keeps_connection i s s'" by (rule keeps_connection_trans)
  show "n \<le> length data" using l by (rule packet_loop_bound)
qed

lemma on_complete_recv_wf:
  assumes "net_wf s" "conn_of i s \<noteq> None" "on_complete_recv on_disc now i s = Some s'"
  shows "net_wf s' \<and> conn_of i s' \<noteq> None"
proof -
  let ?s = "upd_recv i (\<lambda>e. e\<lparr>re_processing := False\<rparr>) s"
  have k: "keeps_connection i s ?s"
    unfolding upd_recv_def using net_wfD(2) [OF assms(1)]
    by (intro keeps_upd_conn [OF assms(1,2)]) (auto simp: cio_wf_def)
  then have w: "net_wf ?s" "conn_of i ?s \<noteq> None" by (simp_all add: keeps_connection_def)
  then obtain c where c: "conn_of i ?s = Some c" by blast
  show ?thesis
  proof (cases "is_packet_handle_success (cn_last_error c)")
    case True
    with c assms(3) have "s' = set_last_error i (rc_reset (cn_last_error c)) ?s"
      by (simp add: on_complete_recv_def Let_def)
    with keeps_set_last_error [OF w] show ?thesis by (simp add: keeps_connection_def)
  next
    case False
    with c assms(3) have "kick_result on_disc now (cn_last_error c) i ?s = Some s'"
      by (simp add: on_complete_recv_def Let_def)
    from kick_result_keeps [OF w this] show ?thesis by (simp add: keeps_connection_def)
  qed
qed

text \<open>
  The states a completed receive goes through: \<open>s2\<close> with the bytes in the buffer, \<open>s3\<close> after the
  packets in it, \<open>s4\<close> with these bytes taken out.
\<close>

lemma recv_event_states:
  assumes wf: "net_wf s" and i: "conn_of i s = Some c"
    and fits: "\<And>bs. completion = Recv_data bs \<Longrightarrow> length bs \<le> recv_unused_size (re_data (cio_recv (cn_io c)))"
    and data: "completion \<noteq> Recv_eof" "completion \<noteq> Recv_failed"
    and ev: "recv_on_event_complete handle on_disc now i completion s = Some s'"
  obtains s2 n s3 s4 where
    "net_wf s2" "conn_of i s2 \<noteq> None" "ns_heap s2 = ns_heap s" "ns_next_addr s2 = ns_next_addr s"
    "s3 = s2 \<or> process_packets handle i (recv_bytes i s2) s2 = (n, s3)"
    "net_wf s4" "conn_of i s4 \<noteq> None" "ns_heap s4 = ns_heap s3" "ns_next_addr s4 = ns_next_addr s3"
    "on_complete_recv on_disc now i s4 = Some s'"
proof -
  define s1 where "s1 = (case completion of
      Recv_data bs \<Rightarrow> upd_recv i (\<lambda>e. e\<lparr>re_data := snd (recv_io_push bs (re_data e))\<rparr>) s | _ \<Rightarrow> s)"
  have h1: "ns_heap s1 = ns_heap s" "ns_next_addr s1 = ns_next_addr s"
    by (simp_all add: s1_def upd_recv_def split: recv_completion.split)
  have w1: "net_wf s1 \<and> conn_of i s1 \<noteq> None"
  proof (cases completion)
    case (Recv_data bs)
    let ?d = "re_data (cio_recv (cn_io c))"
    have "recv_wf ?d" using net_wfD(2) [OF wf i] by (simp add: cio_wf_def)
    then have "recv_wf (snd (recv_io_push bs ?d))"
      using recv.wf_push [of ?d bs "fst (recv_io_push bs ?d)" "snd (recv_io_push bs ?d)"] by simp
    then have "net_wf s1"
      using net_wfD(2) [OF wf i] i unfolding s1_def Recv_data recv_completion.case upd_recv_def
      by (intro net_wf_upd_conn [OF wf]) (simp add: cio_wf_def)
    then show ?thesis using i by (simp add: s1_def Recv_data upd_recv_def conn_of_upd_conn)
  qed (use wf i data in \<open>simp_all add: s1_def\<close>)
  obtain online s2 where t: "try_interact_with_client now i s1 = (online, s2)" by fastforce
  have k2: "keeps_connection i s1 s2"
    using t w1 by (auto simp: try_interact_with_client_def intro: keeps_interaction keeps_connection_refl split: if_splits)
  have h2: "ns_heap s2 = ns_heap s" "ns_next_addr s2 = ns_next_addr s"
    using t h1 by (auto simp: try_interact_with_client_def update_last_interaction_time_def split: if_splits)
  obtain n s3 where h: "handle_io_event_recv handle now i s1 = (n, s3)" by fastforce
  have w2: "net_wf s2" "conn_of i s2 \<noteq> None" using k2 by (simp_all add: keeps_connection_def)
  have w3: "(s3 = s2 \<or> process_packets handle i (recv_bytes i s2) s2 = (n, s3)) \<and>
      net_wf s3 \<and> conn_of i s3 \<noteq> None \<and> n \<le> length (recv_bytes i s3)"
  proof (cases online)
    case True
    then have pp: "process_packets handle i (recv_bytes i s2) s2 = (n, s3)" using h t by (simp add: handle_io_event_recv_def)
    from process_packets_keeps [OF w2 pp] pp show ?thesis by (simp add: keeps_connection_def)
  next
    case False
    then show ?thesis using h t w2 by (simp add: handle_io_event_recv_def)
  qed
  define s4 where "s4 = (if n \<noteq> 0 then upd_recv i (\<lambda>e. e\<lparr>re_data := recv_pop n (re_data e)\<rparr>) s3 else s3)"
  have h4: "ns_heap s4 = ns_heap s3" "ns_next_addr s4 = ns_next_addr s3"
    by (simp_all add: s4_def upd_recv_def)
  have w4: "net_wf s4 \<and> conn_of i s4 \<noteq> None"
  proof (cases "n = 0")
    case True
    with w3 show ?thesis by (simp add: s4_def)
  next
    case False
    from w3 obtain d where d: "conn_of i s3 = Some d" by blast
    have "cio_wf (cn_io d)" using w3 d by (intro net_wfD(2)) simp_all
    moreover from this have "recv_wf (recv_pop n (re_data (cio_recv (cn_io d))))"
      using w3 d by (intro recv.wf_pop) (simp_all add: cio_wf_def recv_bytes_def)
    ultimately have "net_wf s4"
      using w3 d False unfolding s4_def upd_recv_def
      by (simp, intro net_wf_upd_conn) (simp_all add: cio_wf_def)
    with d False show ?thesis by (simp add: s4_def upd_recv_def conn_of_upd_conn)
  qed
  have "on_complete_recv on_disc now i s4 = Some s'"
    using ev data h unfolding recv_on_event_complete_def s4_def s1_def [symmetric]
    by (simp add: Let_def)
  with that w2 h2 w3 w4 h4 show thesis by blast
qed

text \<open>Every completed receive keeps the invariant, whatever the bytes received.\<close>

lemma recv_event_wf:
  assumes wf: "net_wf s" and i: "conn_of i s = Some c"
    and fits: "\<And>bs. completion = Recv_data bs \<Longrightarrow> length bs \<le> recv_unused_size (re_data (cio_recv (cn_io c)))"
    and ev: "recv_on_event_complete handle on_disc now i completion s = Some s'"
  shows "net_wf s' \<and> conn_of i s' \<noteq> None"
proof (cases "completion = Recv_eof \<or> completion = Recv_failed")
  case True
  with ev show ?thesis
    using disconnect_keeps [OF wf, of i now] on_complete_recv_wf [OF wf, of i now s'] i
    by (auto simp: recv_on_event_complete_def keeps_connection_def)
next
  case False
  then have d: "completion \<noteq> Recv_eof" "completion \<noteq> Recv_failed" by simp_all
  show ?thesis
    by (rule recv_event_states [OF wf i fits d ev]) (use on_complete_recv_wf in blast)+
qed

lemma cleanup_slot_wf:
  assumes "net_wf s"
  shows "net_wf (cleanup_slot on_disc now i s)"
proof (cases "conn_of i s")
  case None
  with assms show ?thesis by (simp add: cleanup_slot_def)
next
  case (Some c)
  then have "keeps_connection i s (disconnect on_disc now i s)"
    using assms by (intro disconnect_keeps) simp_all
  moreover have "is_safe_delete now c \<Longrightarrow> net_wf (delete_connection i s)"
    using delete_connection_effect(1) [OF assms Some] by (simp add: is_safe_delete_def)
  ultimately show ?thesis
    using assms Some by (simp add: cleanup_slot_def keeps_connection_def)
qed

lemma cleanup_wf:
  assumes "net_wf s"
  shows "net_wf (cleanup_expired_connection on_disc now s)"
proof -
  have "net_wf (fold (cleanup_slot on_disc now) is s)" for "is"
    using assms by (induction "is" arbitrary: s) (simp_all add: cleanup_slot_wf)
  then show ?thesis by (simp add: cleanup_expired_connection_def)
qed

end

subsection \<open>The stub handler\<close>

definition stub_handle_packet :: "nat \<Rightarrow> bytes \<Rightarrow> 'a net_state_scheme \<Rightarrow> result_code \<times> 'a net_state_scheme" where
  "stub_handle_packet i data s = (ResultCode ec_success, s)"

definition stub_on_disconnect :: "nat \<Rightarrow> 'a net_state_scheme \<Rightarrow> 'a net_state_scheme" where
  "stub_on_disconnect i s = s"

interpretation stub: packet_handler stub_handle_packet stub_on_disconnect
  by unfold_locales (auto simp: stub_handle_packet_def stub_on_disconnect_def keeps_connection_refl)

subsection \<open>What disconnecting does\<close>

text \<open>
  A player past the handshake is left to the world. Disconnecting it once more before the world
  has taken it over sends the connection offline at once.
\<close>

lemma disconnect_player:
  assumes "conn_of i s = Some c" "cn_is_online c" "cn_player c = Some a" "ns_heap s a = Some p"
    "S_handshaking \<le> ps_cur p"
  shows "disconnect on_disc now i s = upd_player a (prepare_state_transition S_disconnecting S_disconnected) s"
  using assms by (simp add: disconnect_def is_online_def associated_player_def)

lemma disconnect_twice:
  assumes "conn_of i s = Some c" "cn_is_online c" "cn_player c = Some a" "ns_heap s a = Some p"
    "S_handshaking \<le> ps_cur p"
  shows "disconnect on_disc now2 i (disconnect on_disc now1 i s) =
    set_offline now2 i (on_disc i (upd_player a (prepare_state_transition S_disconnecting S_disconnected) s))"
  using assms
  by (simp add: disconnect_player disconnect_def is_online_def associated_player_def state_order
      prepare_state_transition_def)

lemma disconnect_without_player:
  assumes "conn_of i s = Some c" "cn_is_online c" "cn_player c = None"
  shows "disconnect on_disc now i s = set_offline now i (on_disc i s)"
  using assms by (simp add: disconnect_def is_online_def associated_player_def)

lemma disconnect_offline: "\<not> is_online i s \<Longrightarrow> disconnect on_disc now i s = s"
  by (simp add: disconnect_def)

end
