(* ===== verification/World.thy ===== *)
theory World
  imports World_Map Tasks Level_Packet Packet_Extension Packet_Handler
begin

section \<open>The world\<close>

text \<open>
  \<open>game::World\<close> of \<open>game/world.h\<close>/\<open>.cpp\<close>: its tasks, the operations that run in them, and the
  tick that moves every player through its session states. The world extends the state of the
  connections. A vector of \<open>Player*\<close> is a list of addresses; reading through a pointer whose
  player was destroyed, or indexing the connection table out of range, has no result (\<open>None\<close>).
  zlib and the uninitialised allocations are the record \<open>zlib\<close>; the calls of
  \<open>PlayerGamedata::save\<close> that reach the database are the log \<open>w_saved\<close>.
\<close>

record 'z zlib =
  z_init :: "bytes \<Rightarrow> 'z"
  z_bound :: "'z \<Rightarrow> nat"
  z_deflate :: "'z \<Rightarrow> nat \<Rightarrow> bytes \<times> 'z"
  z_alloc :: "nat \<Rightarrow> bytes"

record world = net_state +
  w_spawn_player_task :: world_player_task
  w_disconnect_player_task :: world_player_task
  w_sync_block_task :: block_sync_task
  w_sync_position_task :: task
  w_common_chat_task :: common_chat_task
  w_metadata :: world_metadata
  w_block_mapping :: bytes
  w_last_save_map_at :: nat
  w_saved :: "player list"

abbreviation spawn_player_interval :: nat where "spawn_player_interval \<equiv> 2000"
abbreviation despawn_player_interval :: nat where "despawn_player_interval \<equiv> 2000"
abbreviation sync_block_interval :: nat where "sync_block_interval \<equiv> 200"
abbreviation sync_player_position_interval :: nat where "sync_player_position_interval \<equiv> 100"
abbreviation ping_interval :: nat where "ping_interval \<equiv> 5000"
abbreviation common_chat_transfer_interval :: nat where "common_chat_transfer_interval \<equiv> 1000"

subsection \<open>Sending to players\<close>

text \<open>
  \<open>send_to_players\<close> as the language reads it: the \<open>else\<close> belongs to \<open>if (successed)\<close>.
\<close>

fun send_to_players ::
    "nat list \<Rightarrow> bytes \<Rightarrow> (player \<Rightarrow> player) option \<Rightarrow> (player \<Rightarrow> player) option \<Rightarrow>
      'a net_state_scheme \<Rightarrow> 'a net_state_scheme option" where
  "send_to_players [] data successed failed s = Some s"
| "send_to_players (a # as) data successed failed s =
     (case ns_heap s a of
        None \<Rightarrow> None
      | Some p \<Rightarrow>
          (case try_acquire_connection (pl_key p) (ns_env s) of
             None \<Rightarrow> None
           | Some None \<Rightarrow> send_to_players as data successed failed s
           | Some (Some i) \<Rightarrow>
               (let (ok, s) = on_io i (send_raw_data data) s;
                    s = (if ok then
                           (case successed of
                              Some f \<Rightarrow> upd_player a f s
                            | None \<Rightarrow> (case failed of Some g \<Rightarrow> upd_player a g s | None \<Rightarrow> s))
                         else s)
                in send_to_players as data successed failed s)))"

fun multicast_to_players ::
    "nat list \<Rightarrow> bytes \<Rightarrow> (player \<Rightarrow> player) option \<Rightarrow> 'a net_state_scheme \<Rightarrow> 'a net_state_scheme option" where
  "multicast_to_players [] data successed s = Some s"
| "multicast_to_players (a # as) data successed s =
     (case ns_heap s a of
        None \<Rightarrow> None
      | Some p \<Rightarrow>
          (case try_acquire_connection (pl_key p) (ns_env s) of
             None \<Rightarrow> None
           | Some None \<Rightarrow> multicast_to_players as data successed s
           | Some (Some i) \<Rightarrow>
               (let (ok, s) = on_io i (post_multicast_event data) s;
                    s = (if ok then (case successed of Some f \<Rightarrow> upd_player a f s | None \<Rightarrow> s) else s)
                in multicast_to_players as data successed s)))"

definition players_from :: "session_state \<Rightarrow> 'a net_state_scheme \<Rightarrow> nat list" where
  "players_from st s = select_players (\<lambda>p. st \<le> ps_cur p) s"

definition send_to_specific_players ::
    "session_state \<Rightarrow> bytes \<Rightarrow> (player \<Rightarrow> player) option \<Rightarrow> (player \<Rightarrow> player) option \<Rightarrow>
      'a net_state_scheme \<Rightarrow> 'a net_state_scheme option" where
  "send_to_specific_players st data successed failed s =
     send_to_players (players_from st s) data successed failed s"

definition multicast_to_specific_players ::
    "session_state \<Rightarrow> bytes \<Rightarrow> 'a net_state_scheme \<Rightarrow> 'a net_state_scheme option" where
  "multicast_to_specific_players st data s = multicast_to_players (players_from st s) data None s"

fun broadcast_loop :: "nat list \<Rightarrow> packet_ext_message \<Rightarrow> 'a net_state_scheme \<Rightarrow> 'a net_state_scheme option" where
  "broadcast_loop [] m s = Some s"
| "broadcast_loop (a # as) m s =
     (case ns_heap s a of
        None \<Rightarrow> None
      | Some p \<Rightarrow>
          (case try_acquire_connection (pl_key p) (ns_env s) of
             None \<Rightarrow> None
           | Some None \<Rightarrow> broadcast_loop as m s
           | Some (Some i) \<Rightarrow>
               broadcast_loop as m (snd (on_io i (send_packet (\<lambda>push. ext_message_serialize push m)) s))))"

definition broadcast_to_world_player ::
    "chat_message_type_id \<Rightarrow> bytes \<Rightarrow> 'a net_state_scheme \<Rightarrow> 'a net_state_scheme option" where
  "broadcast_to_world_player message_type message s =
     broadcast_loop (players_from S_spawned s) (ext_message_make message_type message) s"

subsection \<open>The operations of the tasks\<close>

definition process_level_wait_player ::
    "'z zlib \<Rightarrow> nat list \<Rightarrow> 'a world_scheme \<Rightarrow> 'a world_scheme option" where
  "process_level_wait_player z players s =
     (let md = w_metadata s;
          zstm = z_init z (level_input md (w_block_mapping s));
          packet = level_data_make zstm (z_bound z zstm) (ucast (md_width md)) (ucast (md_height md)) (ucast (md_length md))
      in case level_data_serialize (z_deflate z) (z_alloc z (data_capacity packet)) packet of
           None \<Rightarrow> None
         | Some (data_size, data) \<Rightarrow>
             multicast_to_players players (take data_size data) (Some transit_state) s)"

definition spawn_player :: "nat list \<Rightarrow> 'a net_state_scheme \<Rightarrow> 'a net_state_scheme option" where
  "spawn_player spawn_wait_players s =
     (let old_players = players_from S_spawned s
      in case spawn_player_serialize old_players spawn_wait_players (ns_heap s) of
           None \<Rightarrow> None
         | Some (data_size, data) \<Rightarrow>
             (case send_to_players spawn_wait_players (take data_size data) (Some transit_state) None s of
                None \<Rightarrow> None
              | Some s \<Rightarrow>
                  send_to_players old_players
                    (segment (length old_players * spawn_player_packet_size)
                       (length spawn_wait_players * spawn_player_packet_size) data) None None s))"

definition despawn_player :: "nat list \<Rightarrow> 'a net_state_scheme \<Rightarrow> 'a net_state_scheme option" where
  "despawn_player spawned_players s =
     (case despawn_player_serialize spawned_players (ns_heap s) of
        None \<Rightarrow> None
      | Some (data_size, data) \<Rightarrow> send_to_specific_players S_spawned (take data_size data) None None s)"

text \<open>\<open>PlayerGamedata::save\<close> writes the game data of a player that supports it.\<close>

definition gamedata_save :: "player \<Rightarrow> 'a world_scheme \<Rightarrow> 'a world_scheme" where
  "gamedata_save p s = (if is_support_gamedata_saving p then s\<lparr>w_saved := w_saved s @ [p]\<rparr> else s)"

fun disconnect_loop :: "nat list \<Rightarrow> 'a world_scheme \<Rightarrow> 'a world_scheme option" where
  "disconnect_loop [] s = Some s"
| "disconnect_loop (a # as) s =
     (case ns_heap s a of
        None \<Rightarrow> None
      | Some p \<Rightarrow>
          (case try_acquire_connection (pl_key p) (ns_env s) of
             None \<Rightarrow> None
           | Some None \<Rightarrow> disconnect_loop as s
           | Some (Some i) \<Rightarrow> disconnect_loop as (upd_player a transit_state (gamedata_save p s))))"

definition disconnect_player :: "nat list \<Rightarrow> 'a world_scheme \<Rightarrow> 'a world_scheme option" where
  "disconnect_player players s =
     (if \<not> list_all (\<lambda>a. ns_heap s a \<noteq> None) players then None
      else let spawned = filter (\<lambda>a. S_spawned \<le> ps_prev (the (ns_heap s a))) players
           in case despawn_player spawned s of None \<Rightarrow> None | Some s \<Rightarrow> disconnect_loop players s)"

definition sync_block ::
    "'z zlib \<Rightarrow> nat list \<Rightarrow> double_buffering \<Rightarrow> 'a world_scheme \<Rightarrow> 'a world_scheme option" where
  "sync_block z level_wait_players hist s =
     (case (if block_history_size hist \<noteq> 0 then
              multicast_to_specific_players S_level_initialized (get_snapshot_data hist)
                (s\<lparr>w_block_mapping := commit_block_changes (w_metadata s) hist (w_block_mapping s)\<rparr>)
            else Some s) of
        None \<Rightarrow> None
      | Some s \<Rightarrow>
          if level_wait_players \<noteq> [] then process_level_wait_player z level_wait_players s else Some s)"

definition sync_player_position :: "'a net_state_scheme \<Rightarrow> 'a net_state_scheme option" where
  "sync_player_position s =
     (let world_players = players_from S_spawned s
      in case set_player_position_serialize world_players (ns_heap s) of
           None \<Rightarrow> None
         | Some (data, h) \<Rightarrow>
             (let s = s\<lparr>ns_heap := h\<rparr>
              in if length data \<noteq> 0
                 then multicast_to_players world_players data (Some commit_last_transferred_position) s
                 else Some s))"

definition common_chat_transfer :: "bytes \<Rightarrow> 'a net_state_scheme \<Rightarrow> 'a net_state_scheme option" where
  "common_chat_transfer chat_history_data s =
     (if length chat_history_data \<noteq> 0 then multicast_to_specific_players S_spawned chat_history_data s
      else Some s)"

definition try_change_block :: "coordinate3d \<Rightarrow> u8 \<Rightarrow> 'a world_scheme \<Rightarrow> bool \<times> 'a world_scheme" where
  "try_change_block pos blk s =
     (let (ok, t) = bs_push_block pos blk (w_sync_block_task s) in (ok, s\<lparr>w_sync_block_task := t\<rparr>))"

definition try_add_common_chat :: "bytes \<Rightarrow> 'a world_scheme \<Rightarrow> bool \<times> 'a world_scheme" where
  "try_add_common_chat packet_data s =
     (let (ok, t) = cc_push packet_data (w_common_chat_task s) in (ok, s\<lparr>w_common_chat_task := t\<rparr>))"

subsection \<open>Completion of the tasks\<close>

definition complete_spawn_player_task :: "nat \<Rightarrow> 'a world_scheme \<Rightarrow> 'a world_scheme option" where
  "complete_spawn_player_task now s =
     (let (t, r) = wp_on_event_complete (\<lambda>ps w. Option.bind w (spawn_player ps)) now (w_spawn_player_task s) (Some s)
      in map_option (\<lambda>s. s\<lparr>w_spawn_player_task := t\<rparr>) r)"

definition complete_disconnect_player_task :: "nat \<Rightarrow> 'a world_scheme \<Rightarrow> 'a world_scheme option" where
  "complete_disconnect_player_task now s =
     (let (t, r) = wp_on_event_complete (\<lambda>ps w. Option.bind w (disconnect_player ps)) now
                     (w_disconnect_player_task s) (Some s)
      in map_option (\<lambda>s. s\<lparr>w_disconnect_player_task := t\<rparr>) r)"

definition complete_sync_block_task :: "'z zlib \<Rightarrow> nat \<Rightarrow> 'a world_scheme \<Rightarrow> 'a world_scheme option" where
  "complete_sync_block_task z now s =
     (let (t, r) = bs_on_event_complete (\<lambda>ps h w. Option.bind w (sync_block z ps h)) now (w_sync_block_task s) (Some s)
      in map_option (\<lambda>s. s\<lparr>w_sync_block_task := t\<rparr>) r)"

definition complete_sync_position_task :: "nat \<Rightarrow> 'a world_scheme \<Rightarrow> 'a world_scheme option" where
  "complete_sync_position_task now s =
     (let (t, r) = simple_on_event_complete (\<lambda>w. Option.bind w sync_player_position) now (w_sync_position_task s) (Some s)
      in map_option (\<lambda>s. s\<lparr>w_sync_position_task := t\<rparr>) r)"

definition complete_common_chat_task :: "nat \<Rightarrow> 'a world_scheme \<Rightarrow> 'a world_scheme option" where
  "complete_common_chat_task now s =
     (let (t, r) = cc_on_event_complete (\<lambda>d w. Option.bind w (common_chat_transfer d)) now (w_common_chat_task s) (Some s)
      in map_option (\<lambda>s. s\<lparr>w_common_chat_task := t\<rparr>) r)"

subsection \<open>The tick\<close>

record tcp_server_config =
  cfg_server_name :: bytes
  cfg_motd :: bytes

text \<open>\<open>Connection::on_handshake_success\<close>, for the player at the address.\<close>

definition on_handshake_success ::
    "tcp_server_config \<Rightarrow> nat \<Rightarrow> player \<Rightarrow> 'a net_state_scheme \<Rightarrow> 'a net_state_scheme" where
  "on_handshake_success cfg i p s =
     (let user_type = (if pl_type p = player_type_value PTY_admin then 64 else 0);
          s = snd (on_io i (send_packet (\<lambda>push. handshake_serialize push
                (handshake_reply (cfg_server_name cfg) (cfg_motd cfg) user_type))) s);
          s = snd (on_io i (send_packet (\<lambda>push. set_player_id_serialize push (set_player_id_make (ucast (game_id p))))) s)
      in snd (on_io i (send_packet level_init_serialize) s))"

definition transit_player_state ::
    "tcp_server_config \<Rightarrow> (bytes \<times> cpe_info) list \<Rightarrow> (nat \<Rightarrow> 'a world_scheme \<Rightarrow> 'a world_scheme) \<Rightarrow> nat \<Rightarrow>
      nat \<Rightarrow> nat \<Rightarrow> 'a world_scheme \<Rightarrow> 'a world_scheme" where
  "transit_player_state cfg cpe_order on_disc now i a s =
     (case ns_heap s a of
        None \<Rightarrow> s
      | Some p \<Rightarrow>
          (case ps_cur p of
             S_ex_handshaked \<Rightarrow>
               (let (ok, s) = on_io i (send_packet ext_info_serialize) s
                in if \<not> ok then s
                   else let (ok, s) = on_io i (send_packet (\<lambda>push. ext_entry_serialize push cpe_order)) s
                        in if ok then upd_player a (prepare_state_transition S_extension_syncing S_extension_synced) s
                           else s)
           | S_handshaked \<Rightarrow>
               (let s = on_handshake_success cfg i p s;
                    s = upd_player a (prepare_state_transition S_level_initializing S_level_initialized) s
                in s\<lparr>w_sync_block_task := bs_push_player a (w_sync_block_task s)\<rparr>)
           | S_extension_synced \<Rightarrow>
               (let s = on_handshake_success cfg i p s;
                    s = upd_player a (prepare_state_transition S_level_initializing S_level_initialized) s
                in s\<lparr>w_sync_block_task := bs_push_player a (w_sync_block_task s)\<rparr>)
           | S_level_initialized \<Rightarrow>
               (let md = w_metadata s;
                    s = upd_player a (set_spawn_coordinate (md_spawn_x md) (md_spawn_y md) (md_spawn_z md) False) s;
                    s = upd_player a (set_spawn_orientation (md_spawn_yaw md) (md_spawn_pitch md) False) s;
                    s = upd_player a (prepare_state_transition S_spawning S_spawned) s
                in s\<lparr>w_spawn_player_task := wp_push a (w_spawn_player_task s)\<rparr>)
           | S_spawned \<Rightarrow>
               (if pl_last_ping p + of_nat ping_interval < of_nat now then
                  (let s = snd (on_io i send_ping s) in upd_player a (update_ping_time (of_nat now)) s)
                else s)
           | S_disconnecting \<Rightarrow> s\<lparr>w_disconnect_player_task := wp_push a (w_disconnect_player_task s)\<rparr>
           | S_disconnected \<Rightarrow> disconnect on_disc now i s
           | _ \<Rightarrow> s))"

text \<open>
  A task that is ready is scheduled: the result names the tasks that were handed to the
  completion port, in the order of \<open>world_tasks\<close>.
\<close>

datatype world_task_id = WT_spawn_player | WT_disconnect_player | WT_sync_block | WT_sync_position | WT_common_chat

definition schedule_world_tasks :: "nat \<Rightarrow> 'a world_scheme \<Rightarrow> world_task_id list \<times> 'a world_scheme" where
  "schedule_world_tasks now s =
     (let (l1, s) = (if wp_ready now (w_spawn_player_task s)
            then ([WT_spawn_player], s\<lparr>w_spawn_player_task := wp_before_scheduling now (w_spawn_player_task s)\<rparr>) else ([], s));
          (l2, s) = (if wp_ready now (w_disconnect_player_task s)
            then ([WT_disconnect_player],
                  s\<lparr>w_disconnect_player_task := wp_before_scheduling now (w_disconnect_player_task s)\<rparr>) else ([], s));
          (l3, s) = (if bs_ready now (w_sync_block_task s)
            then ([WT_sync_block], s\<lparr>w_sync_block_task := bs_before_scheduling now (w_sync_block_task s)\<rparr>) else ([], s));
          (l4, s) = (if task_ready now (w_sync_position_task s)
            then ([WT_sync_position],
                  s\<lparr>w_sync_position_task := task_before_scheduling now (w_sync_position_task s)\<rparr>) else ([], s));
          (l5, s) = (if cc_ready now (w_common_chat_task s)
            then ([WT_common_chat], s\<lparr>w_common_chat_task := cc_before_scheduling now (w_common_chat_task s)\<rparr>) else ([], s))
      in (l1 @ l2 @ l3 @ l4 @ l5, s))"

definition world_tick ::
    "tcp_server_config \<Rightarrow> (bytes \<times> cpe_info) list \<Rightarrow> (nat \<Rightarrow> 'a world_scheme \<Rightarrow> 'a world_scheme) \<Rightarrow> nat \<Rightarrow>
      'a world_scheme \<Rightarrow> world_task_id list \<times> 'a world_scheme" where
  "world_tick cfg cpe_order on_disc now s =
     schedule_world_tasks now (for_each_player (transit_player_state cfg cpe_order on_disc now) s)"

text \<open>\<open>load_filesystem_world\<close>: the files found or created on disk are the arguments.\<close>

definition load_filesystem_world ::
    "nat \<Rightarrow> world_metadata \<Rightarrow> bytes option \<Rightarrow> 'a world_scheme \<Rightarrow> bool \<times> 'a world_scheme" where
  "load_filesystem_world now metadata block_file s =
     (if w_last_save_map_at s \<noteq> 0 then (False, s)
      else let s = s\<lparr>w_metadata := metadata\<rparr>;
               s = (case block_file of Some b \<Rightarrow> s\<lparr>w_block_mapping := b\<rparr> | None \<Rightarrow> s)
           in (True, s\<lparr>w_last_save_map_at := now\<rparr>))"

end
