(* ===== verification/Interval_Task.thy ===== *)
theory Interval_Task
  imports Prelude
begin

section \<open>Interval tasks\<close>

text \<open>
  \<open>util/interval_task.h\<close>. The successive readings of \<open>current_monotonic_tick()\<close> are a function
  \<open>clock\<close> of the number of readings so far, which is threaded. A task's function works on the
  instance \<open>'w\<close> and tells whether it returned or threw.
\<close>

datatype interval_task_tag_id = IT_invalid | IT_clean_connection | IT_clean_player | IT_announce_server | IT_count

record 'w interval_task =
  it_tag :: interval_task_tag_id
  it_period :: nat
  it_expired_at :: nat
  it_func :: "'w \<Rightarrow> bool \<times> 'w"

definition it_schedule ::
    "(nat \<Rightarrow> nat) \<Rightarrow> interval_task_tag_id \<Rightarrow> ('w \<Rightarrow> bool \<times> 'w) \<Rightarrow> nat \<Rightarrow>
      'w interval_task list \<times> nat \<Rightarrow> 'w interval_task list \<times> nat" where
  "it_schedule clock tag func period s =
     (let (tasks, k) = s
      in (tasks @ [\<lparr>it_tag = tag, it_period = period, it_expired_at = clock k + period, it_func = func\<rparr>], k + 1))"

definition invoke_task ::
    "(nat \<Rightarrow> nat) \<Rightarrow> 'w interval_task \<Rightarrow> 'w \<Rightarrow> nat \<Rightarrow> 'w interval_task \<times> 'w \<times> nat" where
  "invoke_task clock t w k =
     (let (returned, w) = it_func t w
      in if returned then (t\<lparr>it_expired_at := clock k + it_period t\<rparr>, w, k + 1)
         else (t\<lparr>it_expired_at := clock k + it_period t * 4\<rparr>, w, k + 1))"

fun process_tasks ::
    "(nat \<Rightarrow> nat) \<Rightarrow> interval_task_tag_id \<Rightarrow> 'w interval_task list \<Rightarrow> 'w \<Rightarrow> nat \<Rightarrow>
      'w interval_task list \<times> 'w \<times> nat" where
  "process_tasks clock tag [] w k = ([], w, k)"
| "process_tasks clock tag (t # ts) w k =
     (if tag \<noteq> IT_invalid \<and> it_tag t \<noteq> tag then
        (let (ts', w', k') = process_tasks clock tag ts w k in (t # ts', w', k'))
      else if clock k < it_expired_at t then
        (let (ts', w', k') = process_tasks clock tag ts w (k + 1) in (t # ts', w', k'))
      else
        (let (t', w1, k1) = invoke_task clock t w (k + 1);
             (ts', w', k') = process_tasks clock tag ts w1 k1
         in (t' # ts', w', k')))"

definition selected :: "interval_task_tag_id \<Rightarrow> 'w interval_task \<Rightarrow> bool" where
  "selected tag t \<longleftrightarrow> tag = IT_invalid \<or> it_tag t = tag"

text \<open>
  What one pass does to a task: nothing, or one run after its deadline, after which the next
  deadline is at least a period away.
\<close>

definition pass_effect :: "(nat \<Rightarrow> nat) \<Rightarrow> interval_task_tag_id \<Rightarrow> nat \<Rightarrow> 'w interval_task \<Rightarrow> 'w interval_task \<Rightarrow> bool" where
  "pass_effect clock tag k t t' \<longleftrightarrow>
     (t' = t \<and> (\<not> selected tag t \<or> clock k < it_expired_at t)) \<or>
     (selected tag t \<and> (\<exists>j\<ge>k. it_expired_at t \<le> clock j \<and>
        (t' = t\<lparr>it_expired_at := clock (j + 1) + it_period t\<rparr> \<or>
         t' = t\<lparr>it_expired_at := clock (j + 1) + it_period t * 4\<rparr>)))"

lemma pass_effectE:
  assumes "pass_effect clock tag j t t'"
  obtains "t' = t" "\<not> selected tag t \<or> clock j < it_expired_at t"
    | i where "selected tag t" "j \<le> i" "it_expired_at t \<le> clock i"
      "t' = t\<lparr>it_expired_at := clock (i + 1) + it_period t\<rparr> \<or>
       t' = t\<lparr>it_expired_at := clock (i + 1) + it_period t * 4\<rparr>"
  using assms unfolding pass_effect_def by blast

lemma pass_effect_skip:
  "\<not> selected tag t \<or> clock j < it_expired_at t \<Longrightarrow> mono clock \<Longrightarrow> k \<le> j \<Longrightarrow> pass_effect clock tag k t t"
  unfolding pass_effect_def by (meson monoD order.strict_trans1)

lemma pass_effect_later:
  "pass_effect clock tag j t t' \<Longrightarrow> mono clock \<Longrightarrow> k \<le> j \<Longrightarrow> pass_effect clock tag k t t'"
proof -
  assume e: "pass_effect clock tag j t t'" and m: "mono clock" and kj: "k \<le> j"
  have c: "clock k \<le> clock j" using m kj by (rule monoD)
  from e show ?thesis
  proof (cases rule: pass_effectE)
    case 1
    with c have "\<not> selected tag t \<or> clock k < it_expired_at t" by linarith
    with 1 show ?thesis unfolding pass_effect_def by blast
  next
    case (2 i)
    with kj have "k \<le> i" by simp
    with 2 show ?thesis unfolding pass_effect_def by blast
  qed
qed

lemma process_tasks_effect:
  assumes "mono clock"
  shows "process_tasks clock tag ts w k = (ts', w', k') \<Longrightarrow>
    k \<le> k' \<and> list_all2 (pass_effect clock tag k) ts ts'"
proof (induction ts arbitrary: w k ts' w' k')
  case Nil
  then show ?case by simp
next
  case (Cons t ts)
  have later: "list_all2 (pass_effect clock tag j) us us' \<Longrightarrow> k \<le> j \<Longrightarrow>
      list_all2 (pass_effect clock tag k) us us'" for j us us'
    by (erule list_all2_mono) (rule pass_effect_later [OF _ assms])
  consider (unselected) "\<not> selected tag t" | (early) "selected tag t" "clock k < it_expired_at t"
    | (due) "selected tag t" "it_expired_at t \<le> clock k" by linarith
  then show ?case
  proof cases
    case unselected
    then obtain us where "process_tasks clock tag ts w k = (us, w', k')" "ts' = t # us"
      using Cons.prems by (auto simp: selected_def split: prod.splits)
    with Cons.IH unselected show ?thesis
      by (auto intro: pass_effect_skip [OF _ assms, of _ _ k])
  next
    case early
    then obtain us where "process_tasks clock tag ts w (k + 1) = (us, w', k')" "ts' = t # us"
      using Cons.prems by (auto simp: selected_def split: prod.splits)
    with Cons.IH early later [of "k + 1" ts us] show ?thesis
      by (fastforce intro: pass_effect_skip [OF _ assms, of _ _ k])
  next
    case due
    then obtain t1 w1 us where i: "invoke_task clock t w (k + 1) = (t1, w1, k + 2)"
      and r: "process_tasks clock tag ts w1 (k + 2) = (us, w', k')" "ts' = t1 # us"
      using Cons.prems by (auto simp: selected_def invoke_task_def Let_def split: prod.splits if_splits)
    have "pass_effect clock tag k t t1"
      using due i unfolding pass_effect_def
      by (auto simp: invoke_task_def Let_def split: prod.splits if_splits)
    with Cons.IH [OF r(1)] later [of "k + 2" ts us] r(2) show ?thesis by auto
  qed
qed

text \<open>Between two runs of a task at least its period passes.\<close>

lemma pass_effect_spacing:
  assumes "pass_effect clock tag k t t'" "t' \<noteq> t" "mono clock"
  shows "clock k + it_period t \<le> it_expired_at t' \<and> it_period t' = it_period t \<and> it_tag t' = it_tag t"
  using assms(1)
proof (cases rule: pass_effectE)
  case 1
  with assms(2) show ?thesis by simp
next
  case (2 i)
  from 2(2) have "k \<le> i + 1" by simp
  with assms(3) have c: "clock k \<le> clock (i + 1)" by (rule monoD)
  from 2(4) show ?thesis
  proof
    assume "t' = t\<lparr>it_expired_at := clock (i + 1) + it_period t\<rparr>"
    with c show ?thesis by simp
  next
    assume "t' = t\<lparr>it_expired_at := clock (i + 1) + it_period t * 4\<rparr>"
    with c show ?thesis by simp
  qed
qed

text \<open>
  A pass over the interval tasks keeps every task with its tag and period; it leaves alone
  the tasks that were not selected; and a task that it runs is due again no earlier than a period
  after the pass began.
\<close>

theorem interval_tasks_spaced:
  assumes "mono clock" "process_tasks clock tag ts w k = (ts', w', k')" "i < length ts"
  shows "length ts' = length ts \<and> it_tag (ts' ! i) = it_tag (ts ! i) \<and> it_period (ts' ! i) = it_period (ts ! i) \<and>
    (\<not> selected tag (ts ! i) \<longrightarrow> ts' ! i = ts ! i) \<and>
    (ts' ! i = ts ! i \<or> clock k + it_period (ts ! i) \<le> it_expired_at (ts' ! i))"
proof -
  from process_tasks_effect [OF assms(1,2)] have e: "list_all2 (pass_effect clock tag k) ts ts'" by simp
  then have p: "pass_effect clock tag k (ts ! i) (ts' ! i)" using assms(3) by (rule list_all2_nthD)
  then have "\<not> selected tag (ts ! i) \<longrightarrow> ts' ! i = ts ! i" by (auto simp: pass_effect_def)
  with pass_effect_spacing [OF p _ assms(1)] list_all2_lengthD [OF e] show ?thesis by fastforce
qed

theorem interval_tasks_spaced_witness:
  "\<exists>ts' w' k'. process_tasks id IT_invalid
      [\<lparr>it_tag = IT_clean_connection, it_period = 5, it_expired_at = 3, it_func = \<lambda>w. (True, w + 1 :: nat)\<rparr>] 0 7 = (ts', w', k') \<and>
    w' = 1 \<and> 12 \<le> it_expired_at (ts' ! 0)"
  using interval_tasks_spaced [of id IT_invalid
      "[\<lparr>it_tag = IT_clean_connection, it_period = 5, it_expired_at = 3, it_func = \<lambda>w. (True, w + 1 :: nat)\<rparr>]" 0 7 _ _ _ 0]
  by (auto simp: mono_def invoke_task_def)

end
