(* ===== verification/Tcp_Server.thy ===== *)
theory Tcp_Server
  imports Packet_Handler Interval_Task
begin

section \<open>The TCP server\<close>

text \<open>
  \<open>net/tcp_server.h\<close>/\<open>.cpp\<close> on \<open>net/server_core.h\<close>: the life of the listening socket and the
  acceptance of clients. Before a client is looked at, the task that cleans the connection table
  is given a chance to run. The task works on the reading of the clock and the state of the
  connections. Whether the system accepts the request for the next client is an argument.
\<close>

datatype server_core_state = SC_uninitialized | SC_initialized | SC_running | SC_stop

record 's tcp_server =
  ts_state :: server_core_state
  ts_last_error :: result_code
  ts_env_task :: "(nat \<times> 's) interval_task list"

definition is_stopped :: "'s tcp_server \<Rightarrow> bool" where
  "is_stopped ts \<longleftrightarrow> ts_state ts = SC_stop"

text \<open>The task's function: \<open>ConnectionEnvironment::cleanup_expired_connection\<close>.\<close>

definition cleanup_task ::
    "(nat \<Rightarrow> 'a net_state_scheme \<Rightarrow> 'a net_state_scheme) \<Rightarrow> nat \<times> 'a net_state_scheme \<Rightarrow> bool \<times> nat \<times> 'a net_state_scheme" where
  "cleanup_task on_disc w = (case w of (now, s) \<Rightarrow> (True, now, cleanup_expired_connection on_disc now s))"

definition tcp_server_new ::
    "(nat \<Rightarrow> nat) \<Rightarrow> nat \<Rightarrow> (nat \<Rightarrow> 'a net_state_scheme \<Rightarrow> 'a net_state_scheme) \<Rightarrow> 'a net_state_scheme tcp_server \<times> nat" where
  "tcp_server_new clock k on_disc =
     (let (tasks, k) = it_schedule clock IT_clean_connection (cleanup_task on_disc) 2000 ([], k)
      in (\<lparr>ts_state = SC_initialized, ts_last_error = ResultCode ec_success, ts_env_task = tasks\<rparr>, k))"

definition start_accept :: "bool \<Rightarrow> 's tcp_server \<Rightarrow> 's tcp_server" where
  "start_accept posted ts =
     (let ts = ts\<lparr>ts_state := SC_running\<rparr> in if \<not> posted then ts\<lparr>ts_state := SC_stop\<rparr> else ts)"

definition on_error :: "'s tcp_server \<Rightarrow> 's tcp_server" where
  "on_error ts = ts\<lparr>ts_state := SC_stop\<rparr>"

text \<open>\<open>on_complete(IoAcceptEvent*)\<close>: the next client is asked for.\<close>

definition accept_on_complete :: "bool \<Rightarrow> 's tcp_server \<Rightarrow> 's tcp_server" where
  "accept_on_complete posted ts = start_accept posted ts"

definition accept_handle_io_event ::
    "(nat \<Rightarrow> nat) \<Rightarrow> nat \<Rightarrow> u32 \<Rightarrow> nat \<Rightarrow> 'a net_state_scheme tcp_server \<Rightarrow> 'a net_state_scheme \<Rightarrow>
      'a net_state_scheme tcp_server \<times> 'a net_state_scheme" where
  "accept_handle_io_event clock k tick32 now ts s =
     (let (tasks, (_, s), _) = process_tasks clock IT_clean_connection (ts_env_task ts) (now, s) k;
          ts = ts\<lparr>ts_env_task := tasks\<rparr>
      in if size_of_max_connections (ns_env s) \<le> size_of_connections (ns_env s)
         then (ts\<lparr>ts_last_error := ResultCode ec_client_connection_limit\<rparr>, s)
         else (let (_, s) = new_connection tick32 now s
               in (ts\<lparr>ts_last_error := ResultCode ec_success\<rparr>, s)))"

definition accept_on_event_complete ::
    "(nat \<Rightarrow> nat) \<Rightarrow> nat \<Rightarrow> u32 \<Rightarrow> nat \<Rightarrow> bool \<Rightarrow> bool \<Rightarrow> 'a net_state_scheme tcp_server \<Rightarrow>
      'a net_state_scheme \<Rightarrow> 'a net_state_scheme tcp_server \<times> 'a net_state_scheme" where
  "accept_on_event_complete clock k tick32 now failed posted ts s =
     (let (ts, s) = (if failed then (ts, s) else accept_handle_io_event clock k tick32 now ts s)
      in (accept_on_complete posted ts, s))"

subsection \<open>Facts\<close>

lemma process_tasks_invariant:
  assumes "\<And>t w. t \<in> set ts \<Longrightarrow> P w \<Longrightarrow> P (snd (it_func t w))" "P w"
    and "process_tasks clock tag ts w k = (ts', w', k')"
  shows "P w' \<and> map it_func ts' = map it_func ts"
  using assms
proof (induction ts arbitrary: w k ts' w' k')
  case (Cons t ts)
  have IH: "P w1 \<Longrightarrow> process_tasks clock tag ts w1 k1 = (us, w2, k2) \<Longrightarrow> P w2 \<and> map it_func us = map it_func ts"
    for w1 k1 us w2 k2
    using Cons.IH [of w1 k1 us w2 k2] Cons.prems(1) by simp
  obtain t' w1 k1 where i: "invoke_task clock t w (k + 1) = (t', w1, k1)" by (metis prod_cases3)
  then have t: "it_func t' = it_func t" "w1 = snd (it_func t w)"
    by (auto simp: invoke_task_def Let_def split: prod.splits if_splits)
  then have "P w1" using Cons.prems(1) [of t w] Cons.prems(2) by simp
  then show ?case
    using Cons.prems(2,3) IH t i by (auto simp: Let_def split: if_splits prod.splits)
qed simp

text \<open>The tasks a server is made with and keeps.\<close>

definition tcp_wf :: "(nat \<Rightarrow> 'a net_state_scheme \<Rightarrow> 'a net_state_scheme) \<Rightarrow> 'a net_state_scheme tcp_server \<Rightarrow> bool" where
  "tcp_wf on_disc ts \<longleftrightarrow> (\<forall>t \<in> set (ts_env_task ts). it_func t = cleanup_task on_disc)"

lemma tcp_server_new_wf: "tcp_wf on_disc (fst (tcp_server_new clock k on_disc))"
  by (simp add: tcp_wf_def tcp_server_new_def it_schedule_def)

lemma net_wf_connections: "net_wf s \<Longrightarrow> size_of_connections (ns_env s) = card (env_used (ns_env s))"
  using net_wfD(1) [of s] by (simp add: env_wf_def env_used_def size_of_connections_def length_filter_conv_card)

context packet_handler
begin

text \<open>
  Accepting a client keeps the invariant and never goes over the limit; when there is room after
  the clean-up, the client has a slot of its own, and when there is none, no connection is made.
\<close>

lemma accept_effect:
  assumes wf: "net_wf s" and ts: "tcp_wf on_disc ts"
    and ev: "accept_handle_io_event clock k tick32 now ts s = (ts', s')"
  shows "\<exists>s1. net_wf s1 \<and> net_wf s' \<and> tcp_wf on_disc ts' \<and>
    (if size_of_connections (ns_env s1) < size_of_max_connections (ns_env s1)
     then ts_last_error ts' = ResultCode ec_success \<and>
       (\<exists>i. i \<notin> env_used (ns_env s1) \<and> env_used (ns_env s') = insert i (env_used (ns_env s1)) \<and>
          (\<exists>key. conn_of i s' = Some (connection_new key now)))
     else ts_last_error ts' = ResultCode ec_client_connection_limit \<and> s' = s1)"
proof -
  obtain tasks now' s1 k' where p: "process_tasks clock IT_clean_connection (ts_env_task ts) (now, s) k = (tasks, (now', s1), k')"
    by (metis prod_cases3 prod.exhaust)
  have "net_wf (snd (now', s1)) \<and> map it_func tasks = map it_func (ts_env_task ts)"
    by (rule process_tasks_invariant [OF _ _ p])
      (use wf ts in \<open>auto simp: tcp_wf_def cleanup_task_def cleanup_wf\<close>)
  then have w1: "net_wf s1" and m: "map it_func tasks = map it_func (ts_env_task ts)" by simp_all
  have "set (map it_func tasks) \<subseteq> {cleanup_task on_disc}"
    unfolding m using ts by (auto simp: tcp_wf_def)
  then have tw: "tcp_wf on_disc (ts\<lparr>ts_env_task := tasks, ts_last_error := r\<rparr>)" for r
    by (auto simp: tcp_wf_def)
  show ?thesis
  proof (cases "size_of_connections (ns_env s1) < size_of_max_connections (ns_env s1)")
    case True
    obtain key s2 where n: "new_connection tick32 now s1 = (key, s2)" by fastforce
    have room: "env_num_of_connections (ns_env s1) < env_max_connections (ns_env s1)"
      using True by (simp add: size_of_connections_def size_of_max_connections_def)
    obtain env where e: "env_new_connection tick32 now (ns_env s1) = (key, env)" "s2 = s1\<lparr>ns_env := env\<rparr>"
      using n by (auto simp: new_connection_def split: prod.splits)
    have "key_slot key \<notin> env_used (ns_env s1)"
      using env_new_connection_effect(2) [OF net_wfD(1) [OF w1] room e(1)] .
    moreover have "s' = s2" "ts' = ts\<lparr>ts_env_task := tasks, ts_last_error := ResultCode ec_success\<rparr>"
      using ev p n True by (simp_all add: accept_handle_io_event_def)
    ultimately show ?thesis
      using w1 tw net_wf_new_connection [OF w1 room n] True by (intro exI [of _ s1]) auto
  next
    case False
    then have "s' = s1" "ts' = ts\<lparr>ts_env_task := tasks, ts_last_error := ResultCode ec_client_connection_limit\<rparr>"
      using ev p by (simp_all add: accept_handle_io_event_def)
    then show ?thesis using w1 tw False by (intro exI [of _ s1]) auto
  qed
qed

lemma accept_event_wf:
  assumes "net_wf s" "tcp_wf on_disc ts"
    and "accept_on_event_complete clock k tick32 now failed posted ts s = (ts', s')"
  shows "net_wf s' \<and> tcp_wf on_disc ts' \<and> (is_stopped ts' \<longleftrightarrow> \<not> posted)"
proof -
  obtain ts1 s1 where e: "accept_handle_io_event clock k tick32 now ts s = (ts1, s1)" by fastforce
  from accept_effect [OF assms(1,2) e] have "net_wf s1 \<and> tcp_wf on_disc ts1" by blast
  with assms e show ?thesis
    by (auto simp: accept_on_event_complete_def accept_on_complete_def start_accept_def is_stopped_def tcp_wf_def Let_def
        split: if_splits)
qed

end

lemma stub_accept_event_wf:
  assumes "net_wf s" "tcp_wf stub_on_disconnect ts"
    and "accept_on_event_complete clock k tick32 now failed posted ts s = (ts', s')"
  shows "net_wf s' \<and> tcp_wf stub_on_disconnect ts' \<and> (is_stopped ts' \<longleftrightarrow> \<not> posted)"
  by (rule stub.accept_event_wf [OF assms])

text \<open>No more connections than the limit, ever: the number of connections is that of the used slots.\<close>

lemma net_wf_limit: "net_wf s \<Longrightarrow> size_of_connections (ns_env s) \<le> size_of_max_connections (ns_env s)"
  using net_wfD(1) [of s] length_filter_le [of ce_used "env_table (ns_env s)"]
  by (simp add: env_wf_def size_of_connections_def size_of_max_connections_def)

end
