(* ===== verification/Message.thy ===== *)
theory Message
  imports Prelude Ids Connection_Key
begin

section \<open>Messages between the servers\<close>

text \<open>
  \<open>net/udp_message.h\<close>/\<open>.cpp\<close>: a datagram buffer whose first byte is the message identifier. The
  bodies are protobuf messages (\<open>proto/protocol.proto\<close>), one constructor each; their encoding is
  outside the repository and is a pair of parameters \<open>enc\<close>, \<open>dec\<close>. What the code relies on is
  \<open>decodes\<close>: decoding an encoded message as a message of its type gives the message.
\<close>

record ip_address =
  ip_ip :: bytes
  ip_port :: i32

definition ip_address_empty :: ip_address where
  "ip_address_empty = \<lparr>ip_ip = [], ip_port = 0\<rparr>"

datatype proto_message =
    FetchConfigRequest nat
  | FetchConfigResponse bytes
  | FetchServerRequest nat
  | FetchServerResponse nat ip_address
  | ServerAnnouncement nat ip_address
  | PlayerLogoutRequest bytes
  | PacketHandleRequest u64 bytes
  | PacketHandshakeResponse u64 u64 u32 u32 bytes
  | ChatCommandRequest bytes bytes

text \<open>A decoder is asked for a message type, here named by the constructor's number.\<close>

fun proto_type :: "proto_message \<Rightarrow> nat" where
  "proto_type (FetchConfigRequest t) = 0"
| "proto_type (FetchConfigResponse c) = 1"
| "proto_type (FetchServerRequest t) = 2"
| "proto_type (FetchServerResponse t a) = 3"
| "proto_type (ServerAnnouncement t a) = 4"
| "proto_type (PlayerLogoutRequest u) = 5"
| "proto_type (PacketHandleRequest k d) = 6"
| "proto_type (PacketHandshakeResponse k p e t u) = 7"
| "proto_type (ChatCommandRequest s m) = 8"

definition decodes :: "(proto_message \<Rightarrow> bytes) \<Rightarrow> (nat \<Rightarrow> bytes \<Rightarrow> proto_message option) \<Rightarrow> proto_message \<Rightarrow> bool" where
  "decodes enc dec m \<longleftrightarrow> dec (proto_type m) (enc m) = Some m"

subsection \<open>The request\<close>

record message_request =
  mr_size :: nat
  mr_buf :: bytes
  mr_requester :: nat
  mr_req_address :: ip_address
  mr_reply_address :: ip_address

abbreviation size_of_header :: nat where
  "size_of_header \<equiv> 1"

definition mr_capacity :: "message_request \<Rightarrow> nat" where
  "mr_capacity r = length (mr_buf r)"

definition mr_message_capacity :: "message_request \<Rightarrow> nat" where
  "mr_message_capacity r = mr_capacity r - size_of_header"

definition mr_reset :: "u8 \<Rightarrow> message_request \<Rightarrow> message_request" where
  "mr_reset msg_id r = r\<lparr>mr_size := size_of_header, mr_buf := (mr_buf r)[0 := msg_id]\<rparr>"

text \<open>The buffer of a new request is not initialised beyond the identifier.\<close>

definition message_request_new :: "bytes \<Rightarrow> u8 \<Rightarrow> message_request" where
  "message_request_new mem0 msg_id =
     mr_reset msg_id \<lparr>mr_size = 0, mr_buf = mem0, mr_requester = 0,
       mr_req_address = ip_address_empty, mr_reply_address = ip_address_empty\<rparr>"

definition mr_message_id :: "message_request \<Rightarrow> u8" where
  "mr_message_id r = mr_buf r ! 0"

definition mr_set_message_id :: "u8 \<Rightarrow> message_request \<Rightarrow> message_request" where
  "mr_set_message_id i r = r\<lparr>mr_buf := (mr_buf r)[0 := i]\<rparr>"

definition mr_set_size :: "nat \<Rightarrow> message_request \<Rightarrow> message_request" where
  "mr_set_size n r = r\<lparr>mr_size := min n (mr_capacity r)\<rparr>"

definition mr_set_message_size :: "nat \<Rightarrow> message_request \<Rightarrow> message_request" where
  "mr_set_message_size n r = r\<lparr>mr_size := min (n + size_of_header) (mr_capacity r)\<rparr>"

definition mr_message_size :: "message_request \<Rightarrow> nat" where
  "mr_message_size r = mr_size r - size_of_header"

definition mr_set_requester :: "nat \<Rightarrow> message_request \<Rightarrow> message_request" where
  "mr_set_requester s r = r\<lparr>mr_requester := s\<rparr>"

definition mr_set_request_address :: "ip_address \<Rightarrow> message_request \<Rightarrow> message_request" where
  "mr_set_request_address a r = r\<lparr>mr_req_address := a\<rparr>"

text \<open>
  \<open>SerializeToArray\<close> writes nothing when the message does not fit; its result is not looked at,
  and the size is set all the same.
\<close>

definition mr_set_message :: "(proto_message \<Rightarrow> bytes) \<Rightarrow> proto_message \<Rightarrow> message_request \<Rightarrow> message_request" where
  "mr_set_message enc m r =
     (let bs = enc m;
          r = (if length bs \<le> mr_message_capacity r then r\<lparr>mr_buf := blit size_of_header bs (mr_buf r)\<rparr> else r)
      in mr_set_message_size (length bs) r)"

definition mr_parse_message ::
    "(nat \<Rightarrow> bytes \<Rightarrow> proto_message option) \<Rightarrow> nat \<Rightarrow> message_request \<Rightarrow> proto_message option" where
  "mr_parse_message dec t r = dec t (segment size_of_header (mr_message_size r) (mr_buf r))"

definition mr_make :: "(proto_message \<Rightarrow> bytes) \<Rightarrow> bytes \<Rightarrow> u8 \<Rightarrow> proto_message \<Rightarrow> message_request" where
  "mr_make enc mem0 msg_id m = mr_set_message enc m (message_request_new mem0 msg_id)"

text \<open>The datagram that \<open>flush_send\<close> hands to \<open>sendto\<close>, with the address it goes to.\<close>

definition mr_datagram :: "message_request \<Rightarrow> bytes" where
  "mr_datagram r = segment 0 (mr_size r) (mr_buf r)"

definition mr_flush_send :: "bool \<Rightarrow> message_request \<Rightarrow> ip_address \<times> bytes" where
  "mr_flush_send is_reply r = (if is_reply then mr_reply_address r else mr_req_address r, mr_datagram r)"

definition mr_send_message ::
    "(proto_message \<Rightarrow> bytes) \<Rightarrow> proto_message \<Rightarrow> message_request \<Rightarrow> message_request \<times> ip_address \<times> bytes" where
  "mr_send_message enc m r = (let r = mr_set_message enc m r in (r, mr_flush_send False r))"

definition mr_send_reply ::
    "(proto_message \<Rightarrow> bytes) \<Rightarrow> proto_message \<Rightarrow> message_request \<Rightarrow> message_request \<times> ip_address \<times> bytes" where
  "mr_send_reply enc m r = (let r = mr_set_message enc m r in (r, mr_flush_send True r))"

text \<open>
  \<open>read_message\<close>: a datagram and its sender, or a failure (\<open>None\<close>). A datagram longer than the
  buffer makes \<open>recvfrom\<close> fail, and an empty one is a failure too. What a failing call may leave in the
  buffer or as the address to reply to is not kept: nothing reads them before the next successful
  call, which overwrites as much of the buffer as the size then covers, and the address.
\<close>

definition mr_read_message :: "(ip_address \<times> bytes) option \<Rightarrow> message_request \<Rightarrow> bool \<times> message_request" where
  "mr_read_message net r =
     (case net of
        None \<Rightarrow> (False, r)
      | Some (from, bs) \<Rightarrow>
          if length bs = 0 \<or> mr_capacity r < length bs then (False, r)
          else (True, mr_set_size (length bs) (r\<lparr>mr_buf := blit 0 bs (mr_buf r), mr_reply_address := from\<rparr>)))"

lemmas mr_defs = mr_capacity_def mr_message_capacity_def mr_reset_def message_request_new_def mr_message_id_def
  mr_set_size_def mr_set_message_size_def mr_message_size_def mr_parse_message_def mr_make_def mr_datagram_def
  mr_flush_send_def

lemma mr_parse_set:
  assumes "decodes enc dec m" "length (enc m) < mr_capacity r"
  shows "mr_parse_message dec (proto_type m) (mr_set_message enc m r) = Some m"
    "mr_message_id (mr_set_message enc m r) = mr_message_id r"
proof -
  have fit: "length (enc m) \<le> mr_message_capacity r" using assms(2) by (simp add: mr_defs)
  have "segment 1 (length (enc m)) (blit 1 (enc m) (mr_buf r)) = enc m"
    using assms(2) by (intro segment_blit_same) (simp add: mr_defs)
  then show "mr_parse_message dec (proto_type m) (mr_set_message enc m r) = Some m"
    using assms fit by (simp add: mr_set_message_def mr_defs Let_def decodes_def)
  show "mr_message_id (mr_set_message enc m r) = mr_message_id r"
    using assms(2) fit by (auto simp: mr_set_message_def mr_defs Let_def blit_def nth_append)
qed

lemma mr_read_parse:
  assumes "length bs < mr_capacity q"
  shows "\<exists>q'. mr_read_message (Some (from, x # bs)) q = (True, q') \<and>
    mr_parse_message dec t q' = dec t bs \<and> mr_message_id q' = x \<and> mr_reply_address q' = from"
proof -
  let ?q = "mr_set_size (length (x # bs)) (q\<lparr>mr_buf := blit 0 (x # bs) (mr_buf q), mr_reply_address := from\<rparr>)"
  have "mr_read_message (Some (from, x # bs)) q = (True, ?q)"
    using assms by (simp add: mr_read_message_def)
  moreover have "mr_size ?q = length bs + 1"
    using assms by (simp add: mr_defs)
  then have "mr_parse_message dec t ?q = dec t bs"
    by (simp add: mr_parse_message_def mr_message_size_def) (simp add: mr_defs blit_def segment_def)
  moreover have "mr_message_id ?q = x" "mr_reply_address ?q = from"
    by (simp_all add: mr_defs blit_def)
  ultimately show ?thesis by blast
qed

text \<open>
  A message that is sent and read on the other side is the same message, with its identifier
  and the address it came from, when its encoding fits both buffers.
\<close>

theorem mr_transfer:
  assumes c: "decodes enc dec m" and fits: "length (enc m) < mr_capacity r" "length (enc m) < mr_capacity q"
  shows "\<exists>q'. mr_read_message (Some (from, mr_datagram (mr_set_message enc m r))) q = (True, q') \<and>
    mr_parse_message dec (proto_type m) q' = Some m \<and> mr_message_id q' = mr_message_id r \<and>
    mr_reply_address q' = from"
proof -
  let ?r = "mr_set_message enc m r"
  let ?d = "mr_datagram ?r"
  have fit: "length (enc m) \<le> mr_message_capacity r" using fits(1) by (simp add: mr_defs)
  have b: "mr_buf r \<noteq> []" using fits(1) by (auto simp: mr_defs)
  then obtain x xs where x: "mr_buf r = x # xs" by (cases "mr_buf r") auto
  have d: "?d = mr_message_id r # enc m"
    using fits(1) fit x by (simp add: mr_set_message_def mr_defs Let_def blit_def segment_def min_def)
  show ?thesis
    unfolding d using mr_read_parse [OF fits(2), of "from" "mr_message_id r" dec "proto_type m"] c
    by (auto simp: decodes_def)
qed

theorem mr_transfer_witness:
  "\<exists>q'. mr_read_message (Some (ip_address_empty,
      mr_datagram (mr_set_message (\<lambda>_. [1, 2]) (FetchServerRequest 3) (message_request_new (replicate 9 7) 5))))
      (message_request_new (replicate 8 0) 0) = (True, q') \<and> mr_message_id q' = 5"
  using mr_transfer [of "\<lambda>_. [1, 2]" "\<lambda>_ _. Some (FetchServerRequest 3)" "FetchServerRequest 3"
      "message_request_new (replicate 9 7) 5" "message_request_new (replicate 8 0) 0" ip_address_empty]
  by (auto simp: decodes_def mr_capacity_def message_request_new_def mr_reset_def mr_message_id_def)

end
