(* ===== verification/Communicator.thy ===== *)
theory Communicator
  imports Message
begin

section \<open>The communication between servers\<close>

text \<open>
  \<open>net/server_communicator.h\<close>/\<open>.cpp\<close>: the table of server addresses, the messages every server
  understands, forwarding of packets, and the retransmission of requests. A communicator is its
  table; what it sends is returned: the address and the message with its identifier. An index
  into the table that is out of range (a server type on the wire is any number) is undefined and
  has no result.
\<close>

type_synonym outgoing = "ip_address \<times> message_type_id \<times> proto_message"

record communicator =
  cm_servers :: "ip_address list"

definition communicator_new :: communicator where
  "communicator_new = \<lparr>cm_servers = replicate server_type_total_count ip_address_empty\<rparr>"

definition get_server :: "nat \<Rightarrow> communicator \<Rightarrow> ip_address option" where
  "get_server t c = (if t < length (cm_servers c) then Some (cm_servers c ! t) else None)"

definition register_server :: "nat \<Rightarrow> ip_address \<Rightarrow> communicator \<Rightarrow> communicator option" where
  "register_server t a c =
     (if t < length (cm_servers c) then Some (c\<lparr>cm_servers := (cm_servers c)[t := a]\<rparr>) else None)"

text \<open>\<open>send_to\<close> with a server type of the program: the table has an entry for each.\<close>

definition send_to :: "message_type_id \<Rightarrow> proto_message \<Rightarrow> server_type_id \<Rightarrow> communicator \<Rightarrow> outgoing" where
  "send_to msg_id m t c = (cm_servers c ! server_type_value t, msg_id, m)"

definition announce_server :: "server_type_id \<Rightarrow> ip_address \<Rightarrow> communicator \<Rightarrow> outgoing" where
  "announce_server t a c = send_to MSG_server_announcement (ServerAnnouncement (server_type_value t) a) ST_router c"

definition fetch_server_address_async :: "server_type_id \<Rightarrow> communicator \<Rightarrow> outgoing" where
  "fetch_server_address_async t c = send_to MSG_fetch_server_address (FetchServerRequest (server_type_value t)) ST_router c"

definition forward_packet ::
    "server_type_id \<Rightarrow> message_type_id \<Rightarrow> connection_key \<Rightarrow> bytes \<Rightarrow> communicator \<Rightarrow> outgoing" where
  "forward_packet t msg_id source packet_data c = send_to msg_id (PacketHandleRequest (raw_key source) packet_data) t c"

text \<open>
  The handlers of messages common to all servers. The outer \<open>None\<close> is undefined behaviour, the
  inner one \<open>std::nullopt\<close>: no common handler for the identifier.
\<close>

definition handle_server_announcement ::
    "(nat \<Rightarrow> bytes \<Rightarrow> proto_message option) \<Rightarrow> message_request \<Rightarrow> communicator \<Rightarrow> (bool \<times> communicator) option" where
  "handle_server_announcement dec r c =
     (case mr_parse_message dec 4 r of
        Some (ServerAnnouncement t a) \<Rightarrow> map_option (\<lambda>c. (True, c)) (register_server t a c)
      | _ \<Rightarrow> Some (False, c))"

definition handle_common_message ::
    "(nat \<Rightarrow> bytes \<Rightarrow> proto_message option) \<Rightarrow> message_request \<Rightarrow> communicator \<Rightarrow> (bool option \<times> communicator) option" where
  "handle_common_message dec r c =
     (if mr_message_id r = message_id_value MSG_server_announcement
      then map_option (\<lambda>(b, c). (Some b, c)) (handle_server_announcement dec r c)
      else Some (None, c))"

subsection \<open>Requests with retransmission\<close>

text \<open>
  \<open>send_message_reliably\<close>: \<open>sent\<close> tells whether the sending of attempt \<open>k\<close> succeeds and \<open>reply\<close>
  what is received for it (\<open>None\<close> when the timeout expires or the receive fails). The loop runs
  for \<open>i = retry_count, ..., 0\<close>. The response starts as a copy of the request.
\<close>

fun reliable_loop ::
    "(nat \<Rightarrow> bool) \<Rightarrow> (nat \<Rightarrow> (ip_address \<times> bytes) option) \<Rightarrow> nat \<Rightarrow> nat \<Rightarrow> message_request \<Rightarrow>
      bool \<times> message_request option" where
  "reliable_loop sent reply k i response =
     (let (ok, response) = (if sent k then mr_read_message (reply k) response else (False, response))
      in if ok then (True, Some response)
         else (case i of 0 \<Rightarrow> (False, None) | Suc j \<Rightarrow> reliable_loop sent reply (k + 1) j response))"

definition send_message_reliably ::
    "(nat \<Rightarrow> bool) \<Rightarrow> (nat \<Rightarrow> (ip_address \<times> bytes) option) \<Rightarrow> message_request \<Rightarrow> nat \<Rightarrow>
      bool \<times> message_request option" where
  "send_message_reliably sent reply request retry_count = reliable_loop sent reply 0 retry_count request"

declare reliable_loop.simps [simp del]

text \<open>
  The time that the loop takes, in milliseconds: \<open>took k\<close> is what attempt \<open>k\<close> takes itself, and an attempt
  that failed before the retransmission period was over is followed by a sleep of the period, except the last.
\<close>

fun reliable_time ::
    "(nat \<Rightarrow> bool) \<Rightarrow> (nat \<Rightarrow> (ip_address \<times> bytes) option) \<Rightarrow> (nat \<Rightarrow> nat) \<Rightarrow> nat \<Rightarrow> nat \<Rightarrow> message_request \<Rightarrow> nat" where
  "reliable_time sent reply took k i response =
     (let (ok, response) = (if sent k then mr_read_message (reply k) response else (False, response))
      in if ok then took k
         else (case i of
             0 \<Rightarrow> took k
           | Suc j \<Rightarrow> took k + (if took k < udp_message_retransmission_period then udp_message_retransmission_period else 0) +
               reliable_time sent reply took (k + 1) j response))"

declare reliable_time.simps [simp del]

text \<open>
  \<open>fetch_server_address\<close>: whether an attempt was answered is not looked at. After the last retry the response
  is a default one with an empty body, which is parsed like any other. Nothing checks that a response is for
  the server asked.
\<close>

definition fetch_server_address ::
    "(nat \<Rightarrow> bytes \<Rightarrow> proto_message option) \<Rightarrow> server_type_id \<Rightarrow> message_request option \<Rightarrow> communicator \<Rightarrow> bool \<times> communicator" where
  "fetch_server_address dec t response c =
     (case (case response of None \<Rightarrow> dec 3 [] | Some r \<Rightarrow> mr_parse_message dec 3 r) of
        Some (FetchServerResponse t' a) \<Rightarrow> (True, c\<lparr>cm_servers := (cm_servers c)[server_type_value t := a]\<rparr>)
      | _ \<Rightarrow> (False, c))"

subsection \<open>The UDP server\<close>

text \<open>
  \<open>UdpServer::handle_message\<close> (\<open>net/udp_server.cpp\<close>): common handlers first, then the
  application's, on the application's state \<open>'w\<close>.
\<close>

definition udp_handle_message ::
    "(nat \<Rightarrow> bytes \<Rightarrow> proto_message option) \<Rightarrow> ('w \<Rightarrow> communicator) \<Rightarrow> (communicator \<Rightarrow> 'w \<Rightarrow> 'w) \<Rightarrow>
      (message_request \<Rightarrow> 'w \<Rightarrow> (bool \<times> 'w) option) \<Rightarrow> message_request \<Rightarrow> 'w \<Rightarrow> (bool \<times> 'w) option" where
  "udp_handle_message dec get put app r w =
     (case handle_common_message dec r (get w) of
        None \<Rightarrow> None
      | Some (common, c) \<Rightarrow>
          (let w = put c w
           in if common = Some False then Some (False, w)
              else case app r w of
                     None \<Rightarrow> None
                   | Some (b, w) \<Rightarrow> Some (b \<or> common = Some True, w)))"

text \<open>The event loop: one message at a time until the server is terminated.\<close>

fun run_event_loop ::
    "(message_request \<Rightarrow> 'w \<Rightarrow> (bool \<times> 'w) option) \<Rightarrow> (ip_address \<times> bytes) option list \<Rightarrow> message_request \<Rightarrow> 'w \<Rightarrow> 'w option" where
  "run_event_loop handle [] r w = Some w"
| "run_event_loop handle (net # nets) r w =
     (let (ok, r) = mr_read_message net r
      in if \<not> ok then run_event_loop handle nets r w
         else case handle r w of None \<Rightarrow> None | Some (_, w) \<Rightarrow> run_event_loop handle nets r w)"

subsection \<open>Facts\<close>

definition comm_wf :: "communicator \<Rightarrow> bool" where
  "comm_wf c \<longleftrightarrow> length (cm_servers c) = server_type_total_count"

lemma communicator_new_wf [simp]: "comm_wf communicator_new"
  by (simp add: comm_wf_def communicator_new_def)

lemma register_then_get:
  assumes "register_server t a c = Some c'"
  shows "get_server u c' = (if u = t then Some a else get_server u c)"
  using assms by (auto simp: register_server_def get_server_def split: if_splits)

text \<open>
  The reliable request succeeds exactly when one of its \<open>retry_count + 1\<close> attempts is sent and
  answered, and then returns the answer to the first such attempt.
\<close>

definition answered :: "nat \<Rightarrow> (nat \<Rightarrow> bool) \<Rightarrow> (nat \<Rightarrow> (ip_address \<times> bytes) option) \<Rightarrow> nat \<Rightarrow> bool" where
  "answered capacity sent reply k \<longleftrightarrow>
     sent k \<and> (\<exists>from bs. reply k = Some (from, bs) \<and> bs \<noteq> [] \<and> length bs \<le> capacity)"

lemma mr_read_message_ok:
  "fst (mr_read_message net r) \<longleftrightarrow>
     (\<exists>from bs. net = Some (from, bs) \<and> bs \<noteq> [] \<and> length bs \<le> mr_capacity r)"
  by (auto simp: mr_read_message_def split: option.splits prod.splits)

lemma mr_read_message_fail: "mr_read_message net r = (False, r') \<Longrightarrow> r' = r"
  by (auto simp: mr_read_message_def split: option.splits if_splits)

lemma reliable_loop_unfold:
  "reliable_loop sent reply k i response =
     (if answered (mr_capacity response) sent reply k then (True, Some (snd (mr_read_message (reply k) response)))
      else case i of 0 \<Rightarrow> (False, None) | Suc j \<Rightarrow> reliable_loop sent reply (k + 1) j response)"
proof -
  obtain ok r where r: "mr_read_message (reply k) response = (ok, r)" by fastforce
  have "ok \<longleftrightarrow> (\<exists>from bs. reply k = Some (from, bs) \<and> bs \<noteq> [] \<and> length bs \<le> mr_capacity response)"
    using mr_read_message_ok [of "reply k" response] r by simp
  then have a: "answered (mr_capacity response) sent reply k \<longleftrightarrow> sent k \<and> ok"
    by (simp add: answered_def)
  show ?thesis
  proof (cases ok)
    case True
    then show ?thesis
      by (subst reliable_loop.simps) (simp add: r a)
  next
    case False
    then have "r = response" using r mr_read_message_fail by simp
    with False show ?thesis
      by (subst reliable_loop.simps) (simp add: r a)
  qed
qed

lemma reliable_loop_find:
  "reliable_loop sent reply k i response =
     (case find (answered (mr_capacity response) sent reply) [k..<Suc (k + i)] of
        None \<Rightarrow> (False, None)
      | Some j \<Rightarrow> (True, Some (snd (mr_read_message (reply j) response))))"
proof (induction i arbitrary: k)
  case 0
  show ?case by (subst reliable_loop_unfold) simp
next
  case (Suc i)
  have "[k..<Suc (k + Suc i)] = k # [Suc k..<Suc (Suc k + i)]" by (simp add: upt_rec)
  then show ?case using Suc.IH [of "Suc k"] by (subst reliable_loop_unfold) simp
qed

text \<open>Before an attempt is answered, each of those before it has cost at least the retransmission period.\<close>

lemma reliable_time_unfold:
  "reliable_time sent reply took k i response =
     (if answered (mr_capacity response) sent reply k then took k
      else case i of
          0 \<Rightarrow> took k
        | Suc j \<Rightarrow> took k + (if took k < udp_message_retransmission_period then udp_message_retransmission_period else 0) +
            reliable_time sent reply took (k + 1) j response)"
proof -
  obtain ok r where r: "mr_read_message (reply k) response = (ok, r)" by fastforce
  have "ok \<longleftrightarrow> (\<exists>from bs. reply k = Some (from, bs) \<and> bs \<noteq> [] \<and> length bs \<le> mr_capacity response)"
    using mr_read_message_ok [of "reply k" response] r by simp
  then have a: "answered (mr_capacity response) sent reply k \<longleftrightarrow> sent k \<and> ok"
    by (simp add: answered_def)
  have "r = response" if "\<not> ok" using r mr_read_message_fail that by simp
  then show ?thesis
    by (subst reliable_time.simps) (cases ok; simp add: r a split: nat.split)
qed

lemma reliable_time_ge:
  assumes "n \<le> i" "\<forall>j. k \<le> j \<and> j < k + n \<longrightarrow> \<not> answered (mr_capacity response) sent reply j"
  shows "n * udp_message_retransmission_period \<le> reliable_time sent reply took k i response"
  using assms
proof (induction n arbitrary: k i)
  case (Suc n)
  then obtain j where i: "i = Suc j" by (cases i) auto
  have "n * udp_message_retransmission_period \<le> reliable_time sent reply took (k + 1) j response"
    using Suc.prems by (intro Suc.IH) (auto simp: i)
  moreover have "\<not> answered (mr_capacity response) sent reply k" using Suc.prems(2) by simp
  ultimately show ?case by (subst reliable_time_unfold) (simp add: i)
qed simp

text \<open>
  C37: A reliable request returns the answer to the first of its \<open>retry_count + 1\<close> attempts that was
  sent and answered with a datagram that fits, and fails when there is none.
\<close>

theorem reliable_request_correct:
  "send_message_reliably sent reply request retry_count =
     (case find (answered (mr_capacity request) sent reply) [0..<retry_count + 1] of
        None \<Rightarrow> (False, None)
      | Some k \<Rightarrow> (True, Some (snd (mr_read_message (reply k) request))))"
  using reliable_loop_find [of sent reply 0 retry_count request] by (simp add: send_message_reliably_def)

end
