(* ===== verification/Login_Server.thy ===== *)
theory Login_Server
  imports Communicator Packets
begin

section \<open>The login server\<close>

text \<open>
  \<open>mmocraft-login/net/login_server.h\<close>/\<open>.cpp\<close>. The documents of
  \<open>database/couchbase_definitions.h\<close> live in a database outside the repository: its operations
  are the record \<open>login_store\<close> over any database \<open>'db\<close>. A \<open>get\<close> finds a document, finds none,
  fails, or finds a document that does not convert (\<open>content_as\<close> throws, which ends the
  coroutine). The coroutine runs with its awaits answered in order.
\<close>

datatype 'a db_get = Db_found 'a | Db_not_found | Db_error | Db_malformed

record player_login =
  lg_username :: bytes
  lg_password :: bytes
  lg_identity :: bytes
  lg_player_type :: u32

record 'db login_store =
  ls_get_login :: "bytes \<Rightarrow> 'db \<Rightarrow> player_login db_get"
  ls_get_session :: "bytes \<Rightarrow> 'db \<Rightarrow> u64 db_get"
  ls_upsert_session :: "bytes \<Rightarrow> u64 \<Rightarrow> 'db \<Rightarrow> bool \<times> 'db"
  ls_remove_session :: "bytes \<Rightarrow> 'db \<Rightarrow> bool \<times> 'db"

record 'db login_server =
  ln_comm :: communicator
  ln_db :: 'db
  ln_sent :: "outgoing list"

text \<open>
  \<open>PacketMessage\<close>: nothing looks at whether the message parsed, and the packet is read from the
  bytes it carries: when there are too few of them the read is undefined (\<open>None\<close>).
\<close>

definition packet_message ::
    "(nat \<Rightarrow> bytes \<Rightarrow> proto_message option) \<Rightarrow> (bytes \<Rightarrow> 'p option) \<Rightarrow> message_request \<Rightarrow> (u64 \<times> 'p) option" where
  "packet_message dec parse r =
     (case mr_parse_message dec 6 r of
        Some (PacketHandleRequest key packet_data) \<Rightarrow> map_option (\<lambda>p. (key, p)) (parse packet_data)
      | _ \<Rightarrow> None)"

text \<open>The response that is filled in along the way; it is sent when the coroutine ends.\<close>

record handshake_response =
  hr_connection_key :: u64
  hr_prev_connection_key :: u64
  hr_error_code :: u32
  hr_player_type :: u32
  hr_player_uuid :: bytes

definition response_message :: "handshake_response \<Rightarrow> proto_message" where
  "response_message x = PacketHandshakeResponse (hr_connection_key x) (hr_prev_connection_key x)
     (hr_error_code x) (hr_player_type x) (hr_player_uuid x)"

text \<open>The first block: authentication. The result tells whether the coroutine goes on.\<close>

definition authenticate ::
    "player_login db_get \<Rightarrow> packet_handshake \<Rightarrow> handshake_response \<Rightarrow> bool \<times> handshake_response" where
  "authenticate result packet x =
     (case result of
        Db_not_found \<Rightarrow> (False, x\<lparr>hr_error_code := word_of_int ec_player_not_exist\<rparr>)
      | Db_error \<Rightarrow> (False, x)
      | Db_malformed \<Rightarrow> (False, x)
      | Db_found login \<Rightarrow>
          if lg_password login \<noteq> hs_password packet then (False, x)
          else (True, x\<lparr>hr_error_code := word_of_int ec_success, hr_player_type := lg_player_type login,
                        hr_player_uuid := lg_identity login\<rparr>))"

text \<open>The second block: the session of the user.\<close>

definition update_session ::
    "'db login_store \<Rightarrow> bytes \<Rightarrow> u64 \<Rightarrow> handshake_response \<Rightarrow> 'db \<Rightarrow> handshake_response \<times> 'db" where
  "update_session store username key x db =
     (case ls_get_session store username db of
        Db_error \<Rightarrow> (x, db)
      | Db_malformed \<Rightarrow> (x, db)
      | Db_found prev \<Rightarrow>
          (x\<lparr>hr_prev_connection_key := prev\<rparr>, snd (ls_upsert_session store username key db))
      | Db_not_found \<Rightarrow> (x, snd (ls_upsert_session store username key db)))"

definition handle_handshake_packet ::
    "(nat \<Rightarrow> bytes \<Rightarrow> proto_message option) \<Rightarrow> 'db login_store \<Rightarrow> message_request \<Rightarrow> 'db login_server \<Rightarrow>
      'db login_server option" where
  "handle_handshake_packet dec store r s =
     (case packet_message dec handshake_parse r of
        None \<Rightarrow> None
      | Some (key, packet) \<Rightarrow>
          (let x = \<lparr>hr_connection_key = key, hr_prev_connection_key = 0,
                     hr_error_code = word_of_int ec_player_login_fail, hr_player_type = 0, hr_player_uuid = []\<rparr>;
               (ok, x) = authenticate (ls_get_login store (hs_username packet) (ln_db s)) packet x;
               (x, db) = (if ok then update_session store (hs_username packet) key x (ln_db s) else (x, ln_db s))
           in Some (s\<lparr>ln_db := db,
                      ln_sent := ln_sent s @ [(mr_reply_address r, MSG_packet_handshake, response_message x)]\<rparr>)))"

definition handle_player_logout_message ::
    "(nat \<Rightarrow> bytes \<Rightarrow> proto_message option) \<Rightarrow> 'db login_store \<Rightarrow> message_request \<Rightarrow> 'db login_server \<Rightarrow>
      'db login_server option" where
  "handle_player_logout_message dec store r s =
     (case mr_parse_message dec 5 r of
        Some (PlayerLogoutRequest username) \<Rightarrow>
          Some (s\<lparr>ln_db := snd (ls_remove_session store username (ln_db s))\<rparr>)
      | _ \<Rightarrow> Some s)"

definition login_handle_message ::
    "(nat \<Rightarrow> bytes \<Rightarrow> proto_message option) \<Rightarrow> 'db login_store \<Rightarrow> message_request \<Rightarrow> 'db login_server \<Rightarrow>
      (bool \<times> 'db login_server) option" where
  "login_handle_message dec store r s =
     (if mr_message_id r = message_id_value MSG_packet_handshake
      then map_option (\<lambda>s. (True, s)) (handle_handshake_packet dec store r s)
      else if mr_message_id r = message_id_value MSG_player_logout
      then map_option (\<lambda>s. (True, s)) (handle_player_logout_message dec store r s)
      else Some (False, s))"

definition login_announce_server :: "ip_address \<Rightarrow> 'db login_server \<Rightarrow> 'db login_server" where
  "login_announce_server a s = s\<lparr>ln_sent := ln_sent s @ [announce_server ST_login a (ln_comm s)]\<rparr>"

subsection \<open>The protocol of logins\<close>

text \<open>
  What the server relies on: a session document that was written is read back, writing or
  removing one user's session leaves the others and the login documents alone.
\<close>

definition session_store :: "'db login_store \<Rightarrow> bool" where
  "session_store store \<longleftrightarrow>
     (\<forall>u k db. fst (ls_upsert_session store u k db) \<longrightarrow>
        (\<forall>v. ls_get_session store v (snd (ls_upsert_session store u k db)) =
           (if v = u then Db_found k else ls_get_session store v db)) \<and>
        (\<forall>v. ls_get_login store v (snd (ls_upsert_session store u k db)) = ls_get_login store v db)) \<and>
     (\<forall>u db. fst (ls_remove_session store u db) \<longrightarrow>
        (\<forall>v. ls_get_session store v (snd (ls_remove_session store u db)) =
           (if v = u then Db_not_found else ls_get_session store v db)) \<and>
        (\<forall>v. ls_get_login store v (snd (ls_remove_session store u db)) = ls_get_login store v db))"

text \<open>The response to a handshake on every outcome of the authentication.\<close>

lemma handshake_response:
  assumes "packet_message dec handshake_parse r = Some (key, packet)"
  shows "handle_handshake_packet dec store r s = Some (
    case ls_get_login store (hs_username packet) (ln_db s) of
      Db_found l \<Rightarrow>
        if lg_password l = hs_password packet
        then let (x, db) = update_session store (hs_username packet) key
                   \<lparr>hr_connection_key = key, hr_prev_connection_key = 0, hr_error_code = 0,
                    hr_player_type = lg_player_type l, hr_player_uuid = lg_identity l\<rparr> (ln_db s)
             in s\<lparr>ln_db := db, ln_sent := ln_sent s @ [(mr_reply_address r, MSG_packet_handshake, response_message x)]\<rparr>
        else s\<lparr>ln_sent := ln_sent s @ [(mr_reply_address r, MSG_packet_handshake, PacketHandshakeResponse key 0 3301 0 [])]\<rparr>
    | Db_not_found \<Rightarrow>
        s\<lparr>ln_sent := ln_sent s @ [(mr_reply_address r, MSG_packet_handshake, PacketHandshakeResponse key 0 3302 0 [])]\<rparr>
    | _ \<Rightarrow> s\<lparr>ln_sent := ln_sent s @ [(mr_reply_address r, MSG_packet_handshake, PacketHandshakeResponse key 0 3301 0 [])]\<rparr>)"
  using assms
  by (auto simp: handle_handshake_packet_def authenticate_def response_message_def Let_def
      split: db_get.splits prod.splits)

lemma login_accepted:
  assumes "packet_message dec handshake_parse r = Some (key, packet)"
    and "ls_get_login store (hs_username packet) (ln_db s) = Db_found l"
    and "lg_password l = hs_password packet"
    and "ls_get_session store (hs_username packet) (ln_db s) = (if prev = 0 then Db_not_found else Db_found prev)"
  shows "handle_handshake_packet dec store r s = Some (s\<lparr>
    ln_db := snd (ls_upsert_session store (hs_username packet) key (ln_db s)),
    ln_sent := ln_sent s @ [(mr_reply_address r, MSG_packet_handshake,
      PacketHandshakeResponse key prev 0 (lg_player_type l) (lg_identity l))]\<rparr>)"
  using assms by (simp add: handshake_response update_session_def response_message_def)

text \<open>A database of one user, whose password is the empty string.\<close>

definition sample_store :: "(bytes \<Rightarrow> u64 option) login_store" where
  "sample_store =
     \<lparr>ls_get_login = (\<lambda>u db. Db_found \<lparr>lg_username = u, lg_password = [], lg_identity = [9], lg_player_type = 2\<rparr>),
      ls_get_session = (\<lambda>u db. case db u of None \<Rightarrow> Db_not_found | Some k \<Rightarrow> Db_found k),
      ls_upsert_session = (\<lambda>u k db. (True, db(u \<mapsto> k))),
      ls_remove_session = (\<lambda>u db. (True, db(u := None)))\<rparr>"

lemma sample_store_sessions: "session_store sample_store"
  by (simp add: session_store_def sample_store_def)

definition sample_handshake :: packet_handshake where
  "sample_handshake = \<lparr>pk_id = PT_handshake, hs_protocol_version = 7, hs_username = [0x61], hs_password = [], hs_cpe_magic = 0\<rparr>"

text \<open>A codec for two requests with connection keys 7 and 8.\<close>

definition login_codec :: "nat \<Rightarrow> bytes \<Rightarrow> proto_message option" where
  "login_codec t bs = Some (PacketHandleRequest (if bs = [1] then 7 else 8) (handshake_bytes sample_handshake))"

lemma login_codec_parses:
  "packet_message login_codec handshake_parse r =
     Some (if segment 1 (mr_size r - 1) (mr_buf r) = [1] then 7 else 8, sample_handshake)"
  using handshake_parse_bytes [of sample_handshake "[]"]
  by (simp add: packet_message_def mr_parse_message_def login_codec_def sample_handshake_def rstrip_def mr_message_size_def)

text \<open>
  One session per user: the second of two logins is told the connection of the first, so that
  the game server can close it.
\<close>

theorem second_login_names_first:
  assumes store: "session_store store"
    and first: "packet_message dec handshake_parse r = Some (key, packet)"
    and second: "packet_message dec handshake_parse q = Some (key', packet')"
    and user: "hs_username packet' = hs_username packet"
    and login: "ls_get_login store (hs_username packet) (ln_db s) = Db_found l"
      "lg_password l = hs_password packet" "lg_password l = hs_password packet'"
    and none: "ls_get_session store (hs_username packet) (ln_db s) = Db_not_found"
    and up: "fst (ls_upsert_session store (hs_username packet) key (ln_db s))"
    and key: "key \<noteq> 0"
  shows "\<exists>s1 s2. handle_handshake_packet dec store r s = Some s1 \<and>
    handle_handshake_packet dec store q s1 = Some s2 \<and>
    ln_sent s2 = ln_sent s @
      [(mr_reply_address r, MSG_packet_handshake, PacketHandshakeResponse key 0 0 (lg_player_type l) (lg_identity l)),
       (mr_reply_address q, MSG_packet_handshake, PacketHandshakeResponse key' key 0 (lg_player_type l) (lg_identity l))]"
proof -
  let ?db = "snd (ls_upsert_session store (hs_username packet) key (ln_db s))"
  let ?s1 = "s\<lparr>ln_db := ?db, ln_sent := ln_sent s @ [(mr_reply_address r, MSG_packet_handshake,
    PacketHandshakeResponse key 0 0 (lg_player_type l) (lg_identity l))]\<rparr>"
  have f: "handle_handshake_packet dec store r s = Some ?s1"
    using login_accepted [OF first login(1,2), of 0] none by simp
  have "ls_get_session store (hs_username packet') ?db = Db_found key"
    "ls_get_login store (hs_username packet') ?db = Db_found l"
    using store up user login(1) unfolding session_store_def by simp_all
  then have "handle_handshake_packet dec store q ?s1 = Some (?s1\<lparr>
      ln_db := snd (ls_upsert_session store (hs_username packet') key' ?db),
      ln_sent := ln_sent ?s1 @ [(mr_reply_address q, MSG_packet_handshake,
        PacketHandshakeResponse key' key 0 (lg_player_type l) (lg_identity l))]\<rparr>)"
    using login_accepted [OF second, of store ?s1 l key] login(3) key by simp
  with f show ?thesis by simp
qed

theorem second_login_names_first_witness:
  "\<exists>s1 s2. handle_handshake_packet login_codec sample_store
      (mr_set_size 2 (message_request_new [0, 1] 0)) \<lparr>ln_comm = communicator_new, ln_db = (\<lambda>_. None), ln_sent = []\<rparr> = Some s1 \<and>
    handle_handshake_packet login_codec sample_store (mr_set_size 2 (message_request_new [0, 2] 0)) s1 = Some s2 \<and>
    ln_sent s2 = [(ip_address_empty, MSG_packet_handshake, PacketHandshakeResponse 7 0 0 2 [9]),
      (ip_address_empty, MSG_packet_handshake, PacketHandshakeResponse 8 7 0 2 [9])]"
  using second_login_names_first [OF sample_store_sessions login_codec_parses [of "mr_set_size 2 (message_request_new [0, 1] 0)"]
      login_codec_parses [of "mr_set_size 2 (message_request_new [0, 2] 0)"] refl,
      of "\<lparr>ln_comm = communicator_new, ln_db = (\<lambda>_. None), ln_sent = []\<rparr>"
         "\<lparr>lg_username = [0x61], lg_password = [], lg_identity = [9], lg_player_type = 2\<rparr>"]
  by (simp add: mr_set_size_def mr_capacity_def message_request_new_def mr_reset_def segment_def sample_store_def
      sample_handshake_def)

text \<open>
  C31: Every handshake request is answered exactly once, to whoever sent it; the answer reports
  success exactly for a user who is known under the password of the packet.
\<close>

theorem handshake_answered_once:
  assumes "packet_message dec handshake_parse r = Some (key, packet)"
  shows "\<exists>s' prev code t u. handle_handshake_packet dec store r s = Some s' \<and>
    ln_sent s' = ln_sent s @ [(mr_reply_address r, MSG_packet_handshake, PacketHandshakeResponse key prev code t u)] \<and>
    (code = 0 \<longleftrightarrow> (\<exists>l. ls_get_login store (hs_username packet) (ln_db s) = Db_found l \<and> lg_password l = hs_password packet))"
proof (cases "ls_get_login store (hs_username packet) (ln_db s)")
  case (Db_found l)
  then show ?thesis
    by (auto simp: handshake_response [OF assms] update_session_def response_message_def split: db_get.split)
qed (simp_all add: handshake_response [OF assms])

theorem handshake_answered_once_witness:
  "\<exists>s' prev code t u. handle_handshake_packet login_codec sample_store (message_request_new [0] 0)
      \<lparr>ln_comm = communicator_new, ln_db = (\<lambda>_. None), ln_sent = []\<rparr> = Some s' \<and>
    ln_sent s' = [(ip_address_empty, MSG_packet_handshake, PacketHandshakeResponse 8 prev code t u)] \<and> code = 0"
  using handshake_answered_once [OF login_codec_parses [of "message_request_new [0] 0"],
      of sample_store "\<lparr>ln_comm = communicator_new, ln_db = (\<lambda>_. None), ln_sent = []\<rparr>"]
  by (auto simp: message_request_new_def mr_reset_def sample_store_def sample_handshake_def)

end
