(* ===== verification/Game_Server.thy ===== *)
theory Game_Server
  imports World Tcp_Server Communicator Login_Server
begin

section \<open>The game server\<close>

text \<open>
  \<open>net/game_server.h\<close>/\<open>.cpp\<close>: the packet handlers, the handler of the login server's answer, and
  the tick. The state is the world, the table of servers and the messages sent so far. The
  database read in the middle of \<open>handle_handshake_response_message\<close> suspends it, and anything
  can happen before it goes on: the handler is two functions. A null player that is dereferenced
  has no result.
\<close>

record game_server = world +
  gs_comm :: communicator
  gs_sent :: "outgoing list"

definition gs_send :: "outgoing \<Rightarrow> 'a game_server_scheme \<Rightarrow> 'a game_server_scheme" where
  "gs_send m s = s\<lparr>gs_sent := gs_sent s @ [m]\<rparr>"

subsection \<open>Packet handlers\<close>

text \<open>
  A handler is given the packet's bytes. The constructors of the packets read no further than
  that (\<open>packet_parsers_in_bounds\<close> below), so that a parse that fails stands for no behaviour.
\<close>

definition handle_handshake ::
    "player \<Rightarrow> nat \<Rightarrow> bytes \<Rightarrow> 'a game_server_scheme \<Rightarrow> result_code \<times> 'a game_server_scheme" where
  "handle_handshake mem0 i packet_data s =
     (case (handshake_parse packet_data, conn_of i s) of
        (Some packet, Some c) \<Rightarrow>
          (let key = cn_key c;
               s = set_player i (player_ctor mem0 key (hs_username packet)) s;
               s = (case associated_player i s of
                      None \<Rightarrow> s
                    | Some a \<Rightarrow>
                        if has_cpe_support packet
                        then upd_player a (prepare_state_transition S_ex_handshaking S_ex_handshaked) s
                        else upd_player a (prepare_state_transition S_handshaking S_handshaked) s)
           in (ResultCode ec_success,
               gs_send (forward_packet ST_login MSG_packet_handshake key packet_data (gs_comm s)) s))
      | _ \<Rightarrow> (ResultCode ec_success, s))"

definition handle_ping_packet :: "nat \<Rightarrow> bytes \<Rightarrow> 'a game_server_scheme \<Rightarrow> result_code \<times> 'a game_server_scheme" where
  "handle_ping_packet i packet_data s = (ResultCode ec_success, snd (on_io i send_ping s))"

definition handle_two_way_ping_packet ::
    "nat \<Rightarrow> bytes \<Rightarrow> 'a game_server_scheme \<Rightarrow> result_code \<times> 'a game_server_scheme" where
  "handle_two_way_ping_packet i packet_data s = (ResultCode ec_success, snd (on_io i (send_raw_data packet_data) s))"

definition handle_ext_ping_packet ::
    "nat \<Rightarrow> bytes \<Rightarrow> 'a game_server_scheme \<Rightarrow> result_code \<times> 'a game_server_scheme" where
  "handle_ext_ping_packet i packet_data s =
     (case ext_ping_parse packet_data of
        Some packet \<Rightarrow> (ResultCode ec_success, snd (on_io i (send_packet (\<lambda>push. ext_ping_serialize push packet)) s))
      | None \<Rightarrow> (ResultCode ec_success, s))"

definition handle_set_block_packet ::
    "nat \<Rightarrow> bytes \<Rightarrow> 'a game_server_scheme \<Rightarrow> result_code \<times> 'a game_server_scheme" where
  "handle_set_block_packet i packet_data s =
     (case set_block_client_parse packet_data of
        Some packet \<Rightarrow>
          (let pos = coord_of_shorts (sbc_x packet) (sbc_y packet) (sbc_z packet);
               blk = (if sbc_block_creation_mode packet = set_block then sbc_block_id packet else B_air);
               (ok, s) = try_change_block pos blk s
           in if ok then (ResultCode ec_success, s)
              else let blk = (if sbc_block_creation_mode packet = set_block then B_air else sbc_block_id packet);
                       revert = set_block_server_make pos blk
                   in (ResultCode ec_success,
                       snd (on_io i (send_packet (\<lambda>push. set_block_server_serialize push revert)) s)))
      | None \<Rightarrow> (ResultCode ec_success, s))"

definition handle_player_position_packet ::
    "nat \<Rightarrow> bytes \<Rightarrow> 'a game_server_scheme \<Rightarrow> result_code \<times> 'a game_server_scheme" where
  "handle_player_position_packet i packet_data s =
     (case (set_player_position_parse packet_data, associated_player i s) of
        (Some packet, Some a) \<Rightarrow> (ResultCode ec_success, upd_player a (set_position (spp_pos packet)) s)
      | _ \<Rightarrow> (ResultCode ec_success, s))"

definition handle_chat_message_packet ::
    "nat \<Rightarrow> bytes \<Rightarrow> 'a game_server_scheme \<Rightarrow> result_code \<times> 'a game_server_scheme" where
  "handle_chat_message_packet i packet_data s =
     (case chat_message_parse packet_data of
        Some packet \<Rightarrow>
          (let s = (if \<not> is_commmand_message packet then snd (try_add_common_chat packet_data s) else s);
               sender = (case associated_player i s of
                           None \<Rightarrow> []
                         | Some a \<Rightarrow> (case ns_heap s a of None \<Rightarrow> [] | Some p \<Rightarrow> player_username p))
           in (ResultCode ec_success,
               gs_send (send_to MSG_chat_command (ChatCommandRequest sender (cm_message packet)) ST_chat (gs_comm s)) s))
      | None \<Rightarrow> (ResultCode ec_success, s))"

definition handle_ext_info_packet ::
    "nat \<Rightarrow> bytes \<Rightarrow> 'a game_server_scheme \<Rightarrow> result_code \<times> 'a game_server_scheme" where
  "handle_ext_info_packet i packet_data s =
     (case (ext_info_parse packet_data, associated_player i s) of
        (Some packet, Some a) \<Rightarrow>
          (ResultCode ec_success, upd_player a (set_extension_count (scast (ei_extension_count packet))) s)
      | _ \<Rightarrow> (ResultCode ec_success, s))"

text \<open>The update of the player by an extension entry; a name that is available has an index.\<close>

definition ext_entry_update :: "packet_ext_entry \<Rightarrow> player \<Rightarrow> player" where
  "ext_entry_update packet p =
     (let p = (if is_available_cpe (ee_extenstion_name packet) (ee_version packet)
               then (case Option.bind (cpe_index_of (ee_extenstion_name packet)) (\<lambda>e. register_extension e p) of
                       Some p \<Rightarrow> p | None \<Rightarrow> p)
               else p);
          (n, p) = decrease_pending_extension_count p
      in if n = 0 then transit_state p else p)"

definition handle_ext_entry_packet ::
    "nat \<Rightarrow> bytes \<Rightarrow> 'a game_server_scheme \<Rightarrow> result_code \<times> 'a game_server_scheme" where
  "handle_ext_entry_packet i packet_data s =
     (case (ext_entry_parse packet_data, associated_player i s) of
        (Some packet, Some a) \<Rightarrow> (ResultCode ec_success, upd_player a (ext_entry_update packet) s)
      | _ \<Rightarrow> (ResultCode ec_success, s))"

definition packet_handler_db ::
    "player \<Rightarrow> u8 \<Rightarrow> (nat \<Rightarrow> bytes \<Rightarrow> 'a game_server_scheme \<Rightarrow> result_code \<times> 'a game_server_scheme) option" where
  "packet_handler_db mem0 pid =
     (if pid = PT_handshake then Some (handle_handshake mem0)
      else if pid = PT_ping then Some handle_ping_packet
      else if pid = PT_set_block_client then Some handle_set_block_packet
      else if pid = PT_set_player_position then Some handle_player_position_packet
      else if pid = PT_chat_message then Some handle_chat_message_packet
      else if pid = PT_ext_info then Some handle_ext_info_packet
      else if pid = PT_ext_entry then Some handle_ext_entry_packet
      else if pid = PT_two_way_ping then Some handle_two_way_ping_packet
      else if pid = PT_ext_ping then Some handle_ext_ping_packet
      else None)"

definition handle_packet ::
    "player \<Rightarrow> nat \<Rightarrow> bytes \<Rightarrow> 'a game_server_scheme \<Rightarrow> result_code \<times> 'a game_server_scheme" where
  "handle_packet mem0 i packet_data s =
     (case parse_packet packet_data of
        None \<Rightarrow> (ResultCode ec_unimplemented_packet_id, s)
      | Some (packet_id, packet_size) \<Rightarrow>
          (case packet_handler_db mem0 packet_id of
             Some handler \<Rightarrow> handler i (take packet_size packet_data) s
           | None \<Rightarrow> (ResultCode ec_unimplemented_packet_id, s)))"

definition game_on_disconnect :: "nat \<Rightarrow> 'a game_server_scheme \<Rightarrow> 'a game_server_scheme" where
  "game_on_disconnect i s =
     (case associated_player i s of
        None \<Rightarrow> s
      | Some a \<Rightarrow>
          (case ns_heap s a of
             None \<Rightarrow> s
           | Some p \<Rightarrow>
               if S_handshaked \<le> ps_cur p
               then gs_send (send_to MSG_player_logout (PlayerLogoutRequest (player_username p)) ST_login (gs_comm s)) s
               else s))"

subsection \<open>The answer of the login server\<close>

datatype 'w handshake_progress = Finished 'w | Await_gamedata connection_key bytes 'w

definition handshake_response_start ::
    "(nat \<Rightarrow> bytes \<Rightarrow> proto_message option) \<Rightarrow> nat \<Rightarrow> message_request \<Rightarrow> 'a game_server_scheme \<Rightarrow>
      'a game_server_scheme handshake_progress option" where
  "handshake_response_start dec now r s =
     (case mr_parse_message dec 7 r of
        Some (PacketHandshakeResponse k prev err ty uuid) \<Rightarrow>
          (let key = ConnectionKey k
           in case try_acquire_connection key (ns_env s) of
                None \<Rightarrow> None
              | Some None \<Rightarrow> Some (Await_gamedata key uuid s)
              | Some (Some i) \<Rightarrow>
                  if err = word_of_int ec_player_not_exist then
                    (case associated_player i s of
                       None \<Rightarrow> None
                     | Some a \<Rightarrow>
                         Some (Finished (upd_player a (\<lambda>p. transit_state (set_player_type (player_type_value PTY_guest) p)) s)))
                  else if err \<noteq> word_of_int ec_success then
                    map_option Finished (kick_result game_on_disconnect now (ResultCode ec_player_login_fail) i s)
                  else
                    (case associated_player i s of
                       None \<Rightarrow> None
                     | Some a \<Rightarrow>
                         (let s = upd_player a (\<lambda>p. set_uuid uuid (set_player_type (unat ty) p)) s
                          in case try_acquire_connection (ConnectionKey prev) (ns_env s) of
                               None \<Rightarrow> None
                             | Some None \<Rightarrow> Some (Await_gamedata key uuid s)
                             | Some (Some j) \<Rightarrow>
                                 map_option (Await_gamedata key uuid)
                                   (kick_result game_on_disconnect now (ResultCode ec_player_already_login) j s))))
      | _ \<Rightarrow> Some (Finished s))"

definition handshake_response_resume ::
    "nat \<Rightarrow> connection_key \<Rightarrow> player_gamedata db_get \<Rightarrow> 'a game_server_scheme \<Rightarrow> 'a game_server_scheme option" where
  "handshake_response_resume now key result s =
     (case try_acquire_connection key (ns_env s) of
        None \<Rightarrow> None
      | Some None \<Rightarrow> Some s
      | Some (Some i) \<Rightarrow>
          (case result of
             Db_error \<Rightarrow> kick_result game_on_disconnect now (ResultCode ec_player_login_fail) i s
           | Db_malformed \<Rightarrow> Some s
           | Db_found gd \<Rightarrow>
               (case associated_player i s of
                  None \<Rightarrow> None
                | Some a \<Rightarrow> Some (upd_player a (\<lambda>p. transit_state (set_gamedata gd p)) s))
           | Db_not_found \<Rightarrow>
               (case associated_player i s of None \<Rightarrow> None | Some a \<Rightarrow> Some (upd_player a transit_state s))))"

text \<open>
  The dispatch of messages: the coroutine starts, and the handler returns true whatever it does.
\<close>

definition game_handle_message ::
    "(nat \<Rightarrow> bytes \<Rightarrow> proto_message option) \<Rightarrow> nat \<Rightarrow> message_request \<Rightarrow> 'a game_server_scheme \<Rightarrow>
      (bool \<times> 'a game_server_scheme handshake_progress) option" where
  "game_handle_message dec now r s =
     (if mr_message_id r = message_id_value MSG_packet_handshake
      then map_option (\<lambda>p. (True, p)) (handshake_response_start dec now r s)
      else Some (False, Finished s))"

subsection \<open>The tick and the periodic announcement\<close>

text \<open>\<open>max_packet\<close> is \<open>PacketStructure::max_size_of_packet_struct()\<close>, the \<open>sizeof\<close> of a class.\<close>

definition game_tick ::
    "nat \<Rightarrow> (nat \<Rightarrow> bool) \<Rightarrow> (nat \<Rightarrow> nat \<Rightarrow> bool) \<Rightarrow> (nat \<Rightarrow> bool) \<Rightarrow> bool \<Rightarrow> 'a game_server_scheme tcp_server \<Rightarrow>
      'a game_server_scheme \<Rightarrow> 'a game_server_scheme tcp_server \<times> 'a game_server_scheme" where
  "game_tick max_packet rio_send rio_multicast rio_recv posted ts s =
     (let s = flush_send rio_send rio_multicast s;
          s = flush_receive max_packet rio_recv s
      in (if is_stopped ts then start_accept posted ts else ts, s))"

definition game_announce_server :: "ip_address \<Rightarrow> 'a game_server_scheme \<Rightarrow> 'a game_server_scheme" where
  "game_announce_server a s = gs_send (announce_server ST_game a (gs_comm s)) s"

end
