(* ===== verification/Game_Laws.thy ===== *)
theory Game_Laws
  imports Game_Server
begin

section \<open>Laws of the game server\<close>

text \<open>
  The packets are read within their bounds; the handlers keep the ownership invariant, so that
  the game server is an instance of \<open>packet_handler\<close>; and the steps of the login protocol.
\<close>

subsection \<open>Bounds of the packets\<close>

lemma read_byte_eq: "read_byte bs = (if length bs < 1 then None else Some (hd bs, drop 1 bs))"
  by (cases bs) simp_all

lemmas parse_bounds = skip_id_def read_byte_eq read_short_def read_int_def read_uint64_def read_string_def

text \<open>A constructor has the bytes it reads exactly when there are as many as the packet's size.\<close>

lemma handshake_parse_None: "handshake_parse bs = None \<longleftrightarrow> length bs < handshake_packet_size"
  by (auto simp: handshake_parse_def parse_bounds)

lemma set_block_client_parse_None: "set_block_client_parse bs = None \<longleftrightarrow> length bs < set_block_client_packet_size"
  by (auto simp: set_block_client_parse_def parse_bounds)

lemma set_player_position_parse_None: "set_player_position_parse bs = None \<longleftrightarrow> length bs < set_player_position_packet_size"
  by (auto simp: set_player_position_parse_def parse_bounds)

lemma chat_message_parse_None: "chat_message_parse bs = None \<longleftrightarrow> length bs < chat_message_packet_size"
  by (auto simp: chat_message_parse_def parse_bounds)

lemma ext_info_parse_None: "ext_info_parse bs = None \<longleftrightarrow> length bs < ext_info_packet_size"
  by (auto simp: ext_info_parse_def parse_bounds)

lemma ext_entry_parse_None: "ext_entry_parse bs = None \<longleftrightarrow> length bs < ext_entry_packet_size"
  by (auto simp: ext_entry_parse_def parse_bounds)

lemma ext_ping_parse_None: "ext_ping_parse bs = None \<longleftrightarrow> length bs < ext_ping_packet_size"
  by (auto simp: ext_ping_parse_def parse_bounds)

lemmas parse_None = handshake_parse_None set_block_client_parse_None set_player_position_parse_None chat_message_parse_None ext_info_parse_None ext_entry_parse_None ext_ping_parse_None


subsection \<open>Handlers keep the invariant\<close>

lemma conn_of_world [simp]:
  "conn_of i (s\<lparr>w_sync_block_task := t\<rparr>) = conn_of i s"
  "conn_of i (s\<lparr>w_common_chat_task := u\<rparr>) = conn_of i s"
  "conn_of i (r\<lparr>gs_sent := v\<rparr>) = conn_of i r"
  by (simp_all add: conn_of_def)

lemma net_wf_world [simp]:
  "net_wf (s\<lparr>w_sync_block_task := t\<rparr>) = net_wf s"
  "net_wf (s\<lparr>w_common_chat_task := u\<rparr>) = net_wf s"
  "net_wf (r\<lparr>gs_sent := v\<rparr>) = net_wf r"
  by (simp_all add: net_wf_def)

lemma keeps_same:
  assumes "net_wf s' = net_wf s" "conn_of i s' = conn_of i s" "net_wf s" "conn_of i s \<noteq> None"
  shows "keeps_connection i s s'"
  using assms by (simp add: keeps_connection_def recv_bytes_def)

lemma keeps_gs_send: "net_wf s \<Longrightarrow> conn_of i s \<noteq> None \<Longrightarrow> keeps_connection i s (gs_send m s)"
  by (rule keeps_same) (simp_all add: gs_send_def)

lemma keeps_push:
  assumes "net_wf s" "conn_of i s \<noteq> None" "\<And>c. f c = cio_push bs c"
  shows "keeps_connection i s (snd (on_io j f s))"
proof -
  obtain ok s' where io: "on_io j f s = (ok, s')" by fastforce
  from keeps_on_io [OF assms(1,2) io] assms(3) io show ?thesis by (simp add: cio_push_keeps)
qed

lemma keeps_set_player:
  assumes wf: "net_wf s" and c: "conn_of i s = Some c" and key: "pl_key p = cn_key c"
  shows "keeps_connection i s (set_player i p s)"
  using set_player_effect [OF assms] c by (simp add: keeps_connection_def recv_bytes_def)

lemma keepsD: "keeps_connection i s s' \<Longrightarrow> net_wf s' \<and> conn_of i s' \<noteq> None"
  by (simp add: keeps_connection_def)

lemma keeps_handshake:
  assumes wf: "net_wf s" and i: "conn_of i s \<noteq> None"
  shows "keeps_connection i s (snd (handle_handshake mem0 i data s))"
proof (cases "handshake_parse data")
  case None
  with assms show ?thesis by (simp add: handle_handshake_def keeps_connection_refl)
next
  case (Some packet)
  from i obtain c where c: "conn_of i s = Some c" by blast
  let ?p = "player_ctor mem0 (cn_key c) (hs_username packet)"
  let ?s = "set_player i ?p s"
  have k: "keeps_connection i s ?s"
    using wf c by (rule keeps_set_player) (simp add: player_ctor_def)
  define s2 where "s2 = (case associated_player i ?s of None \<Rightarrow> ?s
    | Some a \<Rightarrow> if has_cpe_support packet
        then upd_player a (prepare_state_transition S_ex_handshaking S_ex_handshaked) ?s
        else upd_player a (prepare_state_transition S_handshaking S_handshaked) ?s)"
  have k2: "keeps_connection i ?s s2"
    unfolding s2_def using keepsD [OF k]
    by (auto simp: keeps_connection_refl prepare_state_transition_def intro!: keeps_upd_player split: option.splits)
  have k3: "keeps_connection i s2 (gs_send m s2)" for m
    using keepsD [OF k2] by (intro keeps_gs_send) simp_all
  have "snd (handle_handshake mem0 i data s) =
      gs_send (forward_packet ST_login MSG_packet_handshake (cn_key c) data (gs_comm s2)) s2"
    using Some c by (simp add: handle_handshake_def Let_def s2_def)
  with keeps_connection_trans [OF k keeps_connection_trans [OF k2 k3]] show ?thesis by simp
qed

lemma keeps_ext_entry_update: "pl_key (ext_entry_update packet p) = pl_key p"
  by (auto simp: ext_entry_update_def decrease_pending_extension_count_def register_extension_def transit_state_def
      Let_def split: option.splits if_splits bind_splits)

lemma keeps_set_block:
  assumes "net_wf s" "conn_of i s \<noteq> None"
  shows "keeps_connection i s (snd (handle_set_block_packet i data s))"
proof (cases "set_block_client_parse data")
  case (Some packet)
  let ?pos = "coord_of_shorts (sbc_x packet) (sbc_y packet) (sbc_z packet)"
  let ?blk = "if sbc_block_creation_mode packet = set_block then sbc_block_id packet else B_air"
  obtain ok s1 where t: "try_change_block ?pos ?blk s = (ok, s1)" by fastforce
  have k: "keeps_connection i s s1"
    using t assms by (auto simp: try_change_block_def Let_def intro!: keeps_same split: prod.splits)
  have k2: "keeps_connection i s1 (snd (on_io i (send_packet (\<lambda>push. set_block_server_serialize push r)) s1))" for r
    using keepsD [OF k] by (intro keeps_push) (simp_all add: send_packet_def set_block_server_serialize_def)
  from keeps_connection_trans [OF k k2] k t Some show ?thesis
    by (cases ok) (simp_all add: handle_set_block_packet_def Let_def)
qed (use assms in \<open>simp add: handle_set_block_packet_def keeps_connection_refl\<close>)

lemma keeps_chat_message:
  assumes "net_wf s" "conn_of i s \<noteq> None"
  shows "keeps_connection i s (snd (handle_chat_message_packet i data s))"
proof (cases "chat_message_parse data")
  case (Some packet)
  let ?s = "if \<not> is_commmand_message packet then snd (try_add_common_chat data s) else s"
  have k: "keeps_connection i s ?s"
    using assms by (auto simp: try_add_common_chat_def Let_def keeps_connection_refl intro!: keeps_same split: prod.splits)
  have "keeps_connection i ?s (gs_send m ?s)" for m
    using keepsD [OF k] by (intro keeps_gs_send) simp_all
  from keeps_connection_trans [OF k this] Some show ?thesis
    by (simp add: handle_chat_message_packet_def Let_def)
qed (use assms in \<open>simp add: handle_chat_message_packet_def keeps_connection_refl\<close>)

lemma keeps_player_updates:
  assumes "net_wf s" "conn_of i s \<noteq> None"
  shows "keeps_connection i s (snd (handle_player_position_packet i data s))"
    "keeps_connection i s (snd (handle_ext_info_packet i data s))"
    "keeps_connection i s (snd (handle_ext_entry_packet i data s))"
  using assms
  by (auto simp: handle_player_position_packet_def handle_ext_info_packet_def handle_ext_entry_packet_def
      keeps_connection_refl keeps_ext_entry_update set_position_def set_extension_count_def
      intro!: keeps_upd_player split: option.splits)

lemma keeps_pings:
  assumes "net_wf s" "conn_of i s \<noteq> None"
  shows "keeps_connection i s (snd (handle_ping_packet i data s))"
    "keeps_connection i s (snd (handle_two_way_ping_packet i data s))"
    "keeps_connection i s (snd (handle_ext_ping_packet i data s))"
  using assms
  by (auto simp: handle_ping_packet_def handle_two_way_ping_packet_def handle_ext_ping_packet_def
      send_ping_def send_raw_data_def send_packet_def ext_ping_serialize_def keeps_connection_refl
      intro!: keeps_push split: option.splits)

lemma handle_packet_keeps:
  assumes "net_wf s" "conn_of i s \<noteq> None"
  shows "keeps_connection i s (snd (handle_packet mem0 i data s))"
  using assms
  by (auto simp: handle_packet_def packet_handler_db_def keeps_connection_refl keeps_handshake keeps_set_block
      keeps_chat_message keeps_player_updates keeps_pings split: option.splits prod.splits if_splits)

lemma game_on_disconnect_keeps:
  assumes "net_wf s" "conn_of i s \<noteq> None"
  shows "keeps_connection i s (game_on_disconnect i s)"
  using assms by (auto simp: game_on_disconnect_def keeps_connection_refl keeps_gs_send split: option.splits)

interpretation game: packet_handler "handle_packet mem0" game_on_disconnect
  for mem0 :: player
proof (unfold_locales, goal_cases)
  case (1 s i data pid n r s')
  from handle_packet_keeps [OF 1(1,2), of mem0 data] 1(6) show ?case by simp
next
  case (2 s i)
  then show ?case by (rule game_on_disconnect_keeps)
qed

text \<open>The handlers look at their packet only.\<close>

lemma handle_packet_local: "handles_locally (handle_packet mem0)"
  unfolding handles_locally_def
proof (intro allI impI)
  fix i data and s :: "'a game_server_scheme" and pid n
  assume p: "parse_packet data = Some (pid, n)" and n: "n \<le> length data"
  show "handle_packet mem0 i data s = handle_packet mem0 i (take n data) s"
  proof (cases "n = 0")
    case True
    with parse_packet_size [OF p] have "pid = PT_invalid" by simp
    with p True show ?thesis by (simp add: handle_packet_def packet_handler_db_def parse_packet_def split: list.splits)
  next
    case False
    with p have "parse_packet (take n data) = Some (pid, n)"
      by (cases data; cases n) (simp_all add: parse_packet_def)
    with p show ?thesis by (simp add: handle_packet_def split: option.splits)
  qed
qed

subsection \<open>The stream of packets\<close>

text \<open>
  C34: Every packet that the loop accepts is read within its own bytes: the size in the packet
  table is what the constructor of the packet needs, for each of them.
\<close>

theorem packets_parse_in_bounds:
  assumes "parse_packet bs = Some (pid, n)" "n \<le> length bs"
  shows "(pid = PT_handshake \<longrightarrow> handshake_parse (take n bs) \<noteq> None) \<and>
    (pid = PT_set_block_client \<longrightarrow> set_block_client_parse (take n bs) \<noteq> None) \<and>
    (pid = PT_set_player_position \<longrightarrow> set_player_position_parse (take n bs) \<noteq> None) \<and>
    (pid = PT_chat_message \<longrightarrow> chat_message_parse (take n bs) \<noteq> None) \<and>
    (pid = PT_ext_info \<longrightarrow> ext_info_parse (take n bs) \<noteq> None) \<and>
    (pid = PT_ext_entry \<longrightarrow> ext_entry_parse (take n bs) \<noteq> None) \<and>
    (pid = PT_ext_ping \<longrightarrow> ext_ping_parse (take n bs) \<noteq> None)"
proof -
  have "pid = PT_invalid \<or> n = protocol_db pid"
    using assms(1) by (auto simp: parse_packet_def split: list.splits)
  then show ?thesis
    using assms(2) by (auto simp: parse_None protocol_db_def simp del: not_None_eq)
qed

theorem packets_parse_in_bounds_witness:
  "ext_ping_parse (take 9 (ext_ping_bytes ext_ping_make @ [1])) \<noteq> None"
  using packets_parse_in_bounds [of "ext_ping_bytes ext_ping_make @ [1]" PT_ext_ping 9]
  by (simp add: ext_ping_bytes_def write_defs parse_packet_Cons protocol_db_def)

text \<open>
  C2: However a client's stream is cut into receives, the game server does the same: processing the
  first part, keeping what was not consumed and processing it with what comes next is processing
  everything at once, unless the first part ended with an error.
\<close>

theorem packet_stream_fragmentation:
  "packet_loop (handle_packet mem0) i (a @ b) s =
    (let (n, stop, s1) = packet_loop (handle_packet mem0) i a s
     in if stop = None \<or> stop = Some (ResultCode ec_insuffient_packet_data) then
          (let (m, stop', s2) = packet_loop (handle_packet mem0) i (drop n a @ b) s1 in (n + m, stop', s2))
        else (n, stop, s1))"
  by (rule packet_loop_append [OF handle_packet_local])

end
