(* ===== verification/Sessions.thy ===== *)
theory Sessions
  imports Tcp_Server
begin

section \<open>Sessions\<close>

text \<open>
  The session of a player is its current state with the state that is prepared. This theory has
  the transitions the servers ever make (\<open>session_step\<close>), the relation \<open>evolves\<close> between two states
  of a server in which every player only makes such transitions, and the extension of the
  interface \<open>packet_handler\<close> by the law that a handler does nothing else.
\<close>

subsection \<open>Transitions\<close>

definition session :: "'a pstate_scheme \<Rightarrow> session_state \<times> session_state" where
  "session p = (ps_cur p, ps_next p)"

abbreviation fresh_session :: "session_state \<times> session_state" where
  "fresh_session \<equiv> (S_initialized, S_initialized)"

inductive session_step :: "session_state \<times> session_state \<Rightarrow> session_state \<times> session_state \<Rightarrow> bool" where
  settle: "session_step (c, n) (n, n)"
| handshake: "session_step (S_initialized, n) (S_handshaking, S_handshaked)"
| ex_handshake: "session_step (S_initialized, n) (S_ex_handshaking, S_ex_handshaked)"
| sync_extensions: "session_step (S_ex_handshaked, n) (S_extension_syncing, S_extension_synced)"
| load_level: "c = S_handshaked \<or> c = S_extension_synced \<Longrightarrow>
    session_step (c, n) (S_level_initializing, S_level_initialized)"
| spawn: "session_step (S_level_initialized, n) (S_spawning, S_spawned)"
| disconnect: "S_handshaking \<le> c \<Longrightarrow> session_step (c, n) (S_disconnecting, S_disconnected)"

abbreviation session_steps :: "session_state \<times> session_state \<Rightarrow> session_state \<times> session_state \<Rightarrow> bool" where
  "session_steps \<equiv> session_step\<^sup>*\<^sup>*"

inductive_simps session_step_iff: "session_step (c, n) (c', n')"

text \<open>The state a session is on its way to is determined by the current one.\<close>

fun session_goal :: "session_state \<Rightarrow> session_state" where
  "session_goal S_disconnecting = S_disconnected"
| "session_goal S_handshaking = S_handshaked"
| "session_goal S_ex_handshaking = S_ex_handshaked"
| "session_goal S_extension_syncing = S_extension_synced"
| "session_goal S_level_initializing = S_level_initialized"
| "session_goal S_spawning = S_spawned"
| "session_goal s = s"

lemma settled_idem [simp]: "session_goal (session_goal s) = session_goal s"
  by (cases s) simp_all

lemma session_steps_settled:
  "session_steps (c, n) (c', n') \<Longrightarrow> n = session_goal c \<Longrightarrow> n' = session_goal c'"
  by (induction rule: rtranclp_induct2) (auto simp: session_step_iff)

text \<open>A session only moves on; the only way back is into disconnection, which is final.\<close>

definition session_rank :: "session_state \<Rightarrow> nat" where
  "session_rank s =
     (case s of S_disconnecting \<Rightarrow> 20 | S_disconnected \<Rightarrow> 21 | _ \<Rightarrow> state_value s)"

lemma session_step_rank:
  "session_step (c, n) (c', n') \<Longrightarrow> n = session_goal c \<Longrightarrow> c \<noteq> S_invaild \<Longrightarrow>
    n' = session_goal c' \<and> session_rank c \<le> session_rank c' \<and> c' \<noteq> S_invaild"
  by (cases c) (auto simp: session_step_iff session_rank_def state_order)

lemma session_steps_rank:
  "session_steps (c, n) (c', n') \<Longrightarrow> n = session_goal c \<Longrightarrow> c \<noteq> S_invaild \<Longrightarrow>
    n' = session_goal c' \<and> session_rank c \<le> session_rank c' \<and> c' \<noteq> S_invaild"
proof (induction rule: rtranclp_induct2)
  case (step c' n' c'' n'')
  then show ?case using session_step_rank [of c' n' c'' n''] by auto
qed simp

subsection \<open>Updates of one player\<close>

definition keeps_session :: "(player \<Rightarrow> player) \<Rightarrow> player \<Rightarrow> bool" where
  "keeps_session f p \<longleftrightarrow> pl_key (f p) = pl_key p \<and> session_steps (session p) (session (f p))"

lemma keeps_session_transit: "keeps_session transit_state p"
  using settle [of "ps_cur p" "ps_next p"]
  by (auto simp: keeps_session_def session_def transit_state_def)

lemma keeps_session_prepare:
  "session_step (session p) (c, n) \<Longrightarrow> keeps_session (prepare_state_transition c n) p"
  by (auto simp: keeps_session_def session_def prepare_state_transition_def)

lemma keeps_session_same:
  "pl_key (f p) = pl_key p \<Longrightarrow> ps_cur (f p) = ps_cur p \<Longrightarrow> ps_next (f p) = ps_next p \<Longrightarrow> keeps_session f p"
  by (simp add: keeps_session_def session_def)

lemma keeps_session_comp:
  "keeps_session f p \<Longrightarrow> keeps_session g (f p) \<Longrightarrow> keeps_session (\<lambda>p. g (f p)) p"
  by (auto simp: keeps_session_def)

subsection \<open>Evolution of the players of a server\<close>

text \<open>
  Every player that is there afterwards was there before and made transitions, or it is new:
  its address was not given out before, and it started with a fresh session.
\<close>

definition evolves :: "'a net_state_scheme \<Rightarrow> 'a net_state_scheme \<Rightarrow> bool" where
  "evolves s s' \<longleftrightarrow> ns_next_addr s \<le> ns_next_addr s' \<and>
     (\<forall>a p'. ns_heap s' a = Some p' \<longrightarrow>
        (if a < ns_next_addr s
         then \<exists>p. ns_heap s a = Some p \<and> pl_key p' = pl_key p \<and> session_steps (session p) (session p')
         else session_steps fresh_session (session p')))"

definition net_keeps :: "'a net_state_scheme \<Rightarrow> 'a net_state_scheme \<Rightarrow> bool" where
  "net_keeps s s' \<longleftrightarrow> (net_wf s \<longrightarrow> net_wf s' \<and> evolves s s')"

lemma net_wf_bounded: "net_wf s \<Longrightarrow> ns_heap s a = Some p \<Longrightarrow> a < ns_next_addr s"
  by (meson net_wfD(3) owners_wfD(1,3))

lemma evolves_heap:
  assumes "net_wf s" "ns_next_addr s' = ns_next_addr s"
    and "\<And>a p'. ns_heap s' a = Some p' \<Longrightarrow>
      \<exists>p. ns_heap s a = Some p \<and> pl_key p' = pl_key p \<and> session_steps (session p) (session p')"
  shows "evolves s s'"
  using assms net_wf_bounded [OF assms(1)] by (fastforce simp: evolves_def)

lemma evolves_same:
  assumes "net_wf s" "ns_heap s' = ns_heap s" "ns_next_addr s' = ns_next_addr s"
  shows "evolves s s'"
  using assms by (intro evolves_heap) simp_all

lemma evolves_trans [trans]:
  assumes "evolves s t" "evolves t u"
  shows "evolves s u"
  unfolding evolves_def
proof (intro conjI allI impI)
  show "ns_next_addr s \<le> ns_next_addr u" using assms by (simp add: evolves_def)
  fix a p'' assume u: "ns_heap u a = Some p''"
  show "if a < ns_next_addr s
        then \<exists>p. ns_heap s a = Some p \<and> pl_key p'' = pl_key p \<and> session_steps (session p) (session p'')
        else session_steps fresh_session (session p'')"
  proof (cases "a < ns_next_addr t")
    case True
    from assms(2) u have "if a < ns_next_addr t
        then \<exists>p. ns_heap t a = Some p \<and> pl_key p'' = pl_key p \<and> session_steps (session p) (session p'')
        else session_steps fresh_session (session p'')"
      unfolding evolves_def by blast
    with True obtain p' where t: "ns_heap t a = Some p'" "pl_key p'' = pl_key p'"
      "session_steps (session p') (session p'')"
      by auto
    from assms(1) t(1) have "if a < ns_next_addr s
        then \<exists>p. ns_heap s a = Some p \<and> pl_key p' = pl_key p \<and> session_steps (session p) (session p')
        else session_steps fresh_session (session p')"
      unfolding evolves_def by blast
    with t(2,3) show ?thesis by (auto split: if_splits intro: rtranclp_trans)
  next
    case False
    with assms u show ?thesis by (auto simp: evolves_def)
  qed
qed

lemma evolves_old:
  assumes "evolves s s'" "ns_heap s' a = Some q" "ns_heap s a = Some p" "a < ns_next_addr s"
  shows "pl_key q = pl_key p \<and> session_steps (session p) (session q)"
proof -
  from assms(1,2) have "if a < ns_next_addr s
      then \<exists>p. ns_heap s a = Some p \<and> pl_key q = pl_key p \<and> session_steps (session p) (session q)
      else session_steps fresh_session (session q)"
    unfolding evolves_def by blast
  with assms(3,4) show ?thesis by auto
qed

lemma net_keeps_refl [simp, intro]: "net_keeps s s"
  by (simp add: net_keeps_def evolves_same)

lemma net_keeps_trans [trans]: "net_keeps s t \<Longrightarrow> net_keeps t u \<Longrightarrow> net_keeps s u"
  by (auto simp: net_keeps_def intro: evolves_trans)

text \<open>What the invariant looks at is the table, the heap and the next address.\<close>

lemma net_wf_cong:
  assumes "ns_env t = ns_env s" "ns_heap t = ns_heap s" "ns_next_addr t = ns_next_addr s"
  shows "net_wf t = net_wf s"
proof -
  have "conn_of i t = conn_of i s" for i using assms(1) by (simp add: conn_of_def)
  with assms show ?thesis by (simp add: net_wf_def)
qed

lemma net_keeps_same:
  assumes "ns_env t = ns_env s" "ns_heap t = ns_heap s" "ns_next_addr t = ns_next_addr s"
  shows "net_keeps s t"
  using assms net_wf_cong [OF assms] by (simp add: net_keeps_def evolves_same)

lemma net_keeps_upd_player:
  assumes "\<And>p. ns_heap s a = Some p \<Longrightarrow> keeps_session f p"
  shows "net_keeps s (upd_player a f s)"
  unfolding net_keeps_def
proof
  assume wf: "net_wf s"
  have "net_wf (upd_player a f s)"
    using assms by (intro net_wf_upd_player [OF wf]) (simp add: keeps_session_def)
  moreover have "evolves s (upd_player a f s)"
    using assms by (intro evolves_heap [OF wf]) (auto simp: keeps_session_def split: if_splits)
  ultimately show "net_wf (upd_player a f s) \<and> evolves s (upd_player a f s)" ..
qed

lemma on_io_simps [simp]:
  "ns_heap (snd (on_io i f s)) = ns_heap s" "ns_next_addr (snd (on_io i f s)) = ns_next_addr s"
  by (simp_all add: on_io_def Let_def split: option.splits prod.splits)

lemma net_keeps_on_io:
  assumes "\<And>c. cio_wf c \<Longrightarrow> cio_wf (snd (f c))"
  shows "net_keeps s (snd (on_io i f s))"
  unfolding net_keeps_def
proof
  assume wf: "net_wf s"
  obtain ok s' where io: "on_io i f s = (ok, s')" by fastforce
  have "net_wf (snd (on_io i f s))" using conn_of_on_io(1) [OF wf io assms] io by simp
  then show "net_wf (snd (on_io i f s)) \<and> evolves s (snd (on_io i f s))"
    using wf by (simp add: evolves_same)
qed

lemma net_keeps_upd_conn:
  assumes "\<And>c. conn_of i s = Some c \<Longrightarrow> cio_wf (cn_io c) \<Longrightarrow> cn_key (f c) = cn_key c \<and>
    cn_is_online (f c) = cn_is_online c \<and> cn_player (f c) = cn_player c \<and> cio_wf (cn_io (f c))"
  shows "net_keeps s (upd_conn i f s)"
  using assms net_wf_upd_conn [of s i f] net_wfD(2) [of s]
  by (auto simp: net_keeps_def intro!: evolves_same)

lemma net_keeps_set_offline: "conn_of i s \<noteq> None \<Longrightarrow> net_keeps s (set_offline now i s)"
  by (simp add: net_keeps_def net_wf_set_offline evolves_same)

lemma net_keeps_delete:
  assumes "conn_of i s = Some c" "\<not> cn_is_online c"
  shows "net_keeps s (delete_connection i s)"
  unfolding net_keeps_def
proof
  assume wf: "net_wf s"
  have "evolves s (delete_connection i s)"
    by (rule evolves_heap [OF wf]) (auto simp: delete_connection_def Let_def split: option.splits if_splits)
  with delete_connection_effect(1) [OF wf assms] show "net_wf (delete_connection i s) \<and> evolves s (delete_connection i s)"
    by simp
qed

lemma net_keeps_set_player:
  assumes "conn_of i s = Some c" "pl_key p = cn_key c" "session p = fresh_session"
  shows "net_keeps s (set_player i p s)"
  unfolding net_keeps_def
proof
  assume wf: "net_wf s"
  have "evolves s (set_player i p s)"
    unfolding evolves_def set_player_def
    using assms(3) net_wf_bounded [OF wf] by (auto simp: Let_def split: option.splits if_splits)
  with set_player_effect(1) [OF wf assms(1,2)] show "net_wf (set_player i p s) \<and> evolves s (set_player i p s)"
    by simp
qed

lemma net_keeps_new_connection:
  assumes "size_of_connections (ns_env s) < size_of_max_connections (ns_env s)"
  shows "net_keeps s (snd (new_connection tick now s))"
  unfolding net_keeps_def
proof
  assume wf: "net_wf s"
  obtain key s' where n: "new_connection tick now s = (key, s')" by fastforce
  have "net_wf s'"
    using net_wf_new_connection(1) [OF wf _ n] assms
    by (simp add: size_of_connections_def size_of_max_connections_def)
  moreover have "evolves s s'"
    using n by (intro evolves_same [OF wf]) (auto simp: new_connection_def split: prod.splits)
  ultimately show "net_wf (snd (new_connection tick now s)) \<and> evolves s (snd (new_connection tick now s))"
    using n by simp
qed

lemma net_keeps_fold:
  assumes "\<And>i s. i \<in> set is \<Longrightarrow> net_keeps s (f i s)"
  shows "net_keeps s (fold f is s)"
  using assms
proof (induction "is" arbitrary: s)
  case (Cons i "is")
  have "net_keeps s (f i s)" using Cons.prems by simp
  also have "net_keeps (f i s) (fold f is (f i s))" using Cons by simp
  finally show ?case by simp
qed simp

lemma net_keeps_for_each_connection:
  "(\<And>i s. net_keeps s (f i s)) \<Longrightarrow> net_keeps s (for_each_connection f s)"
  unfolding for_each_connection_def by (rule net_keeps_fold) simp

lemma net_keeps_for_each_player:
  "(\<And>i a s. net_keeps s (f i a s)) \<Longrightarrow> net_keeps s (for_each_player f s)"
  unfolding for_each_player_def by (rule net_keeps_fold) (simp split: option.split)

subsection \<open>The interface, with sessions\<close>

lemma evolves_cong:
  assumes "ns_heap t = ns_heap s" "ns_next_addr t = ns_next_addr s"
    and "ns_heap t' = ns_heap s'" "ns_next_addr t' = ns_next_addr s'"
  shows "evolves t t' = evolves s s'"
  unfolding evolves_def assms ..

lemma set_last_error_simps [simp]:
  "ns_heap (set_last_error i r s) = ns_heap s" "ns_next_addr (set_last_error i r s) = ns_next_addr s"
  by (simp_all add: set_last_error_def)

lemma upd_recv_simps [simp]:
  "ns_heap (upd_recv i f s) = ns_heap s" "ns_next_addr (upd_recv i f s) = ns_next_addr s"
  by (simp_all add: upd_recv_def)

locale session_handler = packet_handler handle on_disc
  for handle :: "nat \<Rightarrow> bytes \<Rightarrow> 'a net_state_scheme \<Rightarrow> result_code \<times> 'a net_state_scheme"
    and on_disc :: "nat \<Rightarrow> 'a net_state_scheme \<Rightarrow> 'a net_state_scheme" +
  assumes handle_evolves: "net_wf s \<Longrightarrow> conn_of i s \<noteq> None \<Longrightarrow> parse_packet data = Some (pid, n) \<Longrightarrow>
      pid \<noteq> PT_invalid \<Longrightarrow> n \<le> length data \<Longrightarrow> handle i data s = (r, s') \<Longrightarrow> evolves s s'"
    and on_disc_evolves: "net_wf s \<Longrightarrow> conn_of i s \<noteq> None \<Longrightarrow> evolves s (on_disc i s)"
begin

lemma net_keeps_disconnect: "net_keeps s (disconnect on_disc now i s)"
proof (cases "conn_of i s")
  case None
  then show ?thesis by (simp add: disconnect_def is_online_def)
next
  case (Some c)
  have "net_keeps s (set_offline now i (on_disc i s))"
    unfolding net_keeps_def
  proof
    assume wf: "net_wf s"
    have k: "keeps_connection i s (on_disc i s)" "evolves s (on_disc i s)"
      using on_disc_keeps [OF wf] on_disc_evolves [OF wf] Some by simp_all
    then have "net_keeps (on_disc i s) (set_offline now i (on_disc i s))"
      by (intro net_keeps_set_offline) (simp add: keeps_connection_def)
    with k show "net_wf (set_offline now i (on_disc i s)) \<and> evolves s (set_offline now i (on_disc i s))"
      by (auto simp: net_keeps_def keeps_connection_def intro: evolves_trans)
  qed
  moreover have "net_keeps s (upd_player a (prepare_state_transition S_disconnecting S_disconnected) s)"
    if "ns_heap s a = Some p" "S_handshaking \<le> ps_cur p" for a p
    using that by (intro net_keeps_upd_player keeps_session_prepare)
      (simp add: session_def session_step.disconnect)
  ultimately show ?thesis
    by (auto simp: disconnect_def split: option.split)
qed

lemma net_keeps_kick: "net_keeps s (kick on_disc now msg i s)"
proof -
  have "net_keeps s (snd (on_io i (send_packet (\<lambda>push. disconnect_player_serialize push (disconnect_player_make msg))) s))"
    by (rule net_keeps_on_io) (simp add: send_packet_def disconnect_player_serialize_def cio_push_keeps)
  also note net_keeps_disconnect
  finally show ?thesis by (simp add: kick_def case_prod_beta)
qed

lemma net_keeps_kick_result: "kick_result on_disc now r i s = Some s' \<Longrightarrow> net_keeps s s'"
  by (auto simp: kick_result_def net_keeps_kick split: option.splits)

lemma packet_loop_evolves:
  "net_wf s \<Longrightarrow> conn_of i s \<noteq> None \<Longrightarrow> packet_loop handle i data s = (n, stop, s') \<Longrightarrow> evolves s s'"
proof (induction "length data" arbitrary: data s n stop s' rule: less_induct)
  case less
  note step = packet_loop.simps [of handle i data s]
  show ?case
  proof (cases "parse_packet data")
    case None
    with less.prems show ?thesis by (simp add: step evolves_same)
  next
    case (Some p)
    obtain pid sz where p: "parse_packet data = Some (pid, sz)" using Some by (cases p) simp
    obtain r s1 where h: "handle i data s = (r, s1)" by fastforce
    show ?thesis
    proof (cases "pid = PT_invalid \<or> length data < sz")
      case True
      with less.prems p show ?thesis by (auto simp: step evolves_same split: if_splits)
    next
      case False
      then have k: "keeps_connection i s s1" and e: "evolves s s1"
        using handle_keeps [OF less.prems(1,2) p _ _ h] handle_evolves [OF less.prems(1,2) p _ _ h] by simp_all
      show ?thesis
      proof (cases "is_packet_handle_success r")
        case bad: False
        with less.prems(3) p h False e show ?thesis by (simp add: step)
      next
        case True
        obtain m st s2 where l: "packet_loop handle i (drop sz data) s1 = (m, st, s2)"
          by (metis prod_cases3)
        have "0 < sz" "data \<noteq> []" using p False parse_packet_size [OF p] by (auto simp: parse_packet_def)
        then have "evolves s1 s2"
          using k l by (intro less.hyps [of "drop sz data" s1 m st s2]) (simp_all add: keeps_connection_def)
        with e have "evolves s s2" by (rule evolves_trans)
        with less.prems(3) p h True False l show ?thesis by (simp add: step)
      qed
    qed
  qed
qed

lemma process_packets_evolves:
  assumes "net_wf s" "conn_of i s \<noteq> None" "process_packets handle i data s = (n, s')"
  shows "evolves s s'"
proof -
  obtain stop s1 where l: "packet_loop handle i data s = (n, stop, s1)"
    and s': "s' = (case stop of None \<Rightarrow> s1 | Some r \<Rightarrow> set_last_error i r s1)"
    using assms(3) by (auto simp: process_packets_def split: prod.splits)
  have "ns_heap s' = ns_heap s1" "ns_next_addr s' = ns_next_addr s1"
    by (simp_all add: s' split: option.split)
  with packet_loop_evolves [OF assms(1,2) l] show ?thesis
    using evolves_cong [of s s s' s1] by simp
qed

lemma on_complete_recv_evolves:
  assumes "net_wf s" "conn_of i s \<noteq> None" "on_complete_recv on_disc now i s = Some s'"
  shows "evolves s s'"
proof -
  let ?s = "upd_recv i (\<lambda>e. e\<lparr>re_processing := False\<rparr>) s"
  have k: "keeps_connection i s ?s"
    unfolding upd_recv_def using net_wfD(2) [OF assms(1)]
    by (intro keeps_upd_conn [OF assms(1,2)]) (auto simp: cio_wf_def)
  then obtain c where c: "conn_of i ?s = Some c" and wf: "net_wf ?s" by (auto simp: keeps_connection_def)
  have "evolves ?s s'"
  proof (cases "is_packet_handle_success (cn_last_error c)")
    case True
    then have "s' = set_last_error i (rc_reset (cn_last_error c)) ?s"
      using assms(3) c by (simp add: on_complete_recv_def Let_def)
    then show ?thesis by (simp add: evolves_same wf)
  next
    case False
    then have "kick_result on_disc now (cn_last_error c) i ?s = Some s'"
      using assms(3) c by (simp add: on_complete_recv_def Let_def)
    from net_keeps_kick_result [OF this] wf show ?thesis by (simp add: net_keeps_def)
  qed
  then show ?thesis using evolves_cong [of ?s s s' s'] by simp
qed

lemma recv_event_keeps:
  assumes wf: "net_wf s" and i: "conn_of i s = Some c"
    and fits: "\<And>bs. completion = Recv_data bs \<Longrightarrow> length bs \<le> recv_unused_size (re_data (cio_recv (cn_io c)))"
    and ev: "recv_on_event_complete handle on_disc now i completion s = Some s'"
  shows "net_wf s' \<and> evolves s s'"
proof -
  have "evolves s s'"
  proof (cases "completion = Recv_eof \<or> completion = Recv_failed")
    case True
    then consider (eof) "completion = Recv_eof" | (failed) "completion = Recv_failed" by blast
    then show ?thesis
    proof cases
      case eof
      then have "s' = disconnect on_disc now i s" using ev by (simp add: recv_on_event_complete_def)
      with net_keeps_disconnect [of s now i] wf show ?thesis by (simp add: net_keeps_def)
    next
      case failed
      then have "on_complete_recv on_disc now i s = Some s'" using ev by (simp add: recv_on_event_complete_def)
      from on_complete_recv_evolves [OF wf _ this] i show ?thesis by simp
    qed
  next
    case False
    then have d: "completion \<noteq> Recv_eof" "completion \<noteq> Recv_failed" by simp_all
    show ?thesis
    proof (rule recv_event_states [OF wf i fits d ev])
      fix s2 n s3 s4
      assume s2: "net_wf s2" "conn_of i s2 \<noteq> None" "ns_heap s2 = ns_heap s" "ns_next_addr s2 = ns_next_addr s"
        and s3: "s3 = s2 \<or> process_packets handle i (recv_bytes i s2) s2 = (n, s3)"
        and s4: "net_wf s4" "conn_of i s4 \<noteq> None" "ns_heap s4 = ns_heap s3" "ns_next_addr s4 = ns_next_addr s3"
        and last: "on_complete_recv on_disc now i s4 = Some s'"
      have "evolves s2 s3" using s3 process_packets_evolves [OF s2(1,2)] evolves_same [OF s2(1)] by blast
      then have "evolves s s4" using evolves_cong [of s s2 s4 s3] s2 s4 by simp
      also have "evolves s4 s'" by (rule on_complete_recv_evolves [OF s4(1,2) last])
      finally show ?thesis .
    qed blast
  qed
  with recv_event_wf [OF wf i fits ev] show ?thesis by blast
qed

lemma net_keeps_cleanup: "net_keeps s (cleanup_expired_connection on_disc now s)"
  unfolding cleanup_expired_connection_def
proof (rule net_keeps_fold)
  fix i and s :: "'a net_state_scheme"
  show "net_keeps s (cleanup_slot on_disc now i s)"
    using net_keeps_delete [of i s] net_keeps_disconnect [of s now i]
    by (auto simp: cleanup_slot_def is_safe_delete_def split: option.split)
qed

lemma net_keeps_accept:
  assumes "tcp_wf on_disc ts"
    and "accept_on_event_complete clock k tick32 now failed posted ts s = (ts', s')"
  shows "net_keeps s s'"
proof (cases failed)
  case True
  with assms(2) show ?thesis by (simp add: accept_on_event_complete_def)
next
  case False
  obtain tasks now' s1 k' where p: "process_tasks clock IT_clean_connection (ts_env_task ts) (now, s) k = (tasks, (now', s1), k')"
    by (metis prod_cases3 prod.exhaust)
  have "net_keeps s (snd (now', s1)) \<and> map it_func tasks = map it_func (ts_env_task ts)"
    by (rule process_tasks_invariant [OF _ _ p])
      (use assms(1) in \<open>auto simp: tcp_wf_def cleanup_task_def intro: net_keeps_trans [OF _ net_keeps_cleanup]\<close>)
  then have "net_keeps s s1" by simp
  moreover have "s' = s1 \<or> (size_of_connections (ns_env s1) < size_of_max_connections (ns_env s1) \<and>
      s' = snd (new_connection tick32 now s1))"
    using assms(2) p False
    by (auto simp: accept_on_event_complete_def accept_handle_io_event_def accept_on_complete_def Let_def case_prod_beta
        split: if_splits)
  ultimately show ?thesis using net_keeps_new_connection net_keeps_trans by blast
qed

end

end
