(* ===== verification/World_Laws.thy ===== *)
theory World_Laws
  imports World Sessions
begin

section \<open>Laws of the world\<close>

text \<open>
  Every operation of the world keeps the ownership invariant and moves sessions only along the
  transitions of \<open>session_step\<close> (\<open>net_keeps\<close>); whom a broadcast reaches; the data a new player
  gets.
\<close>

subsection \<open>Sending keeps a connection well-formed\<close>

lemma cio_wf_push: "cio_wf c \<Longrightarrow> cio_wf (snd (cio_push bs c))"
  using cio_push_keeps by blast

lemma cio_wf_multicast: "cio_wf c \<Longrightarrow> cio_wf (snd (post_multicast_event data c))"
  by (rule post_multicast_event_effect(1) [of c data "fst (post_multicast_event data c)"]) simp_all

lemma cio_wf_ext_entries: "cio_wf c \<Longrightarrow> cio_wf (snd (ext_entry_serialize cio_push order c))"
  by (induction order arbitrary: c) (simp_all add: cio_wf_push)

lemmas cio_wf_send = cio_wf_push cio_wf_multicast cio_wf_ext_entries

lemmas io_packet_defs = send_raw_data_def send_ping_def send_packet_def ext_message_serialize_def ext_info_serialize_def
  handshake_serialize_def set_player_id_serialize_def level_init_serialize_def

lemma net_keeps_io_bind:
  assumes "\<And>c. cio_wf c \<Longrightarrow> cio_wf (snd (f c))" "on_io i f s = (ok, s')"
  shows "net_keeps s s'"
  using net_keeps_on_io [of f s i] assms by simp

subsection \<open>Sending to players\<close>

lemma net_keeps_send_to_players:
  assumes f: "\<And>g p. successed = Some g \<Longrightarrow> keeps_session g p" "\<And>g p. failed = Some g \<Longrightarrow> keeps_session g p"
  shows "send_to_players as data successed failed s = Some s' \<Longrightarrow> net_keeps s s'"
proof (induction as arbitrary: s)
  case (Cons a as)
  obtain p where p: "ns_heap s a = Some p" using Cons.prems by (auto split: option.splits)
  consider (null) "try_acquire_connection (pl_key p) (ns_env s) = Some None" |
    (conn) i where "try_acquire_connection (pl_key p) (ns_env s) = Some (Some i)"
    using Cons.prems p by (auto split: option.splits)
  then show ?case
  proof cases
    case null
    with Cons p show ?thesis by simp
  next
    case (conn i)
    obtain ok s1 where io: "on_io i (send_raw_data data) s = (ok, s1)" by fastforce
    have k: "net_keeps s s1"
      by (rule net_keeps_io_bind [OF _ io]) (simp add: send_raw_data_def cio_wf_push)
    define s2 where "s2 = (if ok then
        (case successed of Some f \<Rightarrow> upd_player a f s1
         | None \<Rightarrow> (case failed of Some g \<Rightarrow> upd_player a g s1 | None \<Rightarrow> s1)) else s1)"
    have "net_keeps s1 s2"
      using f by (auto simp: s2_def intro!: net_keeps_upd_player split: option.split)
    moreover have "net_keeps s2 s'"
      using Cons p conn io by (simp add: Let_def s2_def)
    ultimately show ?thesis using k net_keeps_trans by blast
  qed
qed simp

lemma net_keeps_multicast_to_players:
  assumes f: "\<And>g p. successed = Some g \<Longrightarrow> keeps_session g p"
  shows "multicast_to_players as data successed s = Some s' \<Longrightarrow> net_keeps s s'"
proof (induction as arbitrary: s)
  case (Cons a as)
  obtain p where p: "ns_heap s a = Some p" using Cons.prems by (auto split: option.splits)
  consider (null) "try_acquire_connection (pl_key p) (ns_env s) = Some None" |
    (conn) i where "try_acquire_connection (pl_key p) (ns_env s) = Some (Some i)"
    using Cons.prems p by (auto split: option.splits)
  then show ?case
  proof cases
    case null
    with Cons p show ?thesis by simp
  next
    case (conn i)
    obtain ok s1 where io: "on_io i (post_multicast_event data) s = (ok, s1)" by fastforce
    have k: "net_keeps s s1"
      by (rule net_keeps_io_bind [OF _ io]) (rule cio_wf_multicast)
    define s2 where "s2 = (if ok then (case successed of Some f \<Rightarrow> upd_player a f s1 | None \<Rightarrow> s1) else s1)"
    have "net_keeps s1 s2"
      using f by (auto simp: s2_def intro!: net_keeps_upd_player split: option.split)
    moreover have "net_keeps s2 s'"
      using Cons p conn io by (simp add: Let_def s2_def)
    ultimately show ?thesis using k net_keeps_trans by blast
  qed
qed simp

lemma net_keeps_broadcast_loop: "broadcast_loop as m s = Some s' \<Longrightarrow> net_keeps s s'"
proof (induction as arbitrary: s)
  case (Cons a as)
  have k: "net_keeps s (snd (on_io i (send_packet (\<lambda>push. ext_message_serialize push m)) s))" for i
    by (rule net_keeps_on_io) (simp add: io_packet_defs cio_wf_push)
  from Cons.prems obtain p r where p: "ns_heap s a = Some p" and r: "try_acquire_connection (pl_key p) (ns_env s) = Some r"
    by (auto split: option.splits)
  show ?case
  proof (cases r)
    case None
    with Cons p r show ?thesis by simp
  next
    case (Some i)
    with Cons.prems p r have "broadcast_loop as m (snd (on_io i (send_packet (\<lambda>push. ext_message_serialize push m)) s)) = Some s'"
      by simp
    with Cons.IH k show ?thesis using net_keeps_trans by blast
  qed
qed simp

subsection \<open>Tasks\<close>

lemma net_keeps_world_fields [simp]:
  "net_keeps s (t\<lparr>w_spawn_player_task := a\<rparr>) = net_keeps s t"
  "net_keeps s (t\<lparr>w_disconnect_player_task := b\<rparr>) = net_keeps s t"
  "net_keeps s (t\<lparr>w_sync_block_task := c\<rparr>) = net_keeps s t"
  "net_keeps s (t\<lparr>w_sync_position_task := d\<rparr>) = net_keeps s t"
  "net_keeps s (t\<lparr>w_common_chat_task := e\<rparr>) = net_keeps s t"
  "net_keeps s (t\<lparr>w_block_mapping := f\<rparr>) = net_keeps s t"
  "net_keeps s (t\<lparr>w_saved := g\<rparr>) = net_keeps s t"
  by (simp_all add: net_keeps_def evolves_def net_wf_cong [of "_ t" t])

lemma process_level_wait_player_keeps:
  "process_level_wait_player z ps s = Some s' \<Longrightarrow> net_keeps s s'"
  by (auto simp: process_level_wait_player_def Let_def split: option.splits
      elim!: net_keeps_multicast_to_players [rotated] intro: keeps_session_transit)

lemma spawn_player_keeps: "spawn_player ps s = Some s' \<Longrightarrow> net_keeps s s'"
proof -
  assume "spawn_player ps s = Some s'"
  then obtain n data s1 where
    1: "send_to_players ps (take n data) (Some transit_state) None s = Some s1" and
    2: "send_to_players (players_from S_spawned s)
         (segment (length (players_from S_spawned s) * spawn_player_packet_size)
           (length ps * spawn_player_packet_size) data) None None s1 = Some s'"
    by (auto simp: spawn_player_def Let_def split: option.splits)
  have "net_keeps s s1" by (rule net_keeps_send_to_players [OF _ _ 1]) (auto simp: keeps_session_transit)
  also have "net_keeps s1 s'" by (rule net_keeps_send_to_players [OF _ _ 2]) simp_all
  finally show ?thesis .
qed

lemma despawn_player_keeps: "despawn_player ps s = Some s' \<Longrightarrow> net_keeps s s'"
  by (auto simp: despawn_player_def send_to_specific_players_def split: option.splits
      elim!: net_keeps_send_to_players [rotated -1])

lemma disconnect_loop_keeps: "disconnect_loop as s = Some s' \<Longrightarrow> net_keeps s s'"
proof (induction as arbitrary: s)
  case (Cons a as)
  have k: "net_keeps s (upd_player a transit_state (gamedata_save p s))" for p
  proof -
    have "net_keeps s (gamedata_save p s)" by (simp add: gamedata_save_def)
    also have "net_keeps (gamedata_save p s) (upd_player a transit_state (gamedata_save p s))"
      by (rule net_keeps_upd_player) (rule keeps_session_transit)
    finally show ?thesis .
  qed
  from Cons.prems obtain p r where p: "ns_heap s a = Some p" and r: "try_acquire_connection (pl_key p) (ns_env s) = Some r"
    by (auto split: option.splits)
  show ?case
  proof (cases r)
    case None
    with Cons p r show ?thesis by simp
  next
    case (Some i)
    with Cons.prems p r have "disconnect_loop as (upd_player a transit_state (gamedata_save p s)) = Some s'"
      by simp
    with Cons.IH k show ?thesis using net_keeps_trans by blast
  qed
qed simp

lemma disconnect_player_keeps: "disconnect_player ps s = Some s' \<Longrightarrow> net_keeps s s'"
  by (auto simp: disconnect_player_def Let_def split: if_splits option.splits
      dest!: despawn_player_keeps disconnect_loop_keeps intro: net_keeps_trans)

lemma sync_block_keeps: "sync_block z ps hist s = Some s' \<Longrightarrow> net_keeps s s'"
proof -
  assume sync: "sync_block z ps hist s = Some s'"
  have m: "net_keeps s s1" if "multicast_to_specific_players S_level_initialized d
      (s\<lparr>w_block_mapping := b\<rparr>) = Some s1" for d b s1
    using net_keeps_multicast_to_players [of None _ _ "s\<lparr>w_block_mapping := b\<rparr>" s1] that
    by (auto simp: multicast_to_specific_players_def net_keeps_same
        intro: net_keeps_trans [of s "s\<lparr>w_block_mapping := b\<rparr>" s1])
  from sync obtain s1 where s1: "net_keeps s s1" and
    "if ps \<noteq> [] then process_level_wait_player z ps s1 = Some s' else s' = s1"
    by (auto simp: sync_block_def dest!: m split: if_splits option.splits)
  then show ?thesis
    by (cases "ps = []") (auto intro: net_keeps_trans [OF s1] dest: process_level_wait_player_keeps)
qed

lemma net_keeps_heap:
  assumes h: "\<And>a. rel_option (\<lambda>p q. pl_key q = pl_key p \<and> session_steps (session p) (session q)) (ns_heap s a) (h a)"
  shows "net_keeps s (s\<lparr>ns_heap := h\<rparr>)"
  unfolding net_keeps_def
proof
  assume wf: "net_wf s"
  have fwd: "\<exists>q. h a = Some q \<and> pl_key q = pl_key p" if "ns_heap s a = Some p" for a p
    using h [of a] that by (auto simp: option.rel_sel)
  have bwd: "\<exists>p. ns_heap s a = Some p \<and> pl_key q = pl_key p \<and> session_steps (session p) (session q)"
    if "h a = Some q" for a q
    using h [of a] that by (cases "ns_heap s a") auto
  note o = owners_wfD [OF net_wfD(3) [OF wf]]
  have "owners_wf (\<lambda>i. conn_of i s) h (ns_next_addr s)"
    unfolding owners_wf_def
  proof (intro conjI allI impI)
    fix i c a assume c: "conn_of i s = Some c" "cn_player c = Some a"
    show "a < ns_next_addr s" using o(1) [OF c] by simp
    from o(1) [OF c] obtain p where p: "ns_heap s a = Some p" "pl_key p = cn_key c" by blast
    from fwd [OF p(1)] p(2) show "\<exists>p. h a = Some p \<and> pl_key p = cn_key c" by auto
  next
    fix a p assume "h a = Some p"
    from bwd [OF this] show "\<exists>i c. conn_of i s = Some c \<and> cn_player c = Some a" using o(3) by blast
  qed (use o(2) in blast)
  then have "net_wf (s\<lparr>ns_heap := h\<rparr>)" using wf by (simp add: net_wf_def)
  moreover have "evolves s (s\<lparr>ns_heap := h\<rparr>)" using bwd by (intro evolves_heap [OF wf]) simp_all
  ultimately show "net_wf (s\<lparr>ns_heap := h\<rparr>) \<and> evolves s (s\<lparr>ns_heap := h\<rparr>)" ..
qed

lemma set_player_position_serialize_heap:
  "set_player_position_serialize as h = Some (bs, h') \<Longrightarrow>
     rel_option (\<lambda>p q. pl_key q = pl_key p \<and> session_steps (session p) (session q)) (h a) (h' a)"
proof (induction as arbitrary: h bs h')
  case Nil
  then show ?case by (cases "h a") auto
next
  case (Cons b as)
  from Cons.prems obtain p q rest where p: "h b = Some p" and q: "q = snd (serialize_player_position p)"
    and rest: "set_player_position_serialize as (h(b \<mapsto> q)) = Some (rest, h')"
    by (auto split: option.splits prod.splits)
  have "pl_key q = pl_key p" "session q = session p"
    by (simp_all add: q serialize_player_position_def update_last_transferred_position_def session_def Let_def)
  with Cons.IH [OF rest] p show ?case by (auto simp: option.rel_sel split: if_splits)
qed

lemma sync_player_position_keeps: "sync_player_position s = Some s' \<Longrightarrow> net_keeps s s'"
proof -
  assume sync: "sync_player_position s = Some s'"
  then obtain data h where h: "set_player_position_serialize (players_from S_spawned s) (ns_heap s) = Some (data, h)"
    by (auto simp: sync_player_position_def Let_def split: option.splits)
  have k: "net_keeps s (s\<lparr>ns_heap := h\<rparr>)"
    by (rule net_keeps_heap) (rule set_player_position_serialize_heap [OF h])
  have "multicast_to_players (players_from S_spawned s) data (Some commit_last_transferred_position) (s\<lparr>ns_heap := h\<rparr>) = Some s' \<or>
      s' = s\<lparr>ns_heap := h\<rparr>"
    using sync h by (auto simp: sync_player_position_def Let_def split: if_splits)
  then show ?thesis
  proof
    assume "multicast_to_players (players_from S_spawned s) data (Some commit_last_transferred_position) (s\<lparr>ns_heap := h\<rparr>) = Some s'"
    then have "net_keeps (s\<lparr>ns_heap := h\<rparr>) s'"
      by (rule net_keeps_multicast_to_players [rotated])
        (auto simp: commit_last_transferred_position_def intro!: keeps_session_same)
    with k show ?thesis by (rule net_keeps_trans)
  qed (use k in simp)
qed

lemma common_chat_transfer_keeps: "common_chat_transfer d s = Some s' \<Longrightarrow> net_keeps s s'"
  by (auto simp: common_chat_transfer_def multicast_to_specific_players_def split: if_splits
      elim!: net_keeps_multicast_to_players [rotated])

lemma complete_tasks_keep:
  "complete_spawn_player_task now s = Some s' \<Longrightarrow> net_keeps s s'"
  "complete_disconnect_player_task now s = Some s' \<Longrightarrow> net_keeps s s'"
  "complete_sync_block_task z now s = Some s' \<Longrightarrow> net_keeps s s'"
  "complete_sync_position_task now s = Some s' \<Longrightarrow> net_keeps s s'"
  "complete_common_chat_task now s = Some s' \<Longrightarrow> net_keeps s s'"
  by (auto simp: complete_spawn_player_task_def complete_disconnect_player_task_def complete_sync_block_task_def
      complete_sync_position_task_def complete_common_chat_task_def wp_on_event_complete_def bs_on_event_complete_def
      simple_on_event_complete_def cc_on_event_complete_def Let_def
      dest: spawn_player_keeps disconnect_player_keeps sync_block_keeps sync_player_position_keeps common_chat_transfer_keeps)

subsection \<open>The tick\<close>

lemma net_keeps_handshake_success: "net_keeps s (on_handshake_success cfg i p s)"
  unfolding on_handshake_success_def Let_def
  by (rule net_keeps_trans [OF net_keeps_trans]; rule net_keeps_on_io) (simp_all add: io_packet_defs cio_wf_push)

lemma net_keeps_prepare:
  assumes "\<And>p. ns_heap s a = Some p \<Longrightarrow> session_step (session p) (c, n)"
  shows "net_keeps s (upd_player a (prepare_state_transition c n) s)"
  using assms by (intro net_keeps_upd_player keeps_session_prepare)

lemma heap_handshake_success [simp]: "ns_heap (on_handshake_success cfg i p s) = ns_heap s"
  by (simp add: on_handshake_success_def Let_def)

lemma net_keeps_level_init:
  assumes "ns_heap s a = Some p" "ps_cur p = S_handshaked \<or> ps_cur p = S_extension_synced"
  shows "net_keeps s (upd_player a (prepare_state_transition S_level_initializing S_level_initialized)
    (on_handshake_success cfg i p s))"
proof -
  have "net_keeps s (on_handshake_success cfg i p s)" by (rule net_keeps_handshake_success)
  also have "net_keeps (on_handshake_success cfg i p s) (upd_player a
      (prepare_state_transition S_level_initializing S_level_initialized) (on_handshake_success cfg i p s))"
    using assms by (intro net_keeps_prepare) (auto simp: session_def session_step_iff)
  finally show ?thesis .
qed

lemma keeps_session_spawn_point:
  "keeps_session (set_spawn_coordinate x y z f) p" "keeps_session (set_spawn_orientation u v f) p"
  by (intro keeps_session_same;
      simp add: set_spawn_coordinate_def set_spawn_orientation_def set_spawn_position_def Let_def)+

lemma spawn_point_session [simp]:
  "ps_cur (set_spawn_coordinate x y z f p) = ps_cur p" "ps_next (set_spawn_coordinate x y z f p) = ps_next p"
  "ps_cur (set_spawn_orientation u v f p) = ps_cur p" "ps_next (set_spawn_orientation u v f p) = ps_next p"
  by (simp_all add: set_spawn_coordinate_def set_spawn_orientation_def set_spawn_position_def Let_def)

lemma transit_player_state_keeps:
  fixes s :: "'a world_scheme"
  assumes disc: "\<And>s :: 'a world_scheme. net_keeps s (disconnect on_disc now i s)"
  shows "net_keeps s (transit_player_state cfg order on_disc now i a s)"
proof (cases "ns_heap s a")
  case None
  then show ?thesis by (simp add: transit_player_state_def)
next
  case (Some p)
  have spawn: "net_keeps s (upd_player a (prepare_state_transition S_spawning S_spawned)
      (upd_player a (set_spawn_orientation u v False) (upd_player a (set_spawn_coordinate x y z False) s)))"
    if "ps_cur p = S_level_initialized" for u v x y z
  proof -
    let ?s1 = "upd_player a (set_spawn_coordinate x y z False) s"
    let ?s2 = "upd_player a (set_spawn_orientation u v False) ?s1"
    have "net_keeps s ?s1" by (rule net_keeps_upd_player) (rule keeps_session_spawn_point)
    also have "net_keeps ?s1 ?s2" by (rule net_keeps_upd_player) (rule keeps_session_spawn_point)
    also have "net_keeps ?s2 (upd_player a (prepare_state_transition S_spawning S_spawned) ?s2)"
      using Some that by (intro net_keeps_prepare)
        (auto simp: session_def session_step_iff)
    finally show ?thesis .
  qed
  have ping: "net_keeps s (upd_player a (update_ping_time now') (snd (on_io i send_ping s)))" for now'
  proof -
    have "net_keeps s (snd (on_io i send_ping s))"
      by (rule net_keeps_on_io) (simp add: io_packet_defs cio_wf_push)
    also have "net_keeps (snd (on_io i send_ping s)) (upd_player a (update_ping_time now') (snd (on_io i send_ping s)))"
      by (intro net_keeps_upd_player keeps_session_same) (simp_all add: update_ping_time_def)
    finally show ?thesis .
  qed
  have ext: "net_keeps s (let (ok, s) = on_io i (send_packet ext_info_serialize) s
      in if \<not> ok then s
         else let (ok, s) = on_io i (send_packet (\<lambda>push. ext_entry_serialize push order)) s
              in if ok then upd_player a (prepare_state_transition S_extension_syncing S_extension_synced) s else s)"
    if cur: "ps_cur p = S_ex_handshaked"
  proof -
    obtain ok1 s1 where 1: "on_io i (send_packet ext_info_serialize) s = (ok1, s1)" by fastforce
    obtain ok2 s2 where 2: "on_io i (send_packet (\<lambda>push. ext_entry_serialize push order)) s1 = (ok2, s2)" by fastforce
    have k1: "net_keeps s s1" by (rule net_keeps_io_bind [OF _ 1]) (simp add: io_packet_defs cio_wf_push)
    have k2: "net_keeps s1 s2" by (rule net_keeps_io_bind [OF _ 2]) (simp add: send_packet_def cio_wf_ext_entries)
    have "ns_heap s2 = ns_heap s" using 1 2 on_io_simps(1) by (metis snd_conv)
    then have k3: "net_keeps s2 (upd_player a (prepare_state_transition S_extension_syncing S_extension_synced) s2)"
      using Some cur by (intro net_keeps_prepare) (auto simp: session_def session_step_iff)
    show ?thesis
      using k1 net_keeps_trans [OF k1 k2] net_keeps_trans [OF net_keeps_trans [OF k1 k2] k3]
      by (simp add: 1 2)
  qed
  show ?thesis
    using Some spawn ping ext disc net_keeps_level_init [OF Some]
    by (cases "ps_cur p") (simp_all add: transit_player_state_def Let_def)
qed

lemma schedule_world_tasks_keeps: "net_keeps s (snd (schedule_world_tasks now s))"
  by (simp add: schedule_world_tasks_def Let_def case_prod_beta)

lemma world_tick_keeps:
  fixes s :: "'a world_scheme"
  assumes disc: "\<And>i (s :: 'a world_scheme). net_keeps s (disconnect on_disc now i s)"
  shows "net_keeps s (snd (world_tick cfg order on_disc now s))"
proof -
  have "net_keeps s (for_each_player (transit_player_state cfg order on_disc now) s)"
    by (rule net_keeps_for_each_player) (rule transit_player_state_keeps [OF disc])
  also note schedule_world_tasks_keeps
  finally show ?thesis by (simp add: world_tick_def)
qed

end
