(* ===== verification/Frames.thy ===== *)
theory Frames
  imports Game_Laws World_Laws
begin

section \<open>What the events leave alone\<close>

text \<open>
  The I/O and the handlers work on the connections and players; they leave the tables of the
  server, the metadata and the size of the map, and the states of the world's tasks as they are.
  The locale \<open>frame_handler\<close> states this for any projection of the part of the state beyond
  \<open>net_state\<close>; the game server is its instance.
\<close>

locale frame_handler =
  fixes proj :: "'a net_state_scheme \<Rightarrow> 'b"
    and handle :: "nat \<Rightarrow> bytes \<Rightarrow> 'a net_state_scheme \<Rightarrow> result_code \<times> 'a net_state_scheme"
    and on_disc :: "nat \<Rightarrow> 'a net_state_scheme \<Rightarrow> 'a net_state_scheme"
  assumes proj_more: "net_state.more s = net_state.more t \<Longrightarrow> proj s = proj t"
    and handle_proj: "proj (snd (handle i data s)) = proj s"
    and on_disc_proj: "proj (on_disc i s) = proj s"
begin

lemma proj_upd [simp]:
  "proj (upd_conn i f s) = proj s" "proj (upd_player a g s) = proj s" "proj (set_offline now i s) = proj s"
  "proj (upd_recv i h s) = proj s" "proj (set_last_error i r s) = proj s"
  by (auto intro!: proj_more simp: upd_recv_def set_last_error_def)

lemma proj_on_io [simp]: "proj (snd (on_io i f s)) = proj s"
  by (simp add: on_io_def Let_def split: option.splits prod.splits)

lemma proj_disconnect [simp]: "proj (disconnect on_disc now i s) = proj s"
  by (simp add: disconnect_def on_disc_proj split: option.split)

lemma proj_kick [simp]: "proj (kick on_disc now msg i s) = proj s"
  by (simp add: kick_def case_prod_beta)

lemma proj_kick_result: "kick_result on_disc now r i s = Some s' \<Longrightarrow> proj s' = proj s"
  by (auto simp: kick_result_def split: option.splits)

lemma proj_packet_loop: "packet_loop handle i data s = (n, stop, s') \<Longrightarrow> proj s' = proj s"
proof (induction "length data" arbitrary: data s n stop s' rule: less_induct)
  case less
  note step = packet_loop.simps [of handle i data s]
  show ?case
  proof (cases "parse_packet data")
    case None
    with less.prems show ?thesis by (simp add: step)
  next
    case (Some p)
    obtain pid sz where p: "parse_packet data = Some (pid, sz)" using Some by (cases p) simp
    obtain r s1 where h: "handle i data s = (r, s1)" by fastforce
    then have s1: "proj s1 = proj s" using handle_proj [of i data s] by simp
    show ?thesis
    proof (cases "pid = PT_invalid \<or> length data < sz \<or> \<not> is_packet_handle_success r")
      case True
      with less.prems p h s1 show ?thesis by (auto simp: step split: if_splits)
    next
      case False
      obtain m st s2 where l: "packet_loop handle i (drop sz data) s1 = (m, st, s2)"
        by (metis prod_cases3)
      have "0 < sz" "data \<noteq> []" using p False parse_packet_size [OF p] by (auto simp: parse_packet_def)
      then have "proj s2 = proj s1" using l by (intro less.hyps [of "drop sz data" s1 m st s2]) simp_all
      with less.prems p h False l s1 show ?thesis by (simp add: step)
    qed
  qed
qed

lemma proj_process_packets: "proj (snd (process_packets handle i data s)) = proj s"
proof -
  obtain n stop s1 where l: "packet_loop handle i data s = (n, stop, s1)" by (metis prod_cases3)
  with proj_packet_loop [OF l] show ?thesis by (simp add: process_packets_def split: option.split)
qed

lemma proj_on_complete_recv:
  assumes "on_complete_recv on_disc now i s = Some s'"
  shows "proj s' = proj s"
proof -
  let ?s = "upd_recv i (\<lambda>e. e\<lparr>re_processing := False\<rparr>) s"
  obtain c where c: "conn_of i ?s = Some c"
    using assms by (auto simp: on_complete_recv_def Let_def split: option.splits)
  show ?thesis
  proof (cases "is_packet_handle_success (cn_last_error c)")
    case True
    then have "s' = set_last_error i (rc_reset (cn_last_error c)) ?s"
      using assms c by (simp add: on_complete_recv_def Let_def)
    then show ?thesis by simp
  next
    case False
    then have "kick_result on_disc now (cn_last_error c) i ?s = Some s'"
      using assms c by (simp add: on_complete_recv_def Let_def)
    from proj_kick_result [OF this] show ?thesis by simp
  qed
qed

lemma proj_handle_io_event: "proj (snd (handle_io_event_recv handle now i s)) = proj s"
  by (simp add: handle_io_event_recv_def try_interact_with_client_def update_last_interaction_time_def
      proj_process_packets Let_def)

lemma proj_recv_event:
  assumes "recv_on_event_complete handle on_disc now i completion s = Some s'"
  shows "proj s' = proj s"
proof -
  define s1 where "s1 = (case completion of
      Recv_data bs \<Rightarrow> upd_recv i (\<lambda>e. e\<lparr>re_data := snd (recv_io_push bs (re_data e))\<rparr>) s | _ \<Rightarrow> s)"
  have s1: "proj s1 = proj s" by (simp add: s1_def split: recv_completion.split)
  obtain n s3 where h: "handle_io_event_recv handle now i s1 = (n, s3)" by fastforce
  have s3: "proj s3 = proj s" using proj_handle_io_event [of now i s1] h s1 by simp
  define s4 where "s4 = (if n \<noteq> 0 then upd_recv i (\<lambda>e. e\<lparr>re_data := recv_pop n (re_data e)\<rparr>) s3 else s3)"
  have s4: "proj s4 = proj s" by (simp add: s4_def s3)
  consider (eof) "completion = Recv_eof" | (failed) "completion = Recv_failed"
    | (data) "completion \<noteq> Recv_eof" "completion \<noteq> Recv_failed" by blast
  then show ?thesis
  proof cases
    case eof
    then have "s' = disconnect on_disc now i s" using assms by (simp add: recv_on_event_complete_def)
    then show ?thesis by simp
  next
    case failed
    then have "on_complete_recv on_disc now i s = Some s'" using assms by (simp add: recv_on_event_complete_def)
    then show ?thesis by (rule proj_on_complete_recv)
  next
    case data
    then have "on_complete_recv on_disc now i s4 = Some s'"
      using assms h unfolding recv_on_event_complete_def s4_def s1_def [symmetric]
      by (simp add: Let_def)
    from proj_on_complete_recv [OF this] s4 show ?thesis by simp
  qed
qed

lemma proj_send_event: "proj (send_on_event_complete on_disc now i sig s) = proj s"
  by (simp add: send_on_event_complete_def Let_def split: io_signal.split)

lemma proj_multicast_event: "proj (multicast_on_event_complete on_disc now i ev sig s) = proj s"
  by (simp add: multicast_on_event_complete_def split: io_signal.split)

lemma proj_cleanup: "proj (cleanup_expired_connection on_disc now s) = proj s"
proof -
  have d: "proj (delete_connection i s) = proj s" for i s
    by (rule proj_more) (simp add: delete_connection_def Let_def)
  have "proj (fold (cleanup_slot on_disc now) is s) = proj s" for "is" s
    by (induction "is" arbitrary: s) (simp_all add: cleanup_slot_def d split: option.split)
  then show ?thesis by (simp add: cleanup_expired_connection_def)
qed

lemma proj_accept:
  assumes "tcp_wf on_disc ts" "accept_on_event_complete clock k tick32 now failed posted ts s = (ts', s')"
  shows "proj s' = proj s"
proof (cases failed)
  case True
  with assms(2) show ?thesis by (simp add: accept_on_event_complete_def)
next
  case False
  obtain tasks now' s1 k' where p: "process_tasks clock IT_clean_connection (ts_env_task ts) (now, s) k = (tasks, (now', s1), k')"
    by (metis prod_cases3 prod.exhaust)
  have "proj (snd (now', s1)) = proj s \<and> map it_func tasks = map it_func (ts_env_task ts)"
    by (rule process_tasks_invariant [OF _ _ p])
      (use assms(1) in \<open>auto simp: tcp_wf_def cleanup_task_def proj_cleanup\<close>)
  then have "proj s1 = proj s" by simp
  moreover have "proj (snd (new_connection tick32 now s1)) = proj s1"
    by (rule proj_more) (simp add: new_connection_def case_prod_beta)
  ultimately show ?thesis
    using assms(2) p False
    by (auto simp: accept_on_event_complete_def accept_handle_io_event_def accept_on_complete_def Let_def case_prod_beta
        split: if_splits)
qed

lemma proj_flush: "proj (flush_send rio rm s) = proj s" "proj (flush_receive mp rio s) = proj s"
proof -
  have "proj (fold (\<lambda>i s. if \<not> ce_will_delete (env_table (ns_env s) ! i) then upd_conn i (f i) s else s) is s) = proj s"
    for f "is" s by (induction "is" arbitrary: s) simp_all
  then show "proj (flush_send rio rm s) = proj s" "proj (flush_receive mp rio s) = proj s"
    by (simp_all add: flush_send_def flush_receive_def for_each_connection_def)
qed

end

subsection \<open>The tasks of the world\<close>

definition world_status :: "world_task_id \<Rightarrow> 'a world_scheme \<Rightarrow> task_state" where
  "world_status t s =
     (case t of
        WT_spawn_player \<Rightarrow> tk_state (w_spawn_player_task s)
      | WT_disconnect_player \<Rightarrow> tk_state (w_disconnect_player_task s)
      | WT_sync_block \<Rightarrow> tk_state (w_sync_block_task s)
      | WT_sync_position \<Rightarrow> tk_state (w_sync_position_task s)
      | WT_common_chat \<Rightarrow> tk_state (w_common_chat_task s))"

text \<open>The part of the game server that its events do not change.\<close>

definition game_frame :: "'a game_server_scheme \<Rightarrow> communicator \<times> world_metadata \<times> nat \<times> (world_task_id \<Rightarrow> task_state)" where
  "game_frame s = (gs_comm s, w_metadata s, length (w_block_mapping s), \<lambda>t. world_status t s)"

lemma game_fields_of_more:
  fixes s t :: "'a game_server_scheme"
  assumes "net_state.more s = net_state.more t"
  shows "gs_comm s = gs_comm t" "gs_sent s = gs_sent t" "w_metadata s = w_metadata t"
    "w_block_mapping s = w_block_mapping t" "w_spawn_player_task s = w_spawn_player_task t"
    "w_disconnect_player_task s = w_disconnect_player_task t" "w_sync_block_task s = w_sync_block_task t"
    "w_sync_position_task s = w_sync_position_task t" "w_common_chat_task s = w_common_chat_task t"
    "w_saved s = w_saved t"
  using assms by (cases s; cases t; simp)+

lemma game_fields_upd:
  "gs_comm (upd_player a f s) = gs_comm s" "gs_sent (upd_player a f s) = gs_sent s"
  "w_saved (upd_player a f s) = w_saved s" "w_sync_block_task (upd_player a f s) = w_sync_block_task s"
  "gs_sent (set_offline now i s) = gs_sent s" "w_saved (set_offline now i s) = w_saved s"
  by (simp_all add: upd_player_def set_offline_def)

lemma game_frame_more: "net_state.more s = net_state.more t \<Longrightarrow> game_frame s = game_frame t"
  by (simp add: game_frame_def world_status_def game_fields_of_more [of s t] cong: world_task_id.case_cong)

subsection \<open>The handlers\<close>

lemma frame_updates [simp]:
  "game_frame (upd_conn i f s) = game_frame s" "game_frame (upd_player a g s) = game_frame s"
  by (rule game_frame_more, simp)+

lemma frame_sent [simp]:
  "game_frame (s\<lparr>gs_sent := x\<rparr>) = game_frame s" "game_frame (gs_send m s) = game_frame s"
  by (simp_all add: game_frame_def gs_send_def world_status_def cong: world_task_id.case_cong)

lemma frame_on_io [simp]: "game_frame (snd (on_io i f s)) = game_frame s"
  by (simp add: on_io_def Let_def split: option.splits prod.splits)

lemma frame_set_player [simp]: "game_frame (set_player i p s) = game_frame s"
  by (rule game_frame_more) (simp add: set_player_def Let_def)

lemma frame_try [simp]:
  "game_frame (snd (try_change_block pos blk s)) = game_frame s"
  "game_frame (snd (try_add_common_chat d s)) = game_frame s"
  by (auto simp: try_change_block_def try_add_common_chat_def bs_push_block_def cc_push_def game_frame_def
      world_status_def Let_def case_prod_beta split: world_task_id.split)

lemma frame_handshake: "game_frame (snd (handle_handshake mem0 i data s)) = game_frame s"
  by (simp add: handle_handshake_def Let_def split: option.split)

lemma frame_pings:
  "game_frame (snd (handle_ping_packet i data s)) = game_frame s"
  "game_frame (snd (handle_two_way_ping_packet i data s)) = game_frame s"
  "game_frame (snd (handle_ext_ping_packet i data s)) = game_frame s"
  by (simp_all add: handle_ping_packet_def handle_two_way_ping_packet_def handle_ext_ping_packet_def split: option.split)

lemma frame_set_block: "game_frame (snd (handle_set_block_packet i data s)) = game_frame s"
  by (simp add: handle_set_block_packet_def Let_def case_prod_beta split: option.split)

lemma frame_chat_message: "game_frame (snd (handle_chat_message_packet i data s)) = game_frame s"
  by (simp add: handle_chat_message_packet_def Let_def split: option.split)

lemma frame_player_packets:
  "game_frame (snd (handle_player_position_packet i data s)) = game_frame s"
  "game_frame (snd (handle_ext_info_packet i data s)) = game_frame s"
  "game_frame (snd (handle_ext_entry_packet i data s)) = game_frame s"
  by (simp_all add: handle_player_position_packet_def handle_ext_info_packet_def handle_ext_entry_packet_def split: option.split)

lemma frame_handlers:
  assumes "packet_handler_db mem0 pid = Some handler"
  shows "game_frame (snd (handler i data s)) = game_frame s"
proof -
  from assms have "handler \<in> {handle_handshake mem0, handle_ping_packet, handle_set_block_packet,
      handle_player_position_packet, handle_chat_message_packet, handle_ext_info_packet, handle_ext_entry_packet,
      handle_two_way_ping_packet, handle_ext_ping_packet}"
    unfolding packet_handler_db_def by (simp split: if_splits)
  then show ?thesis
    by (elim insertE emptyE)
      (simp_all only: frame_handshake frame_pings frame_set_block frame_chat_message frame_player_packets)
qed

lemma frame_handle_packet: "game_frame (snd (handle_packet mem0 i data s)) = game_frame s"
proof (cases "parse_packet data")
  case None
  then show ?thesis by (simp add: handle_packet_def)
next
  case (Some p)
  obtain pid n where p: "parse_packet data = Some (pid, n)" using Some by (cases p) simp
  then show ?thesis
    by (cases "packet_handler_db mem0 pid :: (nat \<Rightarrow> bytes \<Rightarrow> 'a game_server_scheme \<Rightarrow> _) option")
      (simp_all add: handle_packet_def frame_handlers)
qed

lemma frame_on_disconnect: "game_frame (game_on_disconnect i s) = game_frame s"
  by (simp add: game_on_disconnect_def split: option.split)

interpretation game_frames: frame_handler game_frame "handle_packet mem0" game_on_disconnect
  for mem0 :: player
proof (unfold_locales, goal_cases)
  case (1 s t)
  then show ?case by (rule game_frame_more)
qed (rule frame_handle_packet frame_on_disconnect)+

subsection \<open>The world\<close>

lemma more_send_to_players:
  "send_to_players as data successed failed s = Some s' \<Longrightarrow> net_state.more s' = net_state.more s"
proof (induction as arbitrary: s)
  case (Cons a as)
  have io: "net_state.more (snd (on_io i f s)) = net_state.more s" for i f and s :: "'a net_state_scheme"
    by (simp add: on_io_def Let_def split: option.splits prod.splits)
  from Cons.prems obtain p r where p: "ns_heap s a = Some p" and r: "try_acquire_connection (pl_key p) (ns_env s) = Some r"
    by (auto split: option.splits)
  show ?case
  proof (cases r)
    case None
    with Cons p r show ?thesis by simp
  next
    case (Some i)
    define s2 where "s2 = (if fst (on_io i (send_raw_data data) s) then
        (case successed of Some f \<Rightarrow> upd_player a f (snd (on_io i (send_raw_data data) s))
         | None \<Rightarrow> (case failed of Some g \<Rightarrow> upd_player a g (snd (on_io i (send_raw_data data) s))
                   | None \<Rightarrow> snd (on_io i (send_raw_data data) s)))
        else snd (on_io i (send_raw_data data) s))"
    have "net_state.more s2 = net_state.more s" by (simp add: s2_def io split: option.split)
    moreover have "send_to_players as data successed failed s2 = Some s'"
      using Cons.prems p r Some by (simp add: Let_def case_prod_beta s2_def)
    ultimately show ?thesis using Cons.IH by metis
  qed
qed simp

lemma more_multicast_to_players:
  "multicast_to_players as data successed s = Some s' \<Longrightarrow> net_state.more s' = net_state.more s"
proof (induction as arbitrary: s)
  case (Cons a as)
  have io: "net_state.more (snd (on_io i f s)) = net_state.more s" for i f and s :: "'a net_state_scheme"
    by (simp add: on_io_def Let_def split: option.splits prod.splits)
  from Cons.prems obtain p r where p: "ns_heap s a = Some p" and r: "try_acquire_connection (pl_key p) (ns_env s) = Some r"
    by (auto split: option.splits)
  show ?case
  proof (cases r)
    case None
    with Cons p r show ?thesis by simp
  next
    case (Some i)
    define s2 where "s2 = (if fst (on_io i (post_multicast_event data) s) then
        (case successed of Some f \<Rightarrow> upd_player a f (snd (on_io i (post_multicast_event data) s))
         | None \<Rightarrow> snd (on_io i (post_multicast_event data) s))
        else snd (on_io i (post_multicast_event data) s))"
    have "net_state.more s2 = net_state.more s" by (simp add: s2_def io split: option.split)
    moreover have "multicast_to_players as data successed s2 = Some s'"
      using Cons.prems p r Some by (simp add: Let_def case_prod_beta s2_def)
    ultimately show ?thesis using Cons.IH by metis
  qed
qed simp

lemma more_spawn_player: "spawn_player ps s = Some s' \<Longrightarrow> net_state.more s' = net_state.more s"
  by (auto simp: spawn_player_def Let_def split: option.splits dest!: more_send_to_players)

lemma more_sync_player_position: "sync_player_position s = Some s' \<Longrightarrow> net_state.more s' = net_state.more s"
  by (auto simp: sync_player_position_def Let_def split: option.splits if_splits dest!: more_multicast_to_players)

lemma more_common_chat_transfer: "common_chat_transfer d s = Some s' \<Longrightarrow> net_state.more s' = net_state.more s"
  by (auto simp: common_chat_transfer_def multicast_to_specific_players_def split: if_splits dest!: more_multicast_to_players)

lemma more_process_level_wait: "process_level_wait_player z ps s = Some s' \<Longrightarrow> net_state.more s' = net_state.more s"
  by (auto simp: process_level_wait_player_def Let_def split: option.splits dest!: more_multicast_to_players)

lemma more_despawn_player: "despawn_player ps s = Some s' \<Longrightarrow> net_state.more s' = net_state.more s"
  by (auto simp: despawn_player_def send_to_specific_players_def split: option.splits dest!: more_send_to_players)

lemma frame_saved [simp]: "game_frame (gamedata_save p s) = game_frame s"
  by (simp add: gamedata_save_def game_frame_def world_status_def cong: world_task_id.case_cong)

lemma frame_disconnect_loop: "disconnect_loop as s = Some s' \<Longrightarrow> game_frame s' = game_frame s"
  for s :: "'a game_server_scheme"
proof (induction as arbitrary: s)
  case (Cons a as)
  from Cons.prems obtain p r where p: "ns_heap s a = Some p" and r: "try_acquire_connection (pl_key p) (ns_env s) = Some r"
    by (auto split: option.splits)
  then have "disconnect_loop as (case r of None \<Rightarrow> s | Some i \<Rightarrow> upd_player a transit_state (gamedata_save p s)) = Some s'"
    using Cons.prems by (simp split: option.splits)
  from Cons.IH [OF this] show ?case by (simp split: option.splits)
qed simp

lemma frame_disconnect_player:
  fixes s :: "'a game_server_scheme"
  assumes "disconnect_player ps s = Some s'"
  shows "game_frame s' = game_frame s"
proof -
  let ?sp = "filter (\<lambda>a. S_spawned \<le> ps_prev (the (ns_heap s a))) ps"
  from assms obtain s1 where "despawn_player ?sp s = Some s1" "disconnect_loop ps s1 = Some s'"
    by (auto simp: disconnect_player_def Let_def split: if_splits option.splits)
  then show ?thesis using more_despawn_player frame_disconnect_loop game_frame_more by metis
qed

lemma length_commit_block_changes: "length (commit_block_changes md h b) = length b"
proof -
  have "length (fold (\<lambda>i. commit_record md (f i)) is b) = length b" for f "is" b
    by (induction "is" arbitrary: b) (simp_all add: commit_record_def Let_def)
  then show ?thesis by (simp add: commit_block_changes_def)
qed

lemma frame_sync_block:
  fixes s :: "'a game_server_scheme"
  assumes "sync_block z ps hist s = Some s'"
  shows "game_frame s' = game_frame s"
proof -
  have m: "game_frame s1 = game_frame s"
    if "multicast_to_specific_players S_level_initialized d
      (s\<lparr>w_block_mapping := commit_block_changes (w_metadata s) hist (w_block_mapping s)\<rparr>) = Some s1" for d s1
  proof -
    have "game_frame s1 = game_frame (s\<lparr>w_block_mapping := commit_block_changes (w_metadata s) hist (w_block_mapping s)\<rparr>)"
      using that by (intro game_frame_more more_multicast_to_players) (simp add: multicast_to_specific_players_def)
    then show ?thesis
      by (simp add: game_frame_def length_commit_block_changes world_status_def cong: world_task_id.case_cong)
  qed
  from assms obtain s1 where s1: "game_frame s1 = game_frame s" and
    "if ps \<noteq> [] then process_level_wait_player z ps s1 = Some s' else s' = s1"
    by (auto simp: sync_block_def dest!: m split: if_splits option.splits)
  then show ?thesis
    by (cases "ps = []") (auto dest: game_frame_more [OF more_process_level_wait])
qed

text \<open>The completion of a task makes it idle and leaves the other tasks as they are.\<close>

definition complete_world_task ::
    "'z zlib \<Rightarrow> world_task_id \<Rightarrow> nat \<Rightarrow> 'a world_scheme \<Rightarrow> 'a world_scheme option" where
  "complete_world_task z t now s =
     (case t of
        WT_spawn_player \<Rightarrow> complete_spawn_player_task now s
      | WT_disconnect_player \<Rightarrow> complete_disconnect_player_task now s
      | WT_sync_block \<Rightarrow> complete_sync_block_task z now s
      | WT_sync_position \<Rightarrow> complete_sync_position_task now s
      | WT_common_chat \<Rightarrow> complete_common_chat_task now s)"

lemma world_status_updates [simp]:
  "world_status t (s\<lparr>w_spawn_player_task := a\<rparr>) = (if t = WT_spawn_player then tk_state a else world_status t s)"
  "world_status t (s\<lparr>w_disconnect_player_task := b\<rparr>) = (if t = WT_disconnect_player then tk_state b else world_status t s)"
  "world_status t (s\<lparr>w_sync_block_task := c\<rparr>) = (if t = WT_sync_block then tk_state c else world_status t s)"
  "world_status t (s\<lparr>w_sync_position_task := d\<rparr>) = (if t = WT_sync_position then tk_state d else world_status t s)"
  "world_status t (s\<lparr>w_common_chat_task := e\<rparr>) = (if t = WT_common_chat then tk_state e else world_status t s)"
  by (simp_all add: world_status_def split: world_task_id.split)

definition frame_with :: "(world_task_id \<Rightarrow> task_state) \<Rightarrow> 'a game_server_scheme \<Rightarrow>
    communicator \<times> world_metadata \<times> nat \<times> (world_task_id \<Rightarrow> task_state)" where
  "frame_with st s = (gs_comm s, w_metadata s, length (w_block_mapping s), st)"

lemma game_frame_eq_iff:
  "game_frame s = game_frame t \<longleftrightarrow> gs_comm s = gs_comm t \<and> w_metadata s = w_metadata t \<and>
     length (w_block_mapping s) = length (w_block_mapping t) \<and> (\<forall>k. world_status k s = world_status k t)"
  by (auto simp: game_frame_def fun_eq_iff)

lemma complete_world_task_frame:
  fixes s :: "'a game_server_scheme"
  assumes "complete_world_task z t now s = Some s'"
  shows "game_frame s' = frame_with ((\<lambda>k. world_status k s)(t := T_unused)) s"
proof -
  have "gs_comm s' = gs_comm s \<and> w_metadata s' = w_metadata s \<and>
      length (w_block_mapping s') = length (w_block_mapping s) \<and>
      (\<forall>k. world_status k s' = ((\<lambda>k. world_status k s)(t := T_unused)) k)"
  proof (cases t)
    case WT_spawn_player
    then obtain s1 a where "spawn_player (wp_players_target (w_spawn_player_task s)) s = Some s1"
      and s': "s' = s1\<lparr>w_spawn_player_task := task_set_state now T_unused a\<rparr>"
      using assms by (auto simp: complete_world_task_def complete_spawn_player_task_def wp_on_event_complete_def Let_def)
    then have "game_frame s1 = game_frame s" using more_spawn_player game_frame_more by blast
    then show ?thesis by (auto simp: game_frame_eq_iff s' WT_spawn_player)
  next
    case WT_disconnect_player
    then obtain s1 a where "disconnect_player (wp_players_target (w_disconnect_player_task s)) s = Some s1"
      and s': "s' = s1\<lparr>w_disconnect_player_task := task_set_state now T_unused a\<rparr>"
      using assms by (auto simp: complete_world_task_def complete_disconnect_player_task_def wp_on_event_complete_def Let_def)
    then have "game_frame s1 = game_frame s" using frame_disconnect_player by blast
    then show ?thesis by (auto simp: game_frame_eq_iff s' WT_disconnect_player)
  next
    case WT_sync_block
    then obtain s1 a where "sync_block z (bs_level_wait_players (w_sync_block_task s)) (bs_history (w_sync_block_task s)) s = Some s1"
      and s': "s' = s1\<lparr>w_sync_block_task := task_set_state now T_unused a\<rparr>"
      using assms by (auto simp: complete_world_task_def complete_sync_block_task_def bs_on_event_complete_def Let_def)
    then have "game_frame s1 = game_frame s" using frame_sync_block by blast
    then show ?thesis by (auto simp: game_frame_eq_iff s' WT_sync_block)
  next
    case WT_sync_position
    then obtain s1 where "sync_player_position s = Some s1"
      and s': "s' = s1\<lparr>w_sync_position_task := task_set_state now T_unused (w_sync_position_task s)\<rparr>"
      using assms by (auto simp: complete_world_task_def complete_sync_position_task_def simple_on_event_complete_def Let_def)
    then have "game_frame s1 = game_frame s" using more_sync_player_position game_frame_more by blast
    then show ?thesis by (auto simp: game_frame_eq_iff s' WT_sync_position)
  next
    case WT_common_chat
    then obtain s1 a where "common_chat_transfer (get_snapshot_data (cc_history (w_common_chat_task s))) s = Some s1"
      and s': "s' = s1\<lparr>w_common_chat_task := task_set_state now T_unused a\<rparr>"
      using assms by (auto simp: complete_world_task_def complete_common_chat_task_def cc_on_event_complete_def Let_def)
    then have "game_frame s1 = game_frame s" using more_common_chat_transfer game_frame_more by blast
    then show ?thesis by (auto simp: game_frame_eq_iff s' WT_common_chat)
  qed
  then show ?thesis by (auto simp: game_frame_def frame_with_def fun_eq_iff)
qed

subsection \<open>The tick of the world\<close>

lemma frame_handshake_success [simp]: "game_frame (on_handshake_success cfg i p s) = game_frame s"
  by (simp add: on_handshake_success_def Let_def)

lemma frame_push_tasks [simp]:
  "game_frame (s\<lparr>w_sync_block_task := bs_push_player a (w_sync_block_task s)\<rparr>) = game_frame s"
  "game_frame (s\<lparr>w_spawn_player_task := wp_push a (w_spawn_player_task s)\<rparr>) = game_frame s"
  "game_frame (s\<lparr>w_disconnect_player_task := wp_push a (w_disconnect_player_task s)\<rparr>) = game_frame s"
  by (simp_all add: game_frame_eq_iff bs_push_player_def wp_push_def) (simp_all add: world_status_def)

lemma frame_transit_player_state:
  "game_frame (transit_player_state cfg order game_on_disconnect now i a s) = game_frame s"
proof (cases "ns_heap s a")
  case None
  then show ?thesis by (simp add: transit_player_state_def)
next
  case (Some p)
  have ext: "game_frame (let (ok, s) = on_io i (send_packet ext_info_serialize) s
      in if \<not> ok then s
         else let (ok, s) = on_io i (send_packet (\<lambda>push. ext_entry_serialize push order)) s
              in if ok then upd_player a (prepare_state_transition S_extension_syncing S_extension_synced) s else s) = game_frame s"
    by (simp add: Let_def case_prod_beta)
  show ?thesis
    using Some ext game_frames.proj_disconnect [of now i s]
    by (cases "ps_cur p") (simp_all add: transit_player_state_def Let_def)
qed

lemma frame_for_each_player:
  assumes "\<And>i a s. game_frame (f i a s) = game_frame s"
  shows "game_frame (for_each_player f s) = game_frame s"
proof -
  have "game_frame (fold (\<lambda>i s. if \<not> ce_will_delete (env_table (ns_env s) ! i)
                 then (case associated_player i s of None \<Rightarrow> s | Some a \<Rightarrow> f i a s) else s) is s) = game_frame s" for "is" s
    by (induction "is" arbitrary: s) (simp_all add: assms split: option.split)
  then show ?thesis by (simp add: for_each_player_def)
qed

lemma task_ready_unused: "task_ready now t \<Longrightarrow> tk_state t = T_unused"
  by (simp add: task_ready_def)

lemma ready_unused:
  "wp_ready now a \<Longrightarrow> tk_state a = T_unused" "bs_ready now b \<Longrightarrow> tk_state b = T_unused"
  "cc_ready now c \<Longrightarrow> tk_state c = T_unused"
  by (auto simp: wp_ready_def bs_ready_def cc_ready_def dest: task_ready_unused)

lemma before_scheduling_state [simp]:
  "tk_state (wp_before_scheduling now a) = T_processing" "tk_state (bs_before_scheduling now b) = T_processing"
  "tk_state (cc_before_scheduling now c) = T_processing" "tk_state (task_before_scheduling now d) = T_processing"
  by (simp_all add: wp_before_scheduling_def bs_before_scheduling_def cc_before_scheduling_def
      task_before_scheduling_def Let_def)

lemma schedule_world_tasks_eq:
  "schedule_world_tasks now s =
     (let a = wp_ready now (w_spawn_player_task s); b = wp_ready now (w_disconnect_player_task s);
          c = bs_ready now (w_sync_block_task s); d = task_ready now (w_sync_position_task s);
          e = cc_ready now (w_common_chat_task s)
      in ((if a then [WT_spawn_player] else []) @ (if b then [WT_disconnect_player] else []) @
            (if c then [WT_sync_block] else []) @ (if d then [WT_sync_position] else []) @
            (if e then [WT_common_chat] else []),
          s\<lparr>w_spawn_player_task := (if a then wp_before_scheduling now else id) (w_spawn_player_task s),
            w_disconnect_player_task := (if b then wp_before_scheduling now else id) (w_disconnect_player_task s),
            w_sync_block_task := (if c then bs_before_scheduling now else id) (w_sync_block_task s),
            w_sync_position_task := (if d then task_before_scheduling now else id) (w_sync_position_task s),
            w_common_chat_task := (if e then cc_before_scheduling now else id) (w_common_chat_task s)\<rparr>))"
  by (cases "wp_ready now (w_spawn_player_task s)"; cases "wp_ready now (w_disconnect_player_task s)";
      cases "bs_ready now (w_sync_block_task s)"; cases "task_ready now (w_sync_position_task s)";
      cases "cc_ready now (w_common_chat_task s)") (simp_all add: schedule_world_tasks_def)

lemma schedule_world_tasks_effect:
  assumes "schedule_world_tasks now s = (ids, s')"
  shows "distinct ids" "t \<in> set ids \<Longrightarrow> world_status t s = T_unused"
    "world_status t s' = (if t \<in> set ids then T_processing else world_status t s)"
proof -
  show "distinct ids" using assms by (auto simp: schedule_world_tasks_eq Let_def)
  show "t \<in> set ids \<Longrightarrow> world_status t s = T_unused"
    using assms by (auto simp: schedule_world_tasks_eq Let_def world_status_def ready_unused task_ready_unused split: if_splits)
  show "world_status t s' = (if t \<in> set ids then T_processing else world_status t s)"
    using assms by (cases t) (auto simp: schedule_world_tasks_eq Let_def world_status_def)
qed

lemma schedule_world_tasks_rest:
  fixes s :: "'a game_server_scheme"
  assumes "schedule_world_tasks now s = (ids, s')"
  shows "gs_comm s' = gs_comm s" "w_metadata s' = w_metadata s" "w_block_mapping s' = w_block_mapping s"
proof -
  have "gs_comm (snd (schedule_world_tasks now s)) = gs_comm s \<and> w_metadata (snd (schedule_world_tasks now s)) = w_metadata s \<and>
      w_block_mapping (snd (schedule_world_tasks now s)) = w_block_mapping s"
    by (simp add: schedule_world_tasks_def Let_def case_prod_beta)
  with assms show "gs_comm s' = gs_comm s" "w_metadata s' = w_metadata s" "w_block_mapping s' = w_block_mapping s"
    by simp_all
qed

lemma world_tick_effect:
  fixes s :: "'a game_server_scheme"
  assumes "world_tick cfg order game_on_disconnect now s = (ids, s')"
  shows "distinct ids" "t \<in> set ids \<Longrightarrow> world_status t s = T_unused"
    "world_status t s' = (if t \<in> set ids then T_processing else world_status t s)"
    "gs_comm s' = gs_comm s" "w_metadata s' = w_metadata s" "length (w_block_mapping s') = length (w_block_mapping s)"
proof -
  let ?s = "for_each_player (transit_player_state cfg order game_on_disconnect now) s"
  have f: "game_frame ?s = game_frame s"
    by (rule frame_for_each_player) (rule frame_transit_player_state)
  have sch: "schedule_world_tasks now ?s = (ids, s')" using assms by (simp add: world_tick_def)
  note e = schedule_world_tasks_effect [OF sch] schedule_world_tasks_rest [OF sch]
  show "distinct ids" by (rule e(1))
  show "t \<in> set ids \<Longrightarrow> world_status t s = T_unused" using e(2) f by (simp add: game_frame_eq_iff)
  show "world_status t s' = (if t \<in> set ids then T_processing else world_status t s)"
    using e(3) f by (simp add: game_frame_eq_iff)
  show "gs_comm s' = gs_comm s" "w_metadata s' = w_metadata s" "length (w_block_mapping s') = length (w_block_mapping s)"
    using e(4-6) f by (simp_all add: game_frame_eq_iff)
qed

end
