(* ===== verification/Game_System.thy ===== *)
theory Game_System
  imports Frames
begin

section \<open>The game server as a system of events\<close>

text \<open>
  The whole game server as a step relation: completed I/O, accepted clients, messages of the
  login server (with the database read that suspends the handler), the tick of the server and of
  the world, and the completion of the world's tasks, in any order and any number. An operation
  that has no result (undefined behaviour) has no step. Every reachable state satisfies the
  ownership invariant, and every player moves only along the transitions of a session.

  The events are atomic here. In the program the completion handlers run on several threads;
  what their interleaving does to the send buffer is the subject of \<open>Lockfree_Send\<close>.
\<close>

subsection \<open>The handlers keep sessions\<close>

lemma net_keeps_gs_sent [simp]: "net_keeps s (t\<lparr>gs_sent := x\<rparr>) = net_keeps s t"
  by (simp add: net_keeps_def evolves_def)

lemma net_keeps_gs_send [simp]: "net_keeps s (gs_send m t) = net_keeps s t"
  by (simp add: gs_send_def)

lemma net_keeps_io_packet:
  assumes "\<And>c. f c = cio_push bs c"
  shows "net_keeps s (snd (on_io i f s))"
  by (rule net_keeps_on_io) (simp add: assms cio_wf_push)

lemma associated_player_set_player:
  assumes "conn_of i s = Some c"
  shows "associated_player i (set_player i p s) = Some (ns_next_addr s)"
  using assms by (simp add: associated_player_def set_player_def conn_of_upd_conn Let_def)

lemma handshake_net_keeps:
  assumes wf: "net_wf s" and i: "conn_of i s \<noteq> None"
  shows "net_keeps s (snd (handle_handshake mem0 i data s))"
proof (cases "handshake_parse data")
  case None
  then show ?thesis by (simp add: handle_handshake_def)
next
  case (Some packet)
  from i obtain c where c: "conn_of i s = Some c" by blast
  let ?p = "player_ctor mem0 (cn_key c) (hs_username packet)"
  let ?s = "set_player i ?p s"
  let ?a = "ns_next_addr s"
  have p: "session ?p = fresh_session" "pl_key ?p = cn_key c" by (simp_all add: session_def player_ctor_def)
  have k: "net_keeps s ?s" by (rule net_keeps_set_player [OF c p(2,1)])
  have h: "ns_heap ?s ?a = Some ?p" by (rule set_player_effect(3) [OF wf c p(2)])
  have "net_keeps ?s (upd_player ?a (prepare_state_transition S_ex_handshaking S_ex_handshaked) ?s)"
    "net_keeps ?s (upd_player ?a (prepare_state_transition S_handshaking S_handshaked) ?s)"
    using h p(1) by (auto intro!: net_keeps_prepare simp: session_step_iff)
  then have "net_keeps s (upd_player ?a (prepare_state_transition S_ex_handshaking S_ex_handshaked) ?s)"
    "net_keeps s (upd_player ?a (prepare_state_transition S_handshaking S_handshaked) ?s)"
    by (auto intro: net_keeps_trans [OF k])
  then show ?thesis
    using Some c by (simp add: handle_handshake_def Let_def associated_player_set_player [OF c])
qed

lemma keeps_session_ext_entry: "keeps_session (ext_entry_update packet) p"
proof -
  define q where "q = (if is_available_cpe (ee_extenstion_name packet) (ee_version packet)
     then (case Option.bind (cpe_index_of (ee_extenstion_name packet)) (\<lambda>e. register_extension e p) of
             Some p \<Rightarrow> p | None \<Rightarrow> p) else p)"
  obtain n r where d: "decrease_pending_extension_count q = (n, r)" by fastforce
  have "pl_key q = pl_key p \<and> session q = session p"
    by (auto simp: q_def register_extension_def session_def split: option.splits bind_splits if_splits)
  moreover have "pl_key r = pl_key q \<and> session r = session q"
    using d by (auto simp: decrease_pending_extension_count_def session_def Let_def)
  moreover have "ext_entry_update packet p = (if n = 0 then transit_state r else r)"
    using d by (simp add: ext_entry_update_def Let_def flip: q_def)
  ultimately show ?thesis
    using keeps_session_transit [of r] by (auto simp: keeps_session_def)
qed

lemma set_block_net_keeps: "net_keeps s (snd (handle_set_block_packet i data s))"
proof (cases "set_block_client_parse data")
  case (Some packet)
  have change: "net_keeps s (snd (try_change_block pos blk s))" for pos blk
    by (simp add: try_change_block_def Let_def case_prod_beta)
  have "net_keeps t (snd (on_io i (send_packet (\<lambda>push. set_block_server_serialize push r)) t))"
    for r and t :: "'a game_server_scheme"
    by (rule net_keeps_io_packet) (simp add: send_packet_def set_block_server_serialize_def)
  note io = net_keeps_trans [OF change this]
  show ?thesis
    using Some change io by (simp add: handle_set_block_packet_def Let_def case_prod_beta)
qed (simp add: handle_set_block_packet_def)

lemma chat_message_net_keeps: "net_keeps s (snd (handle_chat_message_packet i data s))"
  by (auto simp: handle_chat_message_packet_def try_add_common_chat_def Let_def case_prod_beta split: option.split)

lemma player_updates_net_keep:
  "net_keeps s (snd (handle_player_position_packet i data s))"
  "net_keeps s (snd (handle_ext_info_packet i data s))"
  by (auto simp: handle_player_position_packet_def handle_ext_info_packet_def
      set_position_def set_extension_count_def
      intro!: net_keeps_upd_player keeps_session_same split: option.split)

lemma ext_entry_net_keeps: "net_keeps s (snd (handle_ext_entry_packet i data s))"
  by (auto simp: handle_ext_entry_packet_def
      intro!: net_keeps_upd_player keeps_session_ext_entry split: option.split)

lemma pings_net_keep:
  "net_keeps s (snd (handle_ping_packet i data s))"
  "net_keeps s (snd (handle_two_way_ping_packet i data s))"
  "net_keeps s (snd (handle_ext_ping_packet i data s))"
  by (auto simp: handle_ping_packet_def handle_two_way_ping_packet_def handle_ext_ping_packet_def
      send_ping_def send_raw_data_def send_packet_def ext_ping_serialize_def
      intro!: net_keeps_io_packet split: option.split)

lemma handle_packet_net_keeps:
  assumes "net_wf s" "conn_of i s \<noteq> None"
  shows "net_keeps s (snd (handle_packet mem0 i data s))"
  using handshake_net_keeps [OF assms]
  by (auto simp: handle_packet_def packet_handler_db_def set_block_net_keeps chat_message_net_keeps
      player_updates_net_keep ext_entry_net_keeps pings_net_keep split: option.split prod.split)

lemma on_disconnect_net_keeps: "net_keeps s (game_on_disconnect i s)"
  by (auto simp: game_on_disconnect_def split: option.split)

interpretation game_sessions: session_handler "handle_packet mem0" game_on_disconnect
  for mem0 :: player
proof (unfold_locales, goal_cases)
  case (1 s i data pid n r s')
  from handle_packet_net_keeps [OF 1(1,2), of mem0 data] 1 show ?case by (simp add: net_keeps_def)
next
  case (2 s i)
  from on_disconnect_net_keeps [of s i] 2 show ?case by (simp add: net_keeps_def)
qed

subsection \<open>The login server's answer\<close>

lemma guest_update_keeps: "keeps_session (\<lambda>p. transit_state (set_player_type t p)) p"
  using keeps_session_transit [of "set_player_type t p"]
  by (simp add: keeps_session_def set_player_type_def session_def)

lemma identity_update_keeps: "keeps_session (\<lambda>p. set_uuid u (set_player_type t p)) p"
  by (rule keeps_session_same) (simp_all add: set_uuid_def set_player_type_def)

lemma gamedata_update_keeps: "keeps_session (\<lambda>p. transit_state (set_gamedata gd p)) p"
  using keeps_session_transit [of "set_gamedata gd p"]
  by (simp add: keeps_session_def set_gamedata_def session_def)

definition progress_state :: "'w handshake_progress \<Rightarrow> 'w" where
  "progress_state p = (case p of Finished w \<Rightarrow> w | Await_gamedata _ _ w \<Rightarrow> w)"

lemma progress_state_simps [simp]:
  "progress_state (Finished w) = w" "progress_state (Await_gamedata k u w) = w"
  by (simp_all add: progress_state_def)

lemma handshake_response_start_keeps:
  assumes "handshake_response_start dec now r s = Some p"
  shows "net_keeps s (progress_state p)"
proof -
  have id: "net_keeps s (upd_player a (\<lambda>p. set_uuid u (set_player_type t p)) s)" for a u t
    by (rule net_keeps_upd_player) (rule identity_update_keeps)
  have g: "net_keeps s (upd_player a (\<lambda>p. transit_state (set_player_type t p)) s)" for a t
    by (rule net_keeps_upd_player) (rule guest_update_keeps)
  have k: "net_keeps t t'" if "kick_result game_on_disconnect now e i t = Some t'"
    for e i and t t' :: "'a game_server_scheme"
    by (rule game_sessions.net_keeps_kick_result [OF that])
  show ?thesis
    using assms id g
    by (auto simp: handshake_response_start_def Let_def dest!: k intro: net_keeps_trans [OF id]
        split: option.splits proto_message.splits if_splits)
qed

lemma handshake_response_resume_keeps:
  assumes "handshake_response_resume now key result s = Some s'"
  shows "net_keeps s s'"
proof -
  have gd: "net_keeps s (upd_player a (\<lambda>p. transit_state (set_gamedata g p)) s)" for a g
    by (rule net_keeps_upd_player) (rule gamedata_update_keeps)
  have tr: "net_keeps s (upd_player a transit_state s)" for a
    by (rule net_keeps_upd_player) (rule keeps_session_transit)
  have k: "net_keeps s t" if "kick_result game_on_disconnect now e i s = Some t" for e i t
    by (rule game_sessions.net_keeps_kick_result [OF that])
  show ?thesis
    using assms gd tr k
    by (auto simp: handshake_response_resume_def split: option.splits db_get.splits)
qed

subsection \<open>Ticks\<close>

lemma net_keeps_flush_send: "net_keeps s (flush_send rio rm s)"
  unfolding flush_send_def
  by (rule net_keeps_for_each_connection) (simp add: net_keeps_upd_conn flush_send_connection_wf)

lemma net_keeps_flush_receive: "net_keeps s (flush_receive mp rio s)"
  unfolding flush_receive_def
  by (rule net_keeps_for_each_connection) (simp add: net_keeps_upd_conn flush_receive_connection_wf)

lemma game_tick_keeps: "game_tick mp rs rm rr posted ts s = (ts', s') \<Longrightarrow> net_keeps s s'"
  by (auto simp: game_tick_def Let_def intro: net_keeps_trans [OF net_keeps_flush_send net_keeps_flush_receive])

lemma game_world_tick_keeps: "net_keeps s (snd (world_tick cfg order game_on_disconnect now s))"
  by (rule world_tick_keeps) (rule game_sessions.net_keeps_disconnect)

subsection \<open>The system\<close>

text \<open>
  The state: the server, its listening side, the world's tasks that were handed to the completion
  port and have not completed, and the handlers that wait for the database. \<open>platform\<close> collects
  what comes from outside: uninitialised memory, the clock, the codec of the messages, the
  configuration, zlib.
\<close>

record game_system =
  sy_game :: game_server
  sy_tcp :: "game_server tcp_server"
  sy_tasks :: "world_task_id list"
  sy_waiting :: "(connection_key \<times> bytes) list"

record 'z platform =
  pf_mem :: player
  pf_clock :: "nat \<Rightarrow> nat"
  pf_dec :: "nat \<Rightarrow> bytes \<Rightarrow> proto_message option"
  pf_cfg :: tcp_server_config
  pf_cpe_order :: "(bytes \<times> cpe_info) list"
  pf_max_packet :: nat
  pf_zlib :: "'z zlib"

text \<open>
  The constructors of the server and of the world; the world's map is loaded before the loop, and
  the memory of the histories is not initialised.
\<close>

definition world_new_tasks ::
    "double_buffering \<Rightarrow> double_buffering \<Rightarrow> world_metadata \<Rightarrow> bytes \<Rightarrow> communicator \<Rightarrow> nat \<Rightarrow> game_server" where
  "world_new_tasks blocks chat md block_map comm max_clients =
     net_init max_clients
       \<lparr>w_spawn_player_task = world_player_task_new spawn_player_interval,
        w_disconnect_player_task = world_player_task_new despawn_player_interval,
        w_sync_block_task = block_sync_task_new blocks sync_block_interval,
        w_sync_position_task = task_new sync_player_position_interval,
        w_common_chat_task = common_chat_task_new chat common_chat_transfer_interval,
        w_metadata = md, w_block_mapping = block_map, w_last_save_map_at = 0, w_saved = [],
        \<dots> = \<lparr>gs_comm = comm, gs_sent = []\<rparr>\<rparr>"

inductive game_init :: "'z platform \<Rightarrow> game_system \<Rightarrow> bool" for pf where
  "comm_wf comm \<Longrightarrow> max_clients < 2 ^ 32 \<Longrightarrow>
    game_init pf \<lparr>sy_game = world_new_tasks blocks chat md block_map comm max_clients,
      sy_tcp = fst (tcp_server_new (pf_clock pf) k game_on_disconnect), sy_tasks = [], sy_waiting = []\<rparr>"

text \<open>
  The events. What the system guarantees of its completions: a receive brings no more bytes than
  the range that was posted, and a send takes no more than was in the buffer.
\<close>

inductive game_step :: "'z platform \<Rightarrow> game_system \<Rightarrow> game_system \<Rightarrow> bool" for pf where
  receive: "conn_of i (sy_game s) = Some c \<Longrightarrow>
    (\<forall>bs. completion = Recv_data bs \<longrightarrow> length bs \<le> recv_unused_size (re_data (cio_recv (cn_io c)))) \<Longrightarrow>
    recv_on_event_complete (handle_packet (pf_mem pf)) game_on_disconnect now i completion (sy_game s) = Some g \<Longrightarrow>
    game_step pf s (s\<lparr>sy_game := g\<rparr>)"
| send: "conn_of i (sy_game s) = Some c \<Longrightarrow> sig \<noteq> Sig_retry_packet_process \<Longrightarrow>
    (\<forall>n. sig = Transferred n \<longrightarrow> n \<le> length (cio_pending (cn_io c))) \<Longrightarrow>
    game_step pf s (s\<lparr>sy_game := send_on_event_complete game_on_disconnect now i sig (sy_game s)\<rparr>)"
| multicast: "game_step pf s (s\<lparr>sy_game := multicast_on_event_complete game_on_disconnect now i ev sig (sy_game s)\<rparr>)"
| accept: "accept_on_event_complete (pf_clock pf) k tick32 now failed posted (sy_tcp s) (sy_game s) = (ts, g) \<Longrightarrow>
    game_step pf s (s\<lparr>sy_game := g, sy_tcp := ts\<rparr>)"
| message: "handle_common_message (pf_dec pf) r (gs_comm (sy_game s)) = Some (common, comm) \<Longrightarrow> common \<noteq> Some False \<Longrightarrow>
    game_handle_message (pf_dec pf) now r ((sy_game s)\<lparr>gs_comm := comm\<rparr>) = Some (handled, progress) \<Longrightarrow>
    game_step pf s (s\<lparr>sy_game := progress_state progress,
      sy_waiting := sy_waiting s @ (case progress of Await_gamedata key uuid _ \<Rightarrow> [(key, uuid)] | _ \<Rightarrow> [])\<rparr>)"
| resume: "(key, uuid) \<in> set (sy_waiting s) \<Longrightarrow>
    handshake_response_resume now key result (sy_game s) = Some g \<Longrightarrow>
    game_step pf s (s\<lparr>sy_game := g, sy_waiting := remove1 (key, uuid) (sy_waiting s)\<rparr>)"
| tick: "game_tick (pf_max_packet pf) rio_send rio_multicast rio_recv posted (sy_tcp s) (sy_game s) = (ts, g) \<Longrightarrow>
    game_step pf s (s\<lparr>sy_game := g, sy_tcp := ts\<rparr>)"
| world_tick: "world_tick (pf_cfg pf) (pf_cpe_order pf) game_on_disconnect now (sy_game s) = (ids, g) \<Longrightarrow>
    game_step pf s (s\<lparr>sy_game := g, sy_tasks := sy_tasks s @ ids\<rparr>)"
| world_task: "t \<in> set (sy_tasks s) \<Longrightarrow> complete_world_task (pf_zlib pf) t now (sy_game s) = Some g \<Longrightarrow>
    game_step pf s (s\<lparr>sy_game := g, sy_tasks := remove1 t (sy_tasks s)\<rparr>)"
| announce: "game_step pf s (s\<lparr>sy_game := game_announce_server a (sy_game s)\<rparr>)"

abbreviation game_steps :: "'z platform \<Rightarrow> game_system \<Rightarrow> game_system \<Rightarrow> bool" where
  "game_steps pf \<equiv> (game_step pf)\<^sup>*\<^sup>*"

subsection \<open>The invariant of the system\<close>

text \<open>
  The ownership invariant; the accept side runs nothing but the clean-up; the table of servers has
  its size; and a task is in flight exactly when it is in the state \<open>processing\<close>, and then once.
\<close>

definition tasks_wf :: "game_system \<Rightarrow> bool" where
  "tasks_wf s \<longleftrightarrow> distinct (sy_tasks s) \<and>
     (\<forall>t. world_status t (sy_game s) = (if t \<in> set (sy_tasks s) then T_processing else T_unused))"

definition game_wf :: "game_system \<Rightarrow> bool" where
  "game_wf s \<longleftrightarrow> net_wf (sy_game s) \<and> tcp_wf game_on_disconnect (sy_tcp s) \<and> comm_wf (gs_comm (sy_game s)) \<and> tasks_wf s"

text \<open>What one step does: the players evolve, the invariant is kept, the map keeps its size.\<close>

definition step_ok :: "game_system \<Rightarrow> game_system \<Rightarrow> bool" where
  "step_ok s s' \<longleftrightarrow> game_wf s' \<and> evolves (sy_game s) (sy_game s') \<and>
     w_metadata (sy_game s') = w_metadata (sy_game s) \<and>
     length (w_block_mapping (sy_game s')) = length (w_block_mapping (sy_game s))"

lemma step_okI:
  assumes "game_wf s" "net_keeps (sy_game s) g" "game_frame g = game_frame (sy_game s)"
    and "tcp_wf game_on_disconnect ts"
  shows "step_ok s (s\<lparr>sy_game := g, sy_tcp := ts, sy_waiting := w\<rparr>)"
  using assms by (simp add: step_ok_def game_wf_def tasks_wf_def net_keeps_def game_frame_eq_iff)

lemma step_ok_game:
  assumes "game_wf s" "net_keeps (sy_game s) g" "game_frame g = game_frame (sy_game s)"
  shows "step_ok s (s\<lparr>sy_game := g\<rparr>)" "step_ok s (s\<lparr>sy_game := g, sy_waiting := w\<rparr>)"
proof -
  have "tcp_wf game_on_disconnect (sy_tcp s)" using assms(1) by (simp add: game_wf_def)
  from step_okI [OF assms this] have s: "step_ok s (s\<lparr>sy_game := g, sy_tcp := sy_tcp s, sy_waiting := v\<rparr>)" for v .
  have "s\<lparr>sy_game := g, sy_tcp := sy_tcp s, sy_waiting := sy_waiting s\<rparr> = s\<lparr>sy_game := g\<rparr>"
    "s\<lparr>sy_game := g, sy_tcp := sy_tcp s, sy_waiting := w\<rparr> = s\<lparr>sy_game := g, sy_waiting := w\<rparr>"
    by (cases s; simp)+
  with s show "step_ok s (s\<lparr>sy_game := g\<rparr>)" "step_ok s (s\<lparr>sy_game := g, sy_waiting := w\<rparr>)" by metis+
qed

lemma send_event_keeps:
  assumes c: "conn_of i s = Some c" and n: "\<And>n. sig = Transferred n \<Longrightarrow> n \<le> length (cio_pending (cn_io c))"
    and "sig \<noteq> Sig_retry_packet_process"
  shows "net_keeps s (send_on_event_complete game_on_disconnect now i sig s)"
proof (cases sig)
  case Sig_eof
  then show ?thesis by (simp add: send_on_event_complete_def game_sessions.net_keeps_disconnect)
next
  case Sig_event_failed
  then show ?thesis
    by (auto simp: send_on_event_complete_def cio_wf_def intro!: net_keeps_upd_conn)
next
  case (Transferred n)
  then have "net_keeps s (upd_conn i (\<lambda>c. c\<lparr>cn_io := (cn_io c)\<lparr>cio_send :=
      \<lparr>se_processing = False, se_data = lf_pop n (se_data (cio_send (cn_io c)))\<rparr>\<rparr>\<rparr>) s)"
    using n c by (intro net_keeps_upd_conn) (auto simp: cio_wf_def cio_pending_def intro: lf.wf_pop)
  with Transferred show ?thesis by (simp add: send_on_event_complete_def Let_def)
qed (use assms(3) in simp)

lemma multicast_event_keeps: "net_keeps s (multicast_on_event_complete game_on_disconnect now i ev sig s)"
  by (auto simp: multicast_on_event_complete_def game_sessions.net_keeps_disconnect net_keeps_upd_conn
      free_multicast_event_wf split: io_signal.split)

lemma handshake_response_start_frame:
  assumes "handshake_response_start dec now r s = Some p"
  shows "game_frame (progress_state p) = game_frame s"
proof -
  have k: "game_frame t' = game_frame t" if "kick_result game_on_disconnect now e i t = Some t'"
    for e i and t t' :: "'a game_server_scheme"
    by (rule game_frames.proj_kick_result [OF that])
  show ?thesis
    using assms
    by (auto simp: handshake_response_start_def Let_def dest!: k
        split: option.splits proto_message.splits if_splits)
qed

lemma handshake_response_resume_frame:
  assumes "handshake_response_resume now key result s = Some s'"
  shows "game_frame s' = game_frame s"
proof -
  have k: "game_frame t = game_frame s" if "kick_result game_on_disconnect now e i s = Some t" for e i t
    by (rule game_frames.proj_kick_result [OF that])
  show ?thesis
    using assms by (auto simp: handshake_response_resume_def dest!: k split: option.splits db_get.splits)
qed

lemma game_handle_message_keeps:
  assumes "game_handle_message dec now r s = Some (b, p)"
  shows "net_keeps s (progress_state p)" "game_frame (progress_state p) = game_frame s"
  using assms handshake_response_start_keeps handshake_response_start_frame
  by (auto simp: game_handle_message_def split: if_splits)

lemma handle_common_message_wf:
  "handle_common_message dec r c = Some (b, c') \<Longrightarrow> comm_wf c \<Longrightarrow> comm_wf c'"
  by (auto simp: handle_common_message_def handle_server_announcement_def register_server_def comm_wf_def
      split: if_splits option.splits proto_message.splits)

lemma world_status_comm [simp]: "world_status t (s\<lparr>gs_comm := c\<rparr>) = world_status t s"
  by (simp add: world_status_def split: world_task_id.split)

lemma net_keeps_comm: "net_keeps s (s\<lparr>gs_comm := c\<rparr>)"
  by (rule net_keeps_same) simp_all

lemma step_ok_message:
  assumes wf: "game_wf s" and c: "handle_common_message dec r (gs_comm (sy_game s)) = Some (common, comm)"
    and m: "game_handle_message dec now r ((sy_game s)\<lparr>gs_comm := comm\<rparr>) = Some (b, p)"
  shows "step_ok s (s\<lparr>sy_game := progress_state p, sy_waiting := w\<rparr>)"
proof -
  let ?g = "(sy_game s)\<lparr>gs_comm := comm\<rparr>"
  have "comm_wf comm" using handle_common_message_wf [OF c] wf by (simp add: game_wf_def)
  moreover note game_handle_message_keeps [OF m]
  moreover from this have "net_keeps (sy_game s) (progress_state p)" using net_keeps_comm net_keeps_trans by blast
  ultimately show ?thesis
    using wf by (simp add: step_ok_def game_wf_def tasks_wf_def net_keeps_def game_frame_eq_iff)
qed

lemma step_ok_world_tick:
  assumes wf: "game_wf s" and t: "world_tick cfg order game_on_disconnect now (sy_game s) = (ids, g)"
  shows "step_ok s (s\<lparr>sy_game := g, sy_tasks := sy_tasks s @ ids\<rparr>)"
proof -
  note e = world_tick_effect [OF t]
  have "net_keeps (sy_game s) g" using game_world_tick_keeps [of "sy_game s" cfg order now] t by simp
  moreover have "t \<notin> set (sy_tasks s)" if "t \<in> set ids" for t
    using e(2) [OF that] wf by (auto simp: game_wf_def tasks_wf_def)
  ultimately show ?thesis
    using wf e by (auto simp: step_ok_def game_wf_def tasks_wf_def net_keeps_def)
qed

lemma complete_world_task_keeps: "complete_world_task z t now s = Some s' \<Longrightarrow> net_keeps s s'"
  by (cases t) (simp_all add: complete_world_task_def complete_tasks_keep)

lemma step_ok_world_task:
  assumes wf: "game_wf s" and t: "t \<in> set (sy_tasks s)" and c: "complete_world_task z t now (sy_game s) = Some g"
  shows "step_ok s (s\<lparr>sy_game := g, sy_tasks := remove1 t (sy_tasks s)\<rparr>)"
proof -
  have "gs_comm g = gs_comm (sy_game s)" "w_metadata g = w_metadata (sy_game s)"
    "length (w_block_mapping g) = length (w_block_mapping (sy_game s))"
    and st: "\<And>k. world_status k g = ((\<lambda>k. world_status k (sy_game s))(t := T_unused)) k"
    using complete_world_task_frame [OF c] by (auto simp: game_frame_def frame_with_def fun_eq_iff)
  moreover have "net_keeps (sy_game s) g" by (rule complete_world_task_keeps [OF c])
  ultimately show ?thesis
    using wf by (auto simp: step_ok_def game_wf_def tasks_wf_def net_keeps_def)
qed

lemma game_tick_tcp: "game_tick mp rs rm rr posted ts s = (ts', s') \<Longrightarrow> tcp_wf on_disc ts \<Longrightarrow> tcp_wf on_disc ts'"
  by (auto simp: game_tick_def start_accept_def tcp_wf_def Let_def split: if_splits)

lemma game_tick_frame: "game_tick mp rs rm rr posted ts s = (ts', s') \<Longrightarrow> game_frame s' = game_frame s"
  by (auto simp: game_tick_def game_frames.proj_flush Let_def)

lemma step_ok_tcp:
  assumes "game_wf s" "net_keeps (sy_game s) g" "game_frame g = game_frame (sy_game s)"
    and "tcp_wf game_on_disconnect ts"
  shows "step_ok s (s\<lparr>sy_game := g, sy_tcp := ts\<rparr>)"
proof -
  have "s\<lparr>sy_game := g, sy_tcp := ts, sy_waiting := sy_waiting s\<rparr> = s\<lparr>sy_game := g, sy_tcp := ts\<rparr>" by (cases s) simp
  with step_okI [OF assms] show ?thesis by metis
qed

lemma game_step_ok: "game_step pf s s' \<Longrightarrow> game_wf s \<Longrightarrow> step_ok s s'"
proof (induction rule: game_step.induct)
  case (receive i s c completion now g)
  have wf: "net_wf (sy_game s)" using receive(4) by (simp add: game_wf_def)
  have "net_wf g \<and> evolves (sy_game s) g"
    by (rule game_sessions.recv_event_keeps [OF wf receive(1) _ receive(3)]) (use receive(2) in blast)
  then have "net_keeps (sy_game s) g" by (simp add: net_keeps_def)
  moreover have "game_frame g = game_frame (sy_game s)" by (rule game_frames.proj_recv_event [OF receive(3)])
  ultimately show ?case by (rule step_ok_game(1) [OF receive(4)])
next
  case (send i s c sig now)
  have "net_keeps (sy_game s) (send_on_event_complete game_on_disconnect now i sig (sy_game s))"
    by (rule send_event_keeps [OF send(1) _ send(2)]) (use send(3) in blast)
  then show ?case by (rule step_ok_game(1) [OF send(4)]) (rule game_frames.proj_send_event)
next
  case (multicast s now i ev sig)
  show ?case
    by (rule step_ok_game(1) [OF multicast multicast_event_keeps]) (rule game_frames.proj_multicast_event)
next
  case (accept k tick32 now failed posted s ts g)
  have wf: "net_wf (sy_game s)" "tcp_wf game_on_disconnect (sy_tcp s)" using accept(2) by (simp_all add: game_wf_def)
  have "tcp_wf game_on_disconnect ts" using game.accept_event_wf [OF wf accept(1)] by simp
  then show ?case
    by (rule step_ok_tcp [OF accept(2) game_sessions.net_keeps_accept [OF wf(2) accept(1)]
          game_frames.proj_accept [OF wf(2) accept(1)]])
next
  case (message r s common comm now handled progress)
  then show ?case by (intro step_ok_message)
next
  case (resume key uuid s now result g)
  show ?case
    by (rule step_ok_game(2) [OF resume(3) handshake_response_resume_keeps [OF resume(2)]
          handshake_response_resume_frame [OF resume(2)]])
next
  case (tick rio_send rio_multicast rio_recv posted s ts g)
  have "tcp_wf game_on_disconnect (sy_tcp s)" using tick(2) by (simp add: game_wf_def)
  from game_tick_tcp [OF tick(1) this] show ?case
    by (rule step_ok_tcp [OF tick(2) game_tick_keeps [OF tick(1)] game_tick_frame [OF tick(1)]])
next
  case (world_tick now s ids g)
  then show ?case by (intro step_ok_world_tick)
next
  case (world_task t s now g)
  then show ?case by (intro step_ok_world_task)
next
  case (announce s a)
  show ?case
    by (rule step_ok_game(1) [OF announce]) (simp_all add: game_announce_server_def)
qed

lemma game_init_wf: "game_init pf s \<Longrightarrow> game_wf s"
  by (auto simp: game_init.simps game_wf_def tasks_wf_def world_new_tasks_def net_init_wf tcp_server_new_wf net_init_def
      world_status_def world_player_task_new_def block_sync_task_new_def task_new_def common_chat_task_new_def
      split: world_task_id.split) (use net_init_wf in \<open>auto simp: net_init_def\<close>)

lemma game_steps_ok: "game_steps pf s s' \<Longrightarrow> game_wf s \<Longrightarrow> step_ok s s'"
proof (induction rule: rtranclp_induct)
  case base
  then show ?case by (simp add: step_ok_def game_wf_def evolves_same)
next
  case (step t u)
  from step have t: "step_ok s t" by blast
  from game_step_ok [OF step(2)] t have "step_ok t u" by (simp add: step_ok_def)
  with t show ?case by (auto simp: step_ok_def intro: evolves_trans)
qed

subsection \<open>Every reachable state\<close>

lemma fresh_sessions_legal:
  "session_steps fresh_session (session p) \<Longrightarrow> ps_next p = session_goal (ps_cur p) \<and> ps_cur p \<noteq> S_invaild"
  unfolding session_def using session_steps_rank [of S_initialized S_initialized "ps_cur p" "ps_next p"] by simp

lemma game_init_heap: "game_init pf s \<Longrightarrow> ns_heap (sy_game s) = (\<lambda>_. None) \<and> ns_next_addr (sy_game s) = 0"
  by (auto simp: game_init.simps world_new_tasks_def net_init_def)

lemma reachable_sessions:
  assumes "game_init pf s" "game_steps pf s t" "ns_heap (sy_game t) a = Some p"
  shows "session_steps fresh_session (session p)"
proof -
  have "evolves (sy_game s) (sy_game t)"
    using game_steps_ok [OF assms(2) game_init_wf [OF assms(1)]] by (simp add: step_ok_def)
  with assms(3) game_init_heap [OF assms(1)] show ?thesis by (auto simp: evolves_def)
qed

text \<open>
  C1: In every reachable state of the game server: connections, players and keys belong together
  one to one and every connection's buffers and pools are intact; there are no more connections
  than configured; a task of the world is in flight exactly when it is processing, and at most
  once; the table of servers has its size; and every player is in a legal session state.
\<close>

theorem game_system_invariant:
  assumes "game_init pf s" "game_steps pf s t"
  shows "net_wf (sy_game t) \<and> size_of_connections (ns_env (sy_game t)) \<le> size_of_max_connections (ns_env (sy_game t)) \<and>
    tasks_wf t \<and> comm_wf (gs_comm (sy_game t)) \<and>
    (\<forall>a p. ns_heap (sy_game t) a = Some p \<longrightarrow> ps_next p = session_goal (ps_cur p) \<and> ps_cur p \<noteq> S_invaild)"
proof -
  have "game_wf t" using game_steps_ok [OF assms(2) game_init_wf [OF assms(1)]] by (simp add: step_ok_def)
  moreover have "\<forall>a p. ns_heap (sy_game t) a = Some p \<longrightarrow> ps_next p = session_goal (ps_cur p) \<and> ps_cur p \<noteq> S_invaild"
    using reachable_sessions [OF assms] fresh_sessions_legal by blast
  ultimately show ?thesis using net_wf_limit [of "sy_game t"] by (simp add: game_wf_def)
qed

definition sample_zlib :: "bytes zlib" where
  "sample_zlib = \<lparr>z_init = (\<lambda>b. b), z_bound = (\<lambda>b. length b + 64), z_deflate = (\<lambda>b n. (take n b, drop n b)),
     z_alloc = (\<lambda>n. replicate n 0)\<rparr>"

definition sample_platform :: "bytes platform" where
  "sample_platform = \<lparr>pf_mem = sample_player, pf_clock = (\<lambda>n. n), pf_dec = (\<lambda>_ _. None),
     pf_cfg = \<lparr>cfg_server_name = [], cfg_motd = []\<rparr>, pf_cpe_order = supported_cpe_map, pf_max_packet = 131,
     pf_zlib = sample_zlib\<rparr>"

definition sample_metadata :: world_metadata where
  "sample_metadata = create_metadata 0 (Coordinate3D 16 16 16)"

definition sample_server :: "nat \<Rightarrow> game_server" where
  "sample_server n = world_new_tasks (db_new (replicate 64 0) (replicate 64 0)) (db_new [] [])
     sample_metadata [] communicator_new n"

definition sample_system :: game_system where
  "sample_system = \<lparr>sy_game = sample_server 2, sy_tcp = fst (tcp_server_new (pf_clock sample_platform) 0 game_on_disconnect),
     sy_tasks = [], sy_waiting = []\<rparr>"

lemma sample_system_init: "game_init sample_platform sample_system"
  unfolding sample_system_def sample_server_def by (rule game_init.intros) simp_all

theorem game_system_invariant_witness:
  "\<exists>t u. game_step sample_platform sample_system t \<and> game_step sample_platform t u \<and>
     net_wf (sy_game u) \<and> tasks_wf u \<and> size_of_connections (ns_env (sy_game u)) \<le> size_of_max_connections (ns_env (sy_game u))"
proof -
  obtain ts g where a: "accept_on_event_complete (pf_clock sample_platform) 1 7 3000 False True
      (sy_tcp sample_system) (sy_game sample_system) = (ts, g)" by fastforce
  let ?t = "sample_system\<lparr>sy_game := g, sy_tcp := ts\<rparr>"
  have 1: "game_step sample_platform sample_system ?t" by (rule game_step.accept [OF a])
  obtain ids h where w: "world_tick (pf_cfg sample_platform) (pf_cpe_order sample_platform) game_on_disconnect 3100 (sy_game ?t) = (ids, h)"
    by fastforce
  let ?u = "?t\<lparr>sy_game := h, sy_tasks := sy_tasks ?t @ ids\<rparr>"
  have 2: "game_step sample_platform ?t ?u" by (rule game_step.world_tick [OF w])
  have "game_steps sample_platform sample_system ?u" using 1 2 by (rule rtranclp.rtrancl_into_rtrancl [OF r_into_rtranclp])
  from game_system_invariant [OF sample_system_init this] 1 2 show ?thesis by blast
qed

subsection \<open>A server with one player\<close>

text \<open>The smallest server with a client: one connection whose player is \<open>p\<close> with the key of the connection.\<close>

definition with_player :: "player \<Rightarrow> game_server \<Rightarrow> game_server" where
  "with_player p s = (case new_connection 9 0 s of (key, s) \<Rightarrow> set_player 0 (p\<lparr>pl_key := key\<rparr>) s)"

lemma with_player_sample:
  "net_wf (with_player p (sample_server 2))"
  "\<exists>c. conn_of 0 (with_player p (sample_server 2)) = Some c \<and> cn_player c = Some 0 \<and> cn_is_online c \<and>
     cn_key c = key_make 0 9 \<and> cn_last_error c = ResultCode ec_success"
  "ns_heap (with_player p (sample_server 2)) 0 = Some (p\<lparr>pl_key := key_make 0 9\<rparr>)"
  "net_state.more (with_player p (sample_server 2)) = net_state.more (sample_server 2)"
  "try_acquire_connection (key_make 0 9) (ns_env (with_player p (sample_server 2))) = Some (Some 0)"
proof -
  let ?s = "sample_server 2"
  have env: "ns_env ?s = conn_env_new 2" "ns_next_addr ?s = 0"
    by (simp_all add: sample_server_def world_new_tasks_def net_init_def)
  obtain key s1 where n: "new_connection 9 0 ?s = (key, s1)" by fastforce
  have u: "get_unused_connection_id (conn_env_new 2) = 0"
    by (simp add: get_unused_connection_id_def conn_env_new_def numeral_2_eq_2 connection_entry_new_def)
  then have key: "key = key_make 0 9"
    using n by (auto simp: new_connection_def env_new_connection_def env Let_def)
  then have slot: "key_slot key = 0" by (simp add: key_slot_def)
  have wf: "net_wf ?s" unfolding sample_server_def world_new_tasks_def by (rule net_init_wf) simp
  have room: "env_num_of_connections (ns_env ?s) < env_max_connections (ns_env ?s)" by (simp add: env conn_env_new_def)
  have 1: "net_wf s1" "conn_of 0 s1 = Some (connection_new key 0)"
    using net_wf_new_connection(1,2) [OF wf room n] slot by simp_all
  have a: "ns_next_addr s1 = 0" using n by (auto simp: new_connection_def env(2) split: prod.splits)
  let ?p = "p\<lparr>pl_key := key\<rparr>"
  have pk: "pl_key ?p = cn_key (connection_new key 0)" by (simp add: connection_new_def)
  note e = set_player_effect [OF 1 pk]
  have w: "with_player p ?s = set_player 0 ?p s1" by (simp add: with_player_def n)
  show net: "net_wf (with_player p ?s)" using e(1) w by simp
  have c: "conn_of 0 (with_player p ?s) = Some ((connection_new key 0)\<lparr>cn_player := Some 0\<rparr>)"
    using e(2) [of 0] w a by simp
  then show "\<exists>c. conn_of 0 (with_player p ?s) = Some c \<and> cn_player c = Some 0 \<and> cn_is_online c \<and>
     cn_key c = key_make 0 9 \<and> cn_last_error c = ResultCode ec_success"
    by (simp add: connection_new_def key)
  show "ns_heap (with_player p ?s) 0 = Some (p\<lparr>pl_key := key_make 0 9\<rparr>)" using e(3) w a key by simp
  have "net_state.more s1 = net_state.more ?s" using n by (auto simp: new_connection_def split: prod.splits)
  then show "net_state.more (with_player p ?s) = net_state.more ?s" using e(4) w by simp
  have "try_acquire_connection (cn_key ((connection_new key 0)\<lparr>cn_player := Some 0\<rparr>)) (ns_env (with_player p ?s)) = Some (Some 0)"
    using c conn_of_lt [OF c] by (intro try_acquire_online [OF net_wfD(1) [OF net]]) (simp_all add: conn_of_def connection_new_def)
  then show "try_acquire_connection (key_make 0 9) (ns_env (with_player p ?s)) = Some (Some 0)"
    by (simp add: connection_new_def key)
qed

end
