(* ===== verification/Game_Protocol.thy ===== *)
theory Game_Protocol
  imports Game_System
begin

section \<open>The life of a player on the game server\<close>

text \<open>
  Properties of the protocol between client, game server and login server: what a session can
  become, what the answer of the login server does, and the two orders of events in which the
  server leaves its protocol.
\<close>

subsection \<open>Sessions\<close>

lemma game_wf_sample: "net_wf s \<Longrightarrow> net_state.more s = net_state.more (sample_server 2) \<Longrightarrow>
    game_wf (sample_system\<lparr>sy_game := s\<rparr>)"
proof -
  assume s: "net_wf s" "net_state.more s = net_state.more (sample_server 2)"
  have "game_wf sample_system" by (rule game_init_wf) (rule sample_system_init)
  then have w: "tcp_wf game_on_disconnect (sy_tcp sample_system)" "comm_wf (gs_comm (sample_server 2))"
    "tasks_wf sample_system"
    by (simp_all add: game_wf_def sample_system_def)
  have "game_frame s = game_frame (sample_server 2)" by (rule game_frame_more) (rule s)
  with w s show ?thesis by (simp add: game_wf_def tasks_wf_def game_frame_eq_iff sample_system_def)
qed

text \<open>
  C5: Whatever happens, a player who is still there has the same key and its session has only
  moved on: towards the world, or into disconnection, from which it never comes back.
\<close>

theorem sessions_never_go_back:
  assumes "game_wf s" "game_steps pf s t"
    and "ns_heap (sy_game s) a = Some p" "ps_next p = session_goal (ps_cur p)" "ps_cur p \<noteq> S_invaild"
    and "ns_heap (sy_game t) a = Some q"
  shows "pl_key q = pl_key p \<and> session_rank (ps_cur p) \<le> session_rank (ps_cur q)"
proof -
  have "evolves (sy_game s) (sy_game t)" using game_steps_ok [OF assms(2,1)] by (simp add: step_ok_def)
  moreover have "a < ns_next_addr (sy_game s)"
    using assms(1,3) by (intro net_wf_bounded) (simp_all add: game_wf_def)
  ultimately have "pl_key q = pl_key p \<and> session_steps (session p) (session q)"
    by (rule evolves_old [OF _ assms(6,3)])
  with session_steps_rank [of "ps_cur p" "ps_next p" "ps_cur q" "ps_next q"] assms(4,5)
  show ?thesis by (simp add: session_def)
qed

theorem sessions_never_go_back_witness:
  "\<exists>s t p q. game_step sample_platform s t \<and> ns_heap (sy_game s) 0 = Some p \<and> ps_cur p = S_spawned \<and>
     ns_heap (sy_game t) 0 = Some q \<and> ps_cur q = S_disconnecting \<and>
     pl_key q = pl_key p \<and> session_rank (ps_cur p) \<le> session_rank (ps_cur q)"
proof -
  let ?p = "sample_player\<lparr>ps_cur := S_spawned, ps_next := S_spawned\<rparr>"
  let ?g = "with_player ?p (sample_server 2)"
  note g = with_player_sample [of ?p]
  let ?s = "sample_system\<lparr>sy_game := ?g\<rparr>"
  have wf: "game_wf ?s" by (rule game_wf_sample [OF g(1,4)])
  from g(2) obtain c where c: "conn_of 0 ?g = Some c" "cn_player c = Some 0" "cn_is_online c" by blast
  have h: "ns_heap ?g 0 = Some (?p\<lparr>pl_key := key_make 0 9\<rparr>)" by (rule g(3))
  have "S_handshaking \<le> ps_cur (?p\<lparr>pl_key := key_make 0 9\<rparr>)" by (simp add: state_order)
  from disconnect_player [OF c(1,3,2) h this] have
    d: "disconnect game_on_disconnect 5 0 ?g = upd_player 0 (prepare_state_transition S_disconnecting S_disconnected) ?g" .
  let ?t = "?s\<lparr>sy_game := upd_player 0 (prepare_state_transition S_disconnecting S_disconnected) ?g\<rparr>"
  have step: "game_step sample_platform ?s ?t"
    using c d by (intro game_step.receive [where completion = Recv_eof and now = 5 and i = 0 and c = c])
      (simp_all add: recv_on_event_complete_def)
  have q: "ns_heap (sy_game ?t) 0 = Some (prepare_state_transition S_disconnecting S_disconnected (?p\<lparr>pl_key := key_make 0 9\<rparr>))"
    by (simp add: h)
  have "game_steps sample_platform ?s ?t" using step by blast
  from sessions_never_go_back [OF wf this _ _ _ q, of "?p\<lparr>pl_key := key_make 0 9\<rparr>"] h step q
  show ?thesis by (intro exI [of _ ?s] exI [of _ ?t]) simp
qed

subsection \<open>The handshake\<close>

lemma handle_packet_whole:
  assumes "parse_packet data = Some (pid, length data)" "packet_handler_db mem0 pid = Some handler"
  shows "handle_packet mem0 i data s = handler i data s"
  using assms by (simp add: handle_packet_def)

lemma packet_handlers:
  "packet_handler_db mem0 PT_handshake = Some (handle_handshake mem0)"
  "packet_handler_db mem0 PT_ext_info = Some handle_ext_info_packet"
  "packet_handler_db mem0 PT_ext_entry = Some handle_ext_entry_packet"
  by (simp_all add: packet_handler_db_def)

text \<open>What a handshake leaves: a new player whose session waits for the login server; the old one is gone.\<close>

lemma handshake_effect:
  fixes mem0 :: player and s :: "'a game_server_scheme"
  assumes wf: "net_wf s" and c: "conn_of i s = Some c" and packet: "handshake_parse data = Some packet"
  defines "s' \<equiv> snd (handle_handshake mem0 i data s)" and "a \<equiv> ns_next_addr s"
  shows "associated_player i s' = Some a"
    "ns_heap s' a = Some (if has_cpe_support packet
       then prepare_state_transition S_ex_handshaking S_ex_handshaked (player_ctor mem0 (cn_key c) (hs_username packet))
       else prepare_state_transition S_handshaking S_handshaked (player_ctor mem0 (cn_key c) (hs_username packet)))"
    "cn_player c = Some b \<Longrightarrow> ns_heap s' b = None"
    "w_sync_block_task s' = w_sync_block_task s"
    "conn_of i s' \<noteq> None"
    "gs_sent s' = gs_sent s @ [forward_packet ST_login MSG_packet_handshake (cn_key c) data (gs_comm s)]"
proof -
  let ?p = "player_ctor mem0 (cn_key c) (hs_username packet)"
  let ?s = "set_player i ?p s"
  have k: "pl_key ?p = cn_key c" by (simp add: player_ctor_def)
  note e = set_player_effect [OF wf c k]
  have ap: "associated_player i ?s = Some a" unfolding a_def by (rule associated_player_set_player [OF c])
  have more: "gs_comm ?s = gs_comm s" "gs_sent ?s = gs_sent s" "w_sync_block_task ?s = w_sync_block_task s"
    using game_fields_of_more [OF e(4)] by simp_all
  have s': "s' = gs_send (forward_packet ST_login MSG_packet_handshake (cn_key c) data (gs_comm s))
      (upd_player a (if has_cpe_support packet then prepare_state_transition S_ex_handshaking S_ex_handshaked
         else prepare_state_transition S_handshaking S_handshaked) ?s)"
    using packet c ap more by (simp add: s'_def handle_handshake_def Let_def game_fields_upd)
  have cs: "conn_of i s' = Some (c\<lparr>cn_player := Some a\<rparr>)"
    using e(2) [of i] by (simp add: s' gs_send_def a_def)
  then show "conn_of i s' \<noteq> None" "associated_player i s' = Some a" by (simp_all add: associated_player_def)
  show "ns_heap s' a = Some (if has_cpe_support packet
       then prepare_state_transition S_ex_handshaking S_ex_handshaked ?p
       else prepare_state_transition S_handshaking S_handshaked ?p)"
    using e(3) by (simp add: s' gs_send_def a_def)
  show "w_sync_block_task s' = w_sync_block_task s"
    "gs_sent s' = gs_sent s @ [forward_packet ST_login MSG_packet_handshake (cn_key c) data (gs_comm s)]"
    using more by (simp_all add: s' gs_send_def game_fields_upd)
  assume b: "cn_player c = Some b"
  then have "b < ns_next_addr s" using owners_wfD(1) [OF net_wfD(3) [OF wf] c] by simp
  with b c show "ns_heap s' b = None"
    by (simp add: s' gs_send_def a_def set_player_def associated_player_def Let_def)
qed

text \<open>
  C22: A client that announces one extension is past the login without any answer of the login
  server: handling its extension entry moves the session on, whatever state it is in. (The
  handler never looks at the state.)
\<close>

theorem ext_entry_bypasses_login:
  assumes "net_wf s" "conn_of i s = Some c"
    and "parse_packet hs = Some (PT_handshake, length hs)" "handshake_parse hs = Some packet" "has_cpe_support packet"
    and "parse_packet info = Some (PT_ext_info, length info)" "ext_info_parse info = Some ei" "ei_extension_count ei = 1"
    and "parse_packet entry = Some (PT_ext_entry, length entry)" "ext_entry_parse entry = Some ee"
  shows "\<exists>a p. associated_player i
      (snd (handle_packet mem0 i entry (snd (handle_packet mem0 i info (snd (handle_packet mem0 i hs s)))))) = Some a \<and>
    ns_heap (snd (handle_packet mem0 i entry (snd (handle_packet mem0 i info (snd (handle_packet mem0 i hs s)))))) a = Some p \<and>
    ps_cur p = S_ex_handshaked"
proof -
  let ?s1 = "snd (handle_packet mem0 i hs s)" and ?a = "ns_next_addr s"
  let ?p1 = "prepare_state_transition S_ex_handshaking S_ex_handshaked (player_ctor mem0 (cn_key c) (hs_username packet))"
  note h = handshake_effect [OF assms(1,2,4), where ?mem0.0 = mem0]
  have s1: "?s1 = snd (handle_handshake mem0 i hs s)"
    by (simp add: handle_packet_whole [OF assms(3) packet_handlers(1)])
  have 1: "associated_player i ?s1 = Some ?a" "ns_heap ?s1 ?a = Some ?p1"
    using h(1,2) assms(5) s1 by simp_all
  let ?s2 = "snd (handle_packet mem0 i info ?s1)"
  have s2: "?s2 = upd_player ?a (set_extension_count 1) ?s1"
    by (simp add: handle_packet_whole [OF assms(6) packet_handlers(2)] handle_ext_info_packet_def 1 assms(7,8))
  have 2: "associated_player i ?s2 = Some ?a" "ns_heap ?s2 ?a = Some (set_extension_count 1 ?p1)"
    using 1 by (simp_all add: s2 associated_player_def)
  let ?s3 = "snd (handle_packet mem0 i entry ?s2)"
  have s3: "?s3 = upd_player ?a (ext_entry_update ee) ?s2"
    by (simp add: handle_packet_whole [OF assms(9) packet_handlers(3)] handle_ext_entry_packet_def 2 assms(10))
  have "ps_cur (ext_entry_update ee (set_extension_count 1 ?p1)) = S_ex_handshaked"
    by (auto simp: ext_entry_update_def decrease_pending_extension_count_def register_extension_def set_extension_count_def
        prepare_state_transition_def Let_def split: option.split bind_splits)
  with 2 show ?thesis by (simp add: s3 associated_player_def)
qed

theorem ext_entry_bypasses_login_witness:
  "\<exists>hs info entry (s :: game_server) a p. length hs = 131 \<and> length info = 67 \<and> length entry = 69 \<and> gs_sent s = [] \<and>
     associated_player 0 (snd (handle_packet sample_player 0 entry (snd (handle_packet sample_player 0 info
       (snd (handle_packet sample_player 0 hs s)))))) = Some a \<and>
     ns_heap (snd (handle_packet sample_player 0 entry (snd (handle_packet sample_player 0 info
       (snd (handle_packet sample_player 0 hs s)))))) a = Some p \<and> ps_cur p = S_ex_handshaked"
proof -
  let ?hp = "\<lparr>pk_id = PT_handshake, hs_protocol_version = 7, hs_username = cstr ''mallory'', hs_password = [], hs_cpe_magic = 0x42\<rparr>"
  let ?hs = "handshake_bytes ?hp @ []"
  let ?info = "write_byte PT_ext_info [] @ write_string [] [] @ write_short 1 [] @ []"
  let ?entry = "ext_entry_bytes ([], \<lparr>cpe_index = 0, cpe_version = 1\<rparr>) @ []"
  let ?s = "with_player sample_player (sample_server 2)"
  note g = with_player_sample [of sample_player]
  from g(2) obtain c where c: "conn_of 0 ?s = Some c" by blast
  have 1: "parse_packet ?hs = Some (PT_handshake, length ?hs)"
    unfolding handshake_unfold by (simp add: write_byte_def parse_packet_def protocol_db_def)
  have 2: "parse_packet ?info = Some (PT_ext_info, length ?info)"
    by (simp add: write_byte_def parse_packet_def protocol_db_def)
  have "ext_info_parse ?info = Some \<lparr>pk_id = PT_ext_info, ei_app_name = rstrip [], ei_extension_count = 1\<rparr>"
    by (simp only: ext_info_parse_def wire_simps option.case prod.case take_Nil)
  then obtain ei where 3: "ext_info_parse ?info = Some ei" "ei_extension_count ei = 1" by simp
  have 4: "parse_packet ?entry = Some (PT_ext_entry, length ?entry)"
    by (simp add: ext_entry_bytes_def write_defs parse_packet_def protocol_db_def Let_def)
  obtain ee where 5: "ext_entry_parse ?entry = Some ee" using ext_entry_parse_bytes by blast
  have "has_cpe_support \<lparr>pk_id = PT_handshake, hs_protocol_version = hs_protocol_version ?hp,
      hs_username = rstrip (take 64 (hs_username ?hp)), hs_password = rstrip (take 64 (hs_password ?hp)),
      hs_cpe_magic = hs_cpe_magic ?hp\<rparr>" by (simp add: has_cpe_support_def)
  from ext_entry_bypasses_login [OF g(1) c 1 handshake_parse_bytes this 2 3 4 5, of sample_player]
  obtain a p where "associated_player 0 (snd (handle_packet sample_player 0 ?entry (snd (handle_packet sample_player 0 ?info
       (snd (handle_packet sample_player 0 ?hs ?s)))))) = Some a"
    "ns_heap (snd (handle_packet sample_player 0 ?entry (snd (handle_packet sample_player 0 ?info
       (snd (handle_packet sample_player 0 ?hs ?s)))))) a = Some p" "ps_cur p = S_ex_handshaked"
    by blast
  moreover have "gs_sent ?s = []"
    using game_fields_of_more(2) [OF g(4)] by (simp add: sample_server_def world_new_tasks_def net_init_def)
  moreover have "length ?hs = 131" "length ?info = 67" "length ?entry = 69" by simp_all
  ultimately show ?thesis by - (rule exI, rule exI, rule exI, rule exI, rule exI, rule exI, intro conjI; assumption)
qed

subsection \<open>A second handshake\<close>

lemma multicast_step:
  assumes "ns_heap s b = Some p" "try_acquire_connection (pl_key p) (ns_env s) = Some r"
  obtains s2 where "multicast_to_players (b # as) data f s = multicast_to_players as data f s2"
    "\<And>a. ns_heap s a = None \<Longrightarrow> ns_heap s2 a = None"
proof (cases r)
  case None
  with assms show ?thesis by (intro that [of s]) simp_all
next
  case (Some i)
  let ?io = "on_io i (post_multicast_event data) s"
  let ?s2 = "if fst ?io then (case f of Some f \<Rightarrow> upd_player b f (snd ?io) | None \<Rightarrow> snd ?io) else snd ?io"
  have "multicast_to_players (b # as) data f s = multicast_to_players as data f ?s2"
    using assms Some by (simp add: Let_def case_prod_beta)
  moreover have "ns_heap s a = None \<Longrightarrow> ns_heap ?s2 a = None" for a by (auto split: option.split)
  ultimately show ?thesis by (rule that)
qed

lemma multicast_dangling:
  "a \<in> set as \<Longrightarrow> ns_heap s a = None \<Longrightarrow> multicast_to_players as data f s = None"
proof (induction as arbitrary: s)
  case (Cons b as)
  show ?case
  proof (cases "a = b")
    case True
    with Cons.prems show ?thesis by simp
  next
    case False
    then have a: "a \<in> set as" using Cons.prems by simp
    show ?thesis
    proof (rule ccontr)
      assume ne: "multicast_to_players (b # as) data f s \<noteq> None"
      then obtain p r where p: "ns_heap s b = Some p" "try_acquire_connection (pl_key p) (ns_env s) = Some r"
        by (auto split: option.splits)
      from p obtain s2 where s2: "multicast_to_players (b # as) data f s = multicast_to_players as data f s2"
        "\<And>a. ns_heap s a = None \<Longrightarrow> ns_heap s2 a = None" by (rule multicast_step) blast
      from Cons.IH [OF a s2(2) [OF Cons.prems(2)]] ne s2(1) show False by simp
    qed
  qed
qed simp

lemma multicast_keeps_dead:
  "multicast_to_players as data f s = Some s' \<Longrightarrow> ns_heap s a = None \<Longrightarrow> ns_heap s' a = None"
proof (induction as arbitrary: s)
  case (Cons b as)
  from Cons.prems obtain p r where p: "ns_heap s b = Some p" "try_acquire_connection (pl_key p) (ns_env s) = Some r"
    by (auto split: option.splits)
  from p obtain s2 where s2: "multicast_to_players (b # as) data f s = multicast_to_players as data f s2"
    "\<And>a. ns_heap s a = None \<Longrightarrow> ns_heap s2 a = None" by (rule multicast_step) blast
  have "multicast_to_players as data f s2 = Some s'" using Cons.prems(1) unfolding s2(1) .
  then show ?case by (rule Cons.IH) (rule s2(2) [OF Cons.prems(2)])
qed simp

lemma process_level_dangling:
  "a \<in> set ps \<Longrightarrow> ns_heap s a = None \<Longrightarrow> process_level_wait_player z ps s = None"
  by (simp add: process_level_wait_player_def Let_def multicast_dangling split: option.split prod.split)

lemma sync_block_dangling:
  assumes "a \<in> set ps" "ns_heap s a = None"
  shows "sync_block z ps hist s = None"
proof (cases "block_history_size hist = 0")
  case True
  with assms show ?thesis by (auto simp: sync_block_def process_level_dangling)
next
  case False
  let ?s = "s\<lparr>w_block_mapping := commit_block_changes (w_metadata s) hist (w_block_mapping s)\<rparr>"
  show ?thesis
  proof (cases "multicast_to_specific_players S_level_initialized (get_snapshot_data hist) ?s")
    case (Some s1)
    then have m: "multicast_to_players (players_from S_level_initialized ?s) (get_snapshot_data hist) None ?s = Some s1"
      by (simp add: multicast_to_specific_players_def)
    have "ns_heap s1 a = None" by (rule multicast_keeps_dead [OF m]) (simp add: assms(2))
    with assms False Some show ?thesis by (auto simp: sync_block_def process_level_dangling)
  qed (use False in \<open>simp add: sync_block_def\<close>)
qed

text \<open>
  C23: A second handshake on a connection whose first player waits for the level destroys that
  player while the block task still holds its pointer: the task then has no defined result.
\<close>

theorem second_handshake_dangles:
  assumes "net_wf s" "conn_of i s = Some c" "cn_player c = Some a"
    and "a \<in> set (bs_level_wait_players (w_sync_block_task s))"
    and "parse_packet data = Some (PT_handshake, length data)" "handshake_parse data = Some packet"
  shows "ns_heap (snd (handle_packet mem0 i data s)) a = None \<and>
    complete_sync_block_task z now (snd (handle_packet mem0 i data s)) = None"
proof -
  have s': "snd (handle_packet mem0 i data s) = snd (handle_handshake mem0 i data s)"
    by (simp add: handle_packet_whole [OF assms(5) packet_handlers(1)])
  note h = handshake_effect(3,4) [OF assms(1,2,6), where ?mem0.0 = mem0]
  have "sync_block z (bs_level_wait_players (w_sync_block_task s)) (bs_history (w_sync_block_task s))
      (snd (handle_handshake mem0 i data s)) = None"
    using sync_block_dangling [OF assms(4)] h(1) [OF assms(3)] by blast
  with h assms(3) show ?thesis
    by (simp add: s' complete_sync_block_task_def bs_on_event_complete_def Let_def)
qed

theorem second_handshake_dangles_witness:
  "\<exists>data (s :: game_server). length data = 131 \<and> ns_heap s 0 \<noteq> None \<and> ns_heap (snd (handle_packet sample_player 0 data s)) 0 = None \<and>
     complete_sync_block_task sample_zlib 1000 (snd (handle_packet sample_player 0 data s)) = None"
proof -
  let ?data = "handshake_bytes \<lparr>pk_id = PT_handshake, hs_protocol_version = 7, hs_username = cstr ''twice'', hs_password = [], hs_cpe_magic = 0\<rparr> @ []"
  let ?g = "with_player sample_player (sample_server 2)"
  let ?s = "?g\<lparr>w_sync_block_task := (w_sync_block_task ?g)\<lparr>bs_level_wait_players := [0]\<rparr>\<rparr>"
  note g = with_player_sample [of sample_player]
  from g(2) obtain c where c: "conn_of 0 ?s = Some c" "cn_player c = Some 0" by auto
  have wf: "net_wf ?s" using g(1) by simp
  have 1: "parse_packet ?data = Some (PT_handshake, length ?data)"
    unfolding handshake_unfold by (simp add: write_byte_def parse_packet_def protocol_db_def)
  have "0 \<in> set (bs_level_wait_players (w_sync_block_task ?s))" by simp
  from second_handshake_dangles [OF wf c this 1 handshake_parse_bytes, of sample_player sample_zlib 1000]
  have "ns_heap (snd (handle_packet sample_player 0 ?data ?s)) 0 = None"
    "complete_sync_block_task sample_zlib 1000 (snd (handle_packet sample_player 0 ?data ?s)) = None"
    by blast+
  moreover have "ns_heap ?s 0 \<noteq> None" using g(3) by simp
  moreover have "length ?data = 131" by simp
  ultimately show ?thesis by - (rule exI, rule exI, intro conjI; assumption)
qed

subsection \<open>Leaving\<close>

lemma on_disconnect_silent:
  "ns_heap s a = Some p \<Longrightarrow> associated_player i s = Some a \<Longrightarrow> \<not> S_handshaking \<le> ps_cur p \<Longrightarrow> game_on_disconnect i s = s"
  by (auto simp: game_on_disconnect_def state_order)

lemma disconnect_cases:
  "disconnect game_on_disconnect now i s = s \<or>
   disconnect game_on_disconnect now i s = set_offline now i s \<or>
   (\<exists>a. disconnect game_on_disconnect now i s = upd_player a (prepare_state_transition S_disconnecting S_disconnected) s)"
proof (cases "is_online i s")
  case True
  show ?thesis
  proof (cases "associated_player i s")
    case None
    with True show ?thesis by (simp add: disconnect_def game_on_disconnect_def)
  next
    case (Some a)
    show ?thesis
    proof (cases "ns_heap s a")
      case (Some p)
      with \<open>associated_player i s = Some a\<close> True show ?thesis
        by (auto simp: disconnect_def on_disconnect_silent)
    qed (use True Some in \<open>simp add: disconnect_def\<close>)
  qed
qed (simp add: disconnect_def)

text \<open>
  C25: Disconnecting a client never tells the login server: the logout message is reserved for
  players past the handshake, and exactly for those the connection does not call the handler that
  sends it.
\<close>

theorem logout_is_never_sent:
  "gs_sent (disconnect game_on_disconnect now i s) = gs_sent s \<and> w_saved (disconnect game_on_disconnect now i s) = w_saved s"
  using disconnect_cases [of now i s]
  by (elim disjE exE) (simp_all add: game_fields_upd)

text \<open>
  C24: Disconnecting a player in the world hands it to the world, which despawns and saves it; a
  second disconnection before that (a failed send after a failed receive) takes the connection
  offline at once, so that the world neither saves nor despawns the player.
\<close>

theorem second_disconnect_skips_saving:
  assumes "net_wf s" "conn_of i s = Some c" "cn_is_online c" "cn_player c = Some a" "ns_heap s a = Some p"
    "S_handshaking \<le> ps_cur p"
  shows "(\<exists>q. ns_heap (disconnect game_on_disconnect now1 i s) a = Some q \<and> ps_cur q = S_disconnecting) \<and>
    is_online i (disconnect game_on_disconnect now1 i s) \<and>
    \<not> is_online i (disconnect game_on_disconnect now2 i (disconnect game_on_disconnect now1 i s)) \<and>
    w_saved (disconnect game_on_disconnect now2 i (disconnect game_on_disconnect now1 i s)) = w_saved s"
proof -
  let ?s1 = "upd_player a (prepare_state_transition S_disconnecting S_disconnected) s"
  have 1: "disconnect game_on_disconnect now1 i s = ?s1" by (rule disconnect_player [OF assms(2-6)])
  have h: "ns_heap ?s1 a = Some (prepare_state_transition S_disconnecting S_disconnected p)" using assms(5) by simp
  have ap: "associated_player i ?s1 = Some a" using assms(2,4) by (simp add: associated_player_def)
  have c1: "conn_of i ?s1 = Some c" using assms(2) by simp
  have wf: "net_wf ?s1" by (rule net_wf_upd_player [OF assms(1)]) (simp add: prepare_state_transition_def)
  have silent: "game_on_disconnect i ?s1 = ?s1"
    by (rule on_disconnect_silent [OF h ap]) (simp add: state_order)
  have online: "is_online i ?s1" using c1 assms(3) by (simp only: is_online_def option.case)
  have early: "\<not> S_handshaking \<le> ps_cur (prepare_state_transition S_disconnecting S_disconnected p)"
    by (simp add: state_order)
  have 2: "disconnect game_on_disconnect now2 i ?s1 = set_offline now2 i ?s1"
    unfolding disconnect_def ap option.case h by (simp only: online early silent simp_thms if_False)
  have "conn_of i (set_offline now2 i ?s1) = Some (c\<lparr>cn_is_online := False, cn_last_offline_tick := now2\<rparr>)"
    using conn_of_set_offline [OF wf, of i now2 i] c1 by simp
  then have "\<not> is_online i (set_offline now2 i ?s1)" by (simp add: is_online_def)
  then show ?thesis unfolding 1 2 using assms(5) online by (simp add: game_fields_upd)
qed

theorem second_disconnect_skips_saving_witness:
  "\<exists>s :: game_server. is_online 0 s \<and> \<not> is_online 0 (disconnect game_on_disconnect 6 0 (disconnect game_on_disconnect 5 0 s)) \<and>
     w_saved (disconnect game_on_disconnect 6 0 (disconnect game_on_disconnect 5 0 s)) = w_saved s"
proof -
  let ?p = "sample_player\<lparr>ps_cur := S_spawned, ps_next := S_spawned\<rparr>"
  let ?s = "with_player ?p (sample_server 2)"
  note g = with_player_sample [of ?p]
  from g(2) obtain c where c: "conn_of 0 ?s = Some c" "cn_player c = Some 0" "cn_is_online c" by blast
  have "S_handshaking \<le> ps_cur (?p\<lparr>pl_key := key_make 0 9\<rparr>)" by (simp add: state_order)
  from second_disconnect_skips_saving [OF g(1) c(1,3,2) g(3) this, of 5 6] c show ?thesis
    by (intro exI [of _ ?s]) (simp add: is_online_def)
qed

subsection \<open>Accepting a client\<close>

text \<open>
  An accepted client gets a slot that nobody has, with a fresh connection; the clean-up of
  expired connections runs before when its time has come; and when no slot is free after it, the
  client is refused with the connection limit and nothing else changes.
\<close>

theorem accept_after_cleanup:
  assumes "net_wf s" "ts_env_task ts = [t]" "it_tag t = IT_clean_connection" "it_func t = cleanup_task game_on_disconnect"
    and "accept_handle_io_event clock k tick32 now ts s = (ts', s')"
    and "s1 = (if clock k < it_expired_at t then s else cleanup_expired_connection game_on_disconnect now s)"
  shows "net_wf s' \<and>
    (if size_of_connections (ns_env s1) < size_of_max_connections (ns_env s1)
     then ts_last_error ts' = ResultCode ec_success \<and>
       (\<exists>key. key_slot key \<notin> env_used (ns_env s1) \<and>
          env_used (ns_env s') = insert (key_slot key) (env_used (ns_env s1)) \<and>
          conn_of (key_slot key) s' = Some (connection_new key now))
     else ts_last_error ts' = ResultCode ec_client_connection_limit \<and> s' = s1)"
proof -
  have w1: "net_wf s1" using assms(1,6) by (simp add: game.cleanup_wf)
  have p: "fst (snd (process_tasks clock IT_clean_connection (ts_env_task ts) (now, s) k)) = (now, s1)"
    using assms(2,3,4,6) by (simp add: invoke_task_def cleanup_task_def Let_def)
  obtain tasks k' where q: "process_tasks clock IT_clean_connection (ts_env_task ts) (now, s) k = (tasks, (now, s1), k')"
    using p by (cases "process_tasks clock IT_clean_connection (ts_env_task ts) (now, s) k") auto
  show ?thesis
  proof (cases "size_of_connections (ns_env s1) < size_of_max_connections (ns_env s1)")
    case True
    obtain key s2 where n: "new_connection tick32 now s1 = (key, s2)" by fastforce
    have room: "env_num_of_connections (ns_env s1) < env_max_connections (ns_env s1)"
      using True by (simp add: size_of_connections_def size_of_max_connections_def)
    obtain env where e: "env_new_connection tick32 now (ns_env s1) = (key, env)"
      using n by (auto simp: new_connection_def split: prod.splits)
    have "key_slot key \<notin> env_used (ns_env s1)"
      by (rule env_new_connection_effect(2) [OF net_wfD(1) [OF w1] room e])
    moreover have "s' = s2" "ts_last_error ts' = ResultCode ec_success"
      using assms(5) q n True by (auto simp: accept_handle_io_event_def)
    ultimately show ?thesis using net_wf_new_connection [OF w1 room n] True by auto
  next
    case False
    then have "s' = s1" "ts_last_error ts' = ResultCode ec_client_connection_limit"
      using assms(5) q by (auto simp: accept_handle_io_event_def)
    then show ?thesis using w1 False by simp
  qed
qed

theorem accept_after_cleanup_witness:
  "\<exists>ts' s' key. accept_handle_io_event (\<lambda>n. n) 0 7 3000
      (fst (tcp_server_new (\<lambda>n. n) 0 game_on_disconnect)) (sample_server 2) = (ts', s') \<and>
    net_wf s' \<and> conn_of (key_slot key) s' = Some (connection_new key 3000)"
proof -
  let ?ts = "fst (tcp_server_new (\<lambda>n. n) 0 game_on_disconnect) :: game_server tcp_server"
  let ?t = "\<lparr>it_tag = IT_clean_connection, it_period = 2000, it_expired_at = 2000, it_func = cleanup_task game_on_disconnect\<rparr>"
  have t: "ts_env_task ?ts = [?t]" by (simp add: tcp_server_new_def it_schedule_def)
  obtain ts' s' where a: "accept_handle_io_event (\<lambda>n. n) 0 7 3000 ?ts (sample_server 2) = (ts', s')" by fastforce
  have wf: "net_wf (sample_server 2)"
    unfolding sample_server_def world_new_tasks_def by (rule net_init_wf) simp
  have s1: "sample_server 2 = (if (0 :: nat) < it_expired_at ?t then sample_server 2 else
      cleanup_expired_connection game_on_disconnect 3000 (sample_server 2))" by simp
  have "size_of_connections (ns_env (sample_server 2)) < size_of_max_connections (ns_env (sample_server 2))"
    by (simp add: sample_server_def world_new_tasks_def net_init_def conn_env_new_def size_of_connections_def
        size_of_max_connections_def)
  with accept_after_cleanup [OF wf t _ _ a, of "sample_server 2"] a show ?thesis by auto
qed

end
