(* ===== verification/Route_Server.thy ===== *)
theory Route_Server
  imports Communicator
begin

section \<open>The route server\<close>

text \<open>
  \<open>mmocraft-router/net/route_server.h\<close>/\<open>.cpp\<close> and \<open>load_server_config\<close> of
  \<open>mmocraft-router/config/config.cpp\<close>. The server keeps the table of addresses and answers; the
  answers sent are appended to \<open>rs_sent\<close>. The configuration files are the argument \<open>conf\<close>: the
  serialised message that the file of a server type holds.
\<close>

record route_server =
  rs_comm :: communicator
  rs_sent :: "outgoing list"

definition route_server_new :: route_server where
  "route_server_new = \<lparr>rs_comm = communicator_new, rs_sent = []\<rparr>"

text \<open>
  The table of configuration files has 0xff entries, with a path for the four server types.
  An index beyond it is undefined.
\<close>

definition config_path_db :: "nat \<Rightarrow> string option option" where
  "config_path_db t =
     (if 0xff \<le> t then None
      else Some (if t = server_type_value ST_game then Some ''config/game_config.json''
                 else if t = server_type_value ST_router then Some ''config/router_config.json''
                 else if t = server_type_value ST_chat then Some ''config/chat_config.json''
                 else if t = server_type_value ST_login then Some ''config/login_config.json''
                 else None))"

definition load_server_config :: "(string \<Rightarrow> bytes) \<Rightarrow> nat \<Rightarrow> bytes option option" where
  "load_server_config conf t =
     (case config_path_db t of
        None \<Rightarrow> None
      | Some None \<Rightarrow> Some None
      | Some (Some path) \<Rightarrow> Some (Some (conf path)))"

definition route_reply :: "message_type_id \<Rightarrow> proto_message \<Rightarrow> message_request \<Rightarrow> route_server \<Rightarrow> route_server" where
  "route_reply msg_id m r s = s\<lparr>rs_sent := rs_sent s @ [(mr_reply_address r, msg_id, m)]\<rparr>"

definition handle_fetch_config ::
    "(nat \<Rightarrow> bytes \<Rightarrow> proto_message option) \<Rightarrow> (string \<Rightarrow> bytes) \<Rightarrow> message_request \<Rightarrow> route_server \<Rightarrow>
      (bool \<times> route_server) option" where
  "handle_fetch_config dec conf r s =
     (case mr_parse_message dec 0 r of
        Some (FetchConfigRequest t) \<Rightarrow>
          (case load_server_config conf t of
             None \<Rightarrow> None
           | Some None \<Rightarrow> Some (False, s)
           | Some (Some c) \<Rightarrow> Some (True, route_reply MSG_fetch_config (FetchConfigResponse c) r s))
      | _ \<Rightarrow> Some (False, s))"

definition handle_fetch_server_address ::
    "(nat \<Rightarrow> bytes \<Rightarrow> proto_message option) \<Rightarrow> message_request \<Rightarrow> route_server \<Rightarrow> (bool \<times> route_server) option" where
  "handle_fetch_server_address dec r s =
     (case mr_parse_message dec 2 r of
        Some (FetchServerRequest t) \<Rightarrow>
          (case get_server t (rs_comm s) of
             None \<Rightarrow> None
           | Some a \<Rightarrow>
               if ip_port a = 0 then Some (False, s)
               else Some (True, route_reply MSG_fetch_server_address (FetchServerResponse t a) r s))
      | _ \<Rightarrow> Some (False, s))"

definition route_handle_message ::
    "(nat \<Rightarrow> bytes \<Rightarrow> proto_message option) \<Rightarrow> (string \<Rightarrow> bytes) \<Rightarrow> message_request \<Rightarrow> route_server \<Rightarrow>
      (bool \<times> route_server) option" where
  "route_handle_message dec conf r s =
     (if mr_message_id r = message_id_value MSG_fetch_config then handle_fetch_config dec conf r s
      else if mr_message_id r = message_id_value MSG_fetch_server_address then handle_fetch_server_address dec r s
      else Some (False, s))"

text \<open>A message of the UDP server's loop.\<close>

definition route_receive ::
    "(nat \<Rightarrow> bytes \<Rightarrow> proto_message option) \<Rightarrow> (string \<Rightarrow> bytes) \<Rightarrow> message_request \<Rightarrow> route_server \<Rightarrow>
      (bool \<times> route_server) option" where
  "route_receive dec conf =
     udp_handle_message dec rs_comm (\<lambda>c s. s\<lparr>rs_comm := c\<rparr>) (route_handle_message dec conf)"

lemmas route_defs = route_receive_def udp_handle_message_def handle_common_message_def
  handle_server_announcement_def route_handle_message_def handle_fetch_server_address_def

subsection \<open>Facts\<close>

lemma route_announcement:
  assumes "mr_message_id r = message_id_value MSG_server_announcement"
    and "mr_parse_message dec 4 r = Some (ServerAnnouncement t a)"
    and "comm_wf (rs_comm s)" "t < server_type_total_count"
  shows "route_receive dec conf r s =
    Some (True, s\<lparr>rs_comm := (rs_comm s)\<lparr>cm_servers := (cm_servers (rs_comm s))[t := a]\<rparr>\<rparr>)"
  using assms by (simp add: route_defs register_server_def comm_wf_def)

lemma route_fetch:
  assumes "mr_message_id q = message_id_value MSG_fetch_server_address"
    and "mr_parse_message dec 2 q = Some (FetchServerRequest t)"
    and "get_server t (rs_comm s) = Some a"
  shows "route_receive dec conf q s =
    (if ip_port a = 0 then Some (False, s)
     else Some (True, route_reply MSG_fetch_server_address (FetchServerResponse t a) q s))"
  using assms by (simp add: route_defs)

lemma fetch_unknown_server:
  assumes "mr_message_id q = message_id_value MSG_fetch_server_address"
    and "mr_parse_message dec 2 q = Some (FetchServerRequest t)" "t < server_type_total_count"
  shows "route_receive dec conf q route_server_new = Some (False, route_server_new)"
  using route_fetch [OF assms(1,2), of route_server_new ip_address_empty] assms(3)
  by (simp add: route_server_new_def communicator_new_def get_server_def ip_address_empty_def)

text \<open>Every message keeps the table's size: the number of server types.\<close>

lemma route_receive_wf:
  assumes "comm_wf (rs_comm s)" "route_receive dec conf r s = Some (ok, s')"
  shows "comm_wf (rs_comm s') \<and> (\<exists>sent. rs_sent s' = rs_sent s @ sent \<and> length sent \<le> 1)"
  using assms
  by (auto simp: route_defs handle_fetch_config_def comm_wf_def register_server_def route_reply_def
      split: if_splits option.splits proto_message.splits)

text \<open>
  A server that announced itself is the answer to the next request for its type, sent
  to whoever asked.
\<close>

theorem announce_then_fetch:
  assumes "mr_message_id r = message_id_value MSG_server_announcement"
    and "mr_parse_message dec 4 r = Some (ServerAnnouncement t a)"
    and "mr_message_id q = message_id_value MSG_fetch_server_address"
    and "mr_parse_message dec 2 q = Some (FetchServerRequest t)"
    and "comm_wf (rs_comm s)" "t < server_type_total_count" "ip_port a \<noteq> 0"
  shows "\<exists>s1 s2. route_receive dec conf r s = Some (True, s1) \<and>
    route_receive dec conf q s1 = Some (True, s2) \<and>
    rs_sent s2 = rs_sent s @ [(mr_reply_address q, MSG_fetch_server_address, FetchServerResponse t a)]"
proof -
  let ?s1 = "s\<lparr>rs_comm := (rs_comm s)\<lparr>cm_servers := (cm_servers (rs_comm s))[t := a]\<rparr>\<rparr>"
  have "get_server t (rs_comm ?s1) = Some a"
    using assms(5,6) by (simp add: get_server_def comm_wf_def)
  from route_fetch [OF assms(3,4) this] route_announcement [OF assms(1,2,5,6)] assms(7)
  show ?thesis by (simp add: route_reply_def)
qed

definition sample_address :: ip_address where
  "sample_address = \<lparr>ip_ip = [10, 0, 0, 1], ip_port = 12345\<rparr>"

definition sample_codec :: "nat \<Rightarrow> bytes \<Rightarrow> proto_message option" where
  "sample_codec t bs = (if t = 4 then Some (ServerAnnouncement 3 sample_address)
     else if t = 2 then Some (FetchServerRequest 3) else None)"

theorem announce_then_fetch_witness:
  "\<exists>s1 s2. route_receive sample_codec (\<lambda>_. [])
      (message_request_new [0, 0] (message_id_value MSG_server_announcement)) route_server_new = Some (True, s1) \<and>
    route_receive sample_codec (\<lambda>_. [])
      (message_request_new [0, 0] (message_id_value MSG_fetch_server_address)) s1 = Some (True, s2) \<and>
    rs_sent s2 = [(ip_address_empty, MSG_fetch_server_address, FetchServerResponse 3 sample_address)]"
  using announce_then_fetch [of "message_request_new [0, 0] (message_id_value MSG_server_announcement)" sample_codec 3
      sample_address "message_request_new [0, 0] (message_id_value MSG_fetch_server_address)" route_server_new "\<lambda>_. []"]
  by (simp add: mr_message_id_def message_request_new_def mr_reset_def mr_parse_message_def sample_codec_def
      sample_address_def route_server_new_def)

end
