(* ===== verification/Chat_Server.thy ===== *)
theory Chat_Server
  imports Communicator Util Packet
begin

section \<open>The chat server\<close>

text \<open>
  \<open>mmocraft-chat/net/chat_command.h\<close>/\<open>.cpp\<close> and \<open>chat_server.h\<close>/\<open>.cpp\<close>. The arrays of a
  \<open>ChatCommand\<close> are byte lists of their sizes, all zero at first. A token is an offset into the
  command array. When the command fills the array, the last token is read on into the sender's
  response, which is still empty at that time: the C string ends there either way.
\<close>

record chat_command =
  cc_sender_player_name :: bytes
  cc_receiver_player_name :: bytes
  cc_command :: bytes
  cc_sender_response :: bytes
  cc_receiver_response :: bytes

definition chat_command_new :: chat_command where
  "chat_command_new =
     \<lparr>cc_sender_player_name = replicate 17 0, cc_receiver_player_name = replicate 17 0,
      cc_command = replicate max_string_length 0, cc_sender_response = replicate max_string_length 0,
      cc_receiver_response = replicate max_string_length 0\<rparr>"

subsection \<open>Tokens\<close>

text \<open>
  The loop of \<open>parse_tokens\<close> from index \<open>i\<close>: the array with its whitespace replaced by NUL, and
  the offsets of the tokens. A NUL is not whitespace.
\<close>

fun token_loop :: "nat \<Rightarrow> bool \<Rightarrow> bytes \<Rightarrow> bytes \<times> nat list" where
  "token_loop i token_splited [] = ([], [])"
| "token_loop i token_splited (c # cs) =
     (if is_whitespace c then let (a, ts) = token_loop (i + 1) True cs in (0 # a, ts)
      else let (a, ts) = token_loop (i + 1) False cs in (c # a, if token_splited then i # ts else ts))"

definition parse_tokens :: "bytes \<Rightarrow> bytes \<times> nat list" where
  "parse_tokens command = token_loop 0 True command"

definition token_str :: "bytes \<Rightarrow> nat \<Rightarrow> bytes" where
  "token_str command t = c_str (drop t command)"

subsection \<open>Execution\<close>

text \<open>\<open>snprintf\<close> and \<open>strcpy_s\<close> into an array: cut to leave room for the NUL.\<close>

definition print_into :: "bytes \<Rightarrow> bytes \<Rightarrow> bytes" where
  "print_into buf text = blit 0 (take (length buf - 1) text @ [0]) buf"

definition error_color :: bytes where
  "error_color = cstr ''&c''"

definition blue_color :: bytes where
  "blue_color = cstr ''&9''"

definition set_response :: "bytes \<Rightarrow> chat_command \<Rightarrow> chat_command" where
  "set_response res c = c\<lparr>cc_receiver_response := print_into (cc_receiver_response c) res\<rparr>"

definition set_error :: "bytes \<Rightarrow> chat_command \<Rightarrow> chat_command" where
  "set_error res c = c\<lparr>cc_sender_response := print_into (cc_sender_response c) (error_color @ res)\<rparr>"

definition format_from_message :: "bytes \<Rightarrow> bytes \<Rightarrow> bytes \<Rightarrow> bytes" where
  "format_from_message buf who message = print_into buf (blue_color @ cstr ''[from '' @ who @ cstr ''] '' @ message)"

definition format_to_message :: "bytes \<Rightarrow> bytes \<Rightarrow> bytes \<Rightarrow> bytes" where
  "format_to_message buf who message = print_into buf (blue_color @ cstr ''[to '' @ who @ cstr ''] '' @ message)"

definition execute_direct_message :: "nat list \<Rightarrow> chat_command \<Rightarrow> chat_command" where
  "execute_direct_message tokens c =
     (if length tokens \<noteq> 3 then set_error (cstr ''Usage: /dm TO MESSAGE'') c
      else let c = c\<lparr>cc_receiver_player_name :=
                 string_copy (cc_receiver_player_name c) (token_str (cc_command c) (tokens ! 1))\<rparr>;
               message = token_str (cc_command c) (tokens ! 2);
               c = c\<lparr>cc_sender_response := format_from_message (cc_sender_response c) (c_str (cc_sender_player_name c)) message\<rparr>
           in c\<lparr>cc_receiver_response := format_to_message (cc_receiver_response c) (c_str (cc_receiver_player_name c)) message\<rparr>)"

text \<open>
  \<open>execute\<close>: a command longer than the array makes \<open>memcpy_s\<close> call the invalid-parameter handler,
  which ends the process: \<open>None\<close>. The \<open>invalid_argument\<close> that is thrown when there is no token is
  caught in the function.
\<close>

definition execute :: "bytes \<Rightarrow> bytes \<Rightarrow> chat_command \<Rightarrow> chat_command option" where
  "execute sender_player_name command c =
     (if length (cc_command c) < length command then None
      else let c = c\<lparr>cc_sender_player_name := string_copy (cc_sender_player_name c) sender_player_name,
                     cc_command := blit 0 command (cc_command c)\<rparr>;
               (a, tokens) = parse_tokens (cc_command c);
               c = c\<lparr>cc_command := a\<rparr>
           in Some (if tokens = [] then set_error (cstr ''Invalid command'') c
                    else if token_str a (tokens ! 0) = cstr ''/dm'' then execute_direct_message tokens c
                    else set_error (cstr ''Unsupported command'') c))"

definition has_sender_message :: "chat_command \<Rightarrow> bool" where
  "has_sender_message c \<longleftrightarrow> cc_sender_player_name c ! 0 \<noteq> 0 \<or> cc_sender_response c ! 0 \<noteq> 0"

definition has_receiver_message :: "chat_command \<Rightarrow> bool" where
  "has_receiver_message c \<longleftrightarrow> cc_receiver_player_name c ! 0 \<noteq> 0 \<or> cc_receiver_response c ! 0 \<noteq> 0"

subsection \<open>The server\<close>

text \<open>
  Common chat is inserted into a collection; \<open>connected\<close> tells whether that collection is in the
  map (\<open>at\<close> throws otherwise, which ends the coroutine). \<open>message[0]\<close> of an empty string is NUL.
\<close>

record chat_document =
  cd_sender_name :: bytes
  cd_receiver_name :: bytes
  cd_message :: bytes

record chat_server =
  cs_comm :: communicator
  cs_inserted :: "chat_document list"
  cs_sent :: "outgoing list"
  cs_last_command :: "chat_command option"

definition handle_chat_command ::
    "(nat \<Rightarrow> bytes \<Rightarrow> proto_message option) \<Rightarrow> bool \<Rightarrow> message_request \<Rightarrow> chat_server \<Rightarrow> chat_server option" where
  "handle_chat_command dec connected r s =
     (case mr_parse_message dec 8 r of
        Some (ChatCommandRequest sender message) \<Rightarrow>
          (if message = [] \<or> hd message \<noteq> 0x2F
           then (let doc = \<lparr>cd_sender_name = sender, cd_receiver_name = [], cd_message = message\<rparr>
                 in Some (if connected then s\<lparr>cs_inserted := cs_inserted s @ [doc]\<rparr> else s))
           else (case execute sender message chat_command_new of
                   None \<Rightarrow> None
                 | Some c \<Rightarrow> Some (s\<lparr>cs_last_command := Some c\<rparr>)))
      | _ \<Rightarrow> Some s)"

definition chat_handle_message ::
    "(nat \<Rightarrow> bytes \<Rightarrow> proto_message option) \<Rightarrow> bool \<Rightarrow> message_request \<Rightarrow> chat_server \<Rightarrow> (bool \<times> chat_server) option" where
  "chat_handle_message dec connected r s =
     (if mr_message_id r = message_id_value MSG_chat_command
      then map_option (\<lambda>s. (True, s)) (handle_chat_command dec connected r s)
      else Some (False, s))"

definition chat_announce_server :: "ip_address \<Rightarrow> chat_server \<Rightarrow> chat_server" where
  "chat_announce_server a s = s\<lparr>cs_sent := cs_sent s @ [announce_server ST_chat a (cs_comm s)]\<rparr>"

subsection \<open>Facts about tokens\<close>

text \<open>The words of a command, split at whitespace: the specification of \<open>parse_tokens\<close>.\<close>

function words :: "bytes \<Rightarrow> bytes list" where
  "words [] = []"
| "words (c # cs) =
     (if is_whitespace c then words cs
      else takeWhile (\<lambda>c. \<not> is_whitespace c) (c # cs) # words (dropWhile (\<lambda>c. \<not> is_whitespace c) cs))"
  by pat_completeness auto
termination
  by (relation "measure length") (simp_all add: less_Suc_eq_le length_dropWhile_le)

lemma zero_not_whitespace [simp]: "\<not> is_whitespace 0"
  by (simp add: is_whitespace_def)

lemma token_loop_array: "fst (token_loop i b cs) = map (\<lambda>c. if is_whitespace c then 0 else c) cs"
  by (induction i b cs rule: token_loop.induct) (auto simp: Let_def split: prod.splits)

lemma token_loop_in_word:
  "snd (token_loop i False cs) =
     snd (token_loop (i + length (takeWhile (\<lambda>c. \<not> is_whitespace c) cs)) True
       (dropWhile (\<lambda>c. \<not> is_whitespace c) cs))"
proof (induction cs arbitrary: i)
  case (Cons c cs)
  then show ?case
    using Cons.IH [of "Suc i"] by (simp add: Let_def case_prod_beta)
qed simp

lemma token_loop_bounds: "t \<in> set (snd (token_loop i b cs)) \<Longrightarrow> i \<le> t \<and> t < i + length cs"
  by (induction i b cs rule: token_loop.induct) (auto simp: Let_def split: prod.splits if_splits)

lemma takeWhile_word:
  "takeWhile (\<lambda>c. c \<noteq> 0) (map (\<lambda>c. if is_whitespace c then 0 else c) cs) =
     takeWhile (\<lambda>c. c \<noteq> 0) (takeWhile (\<lambda>c. \<not> is_whitespace c) cs)"
  by (induction cs) simp_all

lemma token_loop_words:
  "map (\<lambda>t. token_str (map (\<lambda>c. if is_whitespace c then 0 else c) (pre @ cs)) t)
     (snd (token_loop (length pre) True cs)) = map c_str (words cs)"
proof (induction cs arbitrary: pre rule: words.induct)
  case 1
  then show ?case by simp
next
  case (2 c cs)
  show ?case
  proof (cases "is_whitespace c")
    case True
    then show ?thesis
      using "2.IH"(1) [OF True, of "pre @ [c]"] by (simp add: Let_def case_prod_beta)
  next
    case False
    let ?w = "\<lambda>c. \<not> is_whitespace c"
    have "snd (token_loop (length pre) True (c # cs)) =
        length pre # snd (token_loop (length pre + 1 + length (takeWhile ?w cs)) True (dropWhile ?w cs))"
      using False token_loop_in_word [of "length pre + 1" cs] by (simp add: Let_def case_prod_beta)
    moreover have "map (\<lambda>t. token_str (map (\<lambda>c. if is_whitespace c then 0 else c) (pre @ c # cs)) t)
        (snd (token_loop (length pre + 1 + length (takeWhile ?w cs)) True (dropWhile ?w cs))) =
        map c_str (words (dropWhile ?w cs))"
      using "2.IH"(2) [OF False, of "pre @ c # takeWhile ?w cs"] by (simp add: takeWhile_dropWhile_id)
    moreover have "token_str (map (\<lambda>c. if is_whitespace c then 0 else c) (pre @ c # cs)) (length pre) =
        c_str (takeWhile ?w (c # cs))"
      using takeWhile_word [of "c # cs"] by (simp add: token_str_def c_str_def)
    ultimately show ?thesis using False by simp
  qed
qed

text \<open>
  The tokens are the words of the whole array, each read up to its first NUL, and every token
  lies in the array.
\<close>

lemma parse_tokens_words:
  assumes "parse_tokens command = (a, tokens)"
  shows "map (token_str a) tokens = map c_str (words command) \<and> length a = length command \<and>
    list_all (\<lambda>t. t < length command) tokens"
  using assms token_loop_words [of "[]" command] token_loop_array [of 0 True command]
    token_loop_bounds [of _ 0 True command]
  by (auto simp: parse_tokens_def list_all_iff)


lemma c_str_print_into:
  assumes "buf \<noteq> []"
  shows "c_str (print_into buf text) = c_str (take (length buf - 1) text)"
  by (simp add: print_into_def c_str_def blit_def takeWhile_tail)

lemma c_str_append_zero: "list_all (\<lambda>c. c \<noteq> 0) w \<Longrightarrow> c_str (w @ replicate k 0) = w"
  by (cases k) (auto simp: c_str_def list_all_iff takeWhile_append2 takeWhile_eq_all_conv)

lemma c_str_no_zero: "list_all (\<lambda>c. c \<noteq> 0) w \<Longrightarrow> c_str w = w"
  by (simp add: c_str_def list_all_iff takeWhile_eq_all_conv)

lemma words_one: "w \<noteq> [] \<Longrightarrow> list_all (\<lambda>c. \<not> is_whitespace c) w \<Longrightarrow> words w = [w]"
proof (cases w)
  case (Cons c cs)
  moreover assume a: "list_all (\<lambda>c. \<not> is_whitespace c) w"
  ultimately have d: "dropWhile (\<lambda>c. \<not> is_whitespace c) cs = []" and t: "takeWhile (\<lambda>c. \<not> is_whitespace c) cs = cs"
    by (auto simp: list_all_iff dropWhile_eq_Nil_conv takeWhile_eq_all_conv)
  from d have "words (dropWhile (\<lambda>c. \<not> is_whitespace c) cs) = []" by (simp only: words.simps)
  with Cons a t show ?thesis by (simp add: list_all_iff)
qed simp

lemma words_cons:
  assumes "w \<noteq> []" "list_all (\<lambda>c. \<not> is_whitespace c) w" "is_whitespace x"
  shows "words (w @ x # rest) = w # words rest"
  using assms by (cases w) (auto simp: list_all_iff takeWhile_append2 dropWhile_append2)

text \<open>
  Execution by the words of the command as they lie in the array, which is filled up with NULs:
  the program is the first word, and only three words make a direct message.
\<close>

lemma execute_words:
  assumes "length command \<le> 64" and "ws = map c_str (words (command @ replicate (64 - length command) 0))"
  shows "\<exists>c. execute sender command chat_command_new = Some c \<and>
    (if ws = [] then c_str (cc_sender_response c) = cstr ''&cInvalid command''
     else if hd ws \<noteq> cstr ''/dm'' then c_str (cc_sender_response c) = cstr ''&cUnsupported command''
     else if length ws \<noteq> 3 then c_str (cc_sender_response c) = cstr ''&cUsage: /dm TO MESSAGE''
     else c_str (cc_receiver_player_name c) = c_str (take 16 (ws ! 1)) \<and>
       c_str (cc_sender_response c) =
         c_str (take 63 (cstr ''&9[from '' @ c_str (take 16 sender) @ cstr ''] '' @ ws ! 2)) \<and>
       c_str (cc_receiver_response c) =
         c_str (take 63 (cstr ''&9[to '' @ c_str (take 16 (ws ! 1)) @ cstr ''] '' @ ws ! 2)))"
proof -
  let ?cmd = "command @ replicate (64 - length command) 0"
  have blit: "blit 0 command (replicate 64 0) = ?cmd"
    using assms(1) by (simp add: blit_def)
  obtain a tokens where t: "parse_tokens ?cmd = (a, tokens)" by fastforce
  then have ws: "ws = map (token_str a) tokens"
    using parse_tokens_words [OF t] assms(2) by simp
  have r: "replicate n (0 :: u8) \<noteq> []" if "0 < n" for n using that by simp
  note names = c_str_string_copy [of "replicate 17 0", OF r, simplified]
    c_str_print_into [of "replicate 64 0", OF r, simplified]
  note error = c_str_no_zero [of "cstr ''&cInvalid command''"] c_str_no_zero [of "cstr ''&cUnsupported command''"]
    c_str_no_zero [of "cstr ''&cUsage: /dm TO MESSAGE''"]
  show ?thesis
    using assms(1) names error
    by (cases tokens)
      (simp_all add: ws execute_def chat_command_new_def blit t set_error_def error_color_def
        execute_direct_message_def format_from_message_def format_to_message_def blue_color_def Let_def)
qed

definition plain_word :: "bytes \<Rightarrow> bool" where
  "plain_word w \<longleftrightarrow> w \<noteq> [] \<and> list_all (\<lambda>c. \<not> is_whitespace c \<and> c \<noteq> 0) w"

lemma plain_wordD:
  assumes "plain_word w"
  shows "w \<noteq> []" "list_all (\<lambda>c. \<not> is_whitespace c) w" "list_all (\<lambda>c. c \<noteq> 0) w"
  using assms by (auto simp: plain_word_def list_all_iff)

lemma words_direct_message:
  assumes "plain_word to" "plain_word msg"
  shows "map c_str (words ((cstr ''/dm'' @ [space] @ to @ [space] @ msg) @ replicate k 0)) = [cstr ''/dm'', to, msg]"
proof -
  note t = plain_wordD [OF assms(1)] and m = plain_wordD [OF assms(2)]
  have sp: "is_whitespace space" by (simp add: is_whitespace_def)
  have dm: "plain_word (cstr ''/dm'')" by code_simp
  note d = plain_wordD [OF dm]
  have "words (msg @ replicate k 0) = [msg @ replicate k 0]"
    using m by (intro words_one) (auto simp: list_all_iff)
  then have "words ((cstr ''/dm'' @ [space] @ to @ [space] @ msg) @ replicate k 0) =
      [cstr ''/dm'', to, msg @ replicate k 0]"
    using words_cons [OF d(1,2) sp, of "to @ space # msg @ replicate k 0"]
      words_cons [OF t(1,2) sp, of "msg @ replicate k 0"]
    by simp
  then show ?thesis
    using c_str_no_zero [OF d(3)] c_str_no_zero [OF t(3)] c_str_append_zero [OF m(3)] by simp
qed

text \<open>
  The direct message command, for any words without whitespace and NUL that fit: the receiver
  is named, cut to 16 bytes, and both sides get the text, their lines cut to 63 bytes. (The sender's
  line says \<open>from\<close> with the sender's own name, and the receiver's \<open>to\<close> with the receiver's.)
\<close>

theorem direct_message:
  assumes "plain_word to" "plain_word msg" "length to + length msg \<le> 59"
  shows "\<exists>c. execute sender (cstr ''/dm'' @ [space] @ to @ [space] @ msg) chat_command_new = Some c \<and>
    c_str (cc_receiver_player_name c) = take 16 to \<and>
    c_str (cc_sender_response c) = c_str (take 63 (cstr ''&9[from '' @ c_str (take 16 sender) @ cstr ''] '' @ msg)) \<and>
    c_str (cc_receiver_response c) = c_str (take 63 (cstr ''&9[to '' @ take 16 to @ cstr ''] '' @ msg))"
proof -
  have "c_str (take 16 to) = take 16 to"
    using plain_wordD(3) [OF assms(1)] by (intro c_str_no_zero) (auto simp: list_all_iff dest: in_set_takeD)
  moreover have "length (cstr ''/dm'' @ [space] @ to @ [space] @ msg) \<le> 64"
    using assms(3) by simp
  from execute_words [OF this words_direct_message [OF assms(1,2), symmetric], of sender]
  have "\<exists>c. execute sender (cstr ''/dm'' @ [space] @ to @ [space] @ msg) chat_command_new = Some c \<and>
    c_str (cc_receiver_player_name c) = c_str (take 16 to) \<and>
    c_str (cc_sender_response c) = c_str (take 63 (cstr ''&9[from '' @ c_str (take 16 sender) @ cstr ''] '' @ msg)) \<and>
    c_str (cc_receiver_response c) = c_str (take 63 (cstr ''&9[to '' @ c_str (take 16 to) @ cstr ''] '' @ msg))"
    by simp
  ultimately show ?thesis by simp
qed

theorem direct_message_witness:
  "\<exists>c. execute (cstr ''ann'') (cstr ''/dm bob hello'') chat_command_new = Some c \<and>
    c_str (cc_receiver_player_name c) = cstr ''bob'' \<and> c_str (cc_sender_response c) = cstr ''&9[from ann] hello'' \<and>
    c_str (cc_receiver_response c) = cstr ''&9[to bob] hello''"
proof -
  have "plain_word (cstr ''bob'')" "plain_word (cstr ''hello'')" by code_simp+
  from direct_message [OF this, of "cstr ''ann''"] show ?thesis
    by (simp add: c_str_def)
qed

text \<open>
  Splitting a command at whitespace in place yields the words of its array in order, each read
  up to its first NUL; every token lies in the array and the array keeps its length.
\<close>

theorem tokens_are_words:
  "case parse_tokens command of (a, tokens) \<Rightarrow>
     map (token_str a) tokens = map c_str (words command) \<and> length a = length command \<and>
     list_all (\<lambda>t. t < length command) tokens"
  using parse_tokens_words [of command] by (cases "parse_tokens command") simp

end
