(* ===== verification/Client_Bot.thy ===== *)
theory Client_Bot
  imports Connection_IO Packet_Extension "HOL-Library.Signed_Division"
begin

section \<open>The benchmark client\<close>

text \<open>
  \<open>bench::ClientBot\<close> of \<open>mmocraft-bench/client_bot.h\<close>/\<open>.cpp\<close> and the counters of
  \<open>mmocraft-bench/statistics.cpp\<close>. The bot reads the stream of the server just far enough to know
  where packets begin. An unknown identifier is logged and nothing is consumed, so the loop does
  not end: it is a \<open>partial_function\<close>, and not returning is \<open>None\<close>. The measurement of a ping reads
  its whole packet even when only a part of it was received; \<open>behind\<close> is the memory behind the
  received data. The socket calls are outcomes given as arguments.
\<close>

subsection \<open>Statistics\<close>

record statistics =
  total_packet_send_count :: u64
  total_packet_receive_count :: u64
  total_packet_data_sended :: u64
  total_packet_data_received :: u64
  total_ping_received :: u64
  total_ping_rtt :: u64
  max_ping_rtt :: u64
  lastest_ping_rtt :: u64

definition statistics_init :: statistics where
  "statistics_init =
     \<lparr>total_packet_send_count = 0, total_packet_receive_count = 0, total_packet_data_sended = 0,
      total_packet_data_received = 0, total_ping_received = 0, total_ping_rtt = 0, max_ping_rtt = 0,
      lastest_ping_rtt = 0\<rparr>"

definition on_packet_send :: "nat \<Rightarrow> statistics \<Rightarrow> statistics" where
  "on_packet_send data_size st =
     st\<lparr>total_packet_send_count := total_packet_send_count st + 1,
        total_packet_data_sended := total_packet_data_sended st + of_nat data_size\<rparr>"

definition on_packet_receive :: "nat \<Rightarrow> statistics \<Rightarrow> statistics" where
  "on_packet_receive data_size st =
     st\<lparr>total_packet_receive_count := total_packet_receive_count st + 1,
        total_packet_data_received := total_packet_data_received st + of_nat data_size\<rparr>"

definition add_ping_rtt :: "u64 \<Rightarrow> statistics \<Rightarrow> statistics" where
  "add_ping_rtt rtt st =
     (let st = st\<lparr>lastest_ping_rtt := rtt, total_ping_rtt := total_ping_rtt st + rtt\<rparr>;
          st = (if max_ping_rtt st < rtt then st\<lparr>max_ping_rtt := rtt\<rparr> else st)
      in st\<lparr>total_ping_received := total_ping_received st + 1\<rparr>)"

text \<open>No result: the read leaves the memory that is there.\<close>

definition on_ping_packet_receive :: "u64 \<Rightarrow> bytes \<Rightarrow> statistics \<Rightarrow> statistics option" where
  "on_ping_packet_receive now packet_data st =
     map_option (\<lambda>packet. add_ping_rtt (get_rtt_ns now packet) st) (ext_ping_parse packet_data)"

text \<open>The latest, average and maximal time in milliseconds, printed when a ping was received.\<close>

definition print_ping_statistics :: "statistics \<Rightarrow> (u64 \<times> u64 \<times> u64) option" where
  "print_ping_statistics st =
     (if total_ping_received st = 0 then None
      else Some (lastest_ping_rtt st div 1000000, total_ping_rtt st div total_ping_received st div 1000000,
                 max_ping_rtt st div 1000000))"

subsection \<open>The client\<close>

datatype client_state = CS_error | CS_initialized | CS_connected | CS_handshake_requested
  | CS_handshake_completed | CS_level_initialized

fun client_state_value :: "client_state \<Rightarrow> nat" where
  "client_state_value CS_error = 0"
| "client_state_value CS_initialized = 1"
| "client_state_value CS_connected = 2"
| "client_state_value CS_handshake_requested = 3"
| "client_state_value CS_handshake_completed = 4"
| "client_state_value CS_level_initialized = 5"

lemma client_state_value_inject [simp]: "client_state_value s = client_state_value t \<longleftrightarrow> s = t"
  by (cases s; cases t) simp_all

text \<open>The enumerators are compared as the integers they are.\<close>

instantiation client_state :: linorder
begin

definition less_eq_client_state :: "client_state \<Rightarrow> client_state \<Rightarrow> bool" where
  "less_eq_client_state s t \<longleftrightarrow> client_state_value s \<le> client_state_value t"

definition less_client_state :: "client_state \<Rightarrow> client_state \<Rightarrow> bool" where
  "less_client_state s t \<longleftrightarrow> client_state_value s < client_state_value t"

instance
  by standard (auto simp: less_eq_client_state_def less_client_state_def)

end

record client_bot =
  cb_id :: nat
  cb_state :: client_state
  cb_last_interaction :: u64
  cb_remain :: nat
  cb_io :: connection_io
  cb_connecting :: bool

definition client_bot_new :: "nat \<Rightarrow> u64 \<Rightarrow> client_bot" where
  "client_bot_new counter now =
     \<lparr>cb_id = counter, cb_state = CS_initialized, cb_last_interaction = now, cb_remain = 0,
      cb_io = connection_io_new, cb_connecting = False\<rparr>"

definition set_client_state :: "client_state \<Rightarrow> client_bot \<Rightarrow> client_bot" where
  "set_client_state after b = b\<lparr>cb_state := after\<rparr>"

text \<open>The comparison is unsigned and 64 bits wide.\<close>

definition bot_is_safe_delete :: "u64 \<Rightarrow> client_bot \<Rightarrow> bool" where
  "bot_is_safe_delete now b \<longleftrightarrow> cb_last_interaction b + 5 * 1000 < now"

definition bot_post_recv_event :: "nat \<Rightarrow> bool \<Rightarrow> client_bot \<Rightarrow> client_bot" where
  "bot_post_recv_event max_packet rio b =
     (let (_, c, _) = post_recv_event max_packet rio (cb_io b) in b\<lparr>cb_io := c\<rparr>)"

text \<open>The second component is what was submitted to registered I/O.\<close>

definition bot_post_send_event :: "bool \<Rightarrow> client_bot \<Rightarrow> client_bot \<times> bytes option" where
  "bot_post_send_event rio b =
     (if \<not> is_send_io_busy (cb_io b)
      then (let (_, c, sub) = post_send_event rio (cb_io b) in (b\<lparr>cb_io := c\<rparr>, sub))
      else (b, None))"

definition bot_username :: "nat \<Rightarrow> bytes" where
  "bot_username i = take 63 (cstr ''user'' @ decimal_digits i [])"

definition bot_handshake_packet :: "nat \<Rightarrow> packet_handshake" where
  "bot_handshake_packet i = handshake_reply (bot_username i) (cstr ''password'') 0"

definition bot_send ::
    "((bytes \<Rightarrow> connection_io \<Rightarrow> bool \<times> connection_io) \<Rightarrow> connection_io \<Rightarrow> bool \<times> connection_io) \<Rightarrow>
      bool \<Rightarrow> client_bot \<Rightarrow> client_bot \<times> bytes option" where
  "bot_send serialize rio b =
     bot_post_send_event rio (b\<lparr>cb_io := snd (send_packet serialize (cb_io b))\<rparr>)"

definition bot_send_handshake :: "bool \<Rightarrow> client_bot \<Rightarrow> client_bot \<times> bytes option" where
  "bot_send_handshake rio b =
     bot_send (\<lambda>push. handshake_serialize push (bot_handshake_packet (cb_id b))) rio b"

definition bot_send_ping :: "u64 \<Rightarrow> bool \<Rightarrow> client_bot \<Rightarrow> client_bot \<times> bytes option" where
  "bot_send_ping now rio b =
     (if CS_connected \<le> cb_state b
      then bot_send (\<lambda>push. ext_ping_serialize push (set_request_time now ext_ping_make)) rio b
      else (b, None))"

text \<open>
  \<open>send_random_block\<close>, given the five random integers, which are not negative; a map of which a
  side is zero divides by zero. The remainders are narrowed to \<open>short\<close> by \<open>Coordinate3D\<close>.
\<close>

definition random_position :: "coordinate3d \<Rightarrow> nat \<times> nat \<times> nat \<Rightarrow> coordinate3d option" where
  "random_position map_size r =
     (case r of (rx, ry, rz) \<Rightarrow>
        if cx map_size = 0 \<or> cy map_size = 0 \<or> cz map_size = 0 then None
        else Some (Coordinate3D (word_of_int (int rx smod sint (cx map_size)))
                     (word_of_int (int ry smod sint (cy map_size)))
                     (word_of_int (int rz smod sint (cz map_size)))))"

definition bot_send_random_block ::
    "coordinate3d \<Rightarrow> nat \<times> nat \<times> nat \<Rightarrow> nat \<Rightarrow> nat \<Rightarrow> bool \<Rightarrow> client_bot \<Rightarrow> (client_bot \<times> bytes option) option" where
  "bot_send_random_block map_size r r_mode r_block rio b =
     map_option (\<lambda>pos. bot_send (\<lambda>push. set_block_client_serialize push
         (set_block_client_make pos (of_nat (r_mode mod 2)) (of_nat (r_block mod 20)))) rio b)
       (random_position map_size r)"

subsection \<open>Completion of I/O\<close>

definition bot_on_error :: "client_bot \<Rightarrow> client_bot" where
  "bot_on_error b = b\<lparr>cb_state := CS_error\<rparr>"

text \<open>\<open>updated\<close> tells whether \<open>setsockopt\<close> could update the connected socket.\<close>

definition bot_handle_connect :: "bool \<Rightarrow> u64 \<Rightarrow> client_bot \<Rightarrow> client_bot" where
  "bot_handle_connect updated now b =
     (if \<not> updated then bot_on_error b else b\<lparr>cb_last_interaction := now, cb_connecting := False\<rparr>)"

definition bot_on_connect :: "nat \<Rightarrow> bool \<Rightarrow> client_bot \<Rightarrow> client_bot" where
  "bot_on_connect max_packet rio b =
     (let b = (if cb_state b \<noteq> CS_error
               then bot_post_recv_event max_packet rio (b\<lparr>cb_state := CS_connected\<rparr>) else b)
      in b\<lparr>cb_connecting := False\<rparr>)"

definition bot_handle_send :: "u64 \<Rightarrow> client_bot \<Rightarrow> client_bot" where
  "bot_handle_send now b = b\<lparr>cb_last_interaction := now\<rparr>"

definition bot_on_send :: "nat \<Rightarrow> client_bot \<Rightarrow> statistics \<Rightarrow> client_bot \<times> statistics" where
  "bot_on_send transferred_bytes b st =
     (b\<lparr>cb_io := (cb_io b)\<lparr>cio_send := (cio_send (cb_io b))\<lparr>se_processing := False\<rparr>\<rparr>\<rparr>,
      on_packet_send transferred_bytes st)"

text \<open>
  The cases of the \<open>switch\<close>: the size of the packet and the state that it puts the client in.
\<close>

definition bot_packet :: "u8 \<Rightarrow> (nat \<times> client_state option) option" where
  "bot_packet packet_id =
     (if packet_id = PT_handshake then Some (handshake_packet_size, Some CS_handshake_completed)
      else if packet_id = PT_ping then Some (ping_packet_size, None)
      else if packet_id = PT_level_initialize then Some (level_init_packet_size, None)
      else if packet_id = PT_level_datachunk then Some (level_data_chunk_packet_size, None)
      else if packet_id = PT_level_finalize then Some (7, Some CS_level_initialized)
      else if packet_id = PT_set_block_server then Some (set_block_server_packet_size, None)
      else if packet_id = PT_spawn_player then Some (spawn_player_packet_size, None)
      else if packet_id = PT_set_player_position then Some (set_player_position_packet_size, None)
      else if packet_id = PT_update_player_position then Some (7, None)
      else if packet_id = PT_update_player_coordinate then Some (5, None)
      else if packet_id = PT_update_player_orientation then Some (4, None)
      else if packet_id = PT_despawn_player then Some (despawn_player_packet_size, None)
      else if packet_id = PT_chat_message then Some (chat_message_packet_size, None)
      else if packet_id = PT_disconnect_player then Some (disconnect_player_packet_size, Some CS_error)
      else if packet_id = PT_set_playerid then Some (set_player_id_packet_size, None)
      else if packet_id = PT_ext_ping then Some (ext_ping_packet_size, None)
      else None)"

text \<open>\<open>CONSUME_PACKET_SIZE\<close>: what remains of the packet, and the data behind what was received of it.\<close>

definition consume_packet_size :: "nat \<Rightarrow> bytes \<Rightarrow> nat \<times> bytes" where
  "consume_packet_size packet_size rest =
     (let remain = packet_size - min packet_size (length rest) in (remain, drop (packet_size - remain) rest))"

definition enter_state :: "client_state option \<Rightarrow> client_bot \<Rightarrow> client_bot" where
  "enter_state t b = (case t of None \<Rightarrow> b | Some s \<Rightarrow> b\<lparr>cb_state := s\<rparr>)"

text \<open>
  The loop over the packets; \<open>rest\<close> is the data from \<open>data_begin\<close> to \<open>data_end\<close>, and \<open>clock n\<close> the
  time at which \<open>n\<close> bytes are left. An unknown identifier starts the next round with the same state.
\<close>

partial_function (option) bot_loop ::
    "(nat \<Rightarrow> u64) \<Rightarrow> bytes \<Rightarrow> bytes \<Rightarrow> client_bot \<Rightarrow> statistics \<Rightarrow> (client_bot \<times> statistics) option" where
  "bot_loop clock behind rest b st =
     (if cb_remain b = 0 \<and> rest \<noteq> [] then
        (case bot_packet (hd rest) of
           None \<Rightarrow> bot_loop clock behind rest b st
         | Some pk \<Rightarrow>
             (case (if hd rest = PT_ext_ping
                    then on_ping_packet_receive (clock (length rest)) (rest @ behind) st else Some st) of
                None \<Rightarrow> None
              | Some st \<Rightarrow>
                  bot_loop clock behind (snd (consume_packet_size (fst pk) rest))
                    (enter_state (snd pk) (b\<lparr>cb_remain := fst (consume_packet_size (fst pk) rest)\<rparr>)) st))
      else Some (b, st))"

definition bot_handle_recv ::
    "u64 \<Rightarrow> (nat \<Rightarrow> u64) \<Rightarrow> bytes \<Rightarrow> bytes \<Rightarrow> client_bot \<Rightarrow> statistics \<Rightarrow> (nat \<times> client_bot \<times> statistics) option" where
  "bot_handle_recv now clock behind data b st =
     (let b = b\<lparr>cb_last_interaction := now\<rparr>;
          partial = min (cb_remain b) (length data);
          b = b\<lparr>cb_remain := cb_remain b - partial\<rparr>
      in map_option (\<lambda>(b, st). (length data, b, on_packet_receive (length data) st))
           (bot_loop clock behind (drop partial data) b st))"

definition bot_on_recv :: "nat \<Rightarrow> bool \<Rightarrow> client_bot \<Rightarrow> client_bot" where
  "bot_on_recv max_packet rio b =
     (let b = b\<lparr>cb_io := (cb_io b)\<lparr>cio_recv := (cio_recv (cb_io b))\<lparr>re_processing := False\<rparr>\<rparr>\<rparr>
      in if cb_state b \<noteq> CS_error then bot_post_recv_event max_packet rio b else b)"

subsection \<open>The stream as the client reads it\<close>

text \<open>
  A reference machine that reads one byte at a time: in a packet it counts down, at the start of
  one it looks at the identifier. It stops at an identifier it does not know.
\<close>

fun bot_byte :: "u8 \<Rightarrow> client_state \<times> nat \<Rightarrow> (client_state \<times> nat) option" where
  "bot_byte c (s, r) =
     (if 0 < r then Some (s, r - 1)
      else map_option (\<lambda>(n, t). (case t of None \<Rightarrow> s | Some t \<Rightarrow> t, n - 1)) (bot_packet c))"

fun bot_bytes :: "bytes \<Rightarrow> client_state \<times> nat \<Rightarrow> (client_state \<times> nat) option" where
  "bot_bytes [] x = Some x"
| "bot_bytes (c # cs) x = Option.bind (bot_byte c x) (bot_bytes cs)"

lemma bot_bytes_append: "bot_bytes (as @ bs) x = Option.bind (bot_bytes as x) (bot_bytes bs)"
  by (induction as arbitrary: x) (auto split: bind_split)

lemma bot_bytes_inside: "length bs \<le> r \<Longrightarrow> bot_bytes bs (s, r) = Some (s, r - length bs)"
  by (induction bs arbitrary: r) auto

lemma bot_bytes_skip: "r \<le> length bs \<Longrightarrow> bot_bytes bs (s, r) = bot_bytes (drop r bs) (s, 0)"
  using bot_bytes_append [of "take r bs" "drop r bs" "(s, r)"] by (simp add: bot_bytes_inside)

lemma bot_packet_size: "bot_packet c = Some (n, t) \<Longrightarrow> 0 < n"
  by (auto simp: bot_packet_def split: if_splits)

text \<open>A packet, whole or not, is one step of the loop.\<close>

lemma bot_bytes_packet:
  assumes "bot_packet c = Some (n, t)"
  shows "bot_bytes (c # cs) (s, 0) =
    bot_bytes (snd (consume_packet_size n (c # cs)))
      (case t of None \<Rightarrow> s | Some t \<Rightarrow> t, fst (consume_packet_size n (c # cs)))"
proof -
  obtain m where n: "n = Suc m" using bot_packet_size [OF assms] by (cases n) auto
  let ?s = "case t of None \<Rightarrow> s | Some t \<Rightarrow> t"
  have "bot_bytes (c # cs) (s, 0) = bot_bytes cs (?s, m)" using assms n by simp
  also have "\<dots> = bot_bytes (snd (consume_packet_size n (c # cs))) (?s, fst (consume_packet_size n (c # cs)))"
  proof (cases "m \<le> length cs")
    case True
    then have "consume_packet_size n (c # cs) = (0, drop m cs)"
      by (simp add: consume_packet_size_def n Let_def)
    with bot_bytes_skip [OF True] show ?thesis by simp
  next
    case False
    then have "consume_packet_size n (c # cs) = (m - length cs, [])"
      by (simp add: consume_packet_size_def n Let_def)
    with False show ?thesis by (simp add: bot_bytes_inside)
  qed
  finally show ?thesis .
qed

definition bot_view :: "client_bot \<Rightarrow> client_state \<times> nat" where
  "bot_view b = (cb_state b, cb_remain b)"

lemma bot_view_enter:
  "bot_view (enter_state t (b\<lparr>cb_remain := r\<rparr>)) = (case t of None \<Rightarrow> cb_state b | Some t \<Rightarrow> t, r)"
  by (cases t) (simp_all add: bot_view_def enter_state_def)

text \<open>After a packet was consumed either nothing of it remains, or no data.\<close>

lemma consume_rest: "fst (consume_packet_size n rest) = 0 \<or> snd (consume_packet_size n rest) = []"
  by (simp add: consume_packet_size_def Let_def min_def)

lemma consume_shorter: "0 < n \<Longrightarrow> rest \<noteq> [] \<Longrightarrow> length (snd (consume_packet_size n rest)) < length rest"
  by (cases rest) (auto simp: consume_packet_size_def Let_def)

lemma cb_remain_enter [simp]: "cb_remain (enter_state t b) = cb_remain b"
  by (cases t) (simp_all add: enter_state_def)

lemma bot_bytes_view:
  assumes "bot_packet (hd rest) = Some (n, t)" "rest \<noteq> []" "cb_remain b = 0"
  shows "bot_bytes rest (bot_view b) = bot_bytes (snd (consume_packet_size n rest))
    (bot_view (enter_state t (b\<lparr>cb_remain := fst (consume_packet_size n rest)\<rparr>)))"
  using assms bot_bytes_packet [of "hd rest" n t "tl rest" "cb_state b"]
  by (cases rest) (simp_all add: bot_view_enter, simp add: bot_view_def)

text \<open>When the loop returns, it has read the stream as the machine does.\<close>

lemma bot_loop_sound:
  assumes "bot_loop clock behind rest b st = Some y"
  shows "cb_remain b = 0 \<or> rest = [] \<longrightarrow> bot_bytes rest (bot_view b) = Some (bot_view (fst y))"
proof (rule bot_loop.raw_induct [where P = "\<lambda>clock behind rest b st y.
      cb_remain b = 0 \<or> rest = [] \<longrightarrow> bot_bytes rest (bot_view b) = Some (bot_view (fst y))", OF _ assms], goal_cases)
  case (1 loop clock behind rest b st y)
  show ?case
  proof (cases "cb_remain b = 0 \<and> rest \<noteq> []")
    case False
    with 1(2) show ?thesis by auto
  next
    case True
    show ?thesis
    proof (cases "bot_packet (hd rest)")
      case None
      with True 1(2) 1(1) [of clock behind rest b st y] show ?thesis by simp
    next
      case (Some pk)
      obtain n t where pk: "pk = (n, t)" by (cases pk)
      let ?rest = "snd (consume_packet_size n rest)"
      let ?b = "enter_state t (b\<lparr>cb_remain := fst (consume_packet_size n rest)\<rparr>)"
      from 1(2) True Some pk obtain st' where "loop clock behind ?rest ?b st' = Some y"
        by (auto split: option.splits)
      from 1(1) [OF this] have "bot_bytes ?rest (bot_view ?b) = Some (bot_view (fst y))"
        using consume_rest [of n rest] by simp
      with bot_bytes_view [of rest n t b] Some pk True show ?thesis by simp
    qed
  qed
qed

lemma ext_ping_parse_long: "8 < length bs \<Longrightarrow> \<exists>p. ext_ping_parse bs = Some p"
  by (auto simp: ext_ping_parse_def read_uint64_def skip_id_def split: option.split)

text \<open>It returns whenever the stream has only known identifiers.\<close>

lemma bot_loop_returns:
  assumes "8 \<le> length behind"
  shows "bot_bytes rest (bot_view b) = Some v \<Longrightarrow> cb_remain b = 0 \<or> rest = [] \<Longrightarrow>
    \<exists>y. bot_loop clock behind rest b st = Some y"
proof (induction "length rest" arbitrary: rest b st rule: less_induct)
  case less
  show ?case
  proof (cases "rest = []")
    case True
    then show ?thesis by (simp add: bot_loop.simps)
  next
    case False
    with less.prems(2) have r: "cb_remain b = 0" by simp
    from less.prems(1) False r obtain n t where pk: "bot_packet (hd rest) = Some (n, t)"
      by (cases rest) (auto simp: bot_view_def split: bind_splits)
    let ?rest = "snd (consume_packet_size n rest)"
    let ?b = "enter_state t (b\<lparr>cb_remain := fst (consume_packet_size n rest)\<rparr>)"
    have "8 < length (rest @ behind)" using assms False by (cases rest) auto
    then obtain st' where st': "(if hd rest = PT_ext_ping
        then on_ping_packet_receive (clock (length rest)) (rest @ behind) st else Some st) = Some st'"
      using ext_ping_parse_long [of "rest @ behind"] by (cases "hd rest = PT_ext_ping") (auto simp: on_ping_packet_receive_def)
    have "bot_bytes ?rest (bot_view ?b) = Some v" using bot_bytes_view [OF pk False r] less.prems(1) by simp
    moreover have "length ?rest < length rest" using bot_packet_size [OF pk] False by (rule consume_shorter)
    moreover have "cb_remain ?b = 0 \<or> ?rest = []" using consume_rest [of n rest] by simp
    ultimately have "\<exists>y. bot_loop clock behind ?rest ?b st' = Some y" using less.hyps by blast
    moreover have "bot_loop clock behind rest b st = bot_loop clock behind ?rest ?b st'"
      by (subst bot_loop.simps) (simp add: False r pk st')
    ultimately show ?thesis by simp
  qed
qed

lemma bot_loop_bytes:
  assumes "8 \<le> length behind" "cb_remain b = 0 \<or> rest = []"
  shows "map_option (\<lambda>y. bot_view (fst y)) (bot_loop clock behind rest b st) = bot_bytes rest (bot_view b)"
proof (cases "bot_loop clock behind rest b st")
  case None
  with bot_loop_returns [OF assms(1) _ assms(2), of _ clock st] show ?thesis
    by (cases "bot_bytes rest (bot_view b)") auto
next
  case (Some y)
  with bot_loop_sound [OF Some] assms(2) show ?thesis by simp
qed

lemma bot_handle_recv_bytes:
  assumes "8 \<le> length behind"
  shows "map_option (\<lambda>(n, b, st). bot_view b) (bot_handle_recv now clock behind data b st) = bot_bytes data (bot_view b)"
proof -
  let ?p = "min (cb_remain b) (length data)"
  let ?b = "b\<lparr>cb_last_interaction := now, cb_remain := cb_remain b - ?p\<rparr>"
  have "bot_bytes data (bot_view b) = bot_bytes (drop ?p data) (bot_view ?b)"
    using bot_bytes_skip [of "cb_remain b" data] bot_bytes_inside [of data "cb_remain b"]
    by (cases "cb_remain b \<le> length data") (simp_all add: bot_view_def min_def)
  also have "\<dots> = map_option (\<lambda>y. bot_view (fst y)) (bot_loop clock behind (drop ?p data) ?b st)"
    using assms by (intro bot_loop_bytes [symmetric]) auto
  finally show ?thesis by (simp add: bot_handle_recv_def Let_def option.map_comp comp_def case_prod_beta)
qed

text \<open>A sequence of receives; each processes all it was given, so the buffer is empty again.\<close>

fun bot_receives ::
    "(u64 \<times> (nat \<Rightarrow> u64) \<times> bytes \<times> bytes) list \<Rightarrow> client_bot \<Rightarrow> statistics \<Rightarrow> (client_bot \<times> statistics) option" where
  "bot_receives [] b st = Some (b, st)"
| "bot_receives ((now, clock, behind, data) # rs) b st =
     Option.bind (bot_handle_recv now clock behind data b st) (\<lambda>(n, b, st). bot_receives rs b st)"

definition received_bytes :: "(u64 \<times> (nat \<Rightarrow> u64) \<times> bytes \<times> bytes) list \<Rightarrow> bytes" where
  "received_bytes rs = concat (map (\<lambda>(now, clock, behind, data). data) rs)"

text \<open>However the stream is cut into receives, the client reads it as the machine does.\<close>

lemma bot_receives_bytes:
  assumes "\<forall>(now, clock, behind, data) \<in> set rs. 8 \<le> length behind"
  shows "map_option (\<lambda>(b, st). bot_view b) (bot_receives rs b st) = bot_bytes (received_bytes rs) (bot_view b)"
  using assms
proof (induction rs arbitrary: b st)
  case (Cons r rs)
  obtain now clock behind data where r: "r = (now, clock, behind, data)" by (cases r)
  have h: "map_option (\<lambda>(n, b, st). bot_view b) (bot_handle_recv now clock behind data b st) = bot_bytes data (bot_view b)"
    using Cons.prems r by (intro bot_handle_recv_bytes) simp
  show ?case
  proof (cases "bot_handle_recv now clock behind data b st")
    case None
    with h show ?thesis by (simp add: r received_bytes_def bot_bytes_append)
  next
    case (Some y)
    obtain n b' st' where y: "y = (n, b', st')" by (cases y)
    from h Some y have v: "bot_bytes data (bot_view b) = Some (bot_view b')" by simp
    have "map_option (\<lambda>(b, st). bot_view b) (bot_receives rs b' st') = bot_bytes (received_bytes rs) (bot_view b')"
      using Cons.prems by (intro Cons.IH) simp
    with Some y v show ?thesis by (simp add: r received_bytes_def bot_bytes_append)
  qed
qed (simp add: received_bytes_def)

text \<open>The machine stops exactly where a packet begins with an identifier that the client does not know.\<close>

lemma bot_bytes_None:
  "bot_bytes bs x = None \<longleftrightarrow> (\<exists>pre c post s. bs = pre @ c # post \<and> bot_bytes pre x = Some (s, 0) \<and> bot_packet c = None)"
proof
  show "\<exists>pre c post s. bs = pre @ c # post \<and> bot_bytes pre x = Some (s, 0) \<and> bot_packet c = None" if "bot_bytes bs x = None"
    using that
  proof (induction bs arbitrary: x)
    case (Cons c cs)
    obtain s r where x: "x = (s, r)" by fastforce
    show ?case
    proof (cases "bot_byte c x")
      case None
      then have "r = 0" "bot_packet c = None" by (auto simp: x split: if_splits)
      then show ?thesis by (intro exI [of _ "[]"] exI [of _ c] exI [of _ cs] exI [of _ s]) (simp add: x)
    next
      case (Some y)
      with Cons.prems have "bot_bytes cs y = None" by simp
      from Cons.IH [OF this] obtain pre c' post s' where "cs = pre @ c' # post" "bot_bytes pre y = Some (s', 0)" "bot_packet c' = None"
        by blast
      with Some show ?thesis by (intro exI [of _ "c # pre"] exI [of _ c'] exI [of _ post] exI [of _ s']) simp
    qed
  qed simp
qed (auto simp: bot_bytes_append)

text \<open>
  C18: However the stream of the server is cut into receives, the client ends in the state and at
  the place in the packets in which it ends when it reads the stream byte by byte. It does not
  return from its handler exactly when somewhere a packet begins with an identifier that it does
  not know: there its loop logs the identifier forever.
\<close>

theorem bot_reads_stream:
  assumes "\<forall>(now, clock, behind, data) \<in> set rs. 8 \<le> length behind"
  shows "map_option (\<lambda>(b, st). bot_view b) (bot_receives rs b st) = bot_bytes (received_bytes rs) (bot_view b) \<and>
    (bot_receives rs b st = None \<longleftrightarrow> (\<exists>pre c post s. received_bytes rs = pre @ c # post \<and>
      bot_bytes pre (bot_view b) = Some (s, 0) \<and> bot_packet c = None))"
proof
  show view: "map_option (\<lambda>(b, st). bot_view b) (bot_receives rs b st) = bot_bytes (received_bytes rs) (bot_view b)"
    by (rule bot_receives_bytes [OF assms])
  then have "bot_receives rs b st = None \<longleftrightarrow> bot_bytes (received_bytes rs) (bot_view b) = None"
    by (metis map_option_is_None)
  then show "bot_receives rs b st = None \<longleftrightarrow> (\<exists>pre c post s. received_bytes rs = pre @ c # post \<and>
      bot_bytes pre (bot_view b) = Some (s, 0) \<and> bot_packet c = None)"
    unfolding bot_bytes_None .
qed

theorem bot_reads_stream_witness:
  "map_option (\<lambda>(b, st). bot_view b)
     (bot_receives [(0, \<lambda>_. 0, replicate 8 0, [PT_ping, PT_level_finalize, 0, 4]), (1, \<lambda>_. 1, replicate 8 0, [0, 4, 0, 4, PT_ping])]
       (client_bot_new 0 0) statistics_init) = Some (CS_level_initialized, 0) \<and>
   bot_receives [(0, \<lambda>_. 0, replicate 8 0, [PT_ping, PT_ext_message])] (client_bot_new 0 0) statistics_init = None"
proof -
  have p: "bot_packet PT_ping = Some (1, None)" "bot_packet PT_level_finalize = Some (7, Some CS_level_initialized)"
    "bot_packet PT_ext_message = None"
    by (simp_all add: bot_packet_def)
  let ?rs = "[(0, \<lambda>_. 0, replicate 8 0, [PT_ping, PT_level_finalize, 0, 4]), (1, \<lambda>_. 1, replicate 8 0, [0, 4, 0, 4, PT_ping])]"
  let ?qs = "[(0, \<lambda>_. 0, replicate 8 0, [PT_ping, PT_ext_message])]"
  have "bot_bytes (received_bytes ?rs) (bot_view (client_bot_new 0 0)) = Some (CS_level_initialized, 0)"
    and "bot_bytes (received_bytes ?qs) (bot_view (client_bot_new 0 0)) = None"
    by (simp_all add: received_bytes_def p bot_view_def client_bot_new_def)
  then show ?thesis
    using bot_reads_stream [of ?rs "client_bot_new 0 0" statistics_init] bot_reads_stream [of ?qs "client_bot_new 0 0" statistics_init]
    by (simp del: bot_receives.simps)
qed

end
