(* ===== verification/Client_Join.thy ===== *)
theory Client_Join
  imports Client_Bot World
begin

section \<open>A benchmark client joins the server\<close>

text \<open>
  The two programs against each other: what the packet writers of the server put on the wire, and
  what \<open>bench::ClientBot\<close> makes of it. Every packet the server sends to a client of the classic
  protocol moves the client from the beginning of a packet to the beginning of the next.
\<close>

lemma bot_bytes_one:
  assumes "bot_packet c = Some (Suc (length cs), t)"
  shows "bot_bytes ((c # cs) @ r) (s, 0) = bot_bytes r (case t of None \<Rightarrow> s | Some t \<Rightarrow> t, 0)"
proof -
  have "consume_packet_size (Suc (length cs)) (c # (cs @ r)) = (0, r)"
    by (simp add: consume_packet_size_def Let_def)
  with bot_bytes_packet [OF assms, of "cs @ r" s] show ?thesis by simp
qed

lemma bot_bytes_whole:
  assumes "map_option fst (bot_packet (hd bs)) = Some (length bs)"
  shows "bot_bytes (bs @ r) (s, 0) = bot_bytes r (case snd (the (bot_packet (hd bs))) of None \<Rightarrow> s | Some t \<Rightarrow> t, 0)"
proof -
  from assms have "bs \<noteq> []" using bot_packet_size by fastforce
  with assms bot_bytes_one [of "hd bs" "tl bs" _ r s] show ?thesis by (cases bs) auto
qed

lemma hd_write [simp]:
  "hd (write_byte v []) = v"
  "out \<noteq> [] \<Longrightarrow> hd (write_byte v out) = hd out" "out \<noteq> [] \<Longrightarrow> hd (write_short w out) = hd out"
  "out \<noteq> [] \<Longrightarrow> hd (write_string str out) = hd out" "out \<noteq> [] \<Longrightarrow> hd (write_cstring str out) = hd out"
  "out \<noteq> [] \<Longrightarrow> hd (write_uint64 u out) = hd out"
  by (simp_all add: write_defs Let_def)

lemma write_not_Nil [simp]:
  "write_byte v out \<noteq> []" "write_short w out \<noteq> []" "write_string str out \<noteq> []" "write_cstring str out \<noteq> []"
  by (simp_all add: write_defs Let_def)

lemma packet_heads:
  "hd (handshake_bytes (handshake_reply name motd user_type)) = PT_handshake"
  "hd (set_player_id_bytes (set_player_id_make i)) = PT_set_playerid"
  "hd level_init_bytes = PT_level_initialize" "hd (level_finalize x y z) = PT_level_finalize"
  "hd (set_block_server_bytes b) = PT_set_block_server" "hd (chat_message_bytes m) = PT_chat_message"
  "hd (spawn_packet p) = PT_spawn_player" "hd (despawn_packet p) = PT_despawn_player"
  "hd (disconnect_player_bytes (disconnect_player_make reason)) = PT_disconnect_player"
  "hd (ext_ping_bytes q) = PT_ext_ping" "hd (ext_message_bytes e) = PT_ext_message"
  by (simp_all add: packet_bytes_defs handshake_reply_def set_player_id_make_def level_finalize_def
      spawn_packet_def despawn_packet_def disconnect_player_make_def ext_ping_bytes_def ext_message_bytes_def
      write_coordinate_def write_orientation_def Let_def)

text \<open>The packets of the server; the last of them keeps the state of the client out of the world.\<close>

lemma bot_reads_packets:
  "bot_bytes (handshake_bytes (handshake_reply name motd user_type) @ r) (s, 0) = bot_bytes r (CS_handshake_completed, 0)"
  "bot_bytes (set_player_id_bytes (set_player_id_make i) @ r) (s, 0) = bot_bytes r (s, 0)"
  "bot_bytes (level_init_bytes @ r) (s, 0) = bot_bytes r (s, 0)"
  "bot_bytes (level_finalize x y z @ r) (s, 0) = bot_bytes r (CS_level_initialized, 0)"
  "bot_bytes (set_block_server_bytes (set_block_server_make pos blk) @ r) (s, 0) = bot_bytes r (s, 0)"
  "bot_bytes (chat_message_bytes m @ r) (s, 0) = bot_bytes r (s, 0)"
  "bot_bytes (spawn_packet p @ r) (s, 0) = bot_bytes r (s, 0)"
  "bot_bytes (despawn_packet p @ r) (s, 0) = bot_bytes r (s, 0)"
  "bot_bytes (disconnect_player_bytes (disconnect_player_make reason) @ r) (s, 0) = bot_bytes r (CS_error, 0)"
  "bot_bytes (ext_ping_bytes q @ r) (s, 0) = bot_bytes r (s, 0)"
  by (simp_all add: bot_bytes_whole packet_heads bot_packet_def level_finalize_def)

lemma bot_reads_level_frame:
  "length pad = chunk_size \<Longrightarrow> length chunk \<le> chunk_size \<Longrightarrow>
    bot_bytes (level_frame chunk pad @ r) (s, 0) = bot_bytes r (s, 0)"
proof -
  assume len: "length pad = chunk_size" "length chunk \<le> chunk_size"
  have "hd (level_frame chunk pad) = PT_level_datachunk" by (simp add: level_frame_def)
  then show ?thesis
    using length_level_frame [OF len] by (simp add: bot_bytes_whole bot_packet_def)
qed

lemma bot_reads_level_frames:
  "chunk_count z * (chunk_size + 4) \<le> length mem \<Longrightarrow>
    bot_bytes (level_frames (chunk_count z) z mem @ r) (s, 0) = bot_bytes r (s, 0)"
proof (induction "chunk_count z" arbitrary: z mem)
  case 0
  then have "z = []" by (metis chunk_count_0)
  then show ?case by simp
next
  case (Suc k)
  from Suc.hyps(2) have "z \<noteq> []" by (metis chunk_count_0 nat.distinct(1))
  with Suc.hyps(2) have k: "k = chunk_count (drop chunk_size z)" by (simp add: chunk_count_Suc)
  have len: "chunk_count (drop chunk_size z) * (chunk_size + 4) \<le> length (drop (chunk_size + 4) mem)"
    and pad: "length (segment 3 chunk_size mem) = chunk_size"
    using Suc.prems unfolding Suc.hyps(2) [symmetric] k [symmetric] by simp_all
  have "bot_bytes (level_frames (chunk_count (drop chunk_size z)) (drop chunk_size z) (drop (chunk_size + 4) mem) @ r) (s, 0) =
      bot_bytes r (s, 0)"
    by (rule Suc.hyps(1) [OF k len])
  then show ?case
    using pad by (simp add: bot_reads_level_frame k [symmetric] flip: Suc.hyps(2))
qed

text \<open>The four forms of a position packet, and the spawn and despawn packets of a list of players.\<close>

lemma bot_reads_position:
  "bot_bytes (fst (serialize_player_position p) @ r) (s, 0) = bot_bytes r (s, 0)"
proof -
  let ?d = "pos_diff (last_position p) (pl_last_transferred p)"
  consider "absolute_move ?d" | "\<not> absolute_move ?d" "raw_coordinate ?d \<noteq> 0" "raw_orientation ?d \<noteq> 0"
    | "\<not> absolute_move ?d" "raw_coordinate ?d \<noteq> 0" "raw_orientation ?d = 0"
    | "\<not> absolute_move ?d" "raw_coordinate ?d = 0" "raw_orientation ?d \<noteq> 0"
    | "\<not> absolute_move ?d" "raw_coordinate ?d = 0" "raw_orientation ?d = 0" by blast
  then show ?thesis
    by cases (simp_all add: serialize_player_position_def Let_def bot_bytes_whole bot_packet_def)
qed

lemma bot_reads_player_lists:
  "serialize_position_packet as h = Some bs \<Longrightarrow> bot_bytes (bs @ r) (s, 0) = bot_bytes r (s, 0)"
  "despawn_loop as h = Some bs \<Longrightarrow> bot_bytes (bs @ r) (s, 0) = bot_bytes r (s, 0)"
  by (induction as arbitrary: bs) (auto split: option.splits simp: bot_reads_packets)

lemma bot_reads_positions:
  "set_player_position_serialize as h = Some (bs, h') \<Longrightarrow> bot_bytes (bs @ r) (s, 0) = bot_bytes r (s, 0)"
proof (induction as arbitrary: bs h)
  case (Cons a as)
  from Cons.prems obtain p where p: "h a = Some p" by (auto split: option.splits)
  obtain b p' where b: "serialize_player_position p = (b, p')" by fastforce
  from Cons.prems p b obtain rest where rest: "set_player_position_serialize as (h(a \<mapsto> p')) = Some (rest, h')" "bs = b @ rest"
    by (auto split: option.splits)
  have "bot_bytes (b @ rest @ r) (s, 0) = bot_bytes (rest @ r) (s, 0)"
    using bot_reads_position [of p "rest @ r" s] b by simp
  with Cons.IH [OF rest(1)] rest(2) show ?case by simp
qed simp

text \<open>An extension message, which the server broadcasts, is unknown to the client.\<close>

lemma bot_stops_at_ext_message: "bot_bytes (ext_message_bytes e @ r) (s, 0) = None"
proof -
  obtain cs where "ext_message_bytes e = PT_ext_message # cs"
    using packet_heads(11) [of e] by (metis length_ext_bytes(3) list.collapse list.size(3) zero_neq_numeral)
  then show ?thesis by (simp add: bot_packet_def)
qed

subsection \<open>The handshake\<close>

lemma decimal_digits_split: "decimal_digits n ds = decimal_digits n [] @ ds"
proof (induction n arbitrary: ds rule: less_induct)
  case (less n)
  show ?case
  proof (cases "n < 10")
    case True
    then show ?thesis by (simp add: decimal_digits.simps [of n])
  next
    case False
    then have "n div 10 < n" by simp
    from less.IH [OF this, of "of_nat (n mod 10 + 48) # ds"] less.IH [OF this, of "[of_nat (n mod 10 + 48)]"] False
    show ?thesis by (simp only: decimal_digits.simps [of n] if_False append_Cons append_Nil append_assoc)
  qed
qed

lemma length_decimal_digits: "n < 10 ^ Suc k \<Longrightarrow> length (decimal_digits n []) \<le> Suc k"
proof (induction k arbitrary: n)
  case 0
  then show ?case by (simp add: decimal_digits.simps)
next
  case (Suc k)
  then have "n div 10 < 10 ^ Suc k" by (simp add: div_less_iff_less_mult mult.commute)
  from Suc.IH [OF this] show ?case
    by (simp add: decimal_digits.simps [of n] decimal_digits_split [of "n div 10" "_ # _"])
qed

lemma isalnum_digit: "d < 10 \<Longrightarrow> isalnum (of_nat (d + 48))"
proof -
  assume "d < 10"
  then have "d \<in> {0, 1, 2, 3, 4, 5, 6, 7, 8, 9}" by auto
  then show ?thesis by (auto simp: isalnum_def)
qed

lemma isalnum_decimal_digits: "list_all isalnum (decimal_digits n [])"
proof (induction n rule: less_induct)
  case (less n)
  then show ?case
    using isalnum_digit [of n] isalnum_digit [of "n mod 10"]
    by (cases "n < 10")
      (simp_all add: decimal_digits.simps [of n] decimal_digits_split [of "n div 10" "_ # _"])
qed

text \<open>The handshake of a client is whole, is read back, and passes the validation of the server.\<close>

lemma bot_username_ok:
  assumes "i < 10 ^ 12"
  shows "length (bot_username i) \<le> 16" "bot_username i \<noteq> []" "is_alphanumeric (bot_username i)"
proof -
  have "length (decimal_digits i []) \<le> 12" using length_decimal_digits [of i 11] assms by simp
  then have u: "bot_username i = cstr ''user'' @ decimal_digits i []" and "length (bot_username i) \<le> 16"
    by (simp_all add: bot_username_def)
  then show "length (bot_username i) \<le> 16" "bot_username i \<noteq> []" "is_alphanumeric (bot_username i)"
    using isalnum_decimal_digits [of i] by (simp_all add: is_alphanumeric_def isalnum_def)
qed

text \<open>
  The handshake that a client sends, followed by whatever else it sends, is recognised by the
  packet parser of the server as a whole handshake packet, is read back with the name and the
  password that were written, and is one that the server's validation accepts.
\<close>

theorem bot_handshake_accepted:
  assumes "i < 10 ^ 12"
  shows "parse_packet (handshake_bytes (bot_handshake_packet i) @ r) = Some (PT_handshake, handshake_packet_size) \<and>
    (\<exists>p. handshake_parse (handshake_bytes (bot_handshake_packet i) @ r) = Some p \<and> hs_username p = bot_username i \<and>
      hs_password p = cstr ''password'' \<and> \<not> has_cpe_support p \<and> handshake_validate p = ec_success)"
proof
  note u = bot_username_ok [OF assms]
  let ?p = "bot_handshake_packet i"
  have f: "hs_username ?p = bot_username i" "hs_password ?p = cstr ''password''" "hs_protocol_version ?p = 7"
    "pk_id ?p = PT_handshake" "hs_cpe_magic ?p = 0"
    by (simp_all add: bot_handshake_packet_def handshake_reply_def)
  show "parse_packet (handshake_bytes ?p @ r) = Some (PT_handshake, handshake_packet_size)"
    by (simp add: handshake_unfold parse_packet_write protocol_db_def f)
  have pw: "rstrip (cstr ''password'') = cstr ''password''" by (simp add: rstrip_def)
  have "handshake_parse (handshake_bytes ?p @ r) = Some \<lparr>pk_id = PT_handshake, hs_protocol_version = 7,
      hs_username = bot_username i, hs_password = cstr ''password'', hs_cpe_magic = 0\<rparr>" (is "_ = Some ?q")
    using u pw by (simp add: handshake_parse_bytes f rstrip_alphanumeric)
  moreover have "handshake_validate ?q = ec_success" using u by (simp add: handshake_validate_def)
  ultimately show "\<exists>p. handshake_parse (handshake_bytes ?p @ r) = Some p \<and> hs_username p = bot_username i \<and>
      hs_password p = cstr ''password'' \<and> \<not> has_cpe_support p \<and> handshake_validate p = ec_success"
    by (simp add: has_cpe_support_def)
qed

theorem bot_handshake_accepted_witness:
  "\<exists>p. handshake_parse (handshake_bytes (bot_handshake_packet 123) @ [1]) = Some p \<and> hs_username p = cstr ''user123'' \<and>
    handshake_validate p = ec_success"
proof -
  have "bot_username 123 = cstr ''user123''"
    by (simp add: bot_username_def decimal_digits.simps)
  with bot_handshake_accepted [of 123 "[1]"] show ?thesis by auto
qed

subsection \<open>The answer of the server\<close>

definition join_greeting :: "tcp_server_config \<Rightarrow> player \<Rightarrow> bytes" where
  "join_greeting cfg p =
     handshake_bytes (handshake_reply (cfg_server_name cfg) (cfg_motd cfg) (if pl_type p = player_type_value PTY_admin then 64 else 0)) @
     set_player_id_bytes (set_player_id_make (ucast (game_id p))) @ level_init_bytes"

lemma on_io_push:
  assumes "conn_of i s = Some c" "cio_wf (cn_io c)" "lf_tail (se_data (cio_send (cn_io c))) + length bs \<le> lf_capacity (se_data (cio_send (cn_io c)))"
    and f: "\<And>x. f x = cio_push bs x"
  shows "\<exists>c'. conn_of i (snd (on_io i f s)) = Some c' \<and> cio_wf (cn_io c') \<and>
    cio_pending (cn_io c') = cio_pending (cn_io c) @ bs \<and>
    lf_tail (se_data (cio_send (cn_io c'))) = lf_tail (se_data (cio_send (cn_io c))) + length bs \<and>
    lf_capacity (se_data (cio_send (cn_io c'))) = lf_capacity (se_data (cio_send (cn_io c)))"
proof -
  obtain d where "lf_push bs (se_data (cio_send (cn_io c))) = (True, d)"
    using assms(3) lf_push_accept_iff [of bs "se_data (cio_send (cn_io c))"] by (metis prod.collapse)
  then obtain io where io: "cio_push bs (cn_io c) = (True, io)" by (simp add: cio_push_def)
  have t: "lf_tail (se_data (cio_send io)) = lf_tail (se_data (cio_send (cn_io c))) + length bs"
    "lf_capacity (se_data (cio_send io)) = lf_capacity (se_data (cio_send (cn_io c)))"
    using io by (auto simp: cio_push_def buf_simps split: prod.splits if_splits)
  have "conn_of i (snd (on_io i f s)) = Some (c\<lparr>cn_io := io\<rparr>)"
    using assms(1) io by (simp add: on_io_def f conn_of_upd_conn)
  with cio_push_effect [OF assms(2) io] t show ?thesis by simp
qed

lemma on_handshake_success_pending:
  assumes "conn_of i s = Some c" "cio_wf (cn_io c)"
    and "lf_tail (se_data (cio_send (cn_io c))) + 134 \<le> lf_capacity (se_data (cio_send (cn_io c)))"
  shows "\<exists>c'. conn_of i (on_handshake_success cfg i p s) = Some c' \<and> cio_wf (cn_io c') \<and>
    cio_pending (cn_io c') = cio_pending (cn_io c) @ join_greeting cfg p"
proof -
  let ?h = "handshake_bytes (handshake_reply (cfg_server_name cfg) (cfg_motd cfg) (if pl_type p = player_type_value PTY_admin then 64 else 0))"
  let ?i = "set_player_id_bytes (set_player_id_make (ucast (game_id p)))"
  let ?fh = "send_packet (\<lambda>push. handshake_serialize push (handshake_reply (cfg_server_name cfg) (cfg_motd cfg)
      (if pl_type p = player_type_value PTY_admin then 64 else 0)))"
  let ?fi = "send_packet (\<lambda>push. set_player_id_serialize push (set_player_id_make (ucast (game_id p))))"
  let ?s1 = "snd (on_io i ?fh s)" and ?s2 = "snd (on_io i ?fi (snd (on_io i ?fh s)))"
  obtain c1 where c1: "conn_of i ?s1 = Some c1" "cio_wf (cn_io c1)" "cio_pending (cn_io c1) = cio_pending (cn_io c) @ ?h"
      "lf_tail (se_data (cio_send (cn_io c1))) = lf_tail (se_data (cio_send (cn_io c))) + 131"
      "lf_capacity (se_data (cio_send (cn_io c1))) = lf_capacity (se_data (cio_send (cn_io c)))"
    using on_io_push [OF assms(1,2), of ?h ?fh] assms(3) by (auto simp: send_packet_def handshake_serialize_def)
  obtain c2 where c2: "conn_of i ?s2 = Some c2" "cio_wf (cn_io c2)" "cio_pending (cn_io c2) = cio_pending (cn_io c1) @ ?i"
      "lf_tail (se_data (cio_send (cn_io c2))) = lf_tail (se_data (cio_send (cn_io c1))) + 2"
      "lf_capacity (se_data (cio_send (cn_io c2))) = lf_capacity (se_data (cio_send (cn_io c1)))"
    using on_io_push [OF c1(1,2), of ?i ?fi] assms(3) c1(4,5) by (auto simp: send_packet_def set_player_id_serialize_def)
  obtain c3 where c3: "conn_of i (snd (on_io i (send_packet level_init_serialize) ?s2)) = Some c3" "cio_wf (cn_io c3)"
      "cio_pending (cn_io c3) = cio_pending (cn_io c2) @ level_init_bytes"
    using on_io_push [OF c2(1,2), of level_init_bytes "send_packet level_init_serialize"] assms(3) c1(4,5) c2(4,5)
    by (auto simp: send_packet_def level_init_serialize_def)
  then show ?thesis
    using c1(3) c2(3) by (simp add: on_handshake_success_def Let_def join_greeting_def)
qed

text \<open>
  C13: A client that asked to join gets there: the bytes that a successful handshake puts into an
  empty send buffer, followed by the level packet, take the client from the beginning of a packet
  to the level, at the beginning of the next packet, and every call of its handler returns. This
  holds however the stream is cut into receives, whatever the uninitialised buffer of the level
  packet held, and for every compressed map.
\<close>

theorem bot_joins:
  assumes "conn_of i s = Some c" "cio_wf (cn_io c)" "cio_pending (cn_io c) = []"
    and "lf_tail (se_data (cio_send (cn_io c))) + 134 \<le> lf_capacity (se_data (cio_send (cn_io c)))"
    and "deflates d out" "0 < bound" "bound < 2 ^ 64" "length (out z) \<le> bound"
    and "length mem0 = data_capacity (level_data_make z bound w h l)"
  shows "\<exists>c' n mem. conn_of i (on_handshake_success cfg i p s) = Some c' \<and>
    level_data_serialize d mem0 (level_data_make z bound w h l) = Some (n, mem) \<and>
    (\<forall>rs b st. (\<forall>(now, clock, behind, data) \<in> set rs. 8 \<le> length behind) \<and> cb_remain b = 0 \<and>
       received_bytes rs = cio_pending (cn_io c') @ take n mem \<longrightarrow>
       (\<exists>b' st'. bot_receives rs b st = Some (b', st') \<and> bot_view b' = (CS_level_initialized, 0)))"
proof -
  obtain c' where c': "conn_of i (on_handshake_success cfg i p s) = Some c'"
      "cio_pending (cn_io c') = join_greeting cfg p"
    using on_handshake_success_pending [OF assms(1,2,4), of cfg p] assms(3) by auto
  obtain n mem where l: "level_data_serialize d mem0 (level_data_make z bound w h l) = Some (n, mem)"
      "chunk_count (out z) * (chunk_size + 4) \<le> length mem0"
      "take n mem = level_frames (chunk_count (out z)) (out z) mem0 @ level_finalize w h l"
    using level_data_serialize_frames [OF assms(5-9)] by blast
  have end_state: "bot_bytes (join_greeting cfg p @ take n mem) (s0, 0) = Some (CS_level_initialized, 0)" for s0
    using bot_reads_packets(4) [of w h l "[]"] by (simp add: join_greeting_def bot_reads_packets bot_reads_level_frames [OF l(2)] l(3))
  show ?thesis
  proof (rule exI [of _ c'], rule exI [of _ n], rule exI [of _ mem], intro conjI allI impI)
    show "conn_of i (on_handshake_success cfg i p s) = Some c'" by (rule c')
    show "level_data_serialize d mem0 (level_data_make z bound w h l) = Some (n, mem)" by (rule l)
    fix rs and b :: client_bot and st
    assume "(\<forall>(now, clock, behind, data) \<in> set rs. 8 \<le> length behind) \<and> cb_remain b = 0 \<and>
       received_bytes rs = cio_pending (cn_io c') @ take n mem"
    then show "\<exists>b' st'. bot_receives rs b st = Some (b', st') \<and> bot_view b' = (CS_level_initialized, 0)"
      using bot_receives_bytes [of rs b st] end_state [of "cb_state b"] c'(2) by (auto simp: bot_view_def [of b])
  qed
qed

definition one_connection :: net_state where
  "one_connection = \<lparr>ns_env = \<lparr>env_max_connections = 1, env_num_of_connections = 1, env_table =
     [\<lparr>ce_used = True, ce_will_delete = False, ce_connection = Some \<lparr>cn_last_error = ResultCode ec_success,
        cn_key = key_default, cn_io = connection_io_new, cn_is_kicked = False, cn_is_online = True,
        cn_last_offline_tick = 0, cn_last_interaction_tick = 0, cn_player = None\<rparr>, ce_created_at = 9\<rparr>]\<rparr>,
     ns_heap = (\<lambda>_. None), ns_next_addr = 0\<rparr>"

theorem bot_joins_witness:
  "\<exists>c' n mem. conn_of 0 (on_handshake_success \<lparr>cfg_server_name = cstr ''s'', cfg_motd = []\<rparr> 0 sample_player one_connection) = Some c' \<and>
    level_data_serialize (\<lambda>z n. (take n z, drop n z)) (replicate (data_capacity (level_data_make [1, 2, 3 :: u8] 10 4 5 6)) 0)
      (level_data_make [1, 2, 3] 10 4 5 6) = Some (n, mem) \<and>
    (\<exists>b' st'. bot_receives (map (\<lambda>c. (0, \<lambda>_. 0, replicate 8 0, [c])) (cio_pending (cn_io c') @ take n mem))
       (client_bot_new 7 0) statistics_init = Some (b', st') \<and> cb_state b' = CS_level_initialized)"
proof -
  let ?cfg = "\<lparr>cfg_server_name = cstr ''s'', cfg_motd = []\<rparr>"
  let ?mem = "replicate (data_capacity (level_data_make [1, 2, 3 :: u8] 10 4 5 6)) 0"
  obtain c where c: "conn_of 0 one_connection = Some c" "cn_io c = connection_io_new"
    by (simp add: one_connection_def conn_of_def)
  have room: "lf_tail (se_data (cio_send (cn_io c))) + 134 \<le> lf_capacity (se_data (cio_send (cn_io c)))"
    by (simp add: c connection_io_new_def lf_new_def lf_capacity_def)
  have d: "deflates (\<lambda>z n. (take n z, drop n z)) (\<lambda>z :: bytes. z)" by (simp add: deflates_def)
  obtain c' n mem where j: "conn_of 0 (on_handshake_success ?cfg 0 sample_player one_connection) = Some c'"
      "level_data_serialize (\<lambda>z n. (take n z, drop n z)) ?mem (level_data_make [1, 2, 3] 10 4 5 6) = Some (n, mem)"
    and all: "\<forall>rs b st. (\<forall>(now, clock, behind, data) \<in> set rs. 8 \<le> length behind) \<and> cb_remain b = 0 \<and>
       received_bytes rs = cio_pending (cn_io c') @ take n mem \<longrightarrow>
       (\<exists>b' st'. bot_receives rs b st = Some (b', st') \<and> bot_view b' = (CS_level_initialized, 0))"
    using bot_joins [OF c(1) _ _ room d, of 10 "[1, 2, 3]" ?mem 4 5 6 ?cfg sample_player] connection_io_new_wf by (auto simp: c(2))
  let ?rs = "map (\<lambda>c. (0 :: u64, \<lambda>_ :: nat. 0 :: u64, replicate 8 0 :: bytes, [c])) (cio_pending (cn_io c') @ take n mem)"
  have "received_bytes (map (\<lambda>c. (0 :: u64, \<lambda>_ :: nat. 0 :: u64, replicate 8 0 :: bytes, [c])) bs) = bs" for bs
    by (induction bs) (simp_all add: received_bytes_def)
  then have "received_bytes ?rs = cio_pending (cn_io c') @ take n mem" .
  moreover have "\<forall>(now, clock, behind, data) \<in> set ?rs. 8 \<le> length behind" by auto
  moreover have "cb_remain (client_bot_new 7 0) = 0" by (simp add: client_bot_new_def)
  ultimately have "\<exists>b' st'. bot_receives ?rs (client_bot_new 7 0) statistics_init = Some (b', st') \<and> bot_view b' = (CS_level_initialized, 0)"
    using all by blast
  with j show ?thesis by (auto simp: bot_view_def)
qed

end
