(* ===== verification/Bench_Scenario.thy ===== *)
theory Bench_Scenario
  imports Client_Bot "HOL-Library.Multiset"
begin

section \<open>The scenarios of the benchmark\<close>

text \<open>
  \<open>bench::GameScenario\<close> and its three kinds, \<open>mmocraft-bench/game_scenario.h\<close>/\<open>.cpp\<close>. The counter
  that numbers the clients is a static variable of \<open>client_bot.cpp\<close>; it is part of the state here.
  What registered I/O answers to the \<open>i\<close>-th client is \<open>rio i\<close>. An index beyond the vector of clients
  has no result. One round of each \<open>start\<close> is modelled; the program repeats it until it is canceled.
\<close>

record scenario =
  sc_max_client_size :: nat
  sc_clients :: "client_bot list"
  sc_disconnected :: "client_bot list"
  sc_counter :: nat

definition scenario_new_client :: "u64 \<Rightarrow> scenario \<Rightarrow> scenario" where
  "scenario_new_client now s =
     s\<lparr>sc_clients := sc_clients s @ [client_bot_new (sc_counter s) now], sc_counter := sc_counter s + 1\<rparr>"

definition scenario_reset :: "u64 \<Rightarrow> scenario \<Rightarrow> scenario" where
  "scenario_reset now s = (scenario_new_client now ^^ sc_max_client_size s) (s\<lparr>sc_clients := []\<rparr>)"

text \<open>\<open>connect_all\<close> posts a request per client, which leaves the clients as they are.\<close>

definition scenario_connect_all :: "scenario \<Rightarrow> scenario option" where
  "scenario_connect_all s = (if length (sc_clients s) < sc_max_client_size s then None else Some s)"

definition scenario_new :: "u64 \<Rightarrow> nat \<Rightarrow> nat \<Rightarrow> scenario option" where
  "scenario_new now client_size counter =
     scenario_connect_all (scenario_reset now
       \<lparr>sc_max_client_size = client_size, sc_clients = [], sc_disconnected = [], sc_counter = counter\<rparr>)"

fun ping_loop :: "u64 \<Rightarrow> (nat \<Rightarrow> bool) \<Rightarrow> nat \<Rightarrow> nat \<Rightarrow> client_bot list \<Rightarrow> client_bot list option" where
  "ping_loop now rio i 0 cs = Some cs"
| "ping_loop now rio i (Suc n) cs =
     (if length cs \<le> i then None
      else ping_loop now rio (i + 1) n
             (if cb_state (cs ! i) = CS_connected then cs[i := fst (bot_send_ping now (rio i) (cs ! i))] else cs))"

definition ping_all :: "u64 \<Rightarrow> (nat \<Rightarrow> bool) \<Rightarrow> scenario \<Rightarrow> scenario option" where
  "ping_all now rio s =
     map_option (\<lambda>cs. s\<lparr>sc_clients := cs\<rparr>) (ping_loop now rio 0 (sc_max_client_size s) (sc_clients s))"

definition size_of_connected_client :: "scenario \<Rightarrow> nat" where
  "size_of_connected_client s = length (filter (\<lambda>c. CS_connected \<le> cb_state c) (sc_clients s))"

definition intensive_io_round :: "u64 \<Rightarrow> (nat \<Rightarrow> bool) \<Rightarrow> scenario \<Rightarrow> scenario option" where
  "intensive_io_round now rio s = ping_all now rio s"

subsection \<open>Frequent accepts\<close>

definition is_disconnectable :: "client_bot \<Rightarrow> bool" where
  "is_disconnectable c \<longleftrightarrow> cb_state c = CS_error \<or> cb_state c = CS_connected"

text \<open>
  The loop that disconnects. The client at the index leaves, the last one is swapped to its place
  and the vector is shortened; the index then moves on, past the client that was swapped in.
\<close>

function disconnect_clients :: "nat \<Rightarrow> client_bot list \<Rightarrow> client_bot list \<Rightarrow> client_bot list \<times> client_bot list" where
  "disconnect_clients i cs ds =
     (if i < length cs
      then if is_disconnectable (cs ! i)
           then disconnect_clients (i + 1) (butlast (cs[i := last cs])) (ds @ [cs ! i])
           else disconnect_clients (i + 1) cs ds
      else (cs, ds))"
  by pat_completeness auto
termination
  by (relation "measure (\<lambda>(i, cs, ds). length cs - i)") auto

declare disconnect_clients.simps [simp del]

definition pop_safe_deletes :: "u64 \<Rightarrow> client_bot list \<Rightarrow> client_bot list" where
  "pop_safe_deletes now ds = dropWhile (bot_is_safe_delete now) ds"

definition refill_clients :: "u64 \<Rightarrow> scenario \<Rightarrow> scenario" where
  "refill_clients now s = (scenario_new_client now ^^ (sc_max_client_size s - length (sc_clients s))) s"

definition frequent_accept_round :: "u64 \<Rightarrow> (nat \<Rightarrow> bool) \<Rightarrow> scenario \<Rightarrow> scenario option" where
  "frequent_accept_round now rio s =
     (case ping_all now rio s of
        None \<Rightarrow> None
      | Some s \<Rightarrow>
          (let (cs, ds) = disconnect_clients 0 (sc_clients s) (sc_disconnected s)
           in Some (refill_clients now (s\<lparr>sc_clients := cs, sc_disconnected := pop_safe_deletes now ds\<rparr>))))"

subsection \<open>Random blocks\<close>

text \<open>One client of the round; \<open>r\<close> are the random integers that it draws.\<close>

definition random_block_client ::
    "coordinate3d \<Rightarrow> (nat \<times> nat \<times> nat) \<times> nat \<times> nat \<Rightarrow> bool \<Rightarrow> client_bot \<Rightarrow> client_bot option" where
  "random_block_client map_size r rio c =
     (case cb_state c of
        CS_connected \<Rightarrow> Some (set_client_state CS_handshake_requested (fst (bot_send_handshake rio c)))
      | CS_level_initialized \<Rightarrow>
          (case r of (pos, mode, blk) \<Rightarrow> map_option fst (bot_send_random_block map_size pos mode blk rio c))
      | _ \<Rightarrow> Some c)"

fun random_block_loop ::
    "coordinate3d \<Rightarrow> (nat \<Rightarrow> (nat \<times> nat \<times> nat) \<times> nat \<times> nat) \<Rightarrow> (nat \<Rightarrow> bool) \<Rightarrow> nat \<Rightarrow> client_bot list \<Rightarrow>
      client_bot list option" where
  "random_block_loop map_size r rio i [] = Some []"
| "random_block_loop map_size r rio i (c # cs) =
     (case random_block_client map_size (r i) (rio i) c of
        None \<Rightarrow> None
      | Some c \<Rightarrow> map_option ((#) c) (random_block_loop map_size r rio (i + 1) cs))"

definition random_block_round ::
    "coordinate3d \<Rightarrow> (nat \<Rightarrow> (nat \<times> nat \<times> nat) \<times> nat \<times> nat) \<Rightarrow> (nat \<Rightarrow> bool) \<Rightarrow> scenario \<Rightarrow> scenario option" where
  "random_block_round map_size r rio s =
     map_option (\<lambda>cs. s\<lparr>sc_clients := cs\<rparr>) (random_block_loop map_size r rio 0 (sc_clients s))"

subsection \<open>The clients of a scenario\<close>

text \<open>A full vector of clients, numbered without repetition below the counter.\<close>

definition client_ids :: "scenario \<Rightarrow> nat list" where
  "client_ids s = map cb_id (sc_clients s) @ map cb_id (sc_disconnected s)"

definition scenario_wf :: "scenario \<Rightarrow> bool" where
  "scenario_wf s \<longleftrightarrow> length (sc_clients s) = sc_max_client_size s \<and> distinct (client_ids s) \<and>
     (\<forall>i \<in> set (client_ids s). i < sc_counter s)"

lemma bot_send_id [simp]: "cb_id (fst (bot_send f rio b)) = cb_id b" "cb_state (fst (bot_send f rio b)) = cb_state b"
  by (simp_all add: bot_send_def bot_post_send_event_def split: prod.split)

lemma bot_send_ping_id [simp]:
  "cb_id (fst (bot_send_ping now rio b)) = cb_id b" "cb_state (fst (bot_send_ping now rio b)) = cb_state b"
  by (simp_all add: bot_send_ping_def)

lemma ping_loop_ids:
  "i + n \<le> length cs \<Longrightarrow> \<exists>cs'. ping_loop now rio i n cs = Some cs' \<and> map cb_id cs' = map cb_id cs \<and>
    map cb_state cs' = map cb_state cs"
proof (induction n arbitrary: i cs)
  case (Suc n)
  let ?cs = "if cb_state (cs ! i) = CS_connected then cs[i := fst (bot_send_ping now (rio i) (cs ! i))] else cs"
  have len: "Suc i + n \<le> length ?cs" using Suc.prems by simp
  obtain cs' where cs': "ping_loop now rio (Suc i) n ?cs = Some cs'" "map cb_id cs' = map cb_id ?cs"
      "map cb_state cs' = map cb_state ?cs"
    using Suc.IH [OF len] by blast
  have i: "i < length cs" using Suc.prems by simp
  have "map cb_id (cs[i := fst (bot_send_ping now (rio i) (cs ! i))]) = map cb_id cs"
    "map cb_state (cs[i := fst (bot_send_ping now (rio i) (cs ! i))]) = map cb_state cs"
    using i by (simp_all add: map_update list_update_same_conv)
  with cs' i show ?case by auto
qed simp

lemma new_clients:
  "(scenario_new_client now ^^ k) s =
     s\<lparr>sc_clients := sc_clients s @ map (\<lambda>j. client_bot_new (sc_counter s + j) now) [0..<k],
        sc_counter := sc_counter s + k\<rparr>"
  by (induction k) (simp_all add: scenario_new_client_def)

lemma client_bot_new_id [simp]: "cb_id (client_bot_new n now) = n" "cb_state (client_bot_new n now) = CS_initialized"
  by (simp_all add: client_bot_new_def)

text \<open>No client is lost or copied by the loop that disconnects.\<close>

lemma mset_butlast_swap: "i < length cs \<Longrightarrow> add_mset (cs ! i) (mset (butlast (cs[i := last cs]))) = mset cs"
proof (cases "i = length cs - 1")
  case True
  assume "i < length cs"
  then have "cs \<noteq> []" by auto
  with True have "butlast (cs[i := last cs]) = butlast cs" "cs ! i = last cs"
    by (simp_all add: last_conv_nth butlast_list_update)
  with \<open>cs \<noteq> []\<close> show ?thesis
    using append_butlast_last_id [of cs] by (metis add_mset_add_single mset_append mset_single_iff_right)
next
  case False
  assume i: "i < length cs"
  then have "cs \<noteq> []" by auto
  have len: "i < length (butlast cs)" using i False by simp
  have b: "butlast (cs[i := last cs]) = (butlast cs)[i := last cs]" using i False by (simp add: butlast_list_update)
  have n: "butlast cs ! i = cs ! i" using len by (simp add: nth_butlast)
  have "mset cs = add_mset (last cs) (mset (butlast cs))"
    using append_butlast_last_id [OF \<open>cs \<noteq> []\<close>] by (metis add_mset_add_single mset_append mset.simps)
  moreover have "add_mset (cs ! i) (mset ((butlast cs)[i := last cs])) = add_mset (last cs) (mset (butlast cs))"
    using mset_update [OF len, of "last cs"] n nth_mem [OF len] by simp
  ultimately show ?thesis by (simp add: b)
qed

lemma disconnect_clients_mset:
  "disconnect_clients i cs ds = (cs', ds') \<Longrightarrow> mset cs' + mset ds' = mset cs + mset ds"
proof (induction i cs ds rule: disconnect_clients.induct)
  case (1 i cs ds)
  show ?case
  proof (cases "i < length cs \<and> is_disconnectable (cs ! i)")
    case True
    with 1 mset_butlast_swap [of i cs] show ?thesis by (simp add: disconnect_clients.simps [of i] flip: union_mset_add_mset_left)
  next
    case False
    with 1 show ?thesis by (cases "i < length cs") (simp_all add: disconnect_clients.simps [of i])
  qed
qed

lemma disconnect_clients_count:
  "disconnect_clients i cs ds = (cs', ds') \<Longrightarrow> \<forall>c \<in> set cs. is_disconnectable c \<Longrightarrow>
    length ds' = length ds + (length cs - i + 1) div 2"
proof (induction i cs ds rule: disconnect_clients.induct)
  case (1 i cs ds)
  show ?case
  proof (cases "i < length cs")
    case True
    let ?cs = "butlast (cs[i := last cs])"
    have d: "is_disconnectable (cs ! i)" using 1(4) True by simp
    have "set ?cs \<subseteq> set cs"
      using mset_butlast_swap [OF True] by (metis set_mset_add_mset_insert set_mset_mset subset_insertI)
    then have "length ds' = length (ds @ [cs ! i]) + (length ?cs - (i + 1) + 1) div 2"
      using 1(3,4) True d by (intro 1(1)) (auto simp: disconnect_clients.simps [of i])
    also have "\<dots> = length ds + (length cs - i + 1) div 2" using True by (cases "length cs - i = 1") auto
    finally show ?thesis .
  qed (use 1(3) in \<open>simp add: disconnect_clients.simps [of i]\<close>)
qed

lemma disconnect_clients_grow: "disconnect_clients i cs ds = (cs', ds') \<Longrightarrow> length ds \<le> length ds'"
proof (induction i cs ds rule: disconnect_clients.induct)
  case (1 i cs ds)
  show ?case
  proof (cases "i < length cs \<and> is_disconnectable (cs ! i)")
    case True
    with 1 show ?thesis by (simp add: disconnect_clients.simps [of i])
  next
    case False
    with 1 show ?thesis by (cases "i < length cs") (simp_all add: disconnect_clients.simps [of i])
  qed
qed

lemma new_client_ids: "map cb_id (map (\<lambda>j. client_bot_new (k + j) now) [0..<m]) = [k..<k + m]"
  by (induction m) simp_all

lemma new_client_ids' [simp]: "map (cb_id \<circ> (\<lambda>j. client_bot_new (k + j) now)) [0..<m] = [k..<k + m]"
  using new_client_ids [of k now m] by simp

lemma scenario_wf_counter:
  assumes "scenario_wf s"
  shows "sc_max_client_size s \<le> sc_counter s"
proof -
  have "set (map cb_id (sc_clients s)) \<subseteq> {..<sc_counter s}" "distinct (map cb_id (sc_clients s))"
    using assms by (auto simp: scenario_wf_def client_ids_def)
  then have "length (map cb_id (sc_clients s)) \<le> sc_counter s"
    by (metis card_lessThan card_mono distinct_card finite_lessThan)
  then show ?thesis using assms by (simp add: scenario_wf_def)
qed

text \<open>Refilling a part of the clients of a scenario with new ones.\<close>

lemma refill_wf:
  assumes "length (sc_clients s) \<le> sc_max_client_size s" "distinct (client_ids s)" "\<forall>i \<in> set (client_ids s). i < sc_counter s"
  shows "scenario_wf (refill_clients now s)"
proof -
  let ?k = "sc_counter s" and ?m = "sc_max_client_size s - length (sc_clients s)"
  have "client_ids (refill_clients now s) =
      map cb_id (sc_clients s) @ [?k..<?k + ?m] @ map cb_id (sc_disconnected s)"
    by (simp add: client_ids_def refill_clients_def new_clients)
  moreover have "length (sc_clients (refill_clients now s)) = sc_max_client_size (refill_clients now s)"
    "sc_counter (refill_clients now s) = ?k + ?m"
    using assms(1) by (simp_all add: refill_clients_def new_clients)
  moreover have "distinct (A @ [k..<k + m] @ B) \<and> (\<forall>i \<in> set (A @ [k..<k + m] @ B). i < k + m)"
    if "distinct (A @ B)" "\<forall>i \<in> set (A @ B). i < k" for A B and k m :: nat
  proof -
    have "x < k" if "x \<in> set A \<union> set B" for x using that \<open>\<forall>i \<in> set (A @ B). i < k\<close> by auto
    then have "set A \<inter> {k..<k + m} = {}" "{k..<k + m} \<inter> set B = {}" by fastforce+
    with that show ?thesis by (auto intro: trans_less_add1)
  qed
  ultimately show ?thesis
    using assms(2,3) unfolding scenario_wf_def client_ids_def by metis
qed

lemma scenario_new_wf:
  "\<exists>s. scenario_new now n counter = Some s \<and> scenario_wf s \<and> sc_max_client_size s = n \<and> sc_counter s = counter + n \<and>
    sc_clients s = map (\<lambda>j. client_bot_new (counter + j) now) [0..<n]"
  by (simp add: scenario_new_def scenario_connect_all_def scenario_reset_def new_clients scenario_wf_def client_ids_def)

text \<open>
  A round of the frequent accept scenario never indexes outside its clients, and leaves the
  vector full with clients that are numbered without repetition. When all clients are connected it
  disconnects every other one, although each should leave: the loop steps over the client that it
  swapped in. And every client that a round creates gets a number that is not below the maximal
  number of clients, although the number is used as an index into tables of that many slots.
\<close>

theorem frequent_accept_correct:
  assumes "scenario_wf s"
  shows "\<exists>t. frequent_accept_round now rio s = Some t \<and> scenario_wf t \<and>
    ((\<forall>c \<in> set (sc_clients s). cb_state c = CS_connected) \<longrightarrow>
       sc_counter t = sc_counter s + (sc_max_client_size s + 1) div 2) \<and>
    (\<forall>i \<in> set (map cb_id (sc_clients t)) - set (client_ids s). sc_max_client_size s \<le> i)"
proof -
  obtain ps where ps: "ping_loop now rio 0 (sc_max_client_size s) (sc_clients s) = Some ps"
      "map cb_id ps = map cb_id (sc_clients s)" "map cb_state ps = map cb_state (sc_clients s)"
    using ping_loop_ids [of 0 "sc_max_client_size s" "sc_clients s" now rio] assms by (auto simp: scenario_wf_def)
  have lps: "length ps = sc_max_client_size s"
    using ps(2) assms by (metis length_map scenario_wf_def)
  obtain cs ds where d: "disconnect_clients 0 ps (sc_disconnected s) = (cs, ds)" by fastforce
  have m: "mset (cs @ ds) = mset (ps @ sc_disconnected s)" using disconnect_clients_mset [OF d] by simp
  have "mset (map cb_id (cs @ ds)) = mset (map cb_id (ps @ sc_disconnected s))" using m by (metis mset_map)
  also have "map cb_id (ps @ sc_disconnected s) = client_ids s" using ps(2) by (simp add: client_ids_def)
  finally have ids: "mset (map cb_id (cs @ ds)) = mset (client_ids s)" .
  have dist: "distinct (map cb_id (cs @ ds))" and set_ids: "set (map cb_id (cs @ ds)) = set (client_ids s)"
    using mset_eq_imp_distinct_iff [OF ids] mset_eq_setD [OF ids] assms by (auto simp: scenario_wf_def)
  have len: "length cs + length ds = sc_max_client_size s + length (sc_disconnected s)"
    using m lps by (metis length_append size_mset)
  let ?ds = "pop_safe_deletes now ds"
  let ?s = "s\<lparr>sc_clients := cs, sc_disconnected := ?ds\<rparr>"
  have r: "frequent_accept_round now rio s = Some (refill_clients now ?s)"
    using ps(1) d by (simp add: frequent_accept_round_def ping_all_def)
  have le: "length cs \<le> sc_max_client_size s" using len disconnect_clients_grow [OF d] by simp
  have split: "map cb_id (cs @ ds) = map cb_id cs @ map cb_id (takeWhile (bot_is_safe_delete now) ds) @ map cb_id ?ds"
    by (simp add: pop_safe_deletes_def flip: map_append)
  have "distinct (client_ids ?s)" "set (client_ids ?s) \<subseteq> set (client_ids s)"
    using dist set_ids unfolding split by (auto simp: client_ids_def)
  then have wf: "scenario_wf (refill_clients now ?s)"
    using le assms by (intro refill_wf) (auto simp: scenario_wf_def)
  have "length ds = length (sc_disconnected s) + (sc_max_client_size s + 1) div 2"
    if "\<forall>c \<in> set (sc_clients s). cb_state c = CS_connected"
  proof -
    have "\<forall>t \<in> set (map cb_state (sc_clients s)). t = CS_connected" using that by simp
    then have "\<forall>c \<in> set ps. is_disconnectable c" unfolding ps(3) [symmetric] by (simp add: is_disconnectable_def)
    from disconnect_clients_count [OF d this] lps show ?thesis by simp
  qed
  then have "(\<forall>c \<in> set (sc_clients s). cb_state c = CS_connected) \<longrightarrow>
      sc_counter (refill_clients now ?s) = sc_counter s + (sc_max_client_size s + 1) div 2"
    using len by (auto simp: refill_clients_def new_clients)
  moreover have "sc_max_client_size s \<le> i"
    if "i \<in> set (map cb_id (sc_clients (refill_clients now ?s))) - set (client_ids s)" for i
  proof -
    let ?m = "sc_max_client_size s - length cs"
    have "map cb_id (sc_clients (refill_clients now ?s)) = map cb_id cs @ [sc_counter s..<sc_counter s + ?m]"
      by (simp add: refill_clients_def new_clients)
    with that set_ids have "i \<in> set [sc_counter s..<sc_counter s + ?m]" by auto
    with scenario_wf_counter [OF assms] show ?thesis by simp
  qed
  ultimately show ?thesis using r wf by blast
qed

theorem frequent_accept_correct_witness:
  "\<exists>s t. scenario_new 0 3 0 = Some s \<and> frequent_accept_round 1 (\<lambda>_. True) s = Some t \<and>
    length (sc_clients t) = 3 \<and> sc_max_client_size s = 3"
proof -
  obtain s where s: "scenario_new 0 3 0 = Some s" "scenario_wf s" "sc_max_client_size s = 3"
    using scenario_new_wf [of 0 3 0] by blast
  obtain t where t: "frequent_accept_round 1 (\<lambda>_. True) s = Some t" "scenario_wf t"
    using frequent_accept_correct [OF s(2), of 1 "\<lambda>_. True"] by blast
  have "sc_max_client_size t = 3"
    using t(1) s(3) by (auto simp: frequent_accept_round_def ping_all_def refill_clients_def new_clients split: option.splits prod.splits)
  with s t show ?thesis by (auto simp: scenario_wf_def)
qed

end
