(* ===== verification/Registered_IO.thy ===== *)
theory Registered_IO
  imports Connection_IO
begin

section \<open>Registered I/O\<close>

text \<open>
  \<open>win/registered_io.h\<close>/\<open>.cpp\<close>, \<open>io::RegisteredIO\<close> of \<open>io/io_service.h\<close>/\<open>.cpp\<close> and the dispatch of
  completed events, \<open>RioEvent::on_event_complete\<close> of \<open>io/io_event.cpp\<close>. An address is a 64-bit word,
  a null pointer 0; a handle of a registered buffer or a completion queue is an option. What the calls
  of the operating system answer is given by arguments. Of the request queues the model has what
  \<open>RIOCreateRequestQueue\<close> documents: a request beyond the agreed number of outstanding ones is
  refused, and its completion makes room again.
\<close>

subsection \<open>Buffer pools\<close>

record rio_buffer_pool =
  bp_pool_size :: u64
  bp_buffer_size :: u64
  bp_is_allocated :: bool
  bp_buffer :: u64
  bp_buffer_id :: "nat option"

text \<open>\<open>register\<close> is the registration function, absent when the extension could not be loaded.\<close>

definition rio_create_buffer :: "(u64 \<Rightarrow> u32 \<Rightarrow> nat option) option \<Rightarrow> u64 \<Rightarrow> u64 \<Rightarrow> nat option" where
  "rio_create_buffer register buffer buffer_size =
     (case register of None \<Rightarrow> None | Some f \<Rightarrow> f buffer (ucast buffer_size))"

definition rio_buffer_pool_new ::
    "(u64 \<Rightarrow> u64) \<Rightarrow> (u64 \<Rightarrow> u32 \<Rightarrow> nat option) option \<Rightarrow> u64 \<Rightarrow> u64 \<Rightarrow> rio_buffer_pool" where
  "rio_buffer_pool_new virtual_alloc register pool_size buffer_size =
     (let buffer = virtual_alloc (buffer_size * pool_size)
      in \<lparr>bp_pool_size = pool_size, bp_buffer_size = buffer_size, bp_is_allocated = True, bp_buffer = buffer,
          bp_buffer_id = rio_create_buffer register buffer (buffer_size * pool_size)\<rparr>)"

definition rio_buffer_pool_of ::
    "(u64 \<Rightarrow> u32 \<Rightarrow> nat option) option \<Rightarrow> u64 \<Rightarrow> u64 \<Rightarrow> rio_buffer_pool" where
  "rio_buffer_pool_of register buf buf_size =
     \<lparr>bp_pool_size = 1, bp_buffer_size = buf_size, bp_is_allocated = False, bp_buffer = buf,
      bp_buffer_id = rio_create_buffer register buf (buf_size * 1)\<rparr>"

text \<open>What the destructor does: the buffer it deregisters and the memory it releases.\<close>

definition rio_buffer_pool_release :: "rio_buffer_pool \<Rightarrow> nat option \<times> u64 option" where
  "rio_buffer_pool_release p =
     (bp_buffer_id p, if bp_is_allocated p \<and> bp_buffer p \<noteq> 0 then Some (bp_buffer p) else None)"

definition bp_offset :: "u32 \<Rightarrow> rio_buffer_pool \<Rightarrow> u64" where
  "bp_offset index p = bp_buffer_size p * ucast index"

definition bp_buffer_at :: "u32 \<Rightarrow> rio_buffer_pool \<Rightarrow> u64" where
  "bp_buffer_at index p = bp_buffer p + bp_offset index p"

definition bp_is_valid :: "rio_buffer_pool \<Rightarrow> bool" where
  "bp_is_valid p \<longleftrightarrow> bp_buffer p \<noteq> 0 \<and> bp_buffer_id p \<noteq> None"

subsection \<open>Completion queues\<close>

record rio_completion_queue =
  cq_iocp_handle :: "nat option"
  cq_handle :: "nat option"

definition create_complete_queue :: "(u32 \<Rightarrow> nat option) option \<Rightarrow> u64 \<Rightarrow> nat option" where
  "create_complete_queue create queue_size = (case create of None \<Rightarrow> None | Some f \<Rightarrow> f (ucast queue_size))"

definition completion_queue_new :: "nat option \<Rightarrow> (u32 \<Rightarrow> nat option) option \<Rightarrow> u64 \<Rightarrow> rio_completion_queue" where
  "completion_queue_new iocp create queue_size =
     \<lparr>cq_iocp_handle = iocp, cq_handle = create_complete_queue create queue_size\<rparr>"

definition cq_is_valid :: "rio_completion_queue \<Rightarrow> bool" where
  "cq_is_valid q \<longleftrightarrow> cq_iocp_handle q \<noteq> None \<and> cq_handle q \<noteq> None"

text \<open>\<open>reset\<close>, with the completion queue and the port that it closes.\<close>

definition cq_reset :: "rio_completion_queue \<Rightarrow> rio_completion_queue \<times> nat option \<times> nat option" where
  "cq_reset q =
     (let closed = (if cq_is_valid q then cq_handle q else None);
          q' = (if cq_is_valid q then q\<lparr>cq_handle := None\<rparr> else q)
      in (q'\<lparr>cq_iocp_handle := None\<rparr>, closed, cq_iocp_handle q))"

subsection \<open>The service\<close>

record request_queue =
  rq_max_receive :: nat
  rq_max_send :: nat
  rq_receives :: nat
  rq_sends :: nat

record registered_io =
  io_max_connections :: u64
  io_completion_queue :: rio_completion_queue
  io_request_queues :: "request_queue option list"
  io_recv_pool :: rio_buffer_pool
  io_send_pool :: rio_buffer_pool

text \<open>The constructor; a queue or a pool that cannot be created ends the program.\<close>

definition registered_io_new ::
    "nat option \<Rightarrow> (u32 \<Rightarrow> nat option) option \<Rightarrow> (u64 \<Rightarrow> u64) \<Rightarrow> (u64 \<Rightarrow> u32 \<Rightarrow> nat option) option \<Rightarrow> u64 \<Rightarrow>
      registered_io option" where
  "registered_io_new iocp create virtual_alloc register max_connections =
     (let s = \<lparr>io_max_connections = max_connections,
               io_completion_queue = completion_queue_new iocp create (2 * max_connections),
               io_request_queues = replicate (unat max_connections) None,
               io_recv_pool = rio_buffer_pool_new virtual_alloc register max_connections (of_nat tcp_recv_buffer_size),
               io_send_pool = rio_buffer_pool_new virtual_alloc register max_connections (of_nat tcp_send_buffer_size)\<rparr>
      in if cq_is_valid (io_completion_queue s) \<and> bp_is_valid (io_recv_pool s) \<and> bp_is_valid (io_send_pool s)
         then Some s else None)"

text \<open>The address and the size of the buffers of the events of a connection.\<close>

definition create_recv_io_event :: "u32 \<Rightarrow> registered_io \<Rightarrow> u64 \<times> u64" where
  "create_recv_io_event connection_id s =
     (bp_buffer_at connection_id (io_recv_pool s), bp_buffer_size (io_recv_pool s))"

definition create_send_io_event :: "u32 \<Rightarrow> registered_io \<Rightarrow> u64 \<times> u64" where
  "create_send_io_event connection_id s =
     (bp_buffer_at connection_id (io_send_pool s), bp_buffer_size (io_send_pool s))"

text \<open>
  One outstanding receive and one outstanding send per request queue. \<open>created\<close> tells whether
  \<open>RIOCreateRequestQueue\<close> succeeded. An identifier beyond the vector has no result.
\<close>

definition rio_register_event_source :: "bool \<Rightarrow> u32 \<Rightarrow> registered_io \<Rightarrow> registered_io option" where
  "rio_register_event_source created connection_id s =
     (let i = unat connection_id
      in if length (io_request_queues s) \<le> i then None
         else Some (s\<lparr>io_request_queues := (io_request_queues s)[i :=
                (if created then Some \<lparr>rq_max_receive = 1, rq_max_send = 1, rq_receives = 0, rq_sends = 0\<rparr>
                 else None)]\<rparr>))"

record rio_buf =
  rb_buffer_id :: "nat option"
  rb_offset :: u32
  rb_length :: u32

definition rio_buf_of :: "rio_buffer_pool \<Rightarrow> u64 \<Rightarrow> u64 \<Rightarrow> rio_buf" where
  "rio_buf_of p buf buf_size =
     \<lparr>rb_buffer_id = bp_buffer_id p, rb_offset = ucast (buf - bp_buffer_at 0 p), rb_length = ucast buf_size\<rparr>"

definition rq_receive :: "request_queue \<Rightarrow> bool \<times> request_queue" where
  "rq_receive q = (if rq_receives q < rq_max_receive q then (True, q\<lparr>rq_receives := rq_receives q + 1\<rparr>) else (False, q))"

definition rq_send :: "request_queue \<Rightarrow> bool \<times> request_queue" where
  "rq_send q = (if rq_sends q < rq_max_send q then (True, q\<lparr>rq_sends := rq_sends q + 1\<rparr>) else (False, q))"

definition on_request_queue ::
    "(request_queue \<Rightarrow> bool \<times> request_queue) \<Rightarrow> u32 \<Rightarrow> registered_io \<Rightarrow> (bool \<times> registered_io) option" where
  "on_request_queue f connection_id s =
     (let i = unat connection_id
      in if length (io_request_queues s) \<le> i then None
         else case io_request_queues s ! i of
                None \<Rightarrow> Some (False, s)
              | Some q \<Rightarrow> (let (ok, q) = f q in Some (ok, s\<lparr>io_request_queues := (io_request_queues s)[i := Some q]\<rparr>)))"

text \<open>\<open>recv\<close>, \<open>send\<close> and \<open>multicast_send\<close>, with the range of a registered buffer that they name.\<close>

definition rio_recv :: "u32 \<Rightarrow> u64 \<Rightarrow> u64 \<Rightarrow> registered_io \<Rightarrow> (rio_buf \<times> bool \<times> registered_io) option" where
  "rio_recv connection_id buf buf_size s =
     map_option (Pair (rio_buf_of (io_recv_pool s) buf buf_size)) (on_request_queue rq_receive connection_id s)"

definition rio_send :: "u32 \<Rightarrow> u64 \<Rightarrow> u64 \<Rightarrow> registered_io \<Rightarrow> (rio_buf \<times> bool \<times> registered_io) option" where
  "rio_send connection_id buf buf_size s =
     map_option (Pair (rio_buf_of (io_send_pool s) buf buf_size)) (on_request_queue rq_send connection_id s)"

definition rio_multicast_send ::
    "u32 \<Rightarrow> nat option \<Rightarrow> u64 \<Rightarrow> registered_io \<Rightarrow> (rio_buf \<times> bool \<times> registered_io) option" where
  "rio_multicast_send connection_id buffer_id buf_size s =
     map_option (Pair \<lparr>rb_buffer_id = buffer_id, rb_offset = 0, rb_length = ucast buf_size\<rparr>)
       (on_request_queue rq_send connection_id s)"

subsection \<open>Completed requests\<close>

text \<open>
  A result that was taken from the completion queue, and one from the completion port. \<open>deliver\<close> is
  the virtual \<open>on_event_complete\<close> of an event with its handler and the number that it is given; it
  tells whether it let an exception escape.
\<close>

record ('e, 'h) rio_event_result =
  rr_status_ok :: bool
  rr_bytes_transferred :: u32
  rr_request_context :: 'e
  rr_socket_context :: 'h

abbreviation signal_event_failed :: u32 where
  "signal_event_failed \<equiv> - 1"

fun rio_dispatch ::
    "('e \<Rightarrow> 'h \<Rightarrow> u32 \<Rightarrow> 's \<Rightarrow> bool \<times> 's) \<Rightarrow> ('e, 'h) rio_event_result list \<Rightarrow> 's \<Rightarrow> bool \<times> 's" where
  "rio_dispatch deliver [] s = (False, s)"
| "rio_dispatch deliver (r # rs) s =
     (let (raised, s) = deliver (rr_request_context r) (rr_socket_context r)
            (if rr_status_ok r then rr_bytes_transferred r else signal_event_failed) s
      in if raised then (True, s) else rio_dispatch deliver rs s)"

text \<open>
  \<open>RioEvent::on_event_complete\<close>: \<open>num\<close> results were taken, or -1; when there are any, the
  notification is armed again (the log counts it) before they are delivered.
\<close>

definition rio_on_event_complete ::
    "('e \<Rightarrow> 'h \<Rightarrow> u32 \<Rightarrow> 's \<Rightarrow> bool \<times> 's) \<Rightarrow> ('e, 'h) rio_event_result list option \<Rightarrow> nat \<times> 's \<Rightarrow> bool \<times> nat \<times> 's" where
  "rio_on_event_complete deliver dequeued s =
     (case dequeued of
        None \<Rightarrow> (False, s)
      | Some rs \<Rightarrow>
          if rs = [] then (False, s)
          else (let (raised, t) = rio_dispatch deliver rs (snd s) in (raised, fst s + 1, t)))"

text \<open>
  The body of \<open>run_event_loop_forever\<close> for the entries of one call; an entry without an overlapped
  structure is logged, an exception ends the entry only.
\<close>

fun event_loop_entries :: "('o \<Rightarrow> 'h \<Rightarrow> u32 \<Rightarrow> 's \<Rightarrow> bool \<times> 's) \<Rightarrow> ('o option \<times> 'h \<times> u32) list \<Rightarrow> 's \<Rightarrow> 's" where
  "event_loop_entries complete [] s = s"
| "event_loop_entries complete ((overlapped, key, bytes) # es) s =
     (case overlapped of
        None \<Rightarrow> event_loop_entries complete es s
      | Some ev \<Rightarrow> event_loop_entries complete es (snd (complete ev key bytes s)))"

text \<open>The loop over several calls; a call that was abandoned ends it.\<close>

fun event_loop :: "('o \<Rightarrow> 'h \<Rightarrow> u32 \<Rightarrow> 's \<Rightarrow> bool \<times> 's) \<Rightarrow> ('o option \<times> 'h \<times> u32) list option list \<Rightarrow> 's \<Rightarrow> 's" where
  "event_loop complete [] s = s"
| "event_loop complete (None # bs) s = s"
| "event_loop complete (Some es # bs) s = event_loop complete bs (event_loop_entries complete es s)"

subsection \<open>Flushing a connection into its request queue\<close>

text \<open>
  \<open>flush_send\<close> of one connection (\<open>net/connection.cpp\<close>) with the answers of its request queue: the
  send event first, then the multicast events, each given back when it is refused.
\<close>

fun rq_multicast_loop ::
    "nat list \<Rightarrow> request_queue \<Rightarrow> connection_io \<Rightarrow> request_queue \<times> connection_io \<times> bytes list" where
  "rq_multicast_loop [] q c = (q, c, [])"
| "rq_multicast_loop (i # is) q c =
     (case op_storage (cio_multicast_pool c) i of
        None \<Rightarrow> rq_multicast_loop is q c
      | Some e \<Rightarrow>
          (case multicast_post_rio (fst (rq_send q)) e of
             (True, e, sub) \<Rightarrow>
               (let pool = cio_multicast_pool c;
                    c = c\<lparr>cio_multicast_pool := pool\<lparr>op_storage := (op_storage pool)(i \<mapsto> e)\<rparr>\<rparr>;
                    (q, c, subs) = rq_multicast_loop is (snd (rq_send q)) c
                in (q, c, (case sub of Some bs \<Rightarrow> bs # subs | None \<Rightarrow> subs)))
           | (False, e, sub) \<Rightarrow> rq_multicast_loop is q (free_multicast_event i c)))"

definition rq_flush_send ::
    "request_queue \<Rightarrow> connection_io \<Rightarrow> request_queue \<times> connection_io \<times> bytes option \<times> bytes list" where
  "rq_flush_send q c =
     (let (q, c, sub) =
            (if \<not> is_send_io_busy c
             then (let (ok, c, sub) = post_send_event (fst (rq_send q)) c in (if ok then snd (rq_send q) else q, c, sub))
             else (q, c, None));
          (q, c, subs) = rq_multicast_loop (cio_ready_multicast c) q (c\<lparr>cio_ready_multicast := []\<rparr>)
      in (q, c, sub, subs))"

text \<open>It is the flush of the connection for some answers, so what holds for every answer holds for it.\<close>

lemma flush_multicast_loop_cong:
  "(\<And>i. i \<in> set is \<Longrightarrow> rm i = rm' i) \<Longrightarrow> flush_multicast_loop rm is c = flush_multicast_loop rm' is c"
  by (induction "is" arbitrary: c) (auto split: option.splits prod.splits bool.splits)

lemma rq_multicast_loop_flush:
  "distinct is \<Longrightarrow> rq_multicast_loop is q c = (q', c', subs) \<Longrightarrow> \<exists>rm. flush_multicast_loop rm is c = (c', subs)"
proof (induction "is" arbitrary: q c q' c' subs)
  case (Cons i "is")
  have cong: "flush_multicast_loop (rm(i := b)) is d = flush_multicast_loop rm is d" for rm b d
    using Cons.prems(1) by (intro flush_multicast_loop_cong) auto
  show ?case
  proof (cases "op_storage (cio_multicast_pool c) i")
    case None
    with Cons show ?thesis by auto
  next
    case (Some e)
    obtain ok e' sub where m: "multicast_post_rio (fst (rq_send q)) e = (ok, e', sub)" by (metis prod_cases3)
    show ?thesis
    proof (cases ok)
      case False
      with Cons.prems Some m have "rq_multicast_loop is q (free_multicast_event i c) = (q', c', subs)" by simp
      from Cons.IH [OF _ this] Cons.prems(1) obtain rm where "flush_multicast_loop rm is (free_multicast_event i c) = (c', subs)"
        by auto
      then have "flush_multicast_loop (rm(i := fst (rq_send q))) (i # is) c = (c', subs)"
        using Some m False by (simp add: cong)
      then show ?thesis by blast
    next
      case True
      let ?c = "c\<lparr>cio_multicast_pool := (cio_multicast_pool c)\<lparr>op_storage := (op_storage (cio_multicast_pool c))(i \<mapsto> e')\<rparr>\<rparr>"
      obtain qs cs ss where r: "rq_multicast_loop is (snd (rq_send q)) ?c = (qs, cs, ss)" by (metis prod_cases3)
      from Cons.IH [OF _ r] Cons.prems(1) obtain rm where "flush_multicast_loop rm is ?c = (cs, ss)" by auto
      then have "flush_multicast_loop (rm(i := fst (rq_send q))) (i # is) c = (c', subs)"
        using Some m True Cons.prems(2) r by (simp add: cong)
      then show ?thesis by blast
    qed
  qed
qed simp

lemma rq_flush_send_flush:
  assumes "distinct (cio_ready_multicast c)" "rq_flush_send q c = (q', c', sub, subs)"
  shows "\<exists>rio rm. flush_send_connection rio rm c = (c', sub, subs)"
proof -
  obtain ok d s where p: "post_send_event (fst (rq_send q)) c = (ok, d, s)" by (metis prod_cases3)
  have ready: "cio_ready_multicast d = cio_ready_multicast c"
    using p by (auto simp: post_send_event_def split: prod.splits)
  have "\<exists>rm. flush_send_connection (fst (rq_send q)) rm c = (c', sub, subs)"
  proof (cases "is_send_io_busy c")
    case True
    obtain q1 c1 ss where l: "rq_multicast_loop (cio_ready_multicast c) q (c\<lparr>cio_ready_multicast := []\<rparr>) = (q1, c1, ss)"
      by (metis prod_cases3)
    from rq_multicast_loop_flush [OF assms(1) l] obtain rm where
      "flush_multicast_loop rm (cio_ready_multicast c) (c\<lparr>cio_ready_multicast := []\<rparr>) = (c1, ss)" ..
    with True l assms(2) show ?thesis
      by (intro exI [of _ rm]) (simp add: rq_flush_send_def flush_send_connection_def flush_multicast_send_def)
  next
    case False
    let ?q = "if ok then snd (rq_send q) else q"
    obtain q1 c1 ss where l: "rq_multicast_loop (cio_ready_multicast d) ?q (d\<lparr>cio_ready_multicast := []\<rparr>) = (q1, c1, ss)"
      by (metis prod_cases3)
    from rq_multicast_loop_flush [OF _ l] assms(1) ready obtain rm where
      "flush_multicast_loop rm (cio_ready_multicast d) (d\<lparr>cio_ready_multicast := []\<rparr>) = (c1, ss)" by auto
    with False l p assms(2) show ?thesis
      by (intro exI [of _ rm]) (simp add: rq_flush_send_def flush_send_connection_def flush_multicast_send_def)
  qed
  then show ?thesis by blast
qed

lemma pool_used_free: "pool_used (snd (pool_free_object i p)) \<subseteq> pool_used p - {i}"
proof (cases "i < 64 * length (op_bitmaps p)")
  case True
  then show ?thesis
    using slot_free_set [OF _ True] by (auto simp: pool_free_object_def transition_to_free_def Let_def pool_used_def)
next
  case False
  then have "length (op_bitmaps p) \<le> i div 64" by (simp add: less_eq_div_iff_mult_less_eq mult.commute)
  with False show ?thesis
    by (auto simp: pool_free_object_def transition_to_free_def Let_def pool_used_def list_update_beyond)
qed

lemma free_multicast_event_used:
  "pool_used (cio_multicast_pool (free_multicast_event i c)) \<subseteq> pool_used (cio_multicast_pool c) - {i}"
  "op_storage (cio_multicast_pool (free_multicast_event i c)) = (op_storage (cio_multicast_pool c))(i := None)"
  using pool_used_free [of i "cio_multicast_pool c"]
  by (auto simp: free_multicast_event_def pool_free_object_def transition_to_free_def Let_def)

text \<open>When the request queue is full, every multicast event is given back unsent.\<close>

lemma rq_multicast_loop_full:
  assumes "\<not> fst (rq_send q)"
  shows "\<exists>c'. rq_multicast_loop is q c = (q, c', []) \<and> cio_ready_multicast c' = cio_ready_multicast c \<and>
    pool_used (cio_multicast_pool c') \<subseteq> pool_used (cio_multicast_pool c) - {i \<in> set is. op_storage (cio_multicast_pool c) i \<noteq> None}"
proof (induction "is" arbitrary: c)
  case (Cons i "is")
  show ?case
  proof (cases "op_storage (cio_multicast_pool c) i")
    case None
    then have "{j \<in> set (i # is). op_storage (cio_multicast_pool c) j \<noteq> None} = {j \<in> set is. op_storage (cio_multicast_pool c) j \<noteq> None}"
      by auto
    with None Cons.IH [of c] show ?thesis by simp
  next
    case (Some e)
    have "\<not> fst (multicast_post_rio (fst (rq_send q)) e)" using assms by (simp add: multicast_post_rio_def)
    then obtain e' sub where m: "multicast_post_rio (fst (rq_send q)) e = (False, e', sub)" by (metis prod.collapse)
    obtain c' where c': "rq_multicast_loop is q (free_multicast_event i c) = (q, c', [])"
        "cio_ready_multicast c' = cio_ready_multicast c"
      and used: "pool_used (cio_multicast_pool c') \<subseteq> pool_used (cio_multicast_pool (free_multicast_event i c)) -
           {j \<in> set is. op_storage (cio_multicast_pool (free_multicast_event i c)) j \<noteq> None}"
      using Cons.IH [of "free_multicast_event i c"] by (auto simp: free_multicast_event_def)
    have "pool_used (cio_multicast_pool c') \<subseteq> pool_used (cio_multicast_pool c) -
        {j \<in> set (i # is). op_storage (cio_multicast_pool c) j \<noteq> None}"
    proof
      fix x assume x: "x \<in> pool_used (cio_multicast_pool c')"
      with used free_multicast_event_used(1) [of i c] have "x \<in> pool_used (cio_multicast_pool c)" "x \<noteq> i" by auto
      moreover have "\<not> (x \<in> set is \<and> op_storage (cio_multicast_pool (free_multicast_event i c)) x \<noteq> None)"
        using used x by blast
      ultimately show "x \<in> pool_used (cio_multicast_pool c) - {j \<in> set (i # is). op_storage (cio_multicast_pool c) j \<noteq> None}"
        by (simp add: free_multicast_event_used(2))
    qed
    with Some m c' show ?thesis by simp
  qed
qed simp

text \<open>
  C21: The request queue of a connection has room for one send, so what is flushed behind another
  send is lost: when the send event was submitted, or is still in flight, every multicast event that
  waited (the level data of a joining player, large block and position updates) is given back to its
  pool without having been submitted, and nothing tells the sender.
\<close>

theorem second_send_drops_multicast:
  assumes "rq_max_send q = 1" "\<forall>i \<in> set (cio_ready_multicast c). op_storage (cio_multicast_pool c) i \<noteq> None"
    and "rq_flush_send q c = (q', c', sub, subs)" "rq_sends q = 1 \<or> sub \<noteq> None"
  shows "subs = [] \<and> cio_ready_multicast c' = [] \<and>
    (\<forall>i \<in> set (cio_ready_multicast c). i \<notin> pool_used (cio_multicast_pool c'))"
proof -
  obtain ok d s where p: "post_send_event (fst (rq_send q)) c = (ok, d, s)" by (metis prod_cases3)
  have d: "cio_ready_multicast d = cio_ready_multicast c" "cio_multicast_pool d = cio_multicast_pool c"
    using p by (auto simp: post_send_event_def split: prod.splits)
  have s: "ok \<Longrightarrow> fst (rq_send q)" "s \<noteq> None \<Longrightarrow> ok"
    using p by (auto simp: post_send_event_def send_post_rio_def split: prod.splits if_splits)
  define q1 where "q1 = (if \<not> is_send_io_busy c \<and> ok then snd (rq_send q) else q)"
  define c1 where "c1 = (if is_send_io_busy c then c else d)"
  have f: "rq_flush_send q c = (let (q2, c2, subs) = rq_multicast_loop (cio_ready_multicast c) q1 (c1\<lparr>cio_ready_multicast := []\<rparr>)
      in (q2, c2, (if is_send_io_busy c then None else s), subs))"
    by (simp add: rq_flush_send_def p q1_def c1_def d Let_def case_prod_beta)
  have "\<not> fst (rq_send q1)"
  proof (cases "rq_sends q = 1")
    case True
    then have "\<not> fst (rq_send q)" using assms(1) by (simp add: rq_send_def)
    with s show ?thesis by (auto simp: q1_def)
  next
    case False
    with assms(3,4) f have "\<not> is_send_io_busy c" "s \<noteq> None" by (auto simp: Let_def case_prod_beta split: if_splits)
    with s assms(1) show ?thesis by (auto simp: q1_def rq_send_def split: if_splits)
  qed
  from rq_multicast_loop_full [OF this, of "cio_ready_multicast c" "c1\<lparr>cio_ready_multicast := []\<rparr>"] f assms(2,3) d
  show ?thesis by (auto simp: c1_def split: if_splits)
qed

definition waiting_level :: connection_io where
  "waiting_level = snd (post_multicast_event (replicate 5000 7) (snd (cio_push [PT_ping] connection_io_new)))"

theorem second_send_drops_multicast_witness:
  "\<exists>i q' c' sub. cio_ready_multicast waiting_level = [i] \<and>
    rq_flush_send \<lparr>rq_max_receive = 1, rq_max_send = 1, rq_receives = 0, rq_sends = 0\<rparr> waiting_level = (q', c', sub, []) \<and>
    sub = Some [PT_ping] \<and> cio_ready_multicast c' = [] \<and> i \<notin> pool_used (cio_multicast_pool c')"
proof -
  let ?q = "\<lparr>rq_max_receive = 1, rq_max_send = 1, rq_receives = 0, rq_sends = 0\<rparr>"
  obtain ok1 c1 where c1: "cio_push [PT_ping] connection_io_new = (ok1, c1)" by fastforce
  have d: "ok1" "lf_unused_size (se_data (cio_send c1)) = 8191" "\<not> se_processing (cio_send c1)"
    using c1 by (auto simp: cio_push_def connection_io_new_def buf_simps lf_new_def)
  note e1 = cio_push_effect [OF connection_io_new_wf(1) c1]
  obtain ok2 c2 where c2: "post_multicast_event (replicate 5000 7) c1 = (ok2, c2)" by fastforce
  note e2 = post_multicast_event_effect [OF e1(2) c2]
  have w: "waiting_level = c2" by (simp add: waiting_level_def c1 c2)
  have "pool_used (cio_multicast_pool c1) = {}" "cio_ready_multicast c1 = []" "cio_pending c1 = [PT_ping]"
    using e1 d multicast_pool_init_wf connection_io_new_wf(2) by (simp_all add: connection_io_new_def)
  note i1 = this
  with e2(3) have ok2 by auto
  have "cio_pending c2 = cio_pending c1"
    using c2 d(2) by (auto simp: post_multicast_event_def cio_pending_def split: prod.splits option.splits)
  with e2(2) [OF \<open>ok2\<close>] i1 obtain i e where i: "cio_ready_multicast c2 = [i]" "op_storage (cio_multicast_pool c2) i = Some e"
    by auto
  have s2: "cio_send c2 = cio_send c1"
    using c2 d(2) by (auto simp: post_multicast_event_def split: prod.splits option.splits)
  obtain q' c' sub subs where f: "rq_flush_send ?q c2 = (q', c', sub, subs)" by (metis prod_cases4)
  have "lf_contents (se_data (cio_send c1)) = [PT_ping]" "lf_wf (se_data (cio_send c1))"
    using i1(3) e1(2) by (simp_all add: cio_pending_def cio_wf_def)
  with length_lf_contents [of "se_data (cio_send c1)"] have p: "post_send_event (fst (rq_send ?q)) c2 = (True, c2\<lparr>cio_send := (cio_send c2)\<lparr>se_processing := True\<rparr>\<rparr>, Some [PT_ping])"
    using d(3) s2 by (simp add: post_send_event_def send_post_rio_def rq_send_def)
  then have sub: "sub = Some [PT_ping]"
    using f d(3) s2 by (auto simp: rq_flush_send_def is_send_io_busy_def Let_def case_prod_beta)
  have "subs = [] \<and> cio_ready_multicast c' = [] \<and> (\<forall>i \<in> set (cio_ready_multicast c2). i \<notin> pool_used (cio_multicast_pool c'))"
    using sub i by (intro second_send_drops_multicast [OF _ _ f]) auto
  with f sub i w show ?thesis by auto
qed

subsection \<open>The ranges of the registered buffers\<close>

lemma rio_buf_range:
  assumes "unat n * unat bs \<le> 2 ^ 32" "unat bs < 2 ^ 32" "unat i < unat n" "0 < unat l" "unat h + unat l \<le> unat bs"
    and "bp_buffer_size p = bs"
  shows "unat (rb_offset (rio_buf_of p (bp_buffer_at i p + h) l)) = unat bs * unat i + unat h \<and>
    unat (rb_length (rio_buf_of p (bp_buffer_at i p + h) l)) = unat l"
proof -
  have "unat bs * unat i + unat bs \<le> unat bs * unat n"
    using mult_le_mono2 [of "Suc (unat i)" "unat n" "unat bs"] assms(3) by simp
  then have b: "unat bs * unat i + unat h < 2 ^ 32"
    using assms(1,4,5) by (simp add: mult.commute)
  have i: "unat (ucast i :: u64) = unat i" by (simp add: unat_ucast_u32_u64)
  have "unat bs * unat i < 2 ^ 64" using b by simp
  then have m: "unat (bs * ucast i :: u64) = unat bs * unat i" using i by (simp add: unat_mult_lem [THEN iffD1])
  have a: "unat (bs * ucast i + h :: u64) = unat bs * unat i + unat h"
    using b m by (subst unat_add_lem [THEN iffD1]) simp_all
  have "bp_buffer_at i p + h - bp_buffer_at 0 p = bs * ucast i + h"
    using assms(6) by (simp add: bp_buffer_at_def bp_offset_def)
  then have "rb_offset (rio_buf_of p (bp_buffer_at i p + h) l) = ucast (bs * ucast i + h)"
    by (simp only: rio_buf_of_def rio_buf.simps)
  moreover have "rb_length (rio_buf_of p (bp_buffer_at i p + h) l) = ucast l"
    by (simp only: rio_buf_of_def rio_buf.simps)
  moreover have "unat (ucast w :: u32) = unat w" if "unat w < 2 ^ 32" for w :: u64
    using that by (simp add: unsigned_ucast_eq take_bit_nat_eq_self)
  ultimately show ?thesis
    using a b assms(2,4,5) by simp
qed

text \<open>
  The ranges of a pool whose buffers have one size: disjoint for different connections, of full length,
  and inside the length that was registered.
\<close>

definition rio_range :: "rio_buf \<Rightarrow> nat set" where
  "rio_range b = {unat (rb_offset b)..<unat (rb_offset b) + unat (rb_length b)}"

definition registered_length :: "u64 \<Rightarrow> u64 \<Rightarrow> nat" where
  "registered_length n bs = unat (ucast (bs * n) :: u32)"

lemma registered_length_exact:
  assumes "unat n * unat bs < 2 ^ 32"
  shows "registered_length n bs = unat n * unat bs"
proof -
  have "unat bs * unat n < 2 ^ 64" using assms by (simp add: mult.commute)
  then have "unat (bs * n) = unat n * unat bs" by (simp add: unat_mult_lem [THEN iffD1] mult.commute)
  then show ?thesis using assms by (simp add: registered_length_def unsigned_ucast_eq take_bit_nat_eq_self)
qed

lemma pool_ranges:
  assumes "unat n * unat bs < 2 ^ 32" "unat bs < 2 ^ 32" "bp_buffer_size p = bs"
    and "unat i < unat n" "unat j < unat n" "i \<noteq> j"
    and "0 < unat l" "unat h + unat l \<le> unat bs" "0 < unat l'" "unat h' + unat l' \<le> unat bs"
    and a: "a = rio_buf_of p (bp_buffer_at i p + h) l" and b: "b = rio_buf_of p (bp_buffer_at j p + h') l'"
  shows "unat (rb_length a) = unat l" "unat (rb_offset a) = unat bs * unat i + unat h"
    "rio_range a \<subseteq> {..<registered_length n bs}" "rio_range a \<inter> rio_range b = {}"
proof -
  from assms(1) have n: "unat n * unat bs \<le> 2 ^ 32" by simp
  have ra: "unat (rb_offset a) = unat bs * unat i + unat h \<and> unat (rb_length a) = unat l"
    using rio_buf_range [OF n assms(2,4,7,8,3)] a by simp
  have rb: "unat (rb_offset b) = unat bs * unat j + unat h' \<and> unat (rb_length b) = unat l'"
    using rio_buf_range [OF n assms(2,5,9,10,3)] b by simp
  show "unat (rb_length a) = unat l" "unat (rb_offset a) = unat bs * unat i + unat h" using ra by simp_all
  have step: "unat bs * unat i + unat bs \<le> unat bs * unat j" if "unat i < unat j" for i j :: u32
    using mult_le_mono2 [of "Suc (unat i)" "unat j" "unat bs"] that by simp
  have "unat bs * unat i + unat bs \<le> unat bs * unat n"
    using mult_le_mono2 [of "Suc (unat i)" "unat n" "unat bs"] assms(4) by simp
  then show "rio_range a \<subseteq> {..<registered_length n bs}"
    using ra assms(8) registered_length_exact [OF assms(1)] by (auto simp: rio_range_def mult.commute)
  from assms(6) consider "unat i < unat j" | "unat j < unat i" by (metis linorder_neqE_nat unsigned_word_eqI)
  then show "rio_range a \<inter> rio_range b = {}"
    using ra rb assms(8,10) step by cases (fastforce simp: rio_range_def)+
qed

text \<open>
  C17: The receives and the sends of different connections never touch each other's memory, in the buffers
  of fewer than 2 ^ 19 connections: the ranges that two connections hand to registered I/O for receiving,
  wherever in their own buffers these lie, are disjoint, have their full length and lie inside the length
  that was registered for the receive buffers, and so do those for sending in the send buffers. Multicasts
  are not about these buffers: the connections that one is for name the same registered data,
  which is only read.
\<close>

theorem rio_ranges_disjoint:
  assumes "unat n < 2 ^ 19" "unat i < unat n" "unat j < unat n" "i \<noteq> j"
    and "registered_io_new iocp create virtual_alloc register n = Some s"
    and "0 < unat rl" "unat rh + unat rl \<le> tcp_recv_buffer_size" "0 < unat rl'" "unat rh' + unat rl' \<le> tcp_recv_buffer_size"
    and "0 < unat sl" "unat sh + unat sl \<le> tcp_send_buffer_size" "0 < unat sl'" "unat sh' + unat sl' \<le> tcp_send_buffer_size"
    and "rio_recv i (fst (create_recv_io_event i s) + rh) rl s = Some (ri, ok1, s1)"
    and "rio_recv j (fst (create_recv_io_event j s) + rh') rl' s = Some (rj, ok2, s2)"
    and "rio_send i (fst (create_send_io_event i s) + sh) sl s = Some (si, ok3, s3)"
    and "rio_send j (fst (create_send_io_event j s) + sh') sl' s = Some (sj, ok4, s4)"
  shows "unat (rb_length ri) = unat rl \<and> rio_range ri \<subseteq> {..<registered_length n (of_nat tcp_recv_buffer_size)} \<and>
    rio_range ri \<inter> rio_range rj = {} \<and> rb_buffer_id ri = bp_buffer_id (io_recv_pool s) \<and>
    unat (rb_length si) = unat sl \<and> rio_range si \<subseteq> {..<registered_length n (of_nat tcp_send_buffer_size)} \<and>
    rio_range si \<inter> rio_range sj = {} \<and> rb_buffer_id si = bp_buffer_id (io_send_pool s)"
proof -
  have sizes: "bp_buffer_size (io_recv_pool s) = of_nat tcp_recv_buffer_size" "bp_buffer_size (io_send_pool s) = of_nat tcp_send_buffer_size"
    using assms(5) by (auto simp: registered_io_new_def rio_buffer_pool_new_def Let_def split: if_splits)
  have r: "ri = rio_buf_of (io_recv_pool s) (bp_buffer_at i (io_recv_pool s) + rh) rl"
    "rj = rio_buf_of (io_recv_pool s) (bp_buffer_at j (io_recv_pool s) + rh') rl'"
    "si = rio_buf_of (io_send_pool s) (bp_buffer_at i (io_send_pool s) + sh) sl"
    "sj = rio_buf_of (io_send_pool s) (bp_buffer_at j (io_send_pool s) + sh') sl'"
    using assms(14-17) by (auto simp: rio_recv_def rio_send_def create_recv_io_event_def create_send_io_event_def)
  have n: "unat n * unat (of_nat tcp_recv_buffer_size :: u64) < 2 ^ 32" "unat n * unat (of_nat tcp_send_buffer_size :: u64) < 2 ^ 32"
    "unat (of_nat tcp_recv_buffer_size :: u64) < 2 ^ 32" "unat (of_nat tcp_send_buffer_size :: u64) < 2 ^ 32"
    using assms(1) by simp_all
  have b: "unat rh + unat rl \<le> unat (of_nat tcp_recv_buffer_size :: u64)" "unat rh' + unat rl' \<le> unat (of_nat tcp_recv_buffer_size :: u64)"
    "unat sh + unat sl \<le> unat (of_nat tcp_send_buffer_size :: u64)" "unat sh' + unat sl' \<le> unat (of_nat tcp_send_buffer_size :: u64)"
    using assms(7,9,11,13) by simp_all
  note R = pool_ranges [OF n(1,3) sizes(1) assms(2-4,6) b(1) assms(8) b(2) r(1,2)]
  note S = pool_ranges [OF n(2,4) sizes(2) assms(2-4,10) b(3) assms(12) b(4) r(3,4)]
  have "rb_buffer_id ri = bp_buffer_id (io_recv_pool s)" "rb_buffer_id si = bp_buffer_id (io_send_pool s)"
    by (simp_all add: r rio_buf_of_def)
  with R(1,3,4) S(1,3,4) show ?thesis by blast
qed

text \<open>With 2 ^ 19 connections the length that is given to the registration of the send buffers is cut to 0.\<close>

lemma registered_length_cut: "registered_length (2 ^ 19) (of_nat tcp_send_buffer_size) = 0"
  by (simp add: registered_length_def)

theorem rio_ranges_disjoint_witness:
  "\<exists>s ri ok1 s1 rj ok2 s2 si ok3 s3 sj ok4 s4.
    registered_io_new (Some 1) (Some (\<lambda>_. Some 2)) (\<lambda>_. 65536) (Some (\<lambda>_ _. Some 3)) 100 = Some s \<and>
    rio_recv 7 (fst (create_recv_io_event 7 s) + 16) 100 s = Some (ri, ok1, s1) \<and>
    rio_recv 8 (fst (create_recv_io_event 8 s) + 0) 4096 s = Some (rj, ok2, s2) \<and>
    rio_send 7 (fst (create_send_io_event 7 s) + 16) 100 s = Some (si, ok3, s3) \<and>
    rio_send 8 (fst (create_send_io_event 8 s) + 0) 8192 s = Some (sj, ok4, s4) \<and>
    rio_range ri \<inter> rio_range rj = {} \<and> rio_range si \<inter> rio_range sj = {}"
proof -
  obtain s where s: "registered_io_new (Some 1) (Some (\<lambda>_. Some 2)) (\<lambda>_. 65536) (Some (\<lambda>_ _. Some 3)) 100 = Some s"
    by (simp add: registered_io_new_def Let_def completion_queue_new_def create_complete_queue_def rio_buffer_pool_new_def
        rio_create_buffer_def cq_is_valid_def bp_is_valid_def)
  then have q: "length (io_request_queues s) = 100" by (auto simp: registered_io_new_def Let_def split: if_splits)
  have ex: "\<exists>b ok s'. rio_recv i buf l s = Some (b, ok, s')" "\<exists>b ok s'. rio_send i buf l s = Some (b, ok, s')"
    if "unat i < 100" for i buf l
    using that q by (auto simp: rio_recv_def rio_send_def on_request_queue_def Let_def split: option.split prod.split)
  obtain ri ok1 s1 rj ok2 s2 si ok3 s3 sj ok4 s4 where r:
    "rio_recv 7 (fst (create_recv_io_event 7 s) + 16) 100 s = Some (ri, ok1, s1)"
    "rio_recv 8 (fst (create_recv_io_event 8 s) + 0) 4096 s = Some (rj, ok2, s2)"
    "rio_send 7 (fst (create_send_io_event 7 s) + 16) 100 s = Some (si, ok3, s3)"
    "rio_send 8 (fst (create_send_io_event 8 s) + 0) 8192 s = Some (sj, ok4, s4)"
    using ex [of 7] ex [of 8] by fastforce
  from rio_ranges_disjoint [OF _ _ _ _ s _ _ _ _ _ _ _ _ r] have "rio_range ri \<inter> rio_range rj = {} \<and> rio_range si \<inter> rio_range sj = {}"
    by simp
  with s r show ?thesis by blast
qed

subsection \<open>Exceptions\<close>

text \<open>The delivery of one result, and whether a batch is delivered without an exception.\<close>

definition rio_deliver :: "('e \<Rightarrow> 'h \<Rightarrow> u32 \<Rightarrow> 's \<Rightarrow> bool \<times> 's) \<Rightarrow> ('e, 'h) rio_event_result \<Rightarrow> 's \<Rightarrow> bool \<times> 's" where
  "rio_deliver deliver r s = deliver (rr_request_context r) (rr_socket_context r)
     (if rr_status_ok r then rr_bytes_transferred r else signal_event_failed) s"

fun delivers :: "('e \<Rightarrow> 'h \<Rightarrow> u32 \<Rightarrow> 's \<Rightarrow> bool \<times> 's) \<Rightarrow> ('e, 'h) rio_event_result list \<Rightarrow> 's \<Rightarrow> 's option" where
  "delivers deliver [] s = Some s"
| "delivers deliver (r # rs) s =
     (let (raised, s) = rio_deliver deliver r s in if raised then None else delivers deliver rs s)"

lemma rio_dispatch_delivers:
  "delivers deliver rs s = Some t \<Longrightarrow> rio_dispatch deliver (rs @ qs) s = rio_dispatch deliver qs t"
  by (induction rs arbitrary: s) (auto simp: rio_deliver_def split: prod.splits if_splits)

text \<open>
  The completion port hands on every entry, but a batch of requests is one entry. When no
  handler throws, all results of the batch are delivered, each once and in order. When one throws,
  the results behind it, which were already taken from the completion queue, are delivered to nobody:
  the outcome does not depend on them, and the loop goes on with the next entry.
\<close>

theorem exception_loses_completions:
  "(delivers deliver rs s = Some t \<and> rs \<noteq> [] \<longrightarrow>
     event_loop_entries (\<lambda>_ _ _. rio_on_event_complete deliver (Some rs)) ((Some ev, key, bytes) # es) (k, s) =
     event_loop_entries (\<lambda>_ _ _. rio_on_event_complete deliver (Some rs)) es (k + 1, t)) \<and>
   (rs = before @ r # lost \<and> delivers deliver before s = Some t \<and> fst (rio_deliver deliver r t) \<longrightarrow>
     snd (rio_on_event_complete deliver (Some rs) (k, s)) = (k + 1, snd (rio_deliver deliver r t)))"
proof (intro conjI impI)
  assume "delivers deliver rs s = Some t \<and> rs \<noteq> []"
  with rio_dispatch_delivers [of deliver rs s t "[]"]
  show "event_loop_entries (\<lambda>_ _ _. rio_on_event_complete deliver (Some rs)) ((Some ev, key, bytes) # es) (k, s) =
     event_loop_entries (\<lambda>_ _ _. rio_on_event_complete deliver (Some rs)) es (k + 1, t)"
    by (simp add: rio_on_event_complete_def)
next
  assume "rs = before @ r # lost \<and> delivers deliver before s = Some t \<and> fst (rio_deliver deliver r t)"
  with rio_dispatch_delivers [of deliver before s t "r # lost"]
  show "snd (rio_on_event_complete deliver (Some rs) (k, s)) = (k + 1, snd (rio_deliver deliver r t))"
    by (auto simp: rio_on_event_complete_def rio_deliver_def Let_def split: prod.splits)
qed

theorem exception_loses_completions_witness:
  "snd (rio_on_event_complete (\<lambda>ev _ n s. (ev = 2, s @ [(ev :: nat, n)])) (Some (map (\<lambda>i. \<lparr>rr_status_ok = True, rr_bytes_transferred = 9,
       rr_request_context = i, rr_socket_context = 0 :: nat\<rparr>) [1, 2, 3])) (0, [])) = (1, [(1, 9), (2, 9)])"
  using exception_loses_completions [of "\<lambda>ev _ n s. (ev = 2, s @ [(ev :: nat, n)])"
      "map (\<lambda>i. \<lparr>rr_status_ok = True, rr_bytes_transferred = 9, rr_request_context = i, rr_socket_context = 0 :: nat\<rparr>) [1, 2, 3]" "[]" "[(1, 9)]"
      undefined undefined undefined undefined 0 "[\<lparr>rr_status_ok = True, rr_bytes_transferred = 9, rr_request_context = 1, rr_socket_context = 0\<rparr>]"
      "\<lparr>rr_status_ok = True, rr_bytes_transferred = 9, rr_request_context = 2, rr_socket_context = 0\<rparr>"
      "[\<lparr>rr_status_ok = True, rr_bytes_transferred = 9, rr_request_context = 3, rr_socket_context = 0\<rparr>]"]
  by (simp add: rio_deliver_def)

end
