(* ===== verification/Connection_Wire.thy ===== *)
theory Connection_Wire
  imports Registered_IO "HOL-Library.Sublist"
begin

section \<open>What a connection puts on the wire\<close>

text \<open>
  The sending side of a connection over time, with its request queue (\<open>net/connection.cpp\<close>, \<open>io/io_event.cpp\<close>,
  \<open>io/io_service.cpp\<close>): sends and multicasts are accepted or refused, \<open>flush_send\<close> posts what it can, and the
  one outstanding request completes. The number of a completion is a count of bytes that left, the signal
  of a failure, or 0 for the end of the connection, after which the send event stays busy. A failed request
  is taken to have put nothing on the wire. The operations are one after another: a send copies its bytes before the next
  operation (what happens otherwise is in \<open>Lockfree_Send\<close>), and the pool of the events is used by one thread at
  a time (see \<open>unlocked_free_exposes_slot\<close>). The ghosts are the wire, the bytes accepted by the send buffer and the multicasts accepted
  as events of their own.
\<close>

datatype wire_op = Wire_send bytes | Wire_multicast bytes | Wire_flush | Wire_complete nat

datatype wire_segment = Stream_bytes bytes | Multicast_bytes bytes

datatype wire_flight = Flight_none | Flight_send bytes | Flight_multicast nat bytes

record wire_state =
  wi_io :: connection_io
  wi_queue :: request_queue
  wi_flight :: wire_flight
  wi_wire :: "wire_segment list"
  wi_accepted :: bytes
  wi_queued :: "bytes list"

definition wire_new :: wire_state where
  "wire_new = \<lparr>wi_io = connection_io_new, wi_queue = \<lparr>rq_max_receive = 1, rq_max_send = 1, rq_receives = 0, rq_sends = 0\<rparr>,
     wi_flight = Flight_none, wi_wire = [], wi_accepted = [], wi_queued = []\<rparr>"

definition send_complete :: "nat \<Rightarrow> connection_io \<Rightarrow> connection_io" where
  "send_complete n c = c\<lparr>cio_send := \<lparr>se_processing = False, se_data = lf_pop n (se_data (cio_send c))\<rparr>\<rparr>"

definition send_failed :: "connection_io \<Rightarrow> connection_io" where
  "send_failed c = c\<lparr>cio_send := (cio_send c)\<lparr>se_processing := False\<rparr>\<rparr>"

text \<open>Room for another request after a completion.\<close>

definition rq_complete_send :: "request_queue \<Rightarrow> request_queue" where
  "rq_complete_send q = q\<lparr>rq_sends := rq_sends q - 1\<rparr>"

text \<open>The multicast event that a flush posted is the one that was not given back.\<close>

definition posted_event :: "connection_io \<Rightarrow> connection_io \<Rightarrow> nat option" where
  "posted_event c c' = find (\<lambda>i. op_storage (cio_multicast_pool c') i \<noteq> None) (cio_ready_multicast c)"

definition wire_flush :: "wire_state \<Rightarrow> wire_state" where
  "wire_flush s =
     (let (q, c, sub, subs) = rq_flush_send (wi_queue s) (wi_io s)
      in s\<lparr>wi_queue := q, wi_io := c,
           wi_flight := (case sub of
               Some bs \<Rightarrow> Flight_send bs
             | None \<Rightarrow> (case (posted_event (wi_io s) c, subs) of
                 (Some i, data # _) \<Rightarrow> Flight_multicast i data
               | _ \<Rightarrow> wi_flight s))\<rparr>)"

definition wire_multicast :: "bytes \<Rightarrow> wire_state \<Rightarrow> wire_state" where
  "wire_multicast data s =
     (let (ok, c) = post_multicast_event data (wi_io s)
      in if \<not> ok then s\<lparr>wi_io := c\<rparr>
         else if cio_ready_multicast c = cio_ready_multicast (wi_io s)
         then s\<lparr>wi_io := c, wi_accepted := wi_accepted s @ data\<rparr>
         else s\<lparr>wi_io := c, wi_queued := wi_queued s @ [data]\<rparr>)"

fun wire_step :: "wire_op \<Rightarrow> wire_state \<Rightarrow> wire_state" where
  "wire_step (Wire_send bs) s =
     (let (ok, c) = send_raw_data bs (wi_io s)
      in s\<lparr>wi_io := c, wi_accepted := wi_accepted s @ (if ok then bs else [])\<rparr>)"
| "wire_step (Wire_multicast data) s = wire_multicast data s"
| "wire_step Wire_flush s = wire_flush s"
| "wire_step (Wire_complete n) s =
     (case (wi_flight s, io_signal_of n) of
        (Flight_none, _) \<Rightarrow> s
      | (flight, Sig_eof) \<Rightarrow> s\<lparr>wi_queue := rq_complete_send (wi_queue s), wi_flight := Flight_none\<rparr>
      | (Flight_send bs, Sig_event_failed) \<Rightarrow>
          s\<lparr>wi_io := send_failed (wi_io s), wi_queue := rq_complete_send (wi_queue s), wi_flight := Flight_none\<rparr>
      | (Flight_multicast i bs, Sig_event_failed) \<Rightarrow>
          s\<lparr>wi_io := free_multicast_event i (wi_io s), wi_queue := rq_complete_send (wi_queue s), wi_flight := Flight_none\<rparr>
      | (Flight_send bs, _) \<Rightarrow>
          s\<lparr>wi_io := send_complete (min n (length bs)) (wi_io s), wi_queue := rq_complete_send (wi_queue s),
            wi_flight := Flight_none, wi_wire := wi_wire s @ [Stream_bytes (take n bs)]\<rparr>
      | (Flight_multicast i bs, _) \<Rightarrow>
          s\<lparr>wi_io := free_multicast_event i (wi_io s), wi_queue := rq_complete_send (wi_queue s),
            wi_flight := Flight_none, wi_wire := wi_wire s @ [Multicast_bytes (take n bs)]\<rparr>)"

definition wire_run :: "wire_op list \<Rightarrow> wire_state" where
  "wire_run ops = fold wire_step ops wire_new"

fun stream_of :: "wire_segment list \<Rightarrow> bytes" where
  "stream_of [] = []"
| "stream_of (Stream_bytes bs # w) = bs @ stream_of w"
| "stream_of (Multicast_bytes bs # w) = stream_of w"

fun multicasts_of :: "wire_segment list \<Rightarrow> bytes list" where
  "multicasts_of [] = []"
| "multicasts_of (Stream_bytes bs # w) = multicasts_of w"
| "multicasts_of (Multicast_bytes bs # w) = bs # multicasts_of w"

subsection \<open>The operations\<close>

lemma stream_of_append [simp]:
  "stream_of (v @ w) = stream_of v @ stream_of w" "multicasts_of (v @ w) = multicasts_of v @ multicasts_of w"
  by (induction v rule: stream_of.induct) simp_all

definition ready_ok :: "nat list \<Rightarrow> connection_io \<Rightarrow> bool" where
  "ready_ok is c \<longleftrightarrow> distinct is \<and> set is \<subseteq> events_used c \<and> (\<forall>i \<in> set is. event_at c i \<noteq> None)"

lemma free_event:
  assumes "cio_wf c" "i \<in> events_used c"
  shows "events_used (free_multicast_event i c) = events_used c - {i}"
    "event_at (free_multicast_event i c) = (event_at c)(i := None)" "cio_wf (free_multicast_event i c)"
    "cio_send (free_multicast_event i c) = cio_send c" "cio_ready_multicast (free_multicast_event i c) = cio_ready_multicast c"
    "cio_pending (free_multicast_event i c) = cio_pending c"
  using assms pool_free_object_effect(2) [of "cio_multicast_pool c" i] free_multicast_event_used(2) [of i c] free_multicast_event_wf
  by (simp_all add: cio_wf_def free_multicast_event_def cio_pending_def fun_upd_def)

lemma find_unique: "i \<in> set is \<Longrightarrow> \<forall>j \<in> set is. P j \<longleftrightarrow> j = i \<Longrightarrow> find P is = Some i"
  by (induction "is") auto

text \<open>
  The loop of a flush: at most one event is posted, the one whose data the loop returns, and the others are
  given back.
\<close>

lemma rq_multicast_loop_one:
  assumes "cio_wf c" "ready_ok is c" "rq_max_send q = 1" "rq_multicast_loop is q c = (q', c', subs)"
  shows "cio_wf c' \<and> cio_send c' = cio_send c \<and> cio_ready_multicast c' = cio_ready_multicast c \<and> rq_max_send q' = 1 \<and>
    (\<forall>j. j \<notin> set is \<longrightarrow> event_at c' j = event_at c j \<and> (j \<in> events_used c' \<longleftrightarrow> j \<in> events_used c)) \<and>
    (subs = [] \<and> rq_sends q' = rq_sends q \<and> (\<forall>j \<in> set is. event_at c' j = None) \<or>
     (\<exists>i \<in> set is. subs = [multicast_data c i] \<and> rq_sends q = 0 \<and> rq_sends q' = 1 \<and> i \<in> events_used c' \<and>
        (\<forall>j \<in> set is. event_at c' j \<noteq> None \<longleftrightarrow> j = i)))"
  using assms
proof (induction "is" arbitrary: q c q' c' subs)
  case Nil
  then show ?case by simp
next
  case (Cons i "is")
  obtain e where e: "event_at c i = Some e" and i: "i \<in> events_used c" "i \<notin> set is"
    using Cons.prems(2) by (auto simp: ready_ok_def)
  obtain ok e' sub where m: "multicast_post_rio (fst (rq_send q)) e = (ok, e', sub)" by (metis prod_cases3)
  show ?case
  proof (cases ok)
    case False
    let ?c = "free_multicast_event i c"
    note f = free_event [OF Cons.prems(1) i(1)]
    have r: "ready_ok is ?c" using Cons.prems(2) f(1,2) by (auto simp: ready_ok_def)
    have "rq_multicast_loop is q ?c = (q', c', subs)" using Cons.prems(4) e m False by simp
    note IH = Cons.IH [OF f(3) r Cons.prems(3) this]
    have d: "multicast_data ?c j = multicast_data c j" if "j \<in> set is" for j
      using that i(2) f(2) by (auto simp: multicast_data_def)
    have "event_at c' i = None" using IH i(2) f(2) by simp
    with IH f i(2) d show ?thesis by auto
  next
    case True
    let ?c = "c\<lparr>cio_multicast_pool := (cio_multicast_pool c)\<lparr>op_storage := (event_at c)(i \<mapsto> e')\<rparr>\<rparr>"
    have q: "fst (rq_send q)" "sub = Some (multicast_data c i)"
      using m True e by (auto simp: multicast_post_rio_def multicast_data_def split: if_splits)
    with Cons.prems(3) have q1: "rq_sends q = 0" "rq_sends (snd (rq_send q)) = 1" "rq_max_send (snd (rq_send q)) = 1"
      by (auto simp: rq_send_def split: if_splits)
    have w: "cio_wf ?c" using Cons.prems(1) by (simp add: cio_wf_def pool_wf_storage)
    have u: "events_used ?c = events_used c" by (simp add: pool_used_def)
    have r: "ready_ok is ?c" using Cons.prems(2) u by (auto simp: ready_ok_def)
    obtain q2 c2 ss where l: "rq_multicast_loop is (snd (rq_send q)) ?c = (q2, c2, ss)" by (metis prod_cases3)
    with Cons.prems(4) e m True q(2) have res: "q' = q2" "c' = c2" "subs = multicast_data c i # ss" by simp_all
    note IH = Cons.IH [OF w r q1(3) l]
    have "event_at c2 i = Some e'" "i \<in> events_used c2" using IH i u by simp_all
    with IH q1 res i u show ?thesis by auto
  qed
qed

subsection \<open>The invariant\<close>

fun flight_data :: "wire_flight \<Rightarrow> bytes list" where
  "flight_data (Flight_multicast i bs) = [bs]"
| "flight_data f = []"

fun flight_ok :: "wire_flight \<Rightarrow> connection_io \<Rightarrow> bool" where
  "flight_ok Flight_none c \<longleftrightarrow> True"
| "flight_ok (Flight_send bs) c \<longleftrightarrow> is_send_io_busy c \<and> take (length bs) (cio_pending c) = bs"
| "flight_ok (Flight_multicast i bs) c \<longleftrightarrow> i \<in> events_used c \<and> i \<notin> set (cio_ready_multicast c)"

definition wire_inv ::
    "request_queue \<Rightarrow> connection_io \<Rightarrow> wire_flight \<Rightarrow> wire_segment list \<Rightarrow> bytes \<Rightarrow> bytes list \<Rightarrow> bool" where
  "wire_inv q c fl w acc qd \<longleftrightarrow> cio_wf c \<and> rq_max_send q = 1 \<and> rq_sends q = (if fl = Flight_none then 0 else 1) \<and>
     ready_ok (cio_ready_multicast c) c \<and> flight_ok fl c \<and> acc = stream_of w @ cio_pending c \<and>
     (\<exists>ms. list_all2 prefix (multicasts_of w) ms \<and>
        subseq (ms @ flight_data fl @ map (multicast_data c) (cio_ready_multicast c)) qd)"

lemma take_pending_append: "take (length bs) xs = bs \<Longrightarrow> length bs \<le> length xs"
  by (metis length_take min.cobounded1)

lemma inv_stream:
  assumes "wire_inv q c fl w acc qd" "cio_wf c'" "cio_pending c' = cio_pending c @ bs"
    and "cio_multicast_pool c' = cio_multicast_pool c" "cio_ready_multicast c' = cio_ready_multicast c"
    and "is_send_io_busy c' = is_send_io_busy c"
  shows "wire_inv q c' fl w (acc @ bs) qd"
proof -
  have "multicast_data c' = multicast_data c" using assms(4) by (simp add: fun_eq_iff multicast_data_def)
  moreover have "flight_ok fl c'" using assms by (cases fl) (auto simp: wire_inv_def dest: take_pending_append)
  ultimately show ?thesis using assms by (simp add: wire_inv_def ready_ok_def)
qed

lemma subseq_front: "subseq (xs @ ys) zs \<Longrightarrow> subseq xs zs"
  using prefix_imp_subseq [OF prefixI [OF refl]] by (rule subseq_order.trans)

lemma wire_invI:
  assumes "cio_wf c" "rq_max_send q = 1" "rq_sends q = (if fl = Flight_none then 0 else 1)" "ready_ok (cio_ready_multicast c) c"
    and "flight_ok fl c" "acc = stream_of w @ cio_pending c" "list_all2 prefix (multicasts_of w) ms"
    and "subseq (ms @ flight_data fl @ map (multicast_data c) (cio_ready_multicast c)) qd"
  shows "wire_inv q c fl w acc qd"
  using assms by (auto simp: wire_inv_def)

lemma inv_event:
  assumes "wire_inv q c fl w acc qd" "cio_wf c'" "cio_pending c' = cio_pending c"
    and "cio_ready_multicast c' = cio_ready_multicast c @ [i]" "i \<notin> events_used c" "events_used c' = insert i (events_used c)"
    and "\<And>j. j \<noteq> i \<Longrightarrow> event_at c' j = event_at c j" "event_at c' i \<noteq> None" "multicast_data c' i = data"
    and "is_send_io_busy c' = is_send_io_busy c"
  shows "wire_inv q c' fl w acc (qd @ [data])"
proof -
  let ?r = "cio_ready_multicast c"
  from assms(1) obtain ms where ms: "list_all2 prefix (multicasts_of w) ms"
      "subseq (ms @ flight_data fl @ map (multicast_data c) ?r) qd" and ready: "ready_ok ?r c" and fl: "flight_ok fl c"
    by (auto simp: wire_inv_def)
  have r: "set ?r \<subseteq> events_used c" "i \<notin> set ?r" using ready assms(5) by (auto simp: ready_ok_def)
  have "multicast_data c' j = multicast_data c j" if "j \<in> set ?r" for j
    using that r(2) assms(7) [of j] by (cases "j = i") (simp_all add: multicast_data_def)
  then have "map (multicast_data c') ?r = map (multicast_data c) ?r" by simp
  with list_emb_append_mono [OF ms(2), of "[data]" "[data]"] assms(4,9)
  have "subseq (ms @ flight_data fl @ map (multicast_data c') (cio_ready_multicast c')) (qd @ [data])" by (simp del: map_eq_conv)
  moreover have "event_at c' j = event_at c j" if "j \<in> set ?r" for j using that r(2) by (intro assms(7)) auto
  then have "ready_ok (cio_ready_multicast c') c'"
    using ready r assms(4,6,8) by (auto simp: ready_ok_def)
  moreover have "flight_ok fl c'"
    using fl assms(3,4,5,6,10) by (cases fl) auto
  ultimately show ?thesis using assms(1-3) ms(1) by (auto simp: wire_inv_def)
qed

lemma inv_flush:
  assumes inv: "wire_inv q c fl w acc qd" and flush: "rq_flush_send q c = (q', c', sub, subs)"
  shows "wire_inv q' c' (case sub of Some bs \<Rightarrow> Flight_send bs
      | None \<Rightarrow> (case (posted_event c c', subs) of (Some i, data # _) \<Rightarrow> Flight_multicast i data | _ \<Rightarrow> fl)) w acc qd"
proof -
  let ?r = "cio_ready_multicast c"
  from inv obtain ms where ms: "list_all2 prefix (multicasts_of w) ms"
      "subseq (ms @ flight_data fl @ map (multicast_data c) ?r) qd" and ready: "ready_ok ?r c" and fl: "flight_ok fl c"
      and wf: "cio_wf c" and q: "rq_max_send q = 1" "rq_sends q = (if fl = Flight_none then 0 else 1)"
      and acc: "acc = stream_of w @ cio_pending c"
    by (auto simp: wire_inv_def)
  obtain q1 c1 sub1 where st: "(if \<not> is_send_io_busy c
      then (let (ok, c, sub) = post_send_event (fst (rq_send q)) c in (if ok then snd (rq_send q) else q, c, sub))
      else (q, c, None)) = (q1, c1, sub1)" by (metis prod_cases3)
  have c1: "cio_ready_multicast c1 = ?r" "cio_multicast_pool c1 = cio_multicast_pool c" "cio_pending c1 = cio_pending c"
    "cio_wf c1" "rq_max_send q1 = 1"
    "sub1 = None \<and> q1 = q \<and> is_send_io_busy c1 = is_send_io_busy c \<or>
     sub1 = Some (cio_pending c) \<and> fl = Flight_none \<and> rq_sends q1 = 1 \<and> is_send_io_busy c1"
    using st wf q
    by (auto simp: post_send_event_def send_post_rio_def rq_send_def is_send_io_busy_def cio_pending_def cio_wf_def
        split: if_splits prod.splits)
  obtain q2 c2 ss where l: "rq_multicast_loop ?r q1 (c1\<lparr>cio_ready_multicast := []\<rparr>) = (q2, c2, ss)" by (metis prod_cases3)
  have res: "q' = q2" "c' = c2" "sub = sub1" "subs = ss" using flush st l c1(1) by (simp_all add: rq_flush_send_def)
  have "cio_wf (c1\<lparr>cio_ready_multicast := []\<rparr>)" "ready_ok ?r (c1\<lparr>cio_ready_multicast := []\<rparr>)"
    using c1(4,2) ready by (simp_all add: cio_wf_def ready_ok_def)
  note L = rq_multicast_loop_one [OF this c1(5) l]
  have c2: "cio_wf c2" "cio_pending c2 = cio_pending c" "cio_ready_multicast c2 = []" "rq_max_send q2 = 1"
      "is_send_io_busy c2 = is_send_io_busy c1" and unused: "\<And>j. j \<notin> set ?r \<Longrightarrow> j \<in> events_used c2 \<longleftrightarrow> j \<in> events_used c"
    using L c1(2,3) by (simp_all add: cio_pending_def is_send_io_busy_def)
  have sub0: "subseq (ms @ flight_data fl) qd" by (rule subseq_front) (use ms(2) in simp)
  have r0: "ready_ok [] c2" by (simp add: ready_ok_def)
  from L show ?thesis
  proof (elim conjE disjE bexE, goal_cases)
    case 1
    then have "find (\<lambda>i. event_at c2 i \<noteq> None) ?r = None" by (simp add: find_None_iff)
    then have p: "posted_event c c2 = None" by (simp add: posted_event_def)
    show ?case
    proof (cases sub1)
      case None
      with c1(6) have q1: "q1 = q" "is_send_io_busy c1 = is_send_io_busy c" by simp_all
      have "flight_ok fl c2" using fl q1(2) c2 unused by (cases fl) simp_all
      then have "wire_inv q2 c2 fl w acc qd"
        using 1 q1(1) q(2) acc c2 r0 sub0 by (intro wire_invI [OF _ _ _ _ _ _ ms(1)]) simp_all
      then show ?thesis using p None res by simp
    next
      case (Some bs)
      with c1(6) have q1: "bs = cio_pending c" "fl = Flight_none" "rq_sends q1 = 1" "is_send_io_busy c1" by simp_all
      have "wire_inv q2 c2 (Flight_send bs) w acc qd"
        using 1 q1 acc c2 r0 sub0 by (intro wire_invI [OF _ _ _ _ _ _ ms(1)]) simp_all
      then show ?thesis using Some res by simp
    qed
  next
    case (2 i)
    have s1: "sub1 = None" using c1(6) 2 by auto
    then have fl0: "fl = Flight_none" using c1(6) 2 q(2) by (simp split: if_splits)
    have "find (\<lambda>i. event_at c2 i \<noteq> None) ?r = Some i" by (rule find_unique) (use 2 in simp_all)
    then have p: "posted_event c c2 = Some i" by (simp add: posted_event_def)
    have d: "ss = [multicast_data c i]"
      using 2 c1(2) by (simp add: multicast_data_def)
    have "subseq [multicast_data c i] (map (multicast_data c) ?r)" using 2 by (simp add: subseq_singleton_left)
    then have "subseq (ms @ [multicast_data c i]) (ms @ map (multicast_data c) ?r)" by (rule list_emb_append_mono [OF subseq_order.order_refl])
    then have "subseq (ms @ [multicast_data c i]) qd" using ms(2) fl0 subseq_order.trans by fastforce
    then have "wire_inv q2 c2 (Flight_multicast i (multicast_data c i)) w acc qd"
      using 2 acc c2 r0 by (intro wire_invI [OF _ _ _ _ _ _ ms(1)]) simp_all
    then show ?case using s1 p d res by simp
  qed
qed

lemma inv_send_complete:
  assumes "wire_inv q c (Flight_send bs) w acc qd"
  shows "wire_inv (rq_complete_send q) (send_complete (min n (length bs)) c) Flight_none (w @ [Stream_bytes (take n bs)]) acc qd"
proof -
  let ?n = "min n (length bs)" and ?c = "send_complete (min n (length bs)) c"
  from assms have wf: "lf_wf (se_data (cio_send c))" and t: "take (length bs) (cio_pending c) = bs"
    by (simp_all add: wire_inv_def cio_wf_def)
  have n: "?n \<le> length (lf_contents (se_data (cio_send c)))"
    using take_pending_append [OF t] by (simp add: cio_pending_def)
  have d: "cio_pending ?c = drop ?n (cio_pending c)"
    using lf.contents_pop [OF wf n] by (simp add: send_complete_def cio_pending_def)
  have "take n bs = take ?n (cio_pending c)" using t by (metis min.commute take_take)
  with d have p: "cio_pending c = take n bs @ cio_pending ?c" by simp
  have "cio_wf ?c" using assms lf.wf_pop [OF wf n] by (simp add: wire_inv_def send_complete_def cio_wf_def)
  moreover have "multicast_data ?c = multicast_data c" by (simp add: fun_eq_iff multicast_data_def send_complete_def)
  ultimately show ?thesis
    using assms p by (simp add: wire_inv_def ready_ok_def rq_complete_send_def) (simp add: send_complete_def)
qed

lemma inv_send_failed:
  "wire_inv q c (Flight_send bs) w acc qd \<Longrightarrow> wire_inv (rq_complete_send q) (send_failed c) Flight_none w acc qd"
  by (simp add: wire_inv_def send_failed_def rq_complete_send_def cio_wf_def ready_ok_def cio_pending_def multicast_data_def cong: map_cong)

lemma inv_eof: "fl \<noteq> Flight_none \<Longrightarrow> wire_inv q c fl w acc qd \<Longrightarrow> wire_inv (rq_complete_send q) c Flight_none w acc qd"
proof -
  assume f: "fl \<noteq> Flight_none" and i: "wire_inv q c fl w acc qd"
  then obtain ms where ms: "list_all2 prefix (multicasts_of w) ms"
      "subseq (ms @ flight_data fl @ map (multicast_data c) (cio_ready_multicast c)) qd"
    by (auto simp: wire_inv_def)
  have "subseq (ms @ map (multicast_data c) (cio_ready_multicast c))
      (ms @ flight_data fl @ map (multicast_data c) (cio_ready_multicast c))"
    by (intro list_emb_append_mono subseq_order.order_refl list_emb_append2)
  from subseq_order.trans [OF this ms(2)] f i show ?thesis
    by (intro wire_invI [OF _ _ _ _ _ _ ms(1)]) (simp_all add: wire_inv_def rq_complete_send_def)
qed

lemma multicast_data_free:
  assumes "wire_inv q c (Flight_multicast i bs) w acc qd"
  shows "map (multicast_data (free_multicast_event i c)) (cio_ready_multicast c) = map (multicast_data c) (cio_ready_multicast c)"
    "ready_ok (cio_ready_multicast c) (free_multicast_event i c)"
    "cio_wf (free_multicast_event i c)" "cio_pending (free_multicast_event i c) = cio_pending c"
    "cio_ready_multicast (free_multicast_event i c) = cio_ready_multicast c"
proof -
  have i: "cio_wf c" "i \<in> events_used c" "i \<notin> set (cio_ready_multicast c)" "ready_ok (cio_ready_multicast c) c"
    using assms by (simp_all add: wire_inv_def)
  note f = free_event [OF i(1,2)]
  show "map (multicast_data (free_multicast_event i c)) (cio_ready_multicast c) = map (multicast_data c) (cio_ready_multicast c)"
    using i(3) f(2) by (auto simp: multicast_data_def)
  show "ready_ok (cio_ready_multicast c) (free_multicast_event i c)" using i(3,4) f(1,2) by (auto simp: ready_ok_def)
  show "cio_wf (free_multicast_event i c)" "cio_pending (free_multicast_event i c) = cio_pending c"
    "cio_ready_multicast (free_multicast_event i c) = cio_ready_multicast c"
    using f by simp_all
qed

lemma inv_multicast_complete:
  assumes "wire_inv q c (Flight_multicast i bs) w acc qd"
  shows "wire_inv (rq_complete_send q) (free_multicast_event i c) Flight_none (w @ [Multicast_bytes (take n bs)]) acc qd"
    "wire_inv (rq_complete_send q) (free_multicast_event i c) Flight_none w acc qd"
proof -
  note f = multicast_data_free [OF assms]
  from assms obtain ms where ms: "list_all2 prefix (multicasts_of w) ms"
      "subseq ((ms @ [bs]) @ map (multicast_data c) (cio_ready_multicast c)) qd"
    by (auto simp: wire_inv_def)
  have "list_all2 prefix (multicasts_of w @ [take n bs]) (ms @ [bs])"
    using ms(1) by (simp add: list_all2_appendI take_is_prefix)
  with assms f ms(2)
  show "wire_inv (rq_complete_send q) (free_multicast_event i c) Flight_none (w @ [Multicast_bytes (take n bs)]) acc qd"
    by (intro wire_invI [where ms = "ms @ [bs]"]) (simp_all add: wire_inv_def rq_complete_send_def del: map_eq_conv)
  from inv_eof [OF _ assms] f show "wire_inv (rq_complete_send q) (free_multicast_event i c) Flight_none w acc qd"
    by (simp add: wire_inv_def del: map_eq_conv)
qed

abbreviation wire_ok :: "wire_state \<Rightarrow> bool" where
  "wire_ok s \<equiv> wire_inv (wi_queue s) (wi_io s) (wi_flight s) (wi_wire s) (wi_accepted s) (wi_queued s)"

lemma wire_ok_step: "wire_ok s \<Longrightarrow> wire_ok (wire_step x s)"
proof (cases x)
  case (Wire_send bs)
  assume ok: "wire_ok s"
  obtain b c where c: "send_raw_data bs (wi_io s) = (b, c)" by fastforce
  have "cio_wf (wi_io s)" using ok by (simp add: wire_inv_def)
  note e = cio_push_effect [OF this c [unfolded send_raw_data_def]]
  have "wire_inv (wi_queue s) c (wi_flight s) (wi_wire s) (wi_accepted s @ (if b then bs else [])) (wi_queued s)"
    using e by (intro inv_stream [OF ok]) (simp_all add: is_send_io_busy_def)
  with Wire_send c show ?thesis by simp
next
  case (Wire_multicast data)
  assume ok: "wire_ok s"
  obtain b c where c: "post_multicast_event data (wi_io s) = (b, c)" by fastforce
  have "cio_wf (wi_io s)" using ok by (simp add: wire_inv_def)
  then show ?thesis using c
  proof (cases rule: post_multicast_cases)
    case stream
    with inv_stream [OF ok stream(5,2,4,3,6)] Wire_multicast c show ?thesis by (simp add: wire_multicast_def)
  next
    case (event i)
    from inv_event [OF ok event(9,2,3,4,5,6,7,8,10)] event(1,3) Wire_multicast c show ?thesis
      by (simp add: wire_multicast_def)
  next
    case refused
    with inv_stream [where bs = "[]", OF ok refused(5)] Wire_multicast c show ?thesis by (simp add: wire_multicast_def)
  qed
next
  case Wire_flush
  assume ok: "wire_ok s"
  obtain q c sub subs where f: "rq_flush_send (wi_queue s) (wi_io s) = (q, c, sub, subs)" by (metis prod_cases4)
  from inv_flush [OF ok f] Wire_flush f show ?thesis by (simp add: wire_flush_def)
next
  case (Wire_complete n)
  assume ok: "wire_ok s"
  show ?thesis
  proof (cases "wi_flight s")
    case Flight_none
    with ok Wire_complete show ?thesis by simp
  next
    case (Flight_send bs)
    with ok have i: "wire_inv (wi_queue s) (wi_io s) (Flight_send bs) (wi_wire s) (wi_accepted s) (wi_queued s)" by simp
    from inv_eof [OF _ i] inv_send_failed [OF i] inv_send_complete [OF i, of n] Flight_send Wire_complete
    show ?thesis by (cases "io_signal_of n") (simp_all del: io_signal_of.simps)
  next
    case (Flight_multicast k bs)
    with ok have i: "wire_inv (wi_queue s) (wi_io s) (Flight_multicast k bs) (wi_wire s) (wi_accepted s) (wi_queued s)" by simp
    from inv_eof [OF _ i] inv_multicast_complete(1) [OF i, of n] inv_multicast_complete(2) [OF i] Flight_multicast Wire_complete
    show ?thesis by (cases "io_signal_of n") (simp_all del: io_signal_of.simps)
  qed
qed

lemma wire_ok_run: "wire_ok (wire_run ops)"
proof -
  have "wire_ok wire_new"
    using connection_io_new_wf by (simp add: wire_new_def wire_inv_def) (simp add: connection_io_new_def ready_ok_def)
  then have "wire_ok (fold wire_step ops s)" if "s = wire_new" for s
    unfolding that
  proof (induction ops rule: rev_induct)
    case (snoc x ops)
    then show ?case using wire_ok_step by simp
  qed simp
  then show ?thesis by (simp add: wire_run_def)
qed

text \<open>
  C4: What a connection puts on the wire, over all sequences of sends, multicasts, flushes and completions
  (of all or some of the bytes, failed, or with the end of the connection). The bytes that the send buffer
  accepted, from sends and from small multicasts, are on the wire completely and in order, except for the
  ones that are still in the buffer. The multicasts that were accepted as events of their own are on the
  wire in the order of their acceptance and each at most once, whole or, when the completion tells so, a
  front part of it; some are never on the wire, since the flush drops those that it cannot post. Neither
  kind is cut into by the other, and at most one request is outstanding, but the order between the two
  kinds is not kept.
\<close>

theorem connection_wire_in_order:
  "let s = wire_run ops
   in wi_accepted s = stream_of (wi_wire s) @ cio_pending (wi_io s) \<and>
     (\<exists>ms. subseq ms (wi_queued s) \<and> list_all2 prefix (multicasts_of (wi_wire s)) ms) \<and>
     rq_sends (wi_queue s) \<le> 1"
proof -
  from wire_ok_run [of ops] obtain ms where "list_all2 prefix (multicasts_of (wi_wire (wire_run ops))) ms"
      "subseq (ms @ flight_data (wi_flight (wire_run ops)) @ map (multicast_data (wi_io (wire_run ops)))
         (cio_ready_multicast (wi_io (wire_run ops)))) (wi_queued (wire_run ops))"
    by (auto simp: wire_inv_def)
  with wire_ok_run [of ops] show ?thesis by (auto simp: Let_def wire_inv_def dest: subseq_front)
qed

end
