(* ===== verification/Concurrent_History.thy ===== *)
theory Concurrent_History
  imports Tasks
begin

section \<open>Histories under interleaving\<close>

text \<open>
  The pushes of \<open>util/double_buffering.h\<close> run on the event threads, the switch of the buffers on the main
  thread, and the handler of the task on another event thread. In \<open>History\<close> a push is one step; here it is
  the steps of the code: reading the index of the input buffer, the \<open>fetch_add\<close> with its test, and then the
  \<open>memcpy\<close> or the \<open>fetch_sub\<close>. Pushes between their steps are kept in lists, so any number of threads push
  at once. \<open>ch_accepted\<close> notes the data of the pushes that passed the test, in the order of their
  \<open>fetch_add\<close>, and \<open>ch_delivered\<close> what the handler was given.
\<close>

datatype task_phase = TP_unused | TP_ready | TP_scheduled | TP_handled

record conc_history =
  ch_db :: double_buffering
  ch_phase :: task_phase
  ch_begun :: "(nat \<times> bytes) list"
  ch_reserved :: "(nat \<times> nat \<times> bytes) list"
  ch_refused :: "(nat \<times> nat) list"
  ch_accepted :: "bytes list"
  ch_delivered :: bytes

definition ch_new :: "double_buffering \<Rightarrow> conc_history" where
  "ch_new d = \<lparr>ch_db = d, ch_phase = TP_unused, ch_begun = [], ch_reserved = [], ch_refused = [],
     ch_accepted = [], ch_delivered = []\<rparr>"

definition ch_upd_buf :: "nat \<Rightarrow> (hist_buffer \<Rightarrow> hist_buffer) \<Rightarrow> conc_history \<Rightarrow> conc_history" where
  "ch_upd_buf i f s = s\<lparr>ch_db := (ch_db s)\<lparr>db_bufs := (db_bufs (ch_db s))[i := f (db_bufs (ch_db s) ! i)]\<rparr>\<rparr>"

definition ch_begin :: "bytes \<Rightarrow> conc_history \<Rightarrow> conc_history" where
  "ch_begin data s = s\<lparr>ch_begun := (input_buffer_index (ch_db s), data) # ch_begun s\<rparr>"

text \<open>The \<open>fetch_add\<close> on the buffer whose index was read, and the test of its result.\<close>

definition ch_reserve :: "nat \<times> bytes \<Rightarrow> conc_history \<Rightarrow> conc_history" where
  "ch_reserve p s =
     (let (i, data) = p;
          b = db_bufs (ch_db s) ! i;
          before_size = hb_size b;
          s = (ch_upd_buf i (\<lambda>b. b\<lparr>hb_size := hb_size b + length data\<rparr>) s)\<lparr>ch_begun := remove1 p (ch_begun s)\<rparr>
      in if length (hb_buf b) < before_size + length data
         then s\<lparr>ch_refused := (i, length data) # ch_refused s\<rparr>
         else s\<lparr>ch_reserved := (i, before_size, data) # ch_reserved s, ch_accepted := ch_accepted s @ [data]\<rparr>)"

definition ch_copy :: "nat \<times> nat \<times> bytes \<Rightarrow> conc_history \<Rightarrow> conc_history" where
  "ch_copy p s =
     (let (i, before_size, data) = p
      in (ch_upd_buf i (\<lambda>b. b\<lparr>hb_buf := blit before_size data (hb_buf b)\<rparr>) s)\<lparr>ch_reserved := remove1 p (ch_reserved s)\<rparr>)"

definition ch_undo :: "nat \<times> nat \<Rightarrow> conc_history \<Rightarrow> conc_history" where
  "ch_undo p s =
     (let (i, n) = p
      in (ch_upd_buf i (\<lambda>b. b\<lparr>hb_size := hb_size b - n\<rparr>) s)\<lparr>ch_refused := remove1 p (ch_refused s)\<rparr>)"

text \<open>The task: \<open>ready\<close>, \<open>before_scheduling\<close>, and the two parts of \<open>on_event_complete\<close>.\<close>

definition ch_snapshot :: "conc_history \<Rightarrow> conc_history" where
  "ch_snapshot s = s\<lparr>ch_db := db_snapshot (ch_db s), ch_phase := TP_scheduled\<rparr>"

definition ch_handle :: "conc_history \<Rightarrow> conc_history" where
  "ch_handle s = s\<lparr>ch_delivered := ch_delivered s @ get_snapshot_data (ch_db s), ch_phase := TP_handled\<rparr>"

definition ch_clear :: "conc_history \<Rightarrow> conc_history" where
  "ch_clear s = s\<lparr>ch_db := db_clear_snapshot (ch_db s), ch_phase := TP_unused\<rparr>"

text \<open>No push is between its steps.\<close>

definition ch_quiet :: "conc_history \<Rightarrow> bool" where
  "ch_quiet s \<longleftrightarrow> ch_begun s = [] \<and> ch_reserved s = [] \<and> ch_refused s = []"

text \<open>
  The steps. All pieces of data have one size, as the packets of a chat history and the records of a block
  history do. \<open>ch_step False\<close> is the code; \<open>ch_step True\<close> switches the buffers only while no push is between
  its steps, which the code does not see to. A handler that would read behind the buffer, because a
  refused push has not taken its size back, is undefined and has no step.
\<close>

inductive ch_step :: "bool \<Rightarrow> nat \<Rightarrow> conc_history \<Rightarrow> conc_history \<Rightarrow> bool" for disciplined :: bool and n :: nat where
  begin_push: "length data = n \<Longrightarrow> ch_step disciplined n s (ch_begin data s)"
| reserve: "p \<in> set (ch_begun s) \<Longrightarrow> ch_step disciplined n s (ch_reserve p s)"
| copy: "r \<in> set (ch_reserved s) \<Longrightarrow> ch_step disciplined n s (ch_copy r s)"
| undo: "q \<in> set (ch_refused s) \<Longrightarrow> ch_step disciplined n s (ch_undo q s)"
| ready: "ch_phase s = TP_unused \<Longrightarrow> has_live_data (ch_db s) \<Longrightarrow> ch_step disciplined n s (s\<lparr>ch_phase := TP_ready\<rparr>)"
| snapshot: "ch_phase s = TP_ready \<Longrightarrow> (disciplined \<Longrightarrow> ch_quiet s) \<Longrightarrow> ch_step disciplined n s (ch_snapshot s)"
| handle: "ch_phase s = TP_scheduled \<Longrightarrow> hb_wf (output_buffer (ch_db s)) \<Longrightarrow> ch_step disciplined n s (ch_handle s)"
| clear: "ch_phase s = TP_handled \<Longrightarrow> ch_step disciplined n s (ch_clear s)"

inductive ch_reachable :: "bool \<Rightarrow> nat \<Rightarrow> double_buffering \<Rightarrow> conc_history \<Rightarrow> bool" for disciplined n d where
  init: "ch_reachable disciplined n d (ch_new d)"
| step: "ch_reachable disciplined n d s \<Longrightarrow> ch_step disciplined n s t \<Longrightarrow> ch_reachable disciplined n d t"

text \<open>A push whose steps are not interleaved with others is the push of \<open>History\<close>.\<close>

lemma uninterrupted_push:
  assumes "db_wf (ch_db s)" "db_push data (ch_db s) = (ok, d)" "ch_quiet s"
  defines "t \<equiv> ch_reserve (input_buffer_index (ch_db s), data) (ch_begin data s)"
  shows "(if ok then ch_copy (hd (ch_reserved t)) t else ch_undo (hd (ch_refused t)) t) =
    s\<lparr>ch_db := d, ch_accepted := ch_accepted s @ (if ok then [data] else [])\<rparr>"
  using assms(1,2,3)
  by (auto simp: t_def ch_reserve_def ch_begin_def ch_copy_def ch_undo_def ch_upd_buf_def ch_quiet_def db_push_def hb_push_def
      input_buffer_def input_buffer_index_def db_wf_def Let_def nth_list_update split: if_splits)

subsection \<open>The invariant of the disciplined runs\<close>

definition db_shape :: "double_buffering \<Rightarrow> bool" where
  "db_shape d \<longleftrightarrow> db_input_index d < 2 \<and> length (db_bufs d) = 2"

lemma ch_upd_buf_simps:
  assumes "db_shape (ch_db s)" "i = input_buffer_index (ch_db s)"
  shows "input_buffer (ch_db (ch_upd_buf i f s)) = f (input_buffer (ch_db s))"
    "output_buffer (ch_db (ch_upd_buf i f s)) = output_buffer (ch_db s)"
    "get_snapshot_data (ch_db (ch_upd_buf i f s)) = get_snapshot_data (ch_db s)"
    "input_buffer_index (ch_db (ch_upd_buf i f s)) = i" "db_shape (ch_db (ch_upd_buf i f s))"
proof -
  from assms(1) have "db_input_index (ch_db s) = 0 \<or> db_input_index (ch_db s) = 1" by (auto simp: db_shape_def)
  with assms show "output_buffer (ch_db (ch_upd_buf i f s)) = output_buffer (ch_db s)"
    by (auto simp: ch_upd_buf_def output_buffer_def output_buffer_index_def input_buffer_index_def db_shape_def)
  then show "get_snapshot_data (ch_db (ch_upd_buf i f s)) = get_snapshot_data (ch_db s)"
    by (simp add: get_snapshot_data_def)
qed (use assms in \<open>auto simp: ch_upd_buf_def input_buffer_def input_buffer_index_def db_shape_def\<close>)

lemma ch_upd_buf_rest [simp]:
  "ch_phase (ch_upd_buf i f s) = ch_phase s" "ch_begun (ch_upd_buf i f s) = ch_begun s"
  "ch_reserved (ch_upd_buf i f s) = ch_reserved s" "ch_refused (ch_upd_buf i f s) = ch_refused s"
  "ch_accepted (ch_upd_buf i f s) = ch_accepted s" "ch_delivered (ch_upd_buf i f s) = ch_delivered s"
  by (simp_all add: ch_upd_buf_def)

lemma db_snapshot_simps:
  assumes "db_shape d"
  shows "input_buffer (db_snapshot d) = output_buffer d" "output_buffer (db_snapshot d) = input_buffer d" "db_shape (db_snapshot d)"
proof -
  from assms have "db_input_index d = 0 \<or> db_input_index d = 1" by (auto simp: db_shape_def)
  with assms show "input_buffer (db_snapshot d) = output_buffer d" "output_buffer (db_snapshot d) = input_buffer d" "db_shape (db_snapshot d)"
    by (auto simp: db_defs db_shape_def)
qed

lemma db_clear_simps:
  assumes "db_shape d"
  shows "input_buffer (db_clear_snapshot d) = input_buffer d" "output_buffer (db_clear_snapshot d) = hb_clear (output_buffer d)"
    "input_buffer_index (db_clear_snapshot d) = input_buffer_index d" "db_shape (db_clear_snapshot d)"
proof -
  from assms have "db_input_index d = 0 \<or> db_input_index d = 1" by (auto simp: db_shape_def)
  with assms show "input_buffer (db_clear_snapshot d) = input_buffer d" "output_buffer (db_clear_snapshot d) = hb_clear (output_buffer d)"
    "input_buffer_index (db_clear_snapshot d) = input_buffer_index d" "db_shape (db_clear_snapshot d)"
    by (auto simp: db_defs db_shape_def)
qed

text \<open>
  The pieces in the input buffer: their number and the refused pushes make its size; each piece is there, or
  its push is still to copy it.
\<close>

definition pieces_ok :: "nat \<Rightarrow> bytes list \<Rightarrow> hist_buffer \<Rightarrow> (nat \<times> nat \<times> bytes) list \<Rightarrow> (nat \<times> nat) list \<Rightarrow> bool" where
  "pieces_ok n ps b res ref \<longleftrightarrow>
     list_all (\<lambda>p. length p = n) ps \<and> length ps * n \<le> length (hb_buf b) \<and>
     hb_size b = (length ps + length ref) * n \<and> (ref \<noteq> [] \<longrightarrow> length (hb_buf b) < (length ps + 1) * n) \<and>
     (\<forall>(i, off, data) \<in> set res. \<exists>j < length ps. off = j * n \<and> ps ! j = data) \<and>
     distinct (map (\<lambda>r. fst (snd r)) res) \<and>
     (\<forall>j < length ps. (\<forall>r \<in> set res. fst (snd r) \<noteq> j * n) \<longrightarrow> segment (j * n) n (hb_buf b) = ps ! j)"

definition ch_inv :: "nat \<Rightarrow> bytes list \<Rightarrow> conc_history \<Rightarrow> bool" where
  "ch_inv n ps s \<longleftrightarrow> db_shape (ch_db s) \<and> hb_wf (output_buffer (ch_db s)) \<and>
     (ch_phase s \<in> {TP_unused, TP_ready} \<longrightarrow> hb_size (output_buffer (ch_db s)) = 0) \<and>
     (\<forall>p \<in> set (ch_begun s). fst p = input_buffer_index (ch_db s) \<and> length (snd p) = n) \<and>
     (\<forall>r \<in> set (ch_reserved s). fst r = input_buffer_index (ch_db s)) \<and>
     (\<forall>q \<in> set (ch_refused s). q = (input_buffer_index (ch_db s), n)) \<and>
     pieces_ok n ps (input_buffer (ch_db s)) (ch_reserved s) (ch_refused s) \<and>
     concat (ch_accepted s) = ch_delivered s @ (if ch_phase s = TP_scheduled then get_snapshot_data (ch_db s) else []) @ concat ps"

lemma pieces_all_copied:
  assumes "list_all (\<lambda>p. length p = n) ps" "\<forall>j < length ps. segment (j * n) n buf = ps ! j" "length ps * n \<le> length buf"
  shows "segment 0 (length ps * n) buf = concat ps"
  using assms
proof (induction ps rule: rev_induct)
  case (snoc p ps)
  have "segment 0 (length ps * n) buf = concat ps"
    using snoc by (auto simp: nth_append)
  moreover have "segment (length ps * n) n buf = p" using snoc.prems(2) [rule_format, of "length ps"] by simp
  ultimately show ?case using segment_add [of 0 "length ps * n" n buf] by (simp add: add.commute)
qed (simp add: segment_def)

lemma pieces_reserve:
  assumes ok: "pieces_ok n ps b res ref" and n: "length data = n" "0 < n" and fits: "hb_size b + n \<le> length (hb_buf b)"
  shows "pieces_ok n (ps @ [data]) (b\<lparr>hb_size := hb_size b + n\<rparr>) ((i, hb_size b, data) # res) ref"
proof -
  have ref: "ref = []"
  proof (rule ccontr)
    assume "ref \<noteq> []"
    then have "length (hb_buf b) < (length ps + 1) * n" "n \<le> length ref * n"
      using ok by (cases ref; simp add: pieces_ok_def)+
    with fits ok show False by (simp add: pieces_ok_def algebra_simps)
  qed
  with ok have sz: "hb_size b = length ps * n" by (simp add: pieces_ok_def)
  have fresh: "off < length ps * n" if "(k, off, data') \<in> set res" for k off data'
    using ok that n(2) by (fastforce simp: pieces_ok_def)
  have old: "\<exists>j < length (ps @ [data]). off = j * n \<and> (ps @ [data]) ! j = data'" if "(k, off, data') \<in> set res" for k off data'
  proof -
    from ok that obtain j where "j < length ps" "off = j * n" "ps ! j = data'" by (fastforce simp: pieces_ok_def)
    then show ?thesis by (intro exI [of _ j]) (simp add: nth_append)
  qed
  show ?thesis
    unfolding pieces_ok_def
  proof (intro conjI)
    show "\<forall>(k, off, data') \<in> set ((i, hb_size b, data) # res). \<exists>j < length (ps @ [data]). off = j * n \<and> (ps @ [data]) ! j = data'"
      using old sz by auto
    show "distinct (map (\<lambda>r. fst (snd r)) ((i, hb_size b, data) # res))"
      using ok fresh [folded sz] by (fastforce simp: pieces_ok_def)
    show "\<forall>j < length (ps @ [data]). (\<forall>r \<in> set ((i, hb_size b, data) # res). fst (snd r) \<noteq> j * n) \<longrightarrow>
        segment (j * n) n (hb_buf (b\<lparr>hb_size := hb_size b + n\<rparr>)) = (ps @ [data]) ! j"
      using ok sz by (auto simp: pieces_ok_def nth_append less_Suc_eq)
  qed (use ok n fits ref sz in \<open>auto simp: pieces_ok_def\<close>)
qed

lemma pieces_refuse:
  assumes "pieces_ok n ps b res ref" "length (hb_buf b) < hb_size b + n"
  shows "pieces_ok n ps (b\<lparr>hb_size := hb_size b + n\<rparr>) res ((i, n) # ref)"
  using assms by (cases ref) (simp_all add: pieces_ok_def algebra_simps)

lemma pieces_undo:
  assumes "pieces_ok n ps b res ref" "q \<in> set ref"
  shows "pieces_ok n ps (b\<lparr>hb_size := hb_size b - n\<rparr>) res (remove1 q ref)"
proof -
  obtain m where m: "length ref = Suc m" using assms(2) by (cases ref) auto
  have "length (remove1 q ref) = m" using assms(2) m by (simp add: length_remove1)
  with assms(1) m show ?thesis by (auto simp: pieces_ok_def algebra_simps)
qed

lemma pieces_copy:
  assumes ok: "pieces_ok n ps b res ref" and r: "(i, off, data) \<in> set res" and n: "0 < n"
  shows "pieces_ok n ps (b\<lparr>hb_buf := blit off data (hb_buf b)\<rparr>) (remove1 (i, off, data) res) ref"
proof -
  from ok r obtain j where j: "j < length ps" "off = j * n" "ps ! j = data" by (fastforce simp: pieces_ok_def)
  have len: "length data = n" using ok j by (auto simp: pieces_ok_def list_all_iff)
  have fit: "k * n + n \<le> length (hb_buf b)" if "k < length ps" for k
  proof -
    have "Suc k * n \<le> length ps * n" using that by (intro mult_le_mono1) simp
    then show ?thesis using ok by (simp add: pieces_ok_def)
  qed
  have lb: "length (blit off data (hb_buf b)) = length (hb_buf b)" using fit [OF j(1)] len j(2) by simp
  have sub: "set (remove1 (i, off, data) res) \<subseteq> set res" by (rule set_remove1_subset)
  have dist: "distinct (map (\<lambda>r. fst (snd r)) res)" using ok by (simp add: pieces_ok_def)
  then have d2: "distinct (map (\<lambda>r. fst (snd r)) (remove1 (i, off, data) res))"
    by (auto simp: distinct_map intro: inj_on_subset)
  have gone: "r = (i, off, data)" if "r \<in> set res" "fst (snd r) = off" for r
    using dist that r by (auto simp: distinct_map inj_on_def)
  have seg: "segment (k * n) n (blit off data (hb_buf b)) = ps ! k"
    if k: "k < length ps" and not: "\<forall>r \<in> set (remove1 (i, off, data) res). fst (snd r) \<noteq> k * n" for k
  proof (cases "k = j")
    case True
    then show ?thesis using segment_blit_same [of off data "hb_buf b"] fit [OF j(1)] len j by simp
  next
    case False
    have nr: "\<forall>r \<in> set res. fst (snd r) \<noteq> k * n"
    proof
      fix r assume "r \<in> set res"
      show "fst (snd r) \<noteq> k * n"
      proof (cases "r = (i, off, data)")
        case True
        then show ?thesis using j(2) \<open>k \<noteq> j\<close> n by simp
      qed (use not in \<open>auto simp: in_set_remove1 \<open>r \<in> set res\<close>\<close>)
    qed
    then have "segment (k * n) n (hb_buf b) = ps ! k" using ok k by (simp add: pieces_ok_def)
    moreover have "segment (k * n) n (blit off data (hb_buf b)) = segment (k * n) n (hb_buf b)"
    proof (cases "k < j")
      case True
      then have "Suc k * n \<le> j * n" by (intro mult_le_mono1) simp
      with segment_blit_before [of "k * n" n off data "hb_buf b"] fit [OF j(1)] len j(2) show ?thesis by simp
    next
      case False
      with \<open>k \<noteq> j\<close> have "Suc j * n \<le> k * n" by (intro mult_le_mono1) simp
      then show ?thesis using fit [OF k] fit [OF j(1)] len j(2)
        by (intro nth_equalityI) (simp_all add: nth_blit lb)
    qed
    ultimately show ?thesis by simp
  qed
  show ?thesis
    using ok d2 sub seg lb unfolding pieces_ok_def by auto
qed

text \<open>A step of a push changes the input buffer, its own list, and what is accepted.\<close>

lemma ch_inv_upd:
  assumes inv: "ch_inv n ps s" and i: "i = input_buffer_index (ch_db s)"
    and t: "t = (ch_upd_buf i f s)\<lparr>ch_begun := B, ch_reserved := R, ch_refused := Q, ch_accepted := ch_accepted s @ xs\<rparr>"
    and own: "set B \<subseteq> set (ch_begun s)" "\<forall>r \<in> set R. fst r = i" "\<forall>q \<in> set Q. q = (i, n)"
    and ok: "pieces_ok n (ps @ xs) (f (input_buffer (ch_db s))) R Q"
  shows "ch_inv n (ps @ xs) t"
proof -
  have sh: "db_shape (ch_db s)" using inv by (simp add: ch_inv_def)
  note u = ch_upd_buf_simps [OF sh i, of f]
  have d: "ch_db t = ch_db (ch_upd_buf i f s)" "ch_phase t = ch_phase s" "ch_delivered t = ch_delivered s"
    "ch_begun t = B" "ch_reserved t = R" "ch_refused t = Q" "ch_accepted t = ch_accepted s @ xs"
    by (simp_all add: t)
  have "\<forall>p \<in> set B. fst p = i \<and> length (snd p) = n" using inv own(1) i by (auto simp: ch_inv_def)
  with inv own(2,3) ok i u(4,5) show ?thesis unfolding ch_inv_def d u(1-3) by simp
qed

lemma ch_step_inv:
  assumes inv: "ch_inv n ps s" and n: "0 < n" and st: "ch_step True n s t"
  shows "\<exists>ps'. ch_inv n ps' t"
  using st
proof cases
  case (begin_push data)
  with inv have "ch_inv n ps t" by (auto simp: ch_inv_def ch_begin_def)
  then show ?thesis ..
next
  case (reserve p)
  obtain i data where p: "p = (i, data)" by fastforce
  have i: "i = input_buffer_index (ch_db s)" "length data = n"
    using inv reserve(2) p by (auto simp: ch_inv_def)
  let ?f = "\<lambda>b. b\<lparr>hb_size := hb_size b + length data\<rparr>" and ?b = "input_buffer (ch_db s)"
  have b: "db_bufs (ch_db s) ! i = ?b" by (simp add: i(1) input_buffer_def)
  have ok: "pieces_ok n ps ?b (ch_reserved s) (ch_refused s)" using inv by (simp add: ch_inv_def)
  have own: "\<forall>r \<in> set (ch_reserved s). fst r = i" "\<forall>q \<in> set (ch_refused s). q = (i, n)" using inv i by (simp_all add: ch_inv_def)
  show ?thesis
  proof (cases "length (hb_buf ?b) < hb_size ?b + n")
    case True
    have t: "t = (ch_upd_buf i ?f s)\<lparr>ch_begun := remove1 p (ch_begun s), ch_reserved := ch_reserved s,
        ch_refused := (i, n) # ch_refused s, ch_accepted := ch_accepted s @ []\<rparr>"
      using True by (simp add: reserve(1) ch_reserve_def p b i(2) Let_def)
    have "ch_inv n (ps @ []) t"
      by (rule ch_inv_upd [OF inv i(1) t set_remove1_subset own(1)])
        (use own i(2) pieces_refuse [OF ok True] in simp_all)
    then show ?thesis ..
  next
    case False
    have t: "t = (ch_upd_buf i ?f s)\<lparr>ch_begun := remove1 p (ch_begun s), ch_reserved := (i, hb_size ?b, data) # ch_reserved s,
        ch_refused := ch_refused s, ch_accepted := ch_accepted s @ [data]\<rparr>"
      using False by (simp add: reserve(1) ch_reserve_def p b i(2) Let_def)
    have "ch_inv n (ps @ [data]) t"
      by (rule ch_inv_upd [OF inv i(1) t set_remove1_subset])
        (use own i(2) False pieces_reserve [OF ok i(2) n, of i] in simp_all)
    then show ?thesis ..
  qed
next
  case (copy r)
  obtain i off data where r: "r = (i, off, data)" by (metis prod_cases3)
  have i: "i = input_buffer_index (ch_db s)" using inv copy(2) r by (auto simp: ch_inv_def)
  have ok: "pieces_ok n ps (input_buffer (ch_db s)) (ch_reserved s) (ch_refused s)" using inv by (simp add: ch_inv_def)
  have own: "\<forall>r \<in> set (ch_reserved s). fst r = i" "\<forall>q \<in> set (ch_refused s). q = (i, n)" using inv i by (simp_all add: ch_inv_def)
  have "ch_inv n (ps @ []) t"
    by (rule ch_inv_upd [OF inv i, where f = "\<lambda>b. b\<lparr>hb_buf := blit off data (hb_buf b)\<rparr>" and B = "ch_begun s" and R = "remove1 r (ch_reserved s)" and Q = "ch_refused s"])
      (use own pieces_copy [OF ok copy(2) [unfolded r] n] set_remove1_subset [of r "ch_reserved s"] in \<open>auto simp: copy(1) ch_copy_def r\<close>)
  then show ?thesis ..
next
  case (undo q)
  obtain i m where q: "q = (i, m)" by fastforce
  have i: "i = input_buffer_index (ch_db s)" "m = n" using inv undo(2) q by (auto simp: ch_inv_def)
  have ok: "pieces_ok n ps (input_buffer (ch_db s)) (ch_reserved s) (ch_refused s)" using inv by (simp add: ch_inv_def)
  have own: "\<forall>r \<in> set (ch_reserved s). fst r = i" "\<forall>q \<in> set (ch_refused s). q = (i, n)" using inv i by (simp_all add: ch_inv_def)
  have "ch_inv n (ps @ []) t"
    by (rule ch_inv_upd [OF inv i(1), where f = "\<lambda>b. b\<lparr>hb_size := hb_size b - m\<rparr>" and B = "ch_begun s" and R = "ch_reserved s" and Q = "remove1 q (ch_refused s)"])
      (use own i(2) pieces_undo [OF ok undo(2)] set_remove1_subset [of q "ch_refused s"] in \<open>auto simp: undo(1) ch_undo_def q\<close>)
  then show ?thesis ..
next
  case ready
  with inv have "ch_inv n ps t" by (simp add: ch_inv_def)
  then show ?thesis ..
next
  case snapshot
  have sh: "db_shape (ch_db s)" using inv by (simp add: ch_inv_def)
  have q: "ch_begun s = []" "ch_reserved s = []" "ch_refused s = []" using snapshot(3) by (simp_all add: ch_quiet_def)
  let ?b = "input_buffer (ch_db s)"
  have ok: "pieces_ok n ps ?b [] []" using inv q by (simp add: ch_inv_def)
  then have wf: "hb_wf ?b" by (simp add: pieces_ok_def hb_wf_def)
  have c: "hb_contents ?b = concat ps"
    using pieces_all_copied [of n ps "hb_buf ?b"] ok by (simp add: pieces_ok_def hb_contents_def)
  have "hb_size (output_buffer (ch_db s)) = 0" using inv snapshot(2) by (simp add: ch_inv_def)
  then have "pieces_ok n [] (output_buffer (ch_db s)) [] []" by (simp add: pieces_ok_def)
  with inv q wf c snapshot(2) have "ch_inv n [] t"
    by (simp add: ch_inv_def snapshot(1) ch_snapshot_def db_snapshot_simps [OF sh] get_snapshot_data_def)
  then show ?thesis ..
next
  case handle
  with inv have "ch_inv n ps t" by (simp add: ch_inv_def ch_handle_def)
  then show ?thesis ..
next
  case clear
  have sh: "db_shape (ch_db s)" using inv by (simp add: ch_inv_def)
  have "ch_inv n ps t"
    using inv by (simp add: ch_inv_def clear ch_clear_def db_clear_simps [OF sh]) (simp add: hb_clear_def)
  then show ?thesis ..
qed

lemma ch_inv_new: "ch_inv n [] (ch_new (db_new mem0 mem1))"
  by (simp add: ch_inv_def ch_new_def db_new_def db_shape_def db_defs pieces_ok_def hb_wf_def)

lemma ch_reachable_inv:
  "ch_reachable True n (db_new mem0 mem1) s \<Longrightarrow> 0 < n \<Longrightarrow> \<exists>ps. ch_inv n ps s"
  by (induction rule: ch_reachable.induct) (auto intro: ch_inv_new dest: ch_step_inv)

text \<open>
  C32: Chat under concurrency: any number of threads push chat packets of one size, each push in its own steps,
  while the task takes snapshots, hands them out and clears them. As long as the buffers are switched
  only while no push is between its steps, then whenever no push is between its steps what was accepted is
  exactly what was delivered, what the scheduled task holds, and what waits, in the order in which the
  pushes took their places: nothing is lost, repeated, mixed or overtaken. (The code does not see to this
  condition; the next theorem shows what happens without it.)
\<close>

theorem concurrent_chat_delivered:
  assumes "ch_reachable True n (db_new mem0 mem1) s" "0 < n" "ch_quiet s"
  shows "concat (ch_accepted s) =
    ch_delivered s @ (if ch_phase s = TP_scheduled then get_snapshot_data (ch_db s) else []) @ db_live (ch_db s)"
proof -
  from ch_reachable_inv [OF assms(1,2)] obtain ps where inv: "ch_inv n ps s" ..
  then have "pieces_ok n ps (input_buffer (ch_db s)) [] []" using assms(3) by (simp add: ch_inv_def ch_quiet_def)
  then have "hb_contents (input_buffer (ch_db s)) = concat ps"
    using pieces_all_copied [of n ps "hb_buf (input_buffer (ch_db s))"] by (simp add: pieces_ok_def hb_contents_def)
  with inv show ?thesis by (simp add: ch_inv_def db_live_def)
qed

text \<open>Two pushes that interleave, the second copying first, and the run of the task.\<close>

lemma ch_reach_step: "ch_reachable disciplined n d s \<Longrightarrow> ch_step disciplined n s t \<Longrightarrow> ch_reachable disciplined n d t"
  by (rule ch_reachable.step)

theorem concurrent_chat_delivered_witness:
  "\<exists>s. ch_reachable True 2 (db_new (replicate 8 0) (replicate 8 0)) s \<and> ch_quiet s \<and>
     concat (ch_accepted s) = [1, 2, 3, 4] \<and> ch_delivered s = [1, 2, 3, 4] \<and> db_live (ch_db s) = []"
proof -
  let ?d = "db_new (replicate 8 0) (replicate 8 0)"
  define s1 where "s1 = ch_begin [1, 2] (ch_begin [3, 4] (ch_new ?d))"
  define s2 where "s2 = ch_reserve (0, [3, 4]) (ch_reserve (0, [1, 2]) s1)"
  define s3 where "s3 = ch_copy (0, 0, [1, 2]) (ch_copy (0, 2, [3, 4]) s2)"
  define s4 where "s4 = ch_snapshot (s3\<lparr>ch_phase := TP_ready\<rparr>)"
  define s5 where "s5 = ch_handle s4"
  note defs = s1_def s2_def s3_def s4_def s5_def
  have f: "(0, [1, 2]) \<in> set (ch_begun s1)" "(0, [3, 4]) \<in> set (ch_begun (ch_reserve (0, [1, 2]) s1))"
    "(0, 2, [3, 4]) \<in> set (ch_reserved s2)" "(0, 0, [1, 2]) \<in> set (ch_reserved (ch_copy (0, 2, [3, 4]) s2))"
    "ch_phase s3 = TP_unused" "has_live_data (ch_db s3)" "ch_quiet (s3\<lparr>ch_phase := TP_ready\<rparr>)"
    "ch_phase s4 = TP_scheduled" "hb_wf (output_buffer (ch_db s4))"
    unfolding defs by code_simp+
  have e: "ch_quiet s5" "concat (ch_accepted s5) = [1, 2, 3, 4]" "ch_phase s5 = TP_handled" "db_live (ch_db s5) = []"
    unfolding defs by code_simp+
  have "ch_reachable True 2 ?d s1"
    unfolding s1_def by (intro ch_reach_step [OF _ ch_step.begin_push] ch_reachable.init) simp_all
  then have "ch_reachable True 2 ?d s2"
    unfolding s2_def by (intro ch_reach_step [OF _ ch_step.reserve] f(1,2))
  then have "ch_reachable True 2 ?d s3"
    unfolding s3_def by (intro ch_reach_step [OF _ ch_step.copy] f(3,4))
  then have "ch_reachable True 2 ?d (s3\<lparr>ch_phase := TP_ready\<rparr>)" by (rule ch_reach_step) (rule ch_step.ready [OF f(5,6)])
  then have "ch_reachable True 2 ?d s4" unfolding s4_def by (rule ch_reach_step) (rule ch_step.snapshot; use f(7) in simp)
  then have r: "ch_reachable True 2 ?d s5" unfolding s5_def by (rule ch_reach_step) (rule ch_step.handle [OF f(8,9)])
  from concurrent_chat_delivered [OF r _ e(1)] e r show ?thesis by (intro exI [of _ s5]) simp
qed

text \<open>
  C38: A push that straddles the switch of the buffers is lost, although it reports success: there is a run of
  the code in which the chat 3, 4 was accepted after 1, 2, every push has returned and the task has
  completed, and what was delivered is 1, 2 and two bytes of old memory, while nothing waits.
\<close>

theorem straddling_chat_is_lost:
  "\<exists>s. ch_reachable False 2 (db_new (replicate 8 0) (replicate 8 0)) s \<and> ch_quiet s \<and> ch_phase s = TP_unused \<and>
     ch_accepted s = [[1, 2], [3, 4]] \<and> ch_delivered s = [1, 2, 0, 0] \<and> db_live (ch_db s) = []"
proof -
  let ?d = "db_new (replicate 8 0) (replicate 8 0)"
  define s1 where "s1 = ch_begin [3, 4] (ch_copy (0, 0, [1, 2]) (ch_reserve (0, [1, 2]) (ch_begin [1, 2] (ch_new ?d))))"
  define s2 where "s2 = ch_snapshot (s1\<lparr>ch_phase := TP_ready\<rparr>)"
  define s3 where "s3 = ch_reserve (0, [3, 4]) s2"
  define s4 where "s4 = ch_handle s3"
  define s5 where "s5 = ch_copy (0, 2, [3, 4]) (ch_clear s4)"
  note defs = s1_def s2_def s3_def s4_def s5_def
  have f: "(0, [1, 2]) \<in> set (ch_begun (ch_begin [1, 2] (ch_new ?d)))"
    "(0, 0, [1, 2]) \<in> set (ch_reserved (ch_reserve (0, [1, 2]) (ch_begin [1, 2] (ch_new ?d))))"
    "ch_phase s1 = TP_unused" "has_live_data (ch_db s1)" "(0, [3, 4]) \<in> set (ch_begun s2)"
    "ch_phase s3 = TP_scheduled" "hb_wf (output_buffer (ch_db s3))" "ch_phase s4 = TP_handled"
    "(0, 2, [3, 4]) \<in> set (ch_reserved (ch_clear s4))"
    unfolding defs by code_simp+
  have e: "ch_quiet s5" "ch_accepted s5 = [[1, 2], [3, 4]]" "ch_phase s5 = TP_unused" "ch_delivered s5 = [1, 2, 0, 0]"
    "db_live (ch_db s5) = []"
    unfolding defs by code_simp+
  have "ch_reachable False 2 ?d s1"
    unfolding s1_def
    by (intro ch_reach_step [OF _ ch_step.begin_push] ch_reach_step [OF _ ch_step.copy] ch_reach_step [OF _ ch_step.reserve]
        ch_reachable.init f(1,2)) simp_all
  then have "ch_reachable False 2 ?d (s1\<lparr>ch_phase := TP_ready\<rparr>)" by (rule ch_reach_step) (rule ch_step.ready [OF f(3,4)])
  then have "ch_reachable False 2 ?d s2" unfolding s2_def by (rule ch_reach_step) (rule ch_step.snapshot; simp)
  then have "ch_reachable False 2 ?d s3" unfolding s3_def by (rule ch_reach_step) (rule ch_step.reserve [OF f(5)])
  then have "ch_reachable False 2 ?d s4" unfolding s4_def by (rule ch_reach_step) (rule ch_step.handle [OF f(6,7)])
  then have "ch_reachable False 2 ?d (ch_clear s4)" by (rule ch_reach_step) (rule ch_step.clear [OF f(8)])
  then have "ch_reachable False 2 ?d s5" unfolding s5_def by (rule ch_reach_step) (rule ch_step.copy [OF f(9)])
  with e show ?thesis by blast
qed

end
