(* ===== verification/OS_Resources.thy ===== *)
theory OS_Resources
  imports Handles
begin

section \<open>Sockets and mapped files\<close>

text \<open>
  \<open>net::Socket\<close> of \<open>net/socket.h\<close>/\<open>.cpp\<close> and \<open>win::FileMapping\<close> of \<open>win/file_mapping.h\<close>/\<open>.cpp\<close>, the two
  classes that own system resources through the handles of \<open>Handles\<close>. What a system call answers is an
  argument; the handles that are closed and the addresses that are unmapped are logs.
\<close>

subsection \<open>Sockets\<close>

datatype socket_protocol_id = SP_none | SP_tcp_v4 | SP_tcp_overlapped_v4 | SP_udp_v4 | SP_udp_overlapped_v4 | SP_tcp_rio_v4

datatype socket_type = Sock_stream | Sock_dgram

text \<open>The call that creates the socket: its type and the flags of \<open>WSASocket\<close>, if it is that one.\<close>

record socket_call =
  sk_type :: socket_type
  sk_flags :: "u32 option"

abbreviation WSA_FLAG_OVERLAPPED :: u32 where "WSA_FLAG_OVERLAPPED \<equiv> 0x01"
abbreviation WSA_FLAG_REGISTERED_IO :: u32 where "WSA_FLAG_REGISTERED_IO \<equiv> 0x100"

fun socket_call_of :: "socket_protocol_id \<Rightarrow> socket_call option" where
  "socket_call_of SP_none = None"
| "socket_call_of SP_tcp_v4 = Some \<lparr>sk_type = Sock_stream, sk_flags = None\<rparr>"
| "socket_call_of SP_tcp_overlapped_v4 = Some \<lparr>sk_type = Sock_stream, sk_flags = Some WSA_FLAG_OVERLAPPED\<rparr>"
| "socket_call_of SP_udp_v4 = Some \<lparr>sk_type = Sock_dgram, sk_flags = None\<rparr>"
| "socket_call_of SP_udp_overlapped_v4 = Some \<lparr>sk_type = Sock_dgram, sk_flags = Some WSA_FLAG_OVERLAPPED\<rparr>"
| "socket_call_of SP_tcp_rio_v4 = Some \<lparr>sk_type = Sock_stream, sk_flags = Some (WSA_FLAG_REGISTERED_IO + WSA_FLAG_OVERLAPPED)\<rparr>"

definition create_windows_socket :: "(socket_call \<Rightarrow> handle) \<Rightarrow> socket_protocol_id \<Rightarrow> handle" where
  "create_windows_socket os protocol =
     (case socket_call_of protocol of None \<Rightarrow> invalid_handle | Some call \<Rightarrow> os call)"

record socket =
  so_handle :: unique_handle

definition socket_new :: socket where
  "socket_new = \<lparr>so_handle = uh_new\<rparr>"

text \<open>\<open>is_valid\<close> converts the handle, an integer, to a truth value.\<close>

definition socket_is_valid :: "socket \<Rightarrow> bool" where
  "socket_is_valid s \<longleftrightarrow> uh_get (so_handle s) \<noteq> 0"

text \<open>The constructor from a protocol, with whether it logs that the socket could not be created.\<close>

definition socket_of_protocol :: "(socket_call \<Rightarrow> handle) \<Rightarrow> socket_protocol_id \<Rightarrow> socket \<times> bool" where
  "socket_of_protocol os protocol =
     (let s = \<lparr>so_handle = uh_make (create_windows_socket os protocol)\<rparr> in (s, \<not> socket_is_valid s))"

definition socket_of :: "handle \<Rightarrow> socket" where
  "socket_of h = \<lparr>so_handle = uh_make h\<rparr>"

definition socket_take :: "unique_handle \<Rightarrow> socket \<times> unique_handle" where
  "socket_take u = (let (v, u) = uh_move_ctor u in (\<lparr>so_handle = v\<rparr>, u))"

definition socket_close :: "socket \<Rightarrow> handle list \<Rightarrow> socket \<times> handle list" where
  "socket_close s closed =
     (let (u, closed) = uh_reset invalid_handle (so_handle s) closed in (s\<lparr>so_handle := u\<rparr>, closed))"

definition socket_reset :: "(socket_call \<Rightarrow> handle) \<Rightarrow> socket_protocol_id \<Rightarrow> socket \<Rightarrow> handle list \<Rightarrow> socket \<times> handle list" where
  "socket_reset os protocol s closed =
     (let (u, closed) = uh_reset (create_windows_socket os protocol) (so_handle s) closed in (s\<lparr>so_handle := u\<rparr>, closed))"

subsection \<open>Addresses and transfers\<close>

record sockaddr_in =
  sin_port :: i16
  sin_addr :: u32

text \<open>
  The address that the calls build: the port is narrowed and put into network order. The result of
  \<open>inet_pton\<close> is not looked at, so text that is no address leaves what was on the stack (\<open>stack\<close>).
\<close>

definition sock_addr_of :: "(bytes \<Rightarrow> u32 option) \<Rightarrow> u32 \<Rightarrow> bytes \<Rightarrow> i32 \<Rightarrow> sockaddr_in" where
  "sock_addr_of inet_pton stack ip port =
     \<lparr>sin_port = byteswap (ucast port :: i16), sin_addr = (case inet_pton ip of None \<Rightarrow> stack | Some a \<Rightarrow> a)\<rparr>"

definition socket_bind :: "(handle \<Rightarrow> sockaddr_in \<Rightarrow> bool) \<Rightarrow> (bytes \<Rightarrow> u32 option) \<Rightarrow> u32 \<Rightarrow> bytes \<Rightarrow> i32 \<Rightarrow> socket \<Rightarrow> bool" where
  "socket_bind os inet_pton stack ip port s = os (uh_get (so_handle s)) (sock_addr_of inet_pton stack ip port)"

definition socket_listen :: "(handle \<Rightarrow> i32 \<Rightarrow> bool) \<Rightarrow> i32 \<Rightarrow> socket \<Rightarrow> bool" where
  "socket_listen os backlog s = os (uh_get (so_handle s)) backlog"

text \<open>An overlapped call answers at once, or its error says that it is pending.\<close>

datatype overlapped_result = Ov_done | Ov_pending | Ov_failed

definition overlapped_success :: "overlapped_result \<Rightarrow> bool" where
  "overlapped_success r \<longleftrightarrow> r = Ov_done \<or> r = Ov_pending"

definition socket_connect ::
    "(handle \<Rightarrow> sockaddr_in \<Rightarrow> overlapped_result) \<Rightarrow> (bytes \<Rightarrow> u32 option) \<Rightarrow> u32 \<Rightarrow> handle \<Rightarrow> bytes \<Rightarrow> i32 \<Rightarrow> bool" where
  "socket_connect os inet_pton stack sock ip port = overlapped_success (os sock (sock_addr_of inet_pton stack ip port))"

definition socket_accept :: "(handle \<Rightarrow> handle \<Rightarrow> overlapped_result) \<Rightarrow> handle \<Rightarrow> handle \<Rightarrow> bool" where
  "socket_accept os listen_sock accepted_sock = overlapped_success (os listen_sock accepted_sock)"

text \<open>The length of a buffer is narrowed to \<open>ULONG\<close>, or to \<open>int\<close> for datagrams.\<close>

definition socket_send :: "(handle \<Rightarrow> u64 \<Rightarrow> u32 \<Rightarrow> overlapped_result) \<Rightarrow> handle \<Rightarrow> u64 \<Rightarrow> u64 \<Rightarrow> bool" where
  "socket_send os sock buf buf_size = overlapped_success (os sock buf (ucast buf_size))"

definition socket_recv :: "(handle \<Rightarrow> u64 \<Rightarrow> u32 \<Rightarrow> overlapped_result) \<Rightarrow> handle \<Rightarrow> u64 \<Rightarrow> u64 \<Rightarrow> bool" where
  "socket_recv os sock buf buf_size = overlapped_success (os sock buf (ucast buf_size))"

definition socket_send_to ::
    "(handle \<Rightarrow> sockaddr_in \<Rightarrow> u64 \<Rightarrow> i32 \<Rightarrow> bool) \<Rightarrow> (bytes \<Rightarrow> u32 option) \<Rightarrow> u32 \<Rightarrow> bytes \<Rightarrow> i32 \<Rightarrow> u64 \<Rightarrow> u64 \<Rightarrow> socket \<Rightarrow> bool" where
  "socket_send_to os inet_pton stack ip port data data_size s =
     os (uh_get (so_handle s)) (sock_addr_of inet_pton stack ip port) data (ucast data_size)"

definition socket_recv_from :: "(handle \<Rightarrow> u64 \<Rightarrow> i32 \<Rightarrow> i32) \<Rightarrow> u64 \<Rightarrow> u64 \<Rightarrow> socket \<Rightarrow> i32" where
  "socket_recv_from os buf buf_size s = os (uh_get (so_handle s)) buf (ucast buf_size)"

subsection \<open>Mapped files\<close>

record file_mapping =
  fm_file :: unique_handle
  fm_mapping :: unique_handle
  fm_address :: u64

record system_log =
  sl_closed :: "handle list"
  sl_unmapped :: "u64 list"

definition file_mapping_new :: file_mapping where
  "file_mapping_new = \<lparr>fm_file = uh_new, fm_mapping = uh_new, fm_address = 0\<rparr>"

definition fm_is_valid :: "file_mapping \<Rightarrow> bool" where
  "fm_is_valid m \<longleftrightarrow> uh_is_valid (fm_file m) \<and> uh_is_valid (fm_mapping m) \<and> fm_address m \<noteq> 0"

definition fm_unmap :: "file_mapping \<Rightarrow> system_log \<Rightarrow> system_log" where
  "fm_unmap m l = (if fm_address m \<noteq> 0 then l\<lparr>sl_unmapped := sl_unmapped l @ [fm_address m]\<rparr> else l)"

definition fm_close :: "file_mapping \<Rightarrow> system_log \<Rightarrow> file_mapping \<times> system_log" where
  "fm_close m l =
     (let l = fm_unmap m l;
          (mp, closed) = uh_reset invalid_handle (fm_mapping m) (sl_closed l);
          (f, closed) = uh_reset invalid_handle (fm_file m) closed
      in (m\<lparr>fm_address := 0, fm_mapping := mp, fm_file := f\<rparr>, l\<lparr>sl_closed := closed\<rparr>))"

text \<open>The destructor: the view is unmapped, then the members are destroyed in reverse order.\<close>

definition fm_destroy :: "file_mapping \<Rightarrow> system_log \<Rightarrow> system_log" where
  "fm_destroy m l =
     (let l = fm_unmap m l in l\<lparr>sl_closed := uh_clear (fm_file m) (uh_clear (fm_mapping m) (sl_closed l))\<rparr>)"

text \<open>The defaulted move constructor copies the address.\<close>

definition fm_move_ctor :: "file_mapping \<Rightarrow> file_mapping \<times> file_mapping" where
  "fm_move_ctor other =
     (let (f, f') = uh_move_ctor (fm_file other); (mp, mp') = uh_move_ctor (fm_mapping other)
      in (\<lparr>fm_file = f, fm_mapping = mp, fm_address = fm_address other\<rparr>, other\<lparr>fm_file := f', fm_mapping := mp'\<rparr>))"

text \<open>
  \<open>open\<close>, given what the three calls answer: the handle of the file, the handle of the mapping (0 when
  it fails) and the address of the view (0 when it fails). The last test looks at the mapping again.
\<close>

record mapping_calls =
  mc_file :: handle
  mc_mapping :: handle
  mc_address :: u64

definition fm_open :: "mapping_calls \<Rightarrow> file_mapping \<Rightarrow> system_log \<Rightarrow> bool \<times> file_mapping \<times> system_log" where
  "fm_open os m l =
     (let (f, closed) = uh_reset (mc_file os) (fm_file m) (sl_closed l);
          m = m\<lparr>fm_file := f\<rparr>; l = l\<lparr>sl_closed := closed\<rparr>
      in if \<not> uh_is_valid f then (False, m, l)
         else if mc_mapping os = 0 then (False, m, l)
         else (let (mp, closed) = uh_reset (mc_mapping os) (fm_mapping m) (sl_closed l);
                   m = m\<lparr>fm_mapping := mp, fm_address := mc_address os\<rparr>; l = l\<lparr>sl_closed := closed\<rparr>
               in if mc_mapping os = 0 then (False, m, l) else (True, m, l)))"

subsection \<open>What is owned is given back\<close>

text \<open>A program that opens and closes one mapping again and again.\<close>

fun fm_cycles :: "mapping_calls list \<Rightarrow> file_mapping \<Rightarrow> system_log \<Rightarrow> bool list \<times> file_mapping \<times> system_log" where
  "fm_cycles [] m l = ([], m, l)"
| "fm_cycles (os # oss) m l =
     (let (ok, m, l) = fm_open os m l; (m, l) = fm_close m l; (oks, m, l) = fm_cycles oss m l in (ok # oks, m, l))"

text \<open>What an \<open>open\<close> of a closed mapping leaves to be given back.\<close>

definition mc_opened :: "mapping_calls \<Rightarrow> bool" where
  "mc_opened os \<longleftrightarrow> mc_file os \<noteq> invalid_handle \<and> mc_mapping os \<noteq> 0"

definition mc_handles :: "mapping_calls \<Rightarrow> handle list" where
  "mc_handles os =
     (if mc_opened os then filter (\<lambda>h. h \<noteq> invalid_handle) [mc_mapping os] else []) @
     filter (\<lambda>h. h \<noteq> invalid_handle) [mc_file os]"

definition mc_views :: "mapping_calls \<Rightarrow> u64 list" where
  "mc_views os = (if mc_opened os then filter (\<lambda>a. a \<noteq> 0) [mc_address os] else [])"

lemma fm_open_close:
  assumes "fm_open os file_mapping_new l = (ok, m, l1)"
  shows "ok = mc_opened os"
    "fm_close m l1 = (file_mapping_new, \<lparr>sl_closed = sl_closed l @ mc_handles os, sl_unmapped = sl_unmapped l @ mc_views os\<rparr>)"
proof -
  show "ok = mc_opened os"
    using assms by (auto simp: fm_open_def file_mapping_new_def uh_defs mc_opened_def Let_def split: if_splits)
  show "fm_close m l1 = (file_mapping_new, \<lparr>sl_closed = sl_closed l @ mc_handles os, sl_unmapped = sl_unmapped l @ mc_views os\<rparr>)"
    using assms
    by (cases "mc_file os = invalid_handle"; cases "mc_mapping os = 0"; cases "mc_mapping os = invalid_handle"; cases "mc_address os = 0")
      (auto simp: fm_open_def fm_close_def fm_unmap_def file_mapping_new_def uh_defs mc_opened_def mc_handles_def mc_views_def)
qed

text \<open>
  However often a mapping is opened and closed, and whichever of the system's calls fail, it
  ends closed, and every handle and every view that the system gave has been given back, each
  once and in the order of the closing.
\<close>

theorem mapping_gives_back:
  "fm_cycles oss file_mapping_new l =
     (map mc_opened oss, file_mapping_new,
      \<lparr>sl_closed = sl_closed l @ concat (map mc_handles oss), sl_unmapped = sl_unmapped l @ concat (map mc_views oss)\<rparr>)"
proof (induction oss arbitrary: l)
  case (Cons os oss)
  obtain ok m l1 where o: "fm_open os file_mapping_new l = (ok, m, l1)" by (metis prod_cases3)
  show ?case using fm_open_close [OF o] by (simp add: o Cons.IH)
qed simp

text \<open>\<open>open\<close> reports success although there is no view: the last test looks at the wrong variable.\<close>

lemma open_without_view:
  "mc_opened os \<Longrightarrow> mc_address os = 0 \<Longrightarrow>
    fst (fm_open os file_mapping_new l) \<and> \<not> fm_is_valid (fst (snd (fm_open os file_mapping_new l)))"
  by (simp add: fm_open_def file_mapping_new_def uh_defs mc_opened_def fm_is_valid_def)

text \<open>
  A mapping that is moved keeps its address in the object it was moved from, although the handles
  leave it: when both objects are destroyed, in whichever order, the view is unmapped twice, and
  between the two the mapping that was moved to is used without a view. The handles are closed once.
\<close>

theorem moved_mapping_unmaps_twice:
  assumes "mc_opened os" "mc_mapping os \<noteq> invalid_handle" "mc_address os \<noteq> 0"
  shows "case fm_open os file_mapping_new l of (ok, m, l) \<Rightarrow>
    (case fm_move_ctor m of (m', m) \<Rightarrow>
       fm_is_valid m' \<and> \<not> fm_is_valid m \<and>
       fm_destroy m' (fm_destroy m l) =
         \<lparr>sl_closed = sl_closed l @ [mc_mapping os, mc_file os], sl_unmapped = sl_unmapped l @ [mc_address os, mc_address os]\<rparr>)"
  using assms
  by (cases l) (simp add: fm_open_def file_mapping_new_def uh_defs mc_opened_def fm_is_valid_def fm_move_ctor_def
      fm_destroy_def fm_unmap_def)

theorem moved_mapping_unmaps_twice_witness:
  "\<exists>m l. fm_open \<lparr>mc_file = 4, mc_mapping = 8, mc_address = 4096\<rparr> file_mapping_new \<lparr>sl_closed = [], sl_unmapped = []\<rparr> = (True, m, l) \<and>
    sl_unmapped (fm_destroy (fst (fm_move_ctor m)) (fm_destroy (snd (fm_move_ctor m)) l)) = [4096, 4096]"
proof -
  let ?os = "\<lparr>mc_file = 4, mc_mapping = 8, mc_address = 4096\<rparr>" and ?l = "\<lparr>sl_closed = [], sl_unmapped = []\<rparr>"
  obtain m l where o: "fm_open ?os file_mapping_new ?l = (True, m, l)" "sl_unmapped l = []"
    by (simp add: fm_open_def file_mapping_new_def uh_defs)
  have "mc_opened ?os" by (simp add: mc_opened_def)
  from moved_mapping_unmaps_twice [OF this, of ?l] o show ?thesis by (auto simp: case_prod_beta)
qed

text \<open>
  A socket that the system could not create is taken for a valid one: its handle has all bits
  set, and only the handle 0 is taken for invalid. So the constructor never logs the failure, and
  neither does a socket become invalid when it is closed or moved from.
\<close>

theorem invalid_socket_is_valid:
  assumes "os (the (socket_call_of protocol)) = invalid_handle"
  shows "case socket_of_protocol os protocol of (s, logged) \<Rightarrow>
    \<not> uh_is_valid (so_handle s) \<and> socket_is_valid s \<and> \<not> logged \<and>
    socket_is_valid (fst (socket_close t closed)) \<and> socket_is_valid (s\<lparr>so_handle := snd (socket_take u)\<rparr>)"
  using assms
  by (auto simp: socket_of_protocol_def create_windows_socket_def socket_is_valid_def socket_close_def socket_take_def
      uh_defs uh_get_def Let_def split: option.splits)

theorem invalid_socket_is_valid_witness:
  "socket_is_valid (fst (socket_of_protocol (\<lambda>_. invalid_handle) SP_tcp_rio_v4)) \<and>
    \<not> snd (socket_of_protocol (\<lambda>_. invalid_handle) SP_tcp_rio_v4)"
  using invalid_socket_is_valid [of "\<lambda>_. invalid_handle" SP_tcp_rio_v4] by (simp add: case_prod_beta)

end
