(* ===== verification/Lockfree_Stack.thy ===== *)
theory Lockfree_Stack
  imports Prelude "HOL-Library.Sublist"
begin

section \<open>The lock-free stack\<close>

text \<open>
  \<open>util::LockfreeStack\<close> of \<open>util/lockfree_stack.h\<close> under interleaving. Nodes live in a heap whose
  allocator may hand out an address again as soon as it was freed; any number of threads push,
  take the whole stack, and destroy what they took. An operation of a thread is split at every
  access to \<open>_head\<close>: a push is the construction of its node with the load of the head, and then
  one compare-and-swap after another until one succeeds. The accesses are in one order, as with
  sequentially consistent atomics; the weaker orders that the code names are not modelled.
\<close>

type_synonym address = u64

record 'v node =
  nd_value :: 'v
  nd_next :: address

type_synonym 'v node_heap = "address \<Rightarrow> 'v node option"

text \<open>
  The stack, the \<open>new_node\<close> of every push under way, and the pointer of every \<open>pop\<close> whose nodes
  are being destroyed (\<open>node\<close> of \<open>delete_nodes\<close>).
\<close>

record 'v stack_state =
  st_heap :: "'v node_heap"
  st_head :: address
  st_pushing :: "address list"
  st_taken :: "address list"

definition stack_new :: "'v stack_state" where
  "stack_new = \<lparr>st_heap = (\<lambda>_. None), st_head = 0, st_pushing = [], st_taken = []\<rparr>"

definition stack_empty :: "'v stack_state \<Rightarrow> bool" where
  "stack_empty s \<longleftrightarrow> st_head s = 0"

text \<open>What a step contributes to the sequence of the operations that took effect.\<close>

datatype 'v stack_event = Pushed 'v | Took

text \<open>The construction of the node, at an address that the allocator found.\<close>

definition push_alloc :: "address \<Rightarrow> 'v \<Rightarrow> 'v stack_state \<Rightarrow> 'v stack_state" where
  "push_alloc a v s =
     s\<lparr>st_heap := (st_heap s)(a \<mapsto> \<lparr>nd_value = v, nd_next = st_head s\<rparr>), st_pushing := st_pushing s @ [a]\<rparr>"

text \<open>
  One \<open>compare_exchange_weak\<close> of the push at position \<open>i\<close>, which may fail spuriously; when it fails it
  leaves the head in \<open>new_node->next\<close>. \<open>None\<close> is an access to memory that is no node.
\<close>

definition push_cas :: "bool \<Rightarrow> nat \<Rightarrow> 'v stack_state \<Rightarrow> ('v stack_state \<times> 'v stack_event list) option" where
  "push_cas spurious i s =
     (let a = st_pushing s ! i
      in case st_heap s a of
           None \<Rightarrow> None
         | Some n \<Rightarrow>
             if nd_next n = st_head s \<and> \<not> spurious
             then Some (s\<lparr>st_head := a, st_pushing := take i (st_pushing s) @ drop (Suc i) (st_pushing s)\<rparr>,
                        [Pushed (nd_value n)])
             else Some (s\<lparr>st_heap := (st_heap s)(a \<mapsto> n\<lparr>nd_next := st_head s\<rparr>)\<rparr>, []))"

definition pop_all :: "'v stack_state \<Rightarrow> 'v stack_state" where
  "pop_all s = s\<lparr>st_head := 0, st_taken := st_taken s @ [st_head s]\<rparr>"

text \<open>One round of the loop of \<open>delete_nodes\<close>, for the nodes taken by the pop at position \<open>i\<close>.\<close>

definition delete_node :: "nat \<Rightarrow> 'v stack_state \<Rightarrow> 'v stack_state option" where
  "delete_node i s =
     (let a = st_taken s ! i
      in if a = 0 then Some s
         else case st_heap s a of
                None \<Rightarrow> None
              | Some n \<Rightarrow> Some (s\<lparr>st_heap := (st_heap s)(a := None), st_taken := (st_taken s)[i := nd_next n]\<rparr>))"

text \<open>
  A schedule is a list of steps. A step of a thread that does not exist, and an allocation at an address
  that is in use or null, is not a step of the program and changes nothing.
\<close>

datatype 'v stack_op = S_alloc address 'v | S_cas bool nat | S_take | S_delete nat

fun stack_step :: "'v stack_op \<Rightarrow> 'v stack_state \<Rightarrow> ('v stack_state \<times> 'v stack_event list) option" where
  "stack_step (S_alloc a v) s = Some (if a \<noteq> 0 \<and> st_heap s a = None then push_alloc a v s else s, [])"
| "stack_step (S_cas spurious i) s = (if i < length (st_pushing s) then push_cas spurious i s else Some (s, []))"
| "stack_step S_take s = Some (pop_all s, [Took])"
| "stack_step (S_delete i) s =
     (if i < length (st_taken s) then map_option (\<lambda>s. (s, [])) (delete_node i s) else Some (s, []))"

fun stack_run :: "'v stack_op list \<Rightarrow> 'v stack_state \<Rightarrow> ('v stack_state \<times> 'v stack_event list) option" where
  "stack_run [] s = Some (s, [])"
| "stack_run (x # xs) s =
     (case stack_step x s of
        None \<Rightarrow> None
      | Some (s, es) \<Rightarrow> (case stack_run xs s of None \<Rightarrow> None | Some (s, es') \<Rightarrow> Some (s, es @ es')))"

subsection \<open>The stack it implements\<close>

text \<open>The values on the stack, the last one first, and what each \<open>pop\<close> took.\<close>

record 'v stack_spec =
  sp_stack :: "'v list"
  sp_taken :: "'v list list"

fun spec_step :: "'v stack_event \<Rightarrow> 'v stack_spec \<Rightarrow> 'v stack_spec" where
  "spec_step (Pushed v) t = t\<lparr>sp_stack := v # sp_stack t\<rparr>"
| "spec_step Took t = t\<lparr>sp_stack := [], sp_taken := sp_taken t @ [sp_stack t]\<rparr>"

definition spec_run :: "'v stack_event list \<Rightarrow> 'v stack_spec \<Rightarrow> 'v stack_spec" where
  "spec_run es t = fold spec_step es t"

definition spec_new :: "'v stack_spec" where
  "spec_new = \<lparr>sp_stack = [], sp_taken = []\<rparr>"

subsection \<open>Chains of nodes\<close>

fun chain :: "'v node_heap \<Rightarrow> address \<Rightarrow> (address \<times> 'v) list \<Rightarrow> bool" where
  "chain h p [] \<longleftrightarrow> p = 0"
| "chain h p ((a, v) # xs) \<longleftrightarrow>
     p = a \<and> a \<noteq> 0 \<and> (case h a of None \<Rightarrow> False | Some n \<Rightarrow> nd_value n = v \<and> chain h (nd_next n) xs)"

lemma chain_frame:
  "a \<notin> fst ` set xs \<Longrightarrow> chain (h(a := n)) p xs \<longleftrightarrow> chain h p xs"
proof (induction xs arbitrary: p)
  case (Cons x xs)
  then show ?case by (cases x) (auto split: option.splits)
qed simp

lemma chain_null: "chain h 0 xs \<longleftrightarrow> xs = []"
  by (cases xs) auto

lemma chain_nonnull:
  assumes "chain h p xs" "p \<noteq> 0"
  obtains v ys n where "xs = (p, v) # ys" "h p = Some n" "nd_value n = v" "chain h (nd_next n) ys"
  using assms by (cases xs) (auto split: option.splits)

text \<open>
  The relation: the stack is the chain from the head, what a thread still has to destroy is the
  end of what its pop took, all of these nodes and the nodes of the pushes are different, and
  the heap holds nothing else.
\<close>

definition stack_rel_at :: "(address \<times> 'v) list \<Rightarrow> (address \<times> 'v) list list \<Rightarrow> 'v stack_state \<Rightarrow> 'v stack_spec \<Rightarrow> bool" where
  "stack_rel_at xs yss s t \<longleftrightarrow>
     st_heap s 0 = None \<and> chain (st_heap s) (st_head s) xs \<and> map snd xs = sp_stack t \<and>
     list_all2 (chain (st_heap s)) (st_taken s) yss \<and> list_all2 (\<lambda>ys vs. suffix (map snd ys) vs) yss (sp_taken t) \<and>
     distinct (st_pushing s @ map fst xs @ map fst (concat yss)) \<and>
     dom (st_heap s) = set (st_pushing s) \<union> fst ` set xs \<union> fst ` set (concat yss)"

definition stack_rel :: "'v stack_state \<Rightarrow> 'v stack_spec \<Rightarrow> bool" where
  "stack_rel s t \<longleftrightarrow> (\<exists>xs yss. stack_rel_at xs yss s t)"

lemma stack_relI: "stack_rel_at xs yss s t \<Longrightarrow> stack_rel s t"
  by (auto simp: stack_rel_def)

lemma chains_frame:
  assumes "a \<notin> fst ` set (concat yss)"
  shows "list_all2 (chain (h(a := n))) ps yss \<longleftrightarrow> list_all2 (chain h) ps yss"
  using assms by (induction ps yss rule: list_induct2') (auto simp: chain_frame image_Un)

lemma rel_new: "stack_rel stack_new spec_new"
  by (rule stack_relI [of "[]" "[]"]) (simp add: stack_rel_at_def stack_new_def spec_new_def)

lemma rel_alloc:
  assumes r: "stack_rel_at xs yss s t" and a: "a \<noteq> 0" "st_heap s a = None"
  shows "stack_rel_at xs yss (push_alloc a v s) t"
proof -
  have "a \<notin> dom (st_heap s)" using a by auto
  then have "a \<notin> set (st_pushing s)" "a \<notin> fst ` set xs" "a \<notin> fst ` set (concat yss)"
    using r by (auto simp: stack_rel_at_def)
  then show ?thesis
    using r a by (auto simp: stack_rel_at_def push_alloc_def chain_frame chains_frame)
qed
lemma rel_cas:
  assumes r: "stack_rel_at xs yss s t" and i: "i < length (st_pushing s)"
  obtains s' es where "push_cas spurious i s = Some (s', es)" "stack_rel s' (spec_run es t)"
proof -
  let ?a = "st_pushing s ! i" and ?P = "take i (st_pushing s)" and ?Q = "drop (Suc i) (st_pushing s)"
  have sp: "st_pushing s = ?P @ ?a # ?Q" using i by (rule id_take_nth_drop)
  have "?a \<in> set (st_pushing s)" using i by simp
  then have "?a \<in> dom (st_heap s)" using r by (auto simp: stack_rel_at_def)
  then obtain n where n: "st_heap s ?a = Some n" by auto
  have nz: "?a \<noteq> 0" using n r by (auto simp: stack_rel_at_def)
  have d: "distinct ((?P @ ?a # ?Q) @ map fst xs @ map fst (concat yss))"
    and dom: "dom (st_heap s) = set (?P @ ?a # ?Q) \<union> fst ` set xs \<union> fst ` set (concat yss)"
    using r sp by (simp_all only: stack_rel_at_def)
  show ?thesis
  proof (cases "nd_next n = st_head s \<and> \<not> spurious")
    case True
    let ?s = "s\<lparr>st_head := ?a, st_pushing := ?P @ ?Q\<rparr>"
    have "stack_rel_at ((?a, nd_value n) # xs) yss ?s (spec_step (Pushed (nd_value n)) t)"
      using r n nz d dom True unfolding stack_rel_at_def by auto
    then show ?thesis
      using True n by (intro that [of ?s "[Pushed (nd_value n)]"])
        (auto simp: push_cas_def spec_run_def intro: stack_relI)
  next
    case False
    let ?s = "s\<lparr>st_heap := (st_heap s)(?a \<mapsto> n\<lparr>nd_next := st_head s\<rparr>)\<rparr>"
    have "?a \<notin> fst ` set xs" "?a \<notin> fst ` set (concat yss)" using d by auto
    then have "stack_rel_at xs yss ?s t"
      using r n nz unfolding stack_rel_at_def by (auto simp: chain_frame chains_frame)
    then show ?thesis
      using False n by (intro that [of ?s "[]"]) (auto simp: push_cas_def spec_run_def intro: stack_relI)
  qed
qed

lemma distinct_swap: "distinct (xs @ ys @ zs) \<Longrightarrow> distinct (xs @ zs @ ys)"
  by auto

lemma rel_take:
  assumes r: "stack_rel_at xs yss s t"
  shows "stack_rel_at [] (yss @ [xs]) (pop_all s) (spec_step Took t)"
proof -
  have "distinct (st_pushing s @ map fst (concat yss) @ map fst xs)"
    using r distinct_swap unfolding stack_rel_at_def by blast
  moreover have "dom (st_heap s) = set (st_pushing s) \<union> fst ` set (concat yss) \<union> fst ` set xs"
    using r unfolding stack_rel_at_def by blast
  ultimately show ?thesis
    using r unfolding stack_rel_at_def pop_all_def by (simp add: list_all2_appendI image_Un Un_assoc)
qed

lemma rel_delete:
  assumes r: "stack_rel_at xs yss s t" and i: "i < length (st_taken s)"
  obtains s' where "delete_node i s = Some s'" "stack_rel s' t"
proof (cases "st_taken s ! i = 0")
  case True
  then show ?thesis using r that [of s] by (auto simp: delete_node_def intro: stack_relI)
next
  case False
  let ?a = "st_taken s ! i"
  have len: "length yss = length (st_taken s)" using r by (auto simp: stack_rel_at_def dest: list_all2_lengthD)
  have "chain (st_heap s) ?a (yss ! i)" using r i by (auto simp: stack_rel_at_def list_all2_conv_all_nth)
  with False obtain v ys n where y: "yss ! i = (?a, v) # ys" "st_heap s ?a = Some n" "nd_value n = v"
      "chain (st_heap s) (nd_next n) ys" by (auto elim: chain_nonnull)
  let ?P = "take i yss" and ?Q = "drop (Suc i) yss"
  have sp: "yss = ?P @ ((?a, v) # ys) # ?Q" using id_take_nth_drop [of i yss] i len y(1) by simp
  have upd: "yss[i := ys] = ?P @ ys # ?Q" using i len by (simp add: upd_conv_take_nth_drop)
  let ?s = "s\<lparr>st_heap := (st_heap s)(?a := None), st_taken := (st_taken s)[i := nd_next n]\<rparr>"
  have d: "distinct (st_pushing s @ map fst xs @ map fst (concat (?P @ ((?a, v) # ys) # ?Q)))"
    and dom: "dom (st_heap s) = set (st_pushing s) \<union> fst ` set xs \<union> fst ` set (concat (?P @ ((?a, v) # ys) # ?Q))"
    using r sp by (simp_all only: stack_rel_at_def)
  have out: "?a \<notin> set (st_pushing s)" "?a \<notin> fst ` set xs" "?a \<notin> fst ` set (concat (yss[i := ys]))"
    using d unfolding upd by auto
  have "list_all2 (chain (st_heap s)) ((st_taken s)[i := nd_next n]) (yss[i := ys])"
    using r y(4) by (auto simp: stack_rel_at_def intro: list_all2_update_cong)
  moreover have "list_all2 (\<lambda>ys vs. suffix (map snd ys) vs) (yss[i := ys]) (sp_taken t)"
  proof -
    have s: "list_all2 (\<lambda>ys vs. suffix (map snd ys) vs) yss (sp_taken t)" using r by (simp add: stack_rel_at_def)
    then have "suffix (map snd (yss ! i)) (sp_taken t ! i)" using i len by (simp add: list_all2_conv_all_nth)
    then have "suffix (map snd ys) (sp_taken t ! i)" using y(1) by (auto dest: suffix_ConsD)
    from list_all2_update_cong [OF s this, of i] show ?thesis by simp
  qed
  moreover have "distinct (st_pushing s @ map fst xs @ map fst (concat (yss[i := ys])))"
    using d unfolding upd by auto
  moreover have "dom (st_heap ?s) = set (st_pushing s) \<union> fst ` set xs \<union> fst ` set (concat (yss[i := ys]))"
    using dom out unfolding upd by auto
  ultimately have "stack_rel_at xs (yss[i := ys]) ?s t"
    using r out(2,3) by (simp add: stack_rel_at_def chain_frame chains_frame)
  then show ?thesis using y(2) False by (intro that [of ?s]) (auto simp: delete_node_def intro: stack_relI)
qed

lemma rel_step:
  assumes "stack_rel s t"
  obtains s' es where "stack_step x s = Some (s', es)" "stack_rel s' (spec_run es t)"
proof -
  from assms obtain xs yss where r: "stack_rel_at xs yss s t" by (auto simp: stack_rel_def)
  show ?thesis
  proof (cases x)
    case (S_alloc a v)
    then show ?thesis
      using r rel_alloc [OF r, of a v] by (intro that [OF _ stack_relI]) (auto simp: spec_run_def)
  next
    case (S_cas spurious i)
    show ?thesis
    proof (cases "i < length (st_pushing s)")
      case True
      from rel_cas [OF r True, of spurious] obtain s' es
        where "push_cas spurious i s = Some (s', es)" "stack_rel s' (spec_run es t)" by blast
      then show ?thesis using True S_cas by (intro that) auto
    next
      case False
      then show ?thesis using S_cas assms by (intro that) (auto simp: spec_run_def)
    qed
  next
    case S_take
    then show ?thesis using stack_relI [OF rel_take [OF r]] by (intro that) (auto simp: spec_run_def)
  next
    case (S_delete i)
    show ?thesis
    proof (cases "i < length (st_taken s)")
      case True
      from rel_delete [OF r True] obtain s' where "delete_node i s = Some s'" "stack_rel s' t" by blast
      then show ?thesis using True S_delete by (intro that) (auto simp: spec_run_def)
    next
      case False
      then show ?thesis using S_delete assms by (intro that) (auto simp: spec_run_def)
    qed
  qed
qed

lemma stack_run_rel:
  "stack_rel s t \<Longrightarrow> \<exists>s' es. stack_run ops s = Some (s', es) \<and> stack_rel s' (spec_run es t)"
proof (induction ops arbitrary: s t)
  case Nil
  then show ?case by (simp add: spec_run_def)
next
  case (Cons x ops)
  from rel_step [OF Cons.prems, of x] obtain s1 es1
    where 1: "stack_step x s = Some (s1, es1)" "stack_rel s1 (spec_run es1 t)" by blast
  from Cons.IH [OF 1(2)] obtain s2 es2
    where "stack_run ops s1 = Some (s2, es2)" "stack_rel s2 (spec_run es2 (spec_run es1 t))" by blast
  with 1 show ?case by (simp add: spec_run_def)
qed

subsection \<open>What a user of the stack can rely on\<close>

text \<open>
  C10: Under every schedule, and whichever addresses the allocator uses again, no step touches a node that
  was freed, and the stack behaves like a list: the effects of the operations have one order in which
  each push adds its value in front and each pop takes the whole list; what is left to be destroyed
  of a taken list is its end, no node is in two places and none is lost.
\<close>

theorem stack_linearizes:
  "\<exists>s es. stack_run ops stack_new = Some (s, es) \<and> stack_rel s (spec_run es spec_new) \<and>
     (stack_empty s \<longleftrightarrow> sp_stack (spec_run es spec_new) = [])"
proof -
  from stack_run_rel [OF rel_new, of ops] obtain s es
    where 1: "stack_run ops stack_new = Some (s, es)" "stack_rel s (spec_run es spec_new)" by blast
  then have "stack_empty s \<longleftrightarrow> sp_stack (spec_run es spec_new) = []"
    unfolding stack_rel_def stack_rel_at_def stack_empty_def
    by (metis chain.simps(1) chain_null map_is_Nil_conv)
  with 1 show ?thesis by blast
qed

text \<open>The node of the push at position \<open>i\<close> leads to the present head.\<close>

definition up_to_date :: "nat \<Rightarrow> 'v stack_state \<Rightarrow> bool" where
  "up_to_date i s \<longleftrightarrow>
     i < length (st_pushing s) \<and>
     (case st_heap s (st_pushing s ! i) of None \<Rightarrow> False | Some n \<Rightarrow> nd_next n = st_head s)"

lemma up_to_date_step:
  assumes r: "stack_rel s t" and u: "up_to_date i s" and x: "stack_step x s = Some (s', [])"
  shows "up_to_date i s'"
proof (cases x)
  case (S_alloc a v)
  with u x show ?thesis
    by (auto simp: up_to_date_def push_alloc_def nth_append split: if_splits option.splits)
next
  case (S_cas spurious j)
  with u x show ?thesis
    by (auto simp: up_to_date_def push_cas_def Let_def split: if_splits option.splits)
next
  case (S_delete j)
  show ?thesis
  proof (cases "j < length (st_taken s) \<and> st_taken s ! j \<noteq> 0")
    case True
    from r obtain xs yss where r: "stack_rel_at xs yss s t" by (auto simp: stack_rel_def)
    have len: "length yss = length (st_taken s)" using r by (auto simp: stack_rel_at_def dest: list_all2_lengthD)
    have "chain (st_heap s) (st_taken s ! j) (yss ! j)"
      using r True by (auto simp: stack_rel_at_def list_all2_conv_all_nth)
    then have "st_taken s ! j \<in> fst ` set (yss ! j)" using True by (auto elim: chain_nonnull)
    then have "st_taken s ! j \<in> fst ` set (concat yss)" using True len by (force dest: nth_mem)
    moreover have "st_pushing s ! i \<in> set (st_pushing s)" using u by (simp add: up_to_date_def)
    moreover have "set (st_pushing s) \<inter> fst ` set (concat yss) = {}"
      using r unfolding stack_rel_at_def distinct_append set_append set_map by blast
    ultimately have "st_pushing s ! i \<noteq> st_taken s ! j" by (metis disjoint_iff)
    with u x S_delete True show ?thesis
      by (auto simp: up_to_date_def delete_node_def Let_def split: option.splits)
  next
    case False
    with u x S_delete show ?thesis by (auto simp: delete_node_def split: if_splits)
  qed
qed (use x in simp)

lemma up_to_date_run:
  "stack_rel s t \<Longrightarrow> up_to_date i s \<Longrightarrow> stack_run ops s = Some (s', []) \<Longrightarrow> up_to_date i s'"
proof (induction ops arbitrary: s t)
  case (Cons x ops)
  from rel_step [OF Cons.prems(1), of x] obtain s1 es1
    where 1: "stack_step x s = Some (s1, es1)" "stack_rel s1 (spec_run es1 t)" by blast
  with Cons.prems(3) have "es1 = []" "stack_run ops s1 = Some (s', [])" by (auto split: option.splits)
  with 1 Cons show ?case using up_to_date_step by blast
qed simp

text \<open>
  C20: A push is only ever held up by the progress of others: when its compare-and-swap failed and since
  then no operation of another thread took effect, the next one that does not fail spuriously succeeds.
\<close>

theorem push_is_lock_free:
  assumes "stack_run ops stack_new = Some (s, es)" and "i < length (st_pushing s)"
    and "stack_run (S_cas spurious i # ops') s = Some (s', [])"
  shows "\<exists>s'' v. stack_step (S_cas False i) s' = Some (s'', [Pushed v])"
proof -
  have r: "stack_rel s (spec_run es spec_new)"
    using stack_run_rel [OF rel_new, of ops] assms(1) by auto
  from rel_step [OF r, of "S_cas spurious i"] obtain s1 es1
    where 1: "stack_step (S_cas spurious i) s = Some (s1, es1)" "stack_rel s1 (spec_run es1 (spec_run es spec_new))" by blast
  with assms(3) have 2: "stack_step (S_cas spurious i) s = Some (s1, [])" "stack_run ops' s1 = Some (s', [])"
    by (auto split: option.splits)
  have "up_to_date i s1"
    using 2(1) assms(2) by (auto simp: up_to_date_def push_cas_def Let_def split: option.splits if_splits)
  from up_to_date_run [OF 1(2) this 2(2)] show ?thesis
    by (auto simp: up_to_date_def push_cas_def Let_def split: option.splits)
qed

theorem push_is_lock_free_witness:
  "\<exists>s v. stack_step (S_cas False 0) (push_alloc 8 (5 :: nat) stack_new) = Some (s, [Pushed v])"
proof -
  let ?s = "push_alloc 8 (5 :: nat) stack_new"
  have "stack_run [S_alloc 8 5] stack_new = Some (?s, [])" by (simp add: stack_new_def)
  moreover have "0 < length (st_pushing ?s)" by (simp add: push_alloc_def)
  moreover have "stack_run [S_cas True 0] ?s = Some (?s, [])"
    by (simp add: push_alloc_def stack_new_def push_cas_def)
  ultimately show ?thesis by (rule push_is_lock_free)
qed

end
