(* ===== verification/Collections.thy ===== *)
theory Collections
  imports Prelude
begin

section \<open>Collections of the document database\<close>

text \<open>
  \<open>CollectionPath\<close> of \<open>database/couchbase_definitions.h\<close> and the connections of
  \<open>database/couchbase_core.cpp\<close>: which collections a server that connects to the database can reach.
\<close>

datatype collection_path =
  CP_player_login | CP_player_gamedata |
  CP_chat_message_common | CP_chat_message_private | CP_chat_message_permanent |
  CP_player_login_session

fun collection_name :: "collection_path \<Rightarrow> string" where
  "collection_name CP_player_login = ''player_login''"
| "collection_name CP_player_gamedata = ''player_gamedata''"
| "collection_name CP_chat_message_common = ''chat_message_common''"
| "collection_name CP_chat_message_private = ''chat_message_private''"
| "collection_name CP_chat_message_permanent = ''chat_message_permanent''"
| "collection_name CP_player_login_session = ''player_login_session''"

abbreviation standard_bucket_name :: string where "standard_bucket_name \<equiv> ''standard_bucket''"
abbreviation cached_bucket_name :: string where "cached_bucket_name \<equiv> ''cached_bucket''"

text \<open>A collection of the cluster: its bucket and its name.\<close>

type_synonym collection = "string \<times> string"
type_synonym collection_mapping = "collection_path \<Rightarrow> collection option"

text \<open>\<open>emplace\<close> keeps an entry that exists.\<close>

definition connect_collection :: "string \<Rightarrow> collection_path \<Rightarrow> collection_mapping \<Rightarrow> collection_mapping" where
  "connect_collection bucket path m =
     (case m path of None \<Rightarrow> m(path \<mapsto> (bucket, collection_name path)) | Some _ \<Rightarrow> m)"

definition connect_collections :: "collection_mapping \<Rightarrow> collection_mapping" where
  "connect_collections m =
     connect_collection cached_bucket_name CP_player_login_session
       (connect_collection standard_bucket_name CP_player_gamedata
         (connect_collection standard_bucket_name CP_player_login m))"

text \<open>\<open>connect_server_with_login\<close>: an error of the connection is logged as fatal, which ends the process.\<close>

definition connect_server_with_login :: "bool \<Rightarrow> collection_mapping \<Rightarrow> collection_mapping option" where
  "connect_server_with_login connected m = (if connected then Some (connect_collections m) else None)"

definition document_id :: "collection_path \<Rightarrow> bytes \<Rightarrow> bytes" where
  "document_id path name = name @ cstr '':'' @ cstr (collection_name path)"

end
