(* ===== verification/Couchbase.thy ===== *)
theory Couchbase
  imports Collections Login_Server Chat_Server Game_System
begin

section \<open>The document database\<close>

text \<open>
  \<open>database/couchbase_core.h\<close>/\<open>.cpp\<close>, \<open>database/couchbase_definitions.h\<close> and \<open>database/query.cpp\<close>: the
  JSON of the documents, and the operations that the coroutines await. The cluster itself is the record
  \<open>kv_store\<close> over any database \<open>'db\<close>, with the laws \<open>key_value_store\<close>. An operation on a collection that
  is not connected throws, which ends the coroutine: \<open>None\<close>.
\<close>

subsection \<open>Documents\<close>

text \<open>The part of JSON that the documents use; a number is converted by a cast.\<close>

datatype json = J_number int | J_string bytes | J_object "(string \<times> json) list"

fun json_at :: "string \<Rightarrow> json \<Rightarrow> json option" where
  "json_at k (J_object fs) = map_of fs k"
| "json_at k _ = None"

fun json_to_string :: "json \<Rightarrow> bytes option" where
  "json_to_string (J_string s) = Some s"
| "json_to_string _ = None"

fun json_to_u64 :: "json \<Rightarrow> u64 option" where
  "json_to_u64 (J_number n) = Some (of_int n)"
| "json_to_u64 _ = None"

fun json_to_u32 :: "json \<Rightarrow> u32 option" where
  "json_to_u32 (J_number n) = Some (of_int n)"
| "json_to_u32 _ = None"

definition json_get :: "(json \<Rightarrow> 'a option) \<Rightarrow> string \<Rightarrow> json \<Rightarrow> 'a option" where
  "json_get conv k v = Option.bind (json_at k v) conv"

definition player_login_assign :: "player_login \<Rightarrow> json" where
  "player_login_assign p =
     J_object [(''username'', J_string (lg_username p)), (''password'', J_string (lg_password p)),
               (''identity'', J_string (lg_identity p)), (''player_type'', J_number (sint (lg_player_type p)))]"

definition player_login_to :: "json \<Rightarrow> player_login option" where
  "player_login_to v =
     (case (json_get json_to_string ''username'' v, json_get json_to_string ''password'' v,
            json_get json_to_string ''identity'' v, json_get json_to_u32 ''player_type'' v) of
        (Some u, Some w, Some i, Some t) \<Rightarrow>
          Some \<lparr>lg_username = u, lg_password = w, lg_identity = i, lg_player_type = t\<rparr>
      | _ \<Rightarrow> None)"

definition login_session_assign :: "u64 \<Rightarrow> json" where
  "login_session_assign key = J_object [(''connection_key'', J_number (uint key))]"

definition login_session_to :: "json \<Rightarrow> u64 option" where
  "login_session_to v = json_get json_to_u64 ''connection_key'' v"

definition gamedata_assign :: "player_gamedata \<Rightarrow> json" where
  "gamedata_assign g =
     J_object [(''latest_pos'', J_number (uint (gd_latest_pos g))), (''spawn_pos'', J_number (uint (gd_spawn_pos g))),
               (''level'', J_number (uint (gd_level g))), (''exp'', J_number (uint (gd_exp g)))]"

definition gamedata_to :: "json \<Rightarrow> player_gamedata option" where
  "gamedata_to v =
     (case (json_get json_to_u64 ''latest_pos'' v, json_get json_to_u64 ''spawn_pos'' v,
            json_get json_to_u32 ''level'' v, json_get json_to_u32 ''exp'' v) of
        (Some l, Some s, Some n, Some e) \<Rightarrow>
          Some \<lparr>gd_latest_pos = l, gd_spawn_pos = s, gd_level = n, gd_exp = e\<rparr>
      | _ \<Rightarrow> None)"

definition chat_document_assign :: "chat_document \<Rightarrow> json" where
  "chat_document_assign d =
     J_object [(''sender_name'', J_string (cd_sender_name d)), (''receiver_name'', J_string (cd_receiver_name d)),
               (''message'', J_string (cd_message d))]"

definition chat_document_to :: "json \<Rightarrow> chat_document option" where
  "chat_document_to v =
     (case (json_get json_to_string ''sender_name'' v, json_get json_to_string ''receiver_name'' v,
            json_get json_to_string ''message'' v) of
        (Some s, Some r, Some m) \<Rightarrow> Some \<lparr>cd_sender_name = s, cd_receiver_name = r, cd_message = m\<rparr>
      | _ \<Rightarrow> None)"

lemma json_get_simps [simp]:
  "json_get conv k (J_object []) = None"
  "json_get conv k (J_object ((l, v) # fs)) = (if l = k then conv v else json_get conv k (J_object fs))"
  by (simp_all add: json_get_def)

text \<open>Every document is read back as it was written.\<close>

lemma documents_roundtrip:
  "player_login_to (player_login_assign p) = Some p"
  "login_session_to (login_session_assign key) = Some key"
  "gamedata_to (gamedata_assign g) = Some g"
  "chat_document_to (chat_document_assign d) = Some d"
  by (simp_all add: player_login_to_def player_login_assign_def login_session_to_def login_session_assign_def
      gamedata_to_def gamedata_assign_def chat_document_to_def chat_document_assign_def)

subsection \<open>Operations\<close>

text \<open>
  The cluster: a \<open>get\<close> finds a document, finds none or fails; writing says whether it succeeded.
\<close>

record 'db kv_store =
  kv_get :: "collection \<Rightarrow> bytes \<Rightarrow> 'db \<Rightarrow> json db_get"
  kv_upsert :: "collection \<Rightarrow> bytes \<Rightarrow> json \<Rightarrow> 'db \<Rightarrow> bool \<times> 'db"
  kv_insert :: "collection \<Rightarrow> bytes \<Rightarrow> json \<Rightarrow> 'db \<Rightarrow> bool \<times> 'db"
  kv_remove :: "collection \<Rightarrow> bytes \<Rightarrow> 'db \<Rightarrow> bool \<times> 'db"

definition get_document :: "'db kv_store \<Rightarrow> collection_mapping \<Rightarrow> collection_path \<Rightarrow> bytes \<Rightarrow> 'db \<Rightarrow> json db_get option" where
  "get_document kv m path name db = map_option (\<lambda>c. kv_get kv c (document_id path name) db) (m path)"

definition upsert_document ::
    "'db kv_store \<Rightarrow> collection_mapping \<Rightarrow> collection_path \<Rightarrow> bytes \<Rightarrow> json \<Rightarrow> 'db \<Rightarrow> (bool \<times> 'db) option" where
  "upsert_document kv m path name v db = map_option (\<lambda>c. kv_upsert kv c (document_id path name) v db) (m path)"

definition remove_document ::
    "'db kv_store \<Rightarrow> collection_mapping \<Rightarrow> collection_path \<Rightarrow> bytes \<Rightarrow> 'db \<Rightarrow> (bool \<times> 'db) option" where
  "remove_document kv m path name db = map_option (\<lambda>c. kv_remove kv c (document_id path name) db) (m path)"

text \<open>The identifier of an inserted document is a new UUID.\<close>

definition insert_document ::
    "bytes \<Rightarrow> 'db kv_store \<Rightarrow> collection_mapping \<Rightarrow> collection_path \<Rightarrow> json \<Rightarrow> 'db \<Rightarrow> (bool \<times> 'db) option" where
  "insert_document uuid kv m path v db = map_option (\<lambda>c. kv_insert kv c uuid v db) (m path)"

text \<open>\<open>content_as\<close>, which throws when the document has another form; so does a collection that is missing.\<close>

definition content_as :: "(json \<Rightarrow> 'a option) \<Rightarrow> json db_get option \<Rightarrow> 'a db_get" where
  "content_as conv r =
     (case r of
        None \<Rightarrow> Db_malformed
      | Some Db_not_found \<Rightarrow> Db_not_found
      | Some Db_error \<Rightarrow> Db_error
      | Some Db_malformed \<Rightarrow> Db_malformed
      | Some (Db_found v) \<Rightarrow> (case conv v of None \<Rightarrow> Db_malformed | Some x \<Rightarrow> Db_found x))"

definition written :: "'db \<Rightarrow> (bool \<times> 'db) option \<Rightarrow> bool \<times> 'db" where
  "written db r = (case r of None \<Rightarrow> (False, db) | Some r \<Rightarrow> r)"

text \<open>The documents that the login server uses.\<close>

definition login_store_of :: "'db kv_store \<Rightarrow> collection_mapping \<Rightarrow> 'db login_store" where
  "login_store_of kv m =
     \<lparr>ls_get_login = (\<lambda>u db. content_as player_login_to (get_document kv m CP_player_login u db)),
      ls_get_session = (\<lambda>u db. content_as login_session_to (get_document kv m CP_player_login_session u db)),
      ls_upsert_session = (\<lambda>u k db. written db (upsert_document kv m CP_player_login_session u (login_session_assign k) db)),
      ls_remove_session = (\<lambda>u db. written db (remove_document kv m CP_player_login_session u db))\<rparr>"

text \<open>\<open>PlayerGamedata::save\<close>, with whether the document was written, and the loading at a login.\<close>

definition save_gamedata :: "'db kv_store \<Rightarrow> collection_mapping \<Rightarrow> player \<Rightarrow> 'db \<Rightarrow> bool \<times> 'db" where
  "save_gamedata kv m p db =
     (if is_support_gamedata_saving p
      then written db (upsert_document kv m CP_player_gamedata (pl_uuid p) (gamedata_assign (pl_gamedata p)) db)
      else (False, db))"

definition load_gamedata :: "'db kv_store \<Rightarrow> collection_mapping \<Rightarrow> bytes \<Rightarrow> 'db \<Rightarrow> player_gamedata db_get" where
  "load_gamedata kv m uuid db = content_as gamedata_to (get_document kv m CP_player_gamedata uuid db)"

text \<open>\<open>PlayerLoginSession::load\<close>: the session is left alone when there is none or the \<open>get\<close> fails.\<close>

definition load_session :: "'db kv_store \<Rightarrow> collection_mapping \<Rightarrow> bytes \<Rightarrow> u64 \<Rightarrow> 'db \<Rightarrow> u64" where
  "load_session kv m player_name sess db =
     (case content_as login_session_to (get_document kv m CP_player_login_session player_name db) of
        Db_found key \<Rightarrow> key | _ \<Rightarrow> sess)"
subsection \<open>The laws of the cluster\<close>

text \<open>
  What is relied on: a document that was written is read back and a removed one is not found; an
  operation on one document leaves every other document of every collection alone.
\<close>

definition key_value_store :: "'db kv_store \<Rightarrow> bool" where
  "key_value_store kv \<longleftrightarrow>
     (\<forall>c i v db. fst (kv_upsert kv c i v db) \<longrightarrow> kv_get kv c i (snd (kv_upsert kv c i v db)) = Db_found v) \<and>
     (\<forall>c i v db c' i'. (c', i') \<noteq> (c, i) \<longrightarrow>
        kv_get kv c' i' (snd (kv_upsert kv c i v db)) = kv_get kv c' i' db) \<and>
     (\<forall>c i db. fst (kv_remove kv c i db) \<longrightarrow> kv_get kv c i (snd (kv_remove kv c i db)) = Db_not_found) \<and>
     (\<forall>c i db c' i'. (c', i') \<noteq> (c, i) \<longrightarrow> kv_get kv c' i' (snd (kv_remove kv c i db)) = kv_get kv c' i' db)"

lemma key_value_storeD:
  assumes "key_value_store kv"
  shows "fst (kv_upsert kv c i v db) \<Longrightarrow> kv_get kv c i (snd (kv_upsert kv c i v db)) = Db_found v"
    and "(c', i') \<noteq> (c, i) \<Longrightarrow> kv_get kv c' i' (snd (kv_upsert kv c i v db)) = kv_get kv c' i' db"
    and "fst (kv_remove kv c i db) \<Longrightarrow> kv_get kv c i (snd (kv_remove kv c i db)) = Db_not_found"
    and "(c', i') \<noteq> (c, i) \<Longrightarrow> kv_get kv c' i' (snd (kv_remove kv c i db)) = kv_get kv c' i' db"
proof -
  note k = assms [unfolded key_value_store_def]
  show "fst (kv_upsert kv c i v db) \<Longrightarrow> kv_get kv c i (snd (kv_upsert kv c i v db)) = Db_found v"
    using k [THEN conjunct1] by blast
  show "(c', i') \<noteq> (c, i) \<Longrightarrow> kv_get kv c' i' (snd (kv_upsert kv c i v db)) = kv_get kv c' i' db"
    using k [THEN conjunct2, THEN conjunct1] by blast
  show "fst (kv_remove kv c i db) \<Longrightarrow> kv_get kv c i (snd (kv_remove kv c i db)) = Db_not_found"
    using k [THEN conjunct2, THEN conjunct2, THEN conjunct1] by blast
  show "(c', i') \<noteq> (c, i) \<Longrightarrow> kv_get kv c' i' (snd (kv_remove kv c i db)) = kv_get kv c' i' db"
    using k [THEN conjunct2, THEN conjunct2, THEN conjunct2] by blast
qed

text \<open>A map of documents is such a cluster.\<close>

definition map_cluster :: "(collection \<times> bytes \<Rightarrow> json option) kv_store" where
  "map_cluster =
     \<lparr>kv_get = (\<lambda>c i db. case db (c, i) of None \<Rightarrow> Db_not_found | Some v \<Rightarrow> Db_found v),
      kv_upsert = (\<lambda>c i v db. (True, db((c, i) \<mapsto> v))),
      kv_insert = (\<lambda>c i v db. if db (c, i) = None then (True, db((c, i) \<mapsto> v)) else (False, db)),
      kv_remove = (\<lambda>c i db. (db (c, i) \<noteq> None, db((c, i) := None)))\<rparr>"

lemma map_cluster_laws: "key_value_store map_cluster"
  by (auto simp: key_value_store_def map_cluster_def split: option.splits)

abbreviation connected_collections :: collection_mapping where
  "connected_collections \<equiv> connect_collections (\<lambda>_. None)"

definition collection_at :: "collection_path \<Rightarrow> collection" where
  "collection_at path =
     (if path = CP_player_login_session then cached_bucket_name else standard_bucket_name, collection_name path)"

lemma collection_name_inject [simp]: "collection_name p = collection_name q \<longleftrightarrow> p = q"
  by (cases p; cases q; simp)

lemma collection_at_inject [simp]: "collection_at p = collection_at q \<longleftrightarrow> p = q"
  by (simp add: collection_at_def)

lemma connected_collections [simp]:
  "connected_collections CP_player_login = Some (collection_at CP_player_login)"
  "connected_collections CP_player_gamedata = Some (collection_at CP_player_gamedata)"
  "connected_collections CP_player_login_session = Some (collection_at CP_player_login_session)"
  "connected_collections CP_chat_message_common = None"
  "connected_collections CP_chat_message_private = None"
  "connected_collections CP_chat_message_permanent = None"
  by (simp_all add: connect_collections_def connect_collection_def collection_at_def)

lemma document_id_inject [simp]: "document_id path u = document_id path v \<longleftrightarrow> u = v"
  by (simp add: document_id_def)

lemma content_as_found: "conv v = Some x \<Longrightarrow> content_as conv (Some (Db_found v)) = Db_found x"
  by (simp add: content_as_def)

text \<open>Reading after writing, in the collections that are connected.\<close>

lemma get_after_upsert:
  assumes "key_value_store kv" "m path = Some (collection_at path)" "m path' = Some (collection_at path')"
    and "path' = path \<and> u = v \<longrightarrow> fst (written db (upsert_document kv m path u x db))"
  shows "get_document kv m path' v (snd (written db (upsert_document kv m path u x db))) =
     (if path' = path \<and> u = v then Some (Db_found x) else get_document kv m path' v db)"
proof (cases "path' = path \<and> u = v")
  case True
  then show ?thesis
    using assms key_value_storeD(1) [OF assms(1), of "collection_at path" "document_id path u" x db]
    by (simp add: get_document_def upsert_document_def written_def)
next
  case False
  then have "(collection_at path', document_id path' v) \<noteq> (collection_at path, document_id path u)" by auto
  from key_value_storeD(2) [OF assms(1) this] show ?thesis
    using assms(2,3) False by (auto simp add: get_document_def upsert_document_def written_def)
qed

lemma get_after_remove:
  assumes "key_value_store kv" "m path = Some (collection_at path)" "m path' = Some (collection_at path')"
    and "path' = path \<and> u = v \<longrightarrow> fst (written db (remove_document kv m path u db))"
  shows "get_document kv m path' v (snd (written db (remove_document kv m path u db))) =
     (if path' = path \<and> u = v then Some Db_not_found else get_document kv m path' v db)"
proof (cases "path' = path \<and> u = v")
  case True
  then show ?thesis
    using assms key_value_storeD(3) [OF assms(1), of "collection_at path" "document_id path u" db]
    by (simp add: get_document_def remove_document_def written_def)
next
  case False
  then have "(collection_at path', document_id path' v) \<noteq> (collection_at path, document_id path u)" by auto
  from key_value_storeD(4) [OF assms(1) this] show ?thesis
    using assms(2,3) False by (auto simp add: get_document_def remove_document_def written_def)
qed

text \<open>Over such a cluster the login server's store keeps one session per user.\<close>

lemma login_store_sessions:
  assumes "key_value_store kv"
  shows "session_store (login_store_of kv connected_collections)"
  unfolding session_store_def
  by (auto simp: login_store_of_def get_after_upsert [OF assms] get_after_remove [OF assms]
      content_as_def documents_roundtrip)

subsection \<open>Logins\<close>

text \<open>The document of a user, and the session document.\<close>

definition has_login :: "'db kv_store \<Rightarrow> bytes \<Rightarrow> player_login \<Rightarrow> 'db \<Rightarrow> bool" where
  "has_login kv u l db \<longleftrightarrow>
     get_document kv connected_collections CP_player_login u db = Some (Db_found (player_login_assign l))"

definition session_document :: "'db kv_store \<Rightarrow> bytes \<Rightarrow> 'db \<Rightarrow> json db_get option" where
  "session_document kv u db = get_document kv connected_collections CP_player_login_session u db"

lemma login_store_get:
  "has_login kv u l db \<Longrightarrow> ls_get_login (login_store_of kv connected_collections) u db = Db_found l"
  "session_document kv u db = Some Db_not_found \<Longrightarrow>
     ls_get_session (login_store_of kv connected_collections) u db = Db_not_found"
  by (simp_all add: has_login_def session_document_def login_store_of_def content_as_def documents_roundtrip)

text \<open>
  C14: Logins over the document database: when one user logs in twice, both times with the right password,
  the second answer names the connection of the first, so that the game server can close it; what
  is stored for the user is then the second connection, and no other user's session has changed.
\<close>

theorem one_session_per_user:
  assumes kv: "key_value_store kv" and writes: "\<And>c i v db. fst (kv_upsert kv c i v db)"
    and first: "packet_message dec handshake_parse r = Some (key, packet)"
    and second: "packet_message dec handshake_parse q = Some (key', packet')"
    and user: "hs_username packet = u" "hs_username packet' = u"
    and login: "has_login kv u l (ln_db s)" "hs_password packet = lg_password l" "hs_password packet' = lg_password l"
    and none: "session_document kv u (ln_db s) = Some Db_not_found" and key: "key \<noteq> 0"
  shows "\<exists>s1 s2. handle_handshake_packet dec (login_store_of kv connected_collections) r s = Some s1 \<and>
    handle_handshake_packet dec (login_store_of kv connected_collections) q s1 = Some s2 \<and>
    ln_sent s2 = ln_sent s @
      [(mr_reply_address r, MSG_packet_handshake, PacketHandshakeResponse key 0 0 (lg_player_type l) (lg_identity l)),
       (mr_reply_address q, MSG_packet_handshake, PacketHandshakeResponse key' key 0 (lg_player_type l) (lg_identity l))] \<and>
    (\<forall>v. session_document kv v (ln_db s2) =
       (if v = u then Some (Db_found (login_session_assign key')) else session_document kv v (ln_db s)))"
proof -
  let ?st = "login_store_of kv connected_collections"
  let ?up = "\<lambda>k db. snd (ls_upsert_session ?st u k db)"
  note sessions = login_store_sessions [OF kv]
  have written: "fst (ls_upsert_session ?st u k db)" for k db
    by (simp add: login_store_of_def written_def upsert_document_def writes)
  have doc: "session_document kv v (?up k db) = (if v = u then Some (Db_found (login_session_assign k)) else session_document kv v db)"
    for v k db
    using get_after_upsert [OF kv, of connected_collections CP_player_login_session CP_player_login_session u v db "login_session_assign k"]
      written [of k db]
    by (auto simp: session_document_def login_store_of_def)
  obtain s1 where s1: "handle_handshake_packet dec ?st r s = Some s1" "ln_db s1 = ?up key (ln_db s)"
      "ln_sent s1 = ln_sent s @ [(mr_reply_address r, MSG_packet_handshake,
         PacketHandshakeResponse key 0 0 (lg_player_type l) (lg_identity l))]"
    using login_accepted [OF first, of ?st s l 0] user login login_store_get [of kv u] none by simp
  have "ls_get_session ?st u (ln_db s1) = Db_found key" "ls_get_login ?st u (ln_db s1) = Db_found l"
    using sessions written login_store_get(1) [OF login(1)] unfolding session_store_def s1(2) by simp_all
  then obtain s2 where "handle_handshake_packet dec ?st q s1 = Some s2" "ln_db s2 = ?up key' (ln_db s1)"
      "ln_sent s2 = ln_sent s1 @ [(mr_reply_address q, MSG_packet_handshake,
         PacketHandshakeResponse key' key 0 (lg_player_type l) (lg_identity l))]"
    using login_accepted [OF second, of ?st s1 l key] user login(3) key by simp
  with s1 show ?thesis by (auto simp: doc)
qed

text \<open>A database of one user without a password.\<close>

definition one_user_db :: "bytes \<Rightarrow> collection \<times> bytes \<Rightarrow> json option" where
  "one_user_db u =
     [(collection_at CP_player_login, document_id CP_player_login u) \<mapsto>
       player_login_assign \<lparr>lg_username = u, lg_password = [], lg_identity = [9], lg_player_type = 2\<rparr>]"

lemma one_user_db:
  "has_login map_cluster u \<lparr>lg_username = u, lg_password = [], lg_identity = [9], lg_player_type = 2\<rparr> (one_user_db u)"
  "session_document map_cluster u (one_user_db u) = Some Db_not_found"
  by (simp_all add: has_login_def session_document_def get_document_def map_cluster_def one_user_db_def)

theorem one_session_per_user_witness:
  "\<exists>s1 s2. handle_handshake_packet login_codec (login_store_of map_cluster connected_collections)
      (mr_set_size 2 (message_request_new [0, 1] 0)) \<lparr>ln_comm = communicator_new, ln_db = one_user_db [0x61], ln_sent = []\<rparr> = Some s1 \<and>
    handle_handshake_packet login_codec (login_store_of map_cluster connected_collections)
      (mr_set_size 2 (message_request_new [0, 2] 0)) s1 = Some s2 \<and>
    ln_sent s2 = [(ip_address_empty, MSG_packet_handshake, PacketHandshakeResponse 7 0 0 2 [9]),
      (ip_address_empty, MSG_packet_handshake, PacketHandshakeResponse 8 7 0 2 [9])] \<and>
    session_document map_cluster [0x61] (ln_db s2) = Some (Db_found (login_session_assign 8))"
proof -
  let ?r = "\<lambda>b. mr_set_size 2 (message_request_new [0, b] 0)"
  let ?s = "\<lparr>ln_comm = communicator_new, ln_db = one_user_db [0x61], ln_sent = []\<rparr>"
  have p: "packet_message login_codec handshake_parse (?r 1) = Some (7, sample_handshake)"
    "packet_message login_codec handshake_parse (?r 2) = Some (8, sample_handshake)"
    by (simp_all add: login_codec_parses mr_set_size_def mr_capacity_def message_request_new_def mr_reset_def segment_def)
  have a: "mr_reply_address (?r b) = ip_address_empty" for b
    by (simp add: mr_set_size_def mr_capacity_def message_request_new_def mr_reset_def)
  have w: "fst (kv_upsert map_cluster c i v db)" for c i v db
    by (simp add: map_cluster_def)
  let ?l = "\<lparr>lg_username = [0x61], lg_password = [], lg_identity = [9], lg_player_type = 2\<rparr>"
  have l: "has_login map_cluster [0x61] ?l (ln_db ?s)" "session_document map_cluster [0x61] (ln_db ?s) = Some Db_not_found"
    by (simp_all add: one_user_db)
  have h: "hs_username sample_handshake = [0x61]" "hs_password sample_handshake = lg_password ?l"
    by (simp_all add: sample_handshake_def)
  have k: "(7 :: u64) \<noteq> 0" by simp
  from one_session_per_user [OF map_cluster_laws w p h(1) h(1) l(1) h(2) h(2) l(2) k] obtain s1 s2 where
    "handle_handshake_packet login_codec (login_store_of map_cluster connected_collections) (?r 1) ?s = Some s1"
    "handle_handshake_packet login_codec (login_store_of map_cluster connected_collections) (?r 2) s1 = Some s2"
    "ln_sent s2 = [(ip_address_empty, MSG_packet_handshake, PacketHandshakeResponse 7 0 0 2 [9]),
      (ip_address_empty, MSG_packet_handshake, PacketHandshakeResponse 8 7 0 2 [9])]"
    "session_document map_cluster [0x61] (ln_db s2) = Some (Db_found (login_session_assign 8))"
    by (auto simp: a)
  then show ?thesis by blast
qed

subsection \<open>Game data\<close>

text \<open>
  C15: The game data that a disconnecting player leaves is what the same user gets at the next login,
  whatever was saved of users with other identities in between.
\<close>

theorem gamedata_survives_logout:
  assumes kv: "key_value_store kv"
    and saved: "save_gamedata kv connected_collections p db0 = (True, db)"
    and others: "\<And>q. q \<in> set qs \<Longrightarrow> pl_uuid q \<noteq> pl_uuid p"
    and conn: "try_acquire_connection key (ns_env s) = Some (Some i)" "associated_player i s = Some a"
  shows "handshake_response_resume now key
      (load_gamedata kv connected_collections (pl_uuid p) (fold (\<lambda>q db. snd (save_gamedata kv connected_collections q db)) qs db)) s =
    Some (upd_player a (\<lambda>q. transit_state (set_gamedata (pl_gamedata p) q)) s)"
proof -
  let ?m = connected_collections
  let ?doc = "get_document kv ?m CP_player_gamedata (pl_uuid p)"
  have ok: "is_support_gamedata_saving p" using saved by (auto simp: save_gamedata_def split: if_splits)
  have "?doc db = Some (Db_found (gamedata_assign (pl_gamedata p)))"
    using get_after_upsert [OF kv, of ?m CP_player_gamedata CP_player_gamedata "pl_uuid p" "pl_uuid p" db0
        "gamedata_assign (pl_gamedata p)"] saved ok
    by (simp add: save_gamedata_def)
  moreover have "?doc (snd (save_gamedata kv ?m q d)) = ?doc d" if "q \<in> set qs" for q d
    using get_after_upsert [OF kv, of ?m CP_player_gamedata CP_player_gamedata "pl_uuid q" "pl_uuid p" d] others [OF that]
    by (simp add: save_gamedata_def)
  then have "?doc (fold (\<lambda>q db. snd (save_gamedata kv ?m q db)) qs db) = ?doc db"
  proof (induction qs arbitrary: db)
    case (Cons q qs)
    from Cons.IH [of "snd (save_gamedata kv ?m q db)"] Cons.prems show ?case by simp
  qed simp
  ultimately show ?thesis
    using conn by (simp add: load_gamedata_def content_as_def documents_roundtrip handshake_response_resume_def)
qed

definition saved_player :: player where
  "saved_player = sample_player\<lparr>pl_type := 3, pl_uuid := [9], pl_gamedata := \<lparr>gd_latest_pos = 5, gd_spawn_pos = 6, gd_level = 7, gd_exp = 8\<rparr>\<rparr>"

theorem gamedata_survives_logout_witness:
  "\<exists>db. save_gamedata map_cluster connected_collections saved_player (\<lambda>_. None) = (True, db) \<and>
    handshake_response_resume 0 (key_make 0 9)
      (load_gamedata map_cluster connected_collections [9] (snd (save_gamedata map_cluster connected_collections sample_player db)))
      (with_player sample_player (sample_server 2)) =
    Some (upd_player 0 (\<lambda>q. transit_state (set_gamedata (pl_gamedata saved_player) q)) (with_player sample_player (sample_server 2)))"
proof -
  have u: "pl_uuid saved_player = [9]" "pl_uuid sample_player = []"
    by (simp_all add: saved_player_def sample_player_def player_ctor_def)
  have ok: "is_support_gamedata_saving saved_player"
    by (simp add: is_support_gamedata_saving_def saved_player_def)
  obtain db where s: "save_gamedata map_cluster connected_collections saved_player (\<lambda>_. None) = (True, db)"
    by (simp add: save_gamedata_def ok written_def upsert_document_def map_cluster_def)
  note g = with_player_sample [of sample_player]
  have a: "associated_player 0 (with_player sample_player (sample_server 2)) = Some 0"
    using g(2) by (auto simp: associated_player_def)
  from gamedata_survives_logout [OF map_cluster_laws s _ g(5) a, of "[sample_player]" 0] u
  show ?thesis using s by (intro exI [of _ db]) simp
qed

text \<open>
  Players without an identity share one document: a guest who leaves overwrites the game data of
  the guest who left before.
\<close>

lemma guests_share_gamedata:
  assumes "key_value_store kv" "\<And>c i v db. fst (kv_upsert kv c i v db)"
    and "pl_uuid p = []" "pl_uuid q = []" "is_support_gamedata_saving q"
  shows "load_gamedata kv connected_collections (pl_uuid p)
      (snd (save_gamedata kv connected_collections q (snd (save_gamedata kv connected_collections p db)))) =
    Db_found (pl_gamedata q)"
proof -
  have "get_document kv connected_collections CP_player_gamedata [] (snd (written d
      (upsert_document kv connected_collections CP_player_gamedata [] x d))) = Some (Db_found x)" for d x
    using get_after_upsert [OF assms(1), of connected_collections CP_player_gamedata CP_player_gamedata "[]" "[]" d x] assms(2)
    by (simp add: written_def upsert_document_def)
  then show ?thesis
    using assms by (simp add: save_gamedata_def load_gamedata_def content_as_def documents_roundtrip)
qed

subsection \<open>The chat log\<close>

text \<open>
  No common chat is ever logged: the collection for it is connected by no server (the chat server
  connects none at all), so that the operation throws; the coroutine swallows the exception, and the
  handler reports that the message was handled.
\<close>

theorem common_chat_is_never_logged:
  "\<forall>m \<in> {\<lambda>_. None, connected_collections}.
     insert_document uuid kv m CP_chat_message_common (chat_document_assign d) db = None \<and>
     (case chat_handle_message dec (m CP_chat_message_common \<noteq> None) r s of
        None \<Rightarrow> True
      | Some (handled, s') \<Rightarrow> cs_inserted s' = cs_inserted s \<and>
          (mr_message_id r = message_id_value MSG_chat_command \<longrightarrow> handled))"
  by (auto simp: insert_document_def chat_handle_message_def handle_chat_command_def Let_def
      split: option.splits proto_message.splits)

theorem common_chat_is_never_logged_witness:
  "insert_document [1] map_cluster connected_collections CP_chat_message_common
     (chat_document_assign \<lparr>cd_sender_name = [0x61], cd_receiver_name = [], cd_message = [0x62]\<rparr>) (\<lambda>_. None) = None"
proof -
  have m: "connected_collections \<in> {\<lambda>_. None, connected_collections}" by blast
  from bspec [OF common_chat_is_never_logged m, THEN conjunct1] show ?thesis .
qed

end
