(* ===== verification/Joining.thy ===== *)
theory Joining
  imports Game_System
begin

section \<open>Joining the world\<close>

text \<open>
  What the invariants of \<open>Game_System\<close> leave open: that a player who has passed the handshake gets
  into the world. The way there is two ticks of \<open>game::World\<close> and the completion of the two tasks that
  they schedule (\<open>World::tick\<close>, \<open>World::sync_block\<close>, \<open>World::spawn_player\<close> of \<open>game/world.cpp\<close>). The lemmas
  follow one player through them while the same operations serve all others: what is done for
  another connection touches neither this player nor its connection.
\<close>

subsection \<open>What serving one connection touches\<close>

text \<open>
  Only the connection in slot \<open>j\<close> and the player at \<open>b\<close> change; the world's two queues of players
  only grow, and only by players that exist.
\<close>

definition queues_grow :: "'a world_scheme \<Rightarrow> 'a world_scheme \<Rightarrow> bool" where
  "queues_grow s s' \<longleftrightarrow>
     w_metadata s' = w_metadata s \<and> w_block_mapping s' = w_block_mapping s \<and>
     (\<exists>ps. w_sync_block_task s' = fold bs_push_player ps (w_sync_block_task s) \<and> set ps \<subseteq> dom (ns_heap s)) \<and>
     (\<exists>ps. w_spawn_player_task s' = fold wp_push ps (w_spawn_player_task s) \<and> set ps \<subseteq> dom (ns_heap s))"

definition touches_only :: "nat \<Rightarrow> nat \<Rightarrow> 'a world_scheme \<Rightarrow> 'a world_scheme \<Rightarrow> bool" where
  "touches_only j b s s' \<longleftrightarrow>
     dom (ns_heap s') = dom (ns_heap s) \<and> queues_grow s s' \<and>
     (\<forall>i. i \<noteq> j \<longrightarrow> conn_of i s' = conn_of i s \<and>
        ce_will_delete (env_table (ns_env s') ! i) = ce_will_delete (env_table (ns_env s) ! i)) \<and>
     (\<forall>a. a \<noteq> b \<longrightarrow> ns_heap s' a = ns_heap s a)"

lemma queues_grow_refl [simp]: "queues_grow s s"
  by (auto simp: queues_grow_def intro: exI [of _ "[]"])

lemma queues_grow_trans:
  assumes "queues_grow s t" "queues_grow t u" "dom (ns_heap t) = dom (ns_heap s)"
  shows "queues_grow s u"
proof -
  from assms(1) obtain ps qs where 1: "w_sync_block_task t = fold bs_push_player ps (w_sync_block_task s)" "set ps \<subseteq> dom (ns_heap s)"
    "w_spawn_player_task t = fold wp_push qs (w_spawn_player_task s)" "set qs \<subseteq> dom (ns_heap s)"
    unfolding queues_grow_def by blast
  from assms(2) obtain ps' qs' where 2: "w_sync_block_task u = fold bs_push_player ps' (w_sync_block_task t)" "set ps' \<subseteq> dom (ns_heap t)"
    "w_spawn_player_task u = fold wp_push qs' (w_spawn_player_task t)" "set qs' \<subseteq> dom (ns_heap t)"
    unfolding queues_grow_def by blast
  have "w_sync_block_task u = fold bs_push_player (ps @ ps') (w_sync_block_task s)" "set (ps @ ps') \<subseteq> dom (ns_heap s)"
    "w_spawn_player_task u = fold wp_push (qs @ qs') (w_spawn_player_task s)" "set (qs @ qs') \<subseteq> dom (ns_heap s)"
    using 1 2 assms(3) by simp_all
  moreover have "w_metadata u = w_metadata s" "w_block_mapping u = w_block_mapping s"
    using assms(1,2) by (simp_all add: queues_grow_def)
  ultimately show ?thesis unfolding queues_grow_def by blast
qed

lemma touches_refl [simp]: "touches_only j b s s"
  by (simp add: touches_only_def)

lemma touches_trans [trans]: "touches_only j b s t \<Longrightarrow> touches_only j b t u \<Longrightarrow> touches_only j b s u"
  unfolding touches_only_def using queues_grow_trans by (metis (no_types, lifting))

lemma world_fields_of_more:
  fixes s t :: "'a world_scheme"
  assumes "net_state.more s = net_state.more t"
  shows "w_metadata s = w_metadata t" "w_block_mapping s = w_block_mapping t"
    "w_sync_block_task s = w_sync_block_task t" "w_spawn_player_task s = w_spawn_player_task t"
  using assms by (cases s; cases t; simp)+

lemma queues_grow_more:
  fixes s t :: "'a world_scheme"
  assumes "net_state.more t = net_state.more s"
  shows "queues_grow s t"
  using world_fields_of_more [OF assms] unfolding queues_grow_def by (auto intro: exI [of _ "[]"])

lemma touches_upd_conn: "touches_only j b s (upd_conn j f s)"
  by (auto simp: touches_only_def conn_of_upd_conn queues_grow_more) (auto simp: upd_conn_def Let_def nth_list_update)

lemma touches_on_io: "touches_only j b s (snd (on_io j f s))"
  by (simp add: on_io_def touches_upd_conn case_prod_beta split: option.split)

lemma touches_upd_player: "touches_only j b s (upd_player b f s)"
  by (auto simp: touches_only_def queues_grow_more)

lemma touches_set_offline:
  fixes s :: "'a world_scheme"
  assumes wf: "net_wf s" and j: "conn_of j s \<noteq> None"
  shows "touches_only j b s (set_offline now j s)"
proof -
  have "j < length (env_table (ns_env s))" using j conn_of_lt by blast
  from env_set_offline_effect(5,6) [OF net_wfD(1) [OF wf] this, of now] show ?thesis
    using conn_of_set_offline [OF wf, of _ now j] by (simp add: touches_only_def queues_grow_more) (simp add: set_offline_def)
qed

lemma touches_queues:
  "b \<in> dom (ns_heap s) \<Longrightarrow> touches_only j b s (s\<lparr>w_sync_block_task := bs_push_player b (w_sync_block_task s)\<rparr>)"
  "b \<in> dom (ns_heap s) \<Longrightarrow> touches_only j b s (s\<lparr>w_spawn_player_task := wp_push b (w_spawn_player_task s)\<rparr>)"
  "touches_only j b s (s\<lparr>w_disconnect_player_task := t\<rparr>)"
proof -
  show "touches_only j b s (s\<lparr>w_sync_block_task := bs_push_player b (w_sync_block_task s)\<rparr>)" if "b \<in> dom (ns_heap s)"
    using that by (auto simp: touches_only_def queues_grow_def conn_of_def intro: exI [of _ "[b]"] exI [of _ "[]"])
  show "touches_only j b s (s\<lparr>w_spawn_player_task := wp_push b (w_spawn_player_task s)\<rparr>)" if "b \<in> dom (ns_heap s)"
    using that by (auto simp: touches_only_def queues_grow_def conn_of_def intro: exI [of _ "[b]"] exI [of _ "[]"])
  show "touches_only j b s (s\<lparr>w_disconnect_player_task := t\<rparr>)"
    by (auto simp: touches_only_def queues_grow_def conn_of_def intro: exI [of _ "[]"])
qed

lemma touches_same:
  assumes "ns_env t = ns_env s" "ns_heap t = ns_heap s" "w_metadata t = w_metadata s"
    "w_block_mapping t = w_block_mapping s" "w_sync_block_task t = w_sync_block_task s"
    "w_spawn_player_task t = w_spawn_player_task s"
  shows "touches_only j b s t"
proof -
  have "queues_grow s t"
    unfolding queues_grow_def using assms(3-6) by (intro conjI exI [of _ "[]"]) simp_all
  with assms(1,2) show ?thesis by (simp add: touches_only_def conn_of_def)
qed

lemma touches_gs_send: "touches_only j b s (gs_send m s)"
  unfolding gs_send_def by (rule touches_same) simp_all

lemma touches_on_disconnect: "touches_only j b s (game_on_disconnect k s)"
proof (cases "associated_player k s")
  case (Some a)
  show ?thesis
  proof (cases "ns_heap s a")
    case heap: (Some p)
    show ?thesis
      by (cases "S_handshaked \<le> ps_cur p") (simp_all only: game_on_disconnect_def Some heap option.case if_True if_False
          touches_gs_send touches_refl)
  qed (simp only: game_on_disconnect_def Some option.case touches_refl)
qed (simp only: game_on_disconnect_def option.case touches_refl)

lemma touches_disconnect:
  assumes wf: "net_wf s" and b: "associated_player j s = Some b" and heap: "ns_heap s b \<noteq> None"
  shows "touches_only j b s (disconnect game_on_disconnect now j s)"
proof -
  have j: "conn_of j s \<noteq> None" using b by (auto simp: associated_player_def split: option.splits)
  have k: "net_wf (game_on_disconnect j s)" "conn_of j (game_on_disconnect j s) \<noteq> None"
    using game_on_disconnect_keeps [OF wf j] by (auto dest: keepsD)
  have off: "touches_only j b s (set_offline now j (game_on_disconnect j s))"
    using touches_trans [OF touches_on_disconnect touches_set_offline [OF k]] .
  from heap obtain p where p: "ns_heap s b = Some p" by blast
  have eq: "disconnect game_on_disconnect now j s =
    (if \<not> is_online j s then s
     else if S_handshaking \<le> ps_cur p then upd_player b (prepare_state_transition S_disconnecting S_disconnected) s
     else set_offline now j (game_on_disconnect j s))"
    by (simp add: disconnect_def b p)
  show ?thesis
    unfolding eq by (cases "is_online j s"; cases "S_handshaking \<le> ps_cur p")
      (simp_all only: if_True if_False not_True_eq_False not_False_eq_True touches_upd_player touches_refl off)
qed

lemma touches_handshake_success: "touches_only j b s (on_handshake_success cfg j p s)"
  unfolding on_handshake_success_def Let_def by (rule touches_trans [OF touches_trans]; rule touches_on_io)

text \<open>What the tick does for one connection.\<close>

lemma touches_transit:
  assumes wf: "net_wf s" and b: "associated_player j s = Some b" and heap: "ns_heap s b = Some p"
  shows "touches_only j b s (transit_player_state cfg order game_on_disconnect now j b s)"
proof -
  have level: "touches_only j b s (let s = on_handshake_success cfg j p s;
      s = upd_player b (prepare_state_transition S_level_initializing S_level_initialized) s
      in s\<lparr>w_sync_block_task := bs_push_player b (w_sync_block_task s)\<rparr>)"
  proof -
    let ?t = "upd_player b (prepare_state_transition S_level_initializing S_level_initialized) (on_handshake_success cfg j p s)"
    have "touches_only j b s ?t" using touches_trans [OF touches_handshake_success touches_upd_player] .
    also have "touches_only j b ?t (?t\<lparr>w_sync_block_task := bs_push_player b (w_sync_block_task ?t)\<rparr>)"
      using heap by (intro touches_queues) auto
    finally show ?thesis by (simp add: Let_def)
  qed
  have spawn: "touches_only j b s (let md = w_metadata s;
      s = upd_player b (set_spawn_coordinate (md_spawn_x md) (md_spawn_y md) (md_spawn_z md) False) s;
      s = upd_player b (set_spawn_orientation (md_spawn_yaw md) (md_spawn_pitch md) False) s;
      s = upd_player b (prepare_state_transition S_spawning S_spawned) s
      in s\<lparr>w_spawn_player_task := wp_push b (w_spawn_player_task s)\<rparr>)"
  proof -
    define t where "t = upd_player b (prepare_state_transition S_spawning S_spawned)
      (upd_player b (set_spawn_orientation (md_spawn_yaw (w_metadata s)) (md_spawn_pitch (w_metadata s)) False)
        (upd_player b (set_spawn_coordinate (md_spawn_x (w_metadata s)) (md_spawn_y (w_metadata s)) (md_spawn_z (w_metadata s)) False) s))"
    have "touches_only j b s t" unfolding t_def by (rule touches_trans [OF touches_trans]; rule touches_upd_player)
    also have "touches_only j b t (t\<lparr>w_spawn_player_task := wp_push b (w_spawn_player_task t)\<rparr>)"
      using heap by (intro touches_queues) (auto simp: t_def)
    finally show ?thesis by (simp add: t_def Let_def)
  qed
  have ext: "touches_only j b s (let (ok, s) = on_io j (send_packet ext_info_serialize) s
      in if \<not> ok then s
         else let (ok, s) = on_io j (send_packet (\<lambda>push. ext_entry_serialize push order)) s
              in if ok then upd_player b (prepare_state_transition S_extension_syncing S_extension_synced) s else s)"
  proof -
    obtain ok1 s1 where 1: "on_io j (send_packet ext_info_serialize) s = (ok1, s1)" by fastforce
    obtain ok2 s2 where 2: "on_io j (send_packet (\<lambda>push. ext_entry_serialize push order)) s1 = (ok2, s2)" by fastforce
    have k1: "touches_only j b s s1" using touches_on_io [of j b s] 1 by (metis snd_conv)
    have k2: "touches_only j b s1 s2" using touches_on_io [of j b s1] 2 by (metis snd_conv)
    show ?thesis
      using k1 touches_trans [OF k1 k2] touches_trans [OF touches_trans [OF k1 k2] touches_upd_player] by (simp add: 1 2)
  qed
  have ping: "touches_only j b s (upd_player b f (snd (on_io j send_ping s)))" for f
    using touches_trans [OF touches_on_io touches_upd_player] .
  have disc: "touches_only j b s (disconnect game_on_disconnect now j s)"
    using touches_disconnect [OF wf b] heap by simp
  show ?thesis
    using heap level spawn ext ping disc touches_queues(3)
    by (cases "ps_cur p") (simp_all add: transit_player_state_def)
qed

subsection \<open>One player through the tick\<close>

text \<open>The player at \<open>a\<close>, who belongs to the online connection \<open>c\<close> in slot \<open>i\<close>.\<close>

definition plays :: "nat \<Rightarrow> nat \<Rightarrow> connection \<Rightarrow> player \<Rightarrow> 'a net_state_scheme \<Rightarrow> bool" where
  "plays i a c p s \<longleftrightarrow>
     net_wf s \<and> conn_of i s = Some c \<and> cn_is_online c \<and> cn_player c = Some a \<and> ns_heap s a = Some p"

lemma playsD:
  assumes "plays i a c p s"
  shows "net_wf s" "conn_of i s = Some c" "cn_is_online c" "cn_player c = Some a" "ns_heap s a = Some p"
    "associated_player i s = Some a" "i < length (env_table (ns_env s))"
    "\<not> ce_will_delete (env_table (ns_env s) ! i)" "pl_key p = cn_key c"
    "try_acquire_connection (pl_key p) (ns_env s) = Some (Some i)"
proof -
  show p: "net_wf s" "conn_of i s = Some c" "cn_is_online c" "cn_player c = Some a" "ns_heap s a = Some p"
    using assms by (simp_all add: plays_def)
  show "associated_player i s = Some a" using p by (simp add: associated_player_def)
  show i: "i < length (env_table (ns_env s))" using p(2) by (rule conn_of_lt)
  have e: "ce_connection (env_table (ns_env s) ! i) = Some c" using p(2) i by (simp add: conn_of_def)
  have "entry_wf i (env_table (ns_env s) ! i)" using net_wfD(1) [OF p(1)] i by (simp add: env_wf_def)
  with e p(3) show "\<not> ce_will_delete (env_table (ns_env s) ! i)" by (simp add: entry_wf_def)
  show k: "pl_key p = cn_key c" using owners_wfD(1) [OF net_wfD(3) [OF p(1)] p(2,4)] p(5) by auto
  show "try_acquire_connection (pl_key p) (ns_env s) = Some (Some i)"
    using try_acquire_online [OF net_wfD(1) [OF p(1)] i e p(3)] by (simp add: k)
qed

text \<open>Serving the others leaves the player and its connection alone.\<close>

definition serves_others :: "nat \<Rightarrow> nat \<Rightarrow> 'a world_scheme \<Rightarrow> 'a world_scheme \<Rightarrow> bool" where
  "serves_others i a s s' \<longleftrightarrow>
     net_wf s' \<and> dom (ns_heap s') = dom (ns_heap s) \<and> queues_grow s s' \<and> conn_of i s' = conn_of i s \<and> ns_heap s' a = ns_heap s a"

lemma serves_others_refl: "net_wf s \<Longrightarrow> serves_others i a s s"
  by (simp add: serves_others_def)

lemma serves_others_trans: "serves_others i a s t \<Longrightarrow> serves_others i a t u \<Longrightarrow> serves_others i a s u"
  unfolding serves_others_def using queues_grow_trans by (metis (no_types, lifting))

lemma serves_others_plays: "serves_others i a s t \<Longrightarrow> plays i a c p s \<Longrightarrow> plays i a c p t"
  by (simp add: serves_others_def plays_def)

definition tick_slot ::
    "tcp_server_config \<Rightarrow> (bytes \<times> cpe_info) list \<Rightarrow> nat \<Rightarrow> nat \<Rightarrow> 'a game_server_scheme \<Rightarrow> 'a game_server_scheme" where
  "tick_slot cfg order now i s =
     (if \<not> ce_will_delete (env_table (ns_env s) ! i)
      then (case associated_player i s of
              None \<Rightarrow> s | Some a \<Rightarrow> transit_player_state cfg order game_on_disconnect now i a s) else s)"

lemma net_keeps_transit: "net_keeps s (transit_player_state cfg order game_on_disconnect now i a s)"
  by (rule transit_player_state_keeps) (rule game_sessions.net_keeps_disconnect)

lemma tick_slot_keeps: "net_wf s \<Longrightarrow> net_wf (tick_slot cfg order now i s)"
  using net_keeps_transit [of s cfg order now i "the (associated_player i s)"]
  by (cases "associated_player i s") (simp_all add: tick_slot_def net_keeps_def)

lemma tick_slot_other:
  assumes pl: "plays i a c p s" and j: "j \<noteq> i"
  shows "serves_others i a s (tick_slot cfg order now j s)"
proof -
  note p = playsD [OF pl]
  show ?thesis
  proof (cases "\<not> ce_will_delete (env_table (ns_env s) ! j) \<and> associated_player j s \<noteq> None")
    case True
    then obtain b d where b: "associated_player j s = Some b" "conn_of j s = Some d" "cn_player d = Some b"
      by (auto simp: associated_player_def split: option.splits)
    then have ne: "a \<noteq> b" using owners_wfD(2) [OF net_wfD(3) [OF p(1)] p(2) b(2) p(4)] j by auto
    from owners_wfD(1) [OF net_wfD(3) [OF p(1)] b(2,3)] obtain q where q: "ns_heap s b = Some q" by blast
    have "tick_slot cfg order now j s = transit_player_state cfg order game_on_disconnect now j b s"
      using True b by (simp add: tick_slot_def)
    with touches_transit [OF p(1) b(1) q] tick_slot_keeps [OF p(1)] ne j show ?thesis
      unfolding serves_others_def touches_only_def by metis
  next
    case False
    then have "tick_slot cfg order now j s = s" by (auto simp: tick_slot_def)
    then show ?thesis using p(1) by (simp add: serves_others_refl)
  qed
qed

lemma tick_others:
  "plays i a c p s \<Longrightarrow> i \<notin> set js \<Longrightarrow> serves_others i a s (fold (tick_slot cfg order now) js s)"
proof (induction js arbitrary: s)
  case Nil
  then show ?case by (simp add: serves_others_refl playsD(1))
next
  case (Cons j js)
  have 1: "serves_others i a s (tick_slot cfg order now j s)"
    using Cons.prems by (intro tick_slot_other) auto
  from Cons.IH [OF serves_others_plays [OF this Cons.prems(1)]] Cons.prems(2)
  have 2: "serves_others i a (tick_slot cfg order now j s) (fold (tick_slot cfg order now) js (tick_slot cfg order now j s))" by simp
  show ?case using serves_others_trans [OF 1 2] by simp
qed

text \<open>So the tick is: the slots before, the player's own, and the slots behind.\<close>

lemma tick_around:
  fixes s :: "'a game_server_scheme"
  assumes pl: "plays i a c p s"
  obtains s1 where "serves_others i a s s1"
    "\<And>c' p'. plays i a c' p' (transit_player_state cfg order game_on_disconnect now i a s1) \<Longrightarrow>
       serves_others i a (transit_player_state cfg order game_on_disconnect now i a s1)
         (for_each_player (transit_player_state cfg order game_on_disconnect now) s)"
proof -
  let ?n = "length (env_table (ns_env s))" and ?f = "tick_slot cfg order now"
  note p = playsD [OF pl]
  have split: "[0..<?n] = [0..<i] @ i # [Suc i..<?n]"
    using p(7) upt_add_eq_append [of 0 i "?n - i"] upt_conv_Cons [of i ?n] by simp
  have all: "for_each_player (transit_player_state cfg order game_on_disconnect now) s = fold ?f [0..<?n] s"
    unfolding for_each_player_def tick_slot_def by (rule refl)
  define s1 where "s1 = fold ?f [0..<i] s"
  have 1: "serves_others i a s s1" unfolding s1_def by (rule tick_others [OF pl]) simp
  note p1 = playsD [OF serves_others_plays [OF 1 pl]]
  have "?f i s1 = transit_player_state cfg order game_on_disconnect now i a s1"
    using p1(6,8) by (simp add: tick_slot_def)
  then have "for_each_player (transit_player_state cfg order game_on_disconnect now) s =
      fold ?f [Suc i..<?n] (transit_player_state cfg order game_on_disconnect now i a s1)"
    unfolding all split by (simp add: s1_def)
  then have "serves_others i a (transit_player_state cfg order game_on_disconnect now i a s1)
      (for_each_player (transit_player_state cfg order game_on_disconnect now) s)"
    if "plays i a c' p' (transit_player_state cfg order game_on_disconnect now i a s1)" for c' p'
    using tick_others [OF that, of "[Suc i..<?n]"] by simp
  with 1 show ?thesis using that by blast
qed

lemma fold_bs_push:
  "fold bs_push_player ps t = t\<lparr>bs_level_wait_player_queue := bs_level_wait_player_queue t @ ps\<rparr>"
  by (induction ps arbitrary: t) (simp_all add: bs_push_player_def)

lemma fold_wp_push: "fold wp_push ps t = t\<lparr>wp_players_queue := wp_players_queue t @ ps\<rparr>"
  by (induction ps arbitrary: t) (simp_all add: wp_push_def)

lemma schedule_net [simp]:
  "ns_env (snd (schedule_world_tasks now s)) = ns_env s" "ns_heap (snd (schedule_world_tasks now s)) = ns_heap s"
  "ns_next_addr (snd (schedule_world_tasks now s)) = ns_next_addr s"
  by (simp_all add: schedule_world_tasks_eq Let_def)

lemma plays_cong:
  assumes "ns_env t = ns_env s" "ns_heap t = ns_heap s" "ns_next_addr t = ns_next_addr s"
  shows "plays i a c p t = plays i a c p s"
  using assms net_wf_cong [OF assms] by (simp add: plays_def conn_of_def)

lemma on_io_push_pending:
  "conn_of i s = Some c \<Longrightarrow>
    conn_of i (snd (on_io i (cio_push bs) s)) = Some (c\<lparr>cn_io := snd (cio_push bs (cn_io c))\<rparr>)"
  by (simp add: on_io_def conn_of_upd_conn case_prod_beta)

lemma cio_push_pool [simp]: "cio_multicast_pool (snd (cio_push bs c)) = cio_multicast_pool c"
  by (simp add: cio_push_def case_prod_beta)

lemma handshake_success_conn:
  assumes "conn_of i s = Some c"
  obtains io where "conn_of i (on_handshake_success cfg i p s) = Some (c\<lparr>cn_io := io\<rparr>)"
    "cio_multicast_pool io = cio_multicast_pool (cn_io c)"
proof -
  obtain bs1 where 1: "send_packet (\<lambda>push. handshake_serialize push
      (handshake_reply (cfg_server_name cfg) (cfg_motd cfg) (if pl_type p = player_type_value PTY_admin then 64 else 0))) = cio_push bs1"
    by (rule that, rule ext) (unfold send_packet_def handshake_serialize_def, rule refl)
  obtain bs2 where 2: "send_packet (\<lambda>push. set_player_id_serialize push (set_player_id_make (ucast (game_id p)))) = cio_push bs2"
    by (rule that, rule ext) (unfold send_packet_def set_player_id_serialize_def, rule refl)
  obtain bs3 where 3: "send_packet level_init_serialize = cio_push bs3"
    by (rule that, rule ext) (unfold send_packet_def level_init_serialize_def, rule refl)
  have "on_handshake_success cfg i p s = snd (on_io i (cio_push bs3) (snd (on_io i (cio_push bs2) (snd (on_io i (cio_push bs1) s)))))"
    unfolding on_handshake_success_def Let_def 1 2 3 by (rule refl)
  with on_io_push_pending [OF on_io_push_pending [OF on_io_push_pending [OF assms, of bs1], of bs2], of bs3] show ?thesis
    by (intro that [of "snd (cio_push bs3 (snd (cio_push bs2 (snd (cio_push bs1 (cn_io c))))))"]) simp_all
qed

lemma tick_parts:
  fixes s :: "'a game_server_scheme"
  assumes pl: "plays i a c p s" and tick: "world_tick cfg order game_on_disconnect now s = (ids, s')"
  obtains s1 t where "plays i a c p s1" "net_wf (transit_player_state cfg order game_on_disconnect now i a s1)"
    "schedule_world_tasks now t = (ids, s')" "queues_grow s s1"
    "\<And>c' p'. plays i a c' p' (transit_player_state cfg order game_on_disconnect now i a s1) \<Longrightarrow>
       plays i a c' p' s' \<and> dom (ns_heap s') = dom (ns_heap s) \<and>
       dom (ns_heap (transit_player_state cfg order game_on_disconnect now i a s1)) = dom (ns_heap s) \<and>
       queues_grow (transit_player_state cfg order game_on_disconnect now i a s1) t"
proof -
  let ?tr = "transit_player_state cfg order game_on_disconnect now i a"
  let ?F = "for_each_player (transit_player_state cfg order game_on_disconnect now) s"
  from tick_around [OF pl, of cfg order now] obtain s1 where s1: "serves_others i a s s1"
    and rest: "\<And>c' p'. plays i a c' p' (?tr s1) \<Longrightarrow> serves_others i a (?tr s1) ?F" by blast
  note pl1 = serves_others_plays [OF s1 pl]
  note p1 = playsD [OF pl1]
  have "net_wf (?tr s1)" using net_keeps_transit p1(1) unfolding net_keeps_def by blast
  moreover have sch: "schedule_world_tasks now ?F = (ids, s')" using tick by (simp add: world_tick_def)
  moreover have "plays i a c' p' s' \<and> dom (ns_heap s') = dom (ns_heap s) \<and> dom (ns_heap (?tr s1)) = dom (ns_heap s) \<and>
      queues_grow (?tr s1) ?F" if plt: "plays i a c' p' (?tr s1)" for c' p'
  proof -
    have net: "ns_env s' = ns_env ?F" "ns_heap s' = ns_heap ?F" "ns_next_addr s' = ns_next_addr ?F"
      using schedule_net [of now ?F] sch by simp_all
    have "dom (ns_heap (?tr s1)) = dom (ns_heap s1)"
      using touches_transit [OF p1(1,6,5), of cfg order now] unfolding touches_only_def by blast
    with s1 rest [OF plt] serves_others_plays [OF rest [OF plt] plt] plays_cong [OF net] net(2) show ?thesis
      unfolding serves_others_def by simp
  qed
  ultimately show ?thesis using that [of s1 ?F] pl1 s1 unfolding serves_others_def by blast
qed

lemma tick_level_init:
  fixes s :: "'a game_server_scheme"
  assumes pl: "plays i a c p s" and cur: "ps_cur p = S_handshaked \<or> ps_cur p = S_extension_synced"
    and ready: "task_ready now (w_sync_block_task s)" and alive: "set (bs_level_wait_player_queue (w_sync_block_task s)) \<subseteq> dom (ns_heap s)"
    and tick: "world_tick cfg order game_on_disconnect now s = (ids, s')"
  obtains io where "plays i a (c\<lparr>cn_io := io\<rparr>) (prepare_state_transition S_level_initializing S_level_initialized p) s'"
    "cio_multicast_pool io = cio_multicast_pool (cn_io c)" "WT_sync_block \<in> set ids"
    "a \<in> set (bs_level_wait_players (w_sync_block_task s'))"
    "set (bs_level_wait_players (w_sync_block_task s')) \<subseteq> dom (ns_heap s')"
proof -
  let ?tr = "transit_player_state cfg order game_on_disconnect now i a"
  let ?q = "prepare_state_transition S_level_initializing S_level_initialized p"
  from tick_parts [OF pl tick] obtain s1 t where pl1: "plays i a c p s1" and wf: "net_wf (?tr s1)"
    and sch: "schedule_world_tasks now t = (ids, s')" and grow: "queues_grow s s1"
    and rest: "\<And>c' p'. plays i a c' p' (?tr s1) \<Longrightarrow> plays i a c' p' s' \<and> dom (ns_heap s') = dom (ns_heap s) \<and>
       dom (ns_heap (?tr s1)) = dom (ns_heap s) \<and> queues_grow (?tr s1) t" by blast
  note p1 = playsD [OF pl1]
  have t: "?tr s1 = (upd_player a (prepare_state_transition S_level_initializing S_level_initialized) (on_handshake_success cfg i p s1))
      \<lparr>w_sync_block_task := bs_push_player a (w_sync_block_task s1)\<rparr>"
  proof -
    have "w_sync_block_task (on_handshake_success cfg i p s1) = w_sync_block_task s1"
      using touches_handshake_success [of i a s1 cfg p] by (simp add: on_handshake_success_def Let_def on_io_def case_prod_beta upd_conn_def split: option.split)
    then show ?thesis using p1(5) cur by (auto simp: transit_player_state_def Let_def upd_player_def)
  qed
  obtain io where io: "conn_of i (on_handshake_success cfg i p s1) = Some (c\<lparr>cn_io := io\<rparr>)"
      "cio_multicast_pool io = cio_multicast_pool (cn_io c)"
    using handshake_success_conn [OF p1(2)] by blast
  have plt: "plays i a (c\<lparr>cn_io := io\<rparr>) ?q (?tr s1)"
    using wf io p1 by (simp add: plays_def t)
  note F = rest [OF plt]
  obtain ps where ps: "w_sync_block_task s1 = fold bs_push_player ps (w_sync_block_task s)" "set ps \<subseteq> dom (ns_heap s)"
    using grow unfolding queues_grow_def by blast
  obtain qs where qs: "w_sync_block_task t = fold bs_push_player qs (w_sync_block_task (?tr s1))" "set qs \<subseteq> dom (ns_heap s)"
    using F unfolding queues_grow_def by auto
  have task: "w_sync_block_task t = (w_sync_block_task s)
      \<lparr>bs_level_wait_player_queue := bs_level_wait_player_queue (w_sync_block_task s) @ ps @ a # qs\<rparr>"
    using ps(1) qs(1) by (simp add: t fold_bs_push bs_push_player_def)
  then have "bs_ready now (w_sync_block_task t)"
    using ready by (simp add: bs_ready_def task_ready_def)
  then have w: "w_sync_block_task s' = bs_before_scheduling now (w_sync_block_task t)" "WT_sync_block \<in> set ids"
    using sch by (auto simp: schedule_world_tasks_eq Let_def)
  have wait: "bs_level_wait_players (w_sync_block_task s') = bs_level_wait_player_queue (w_sync_block_task s) @ ps @ a # qs"
    by (simp add: w(1) bs_before_scheduling_def Let_def task)
  have "set (bs_level_wait_players (w_sync_block_task s')) \<subseteq> dom (ns_heap s')"
    using alive ps(2) qs(2) F playsD(5) [OF pl] by (auto simp: wait)
  with F io(2) w(2) wait show ?thesis by (intro that [of io]) simp_all
qed

lemma tick_spawn:
  fixes s :: "'a game_server_scheme"
  assumes pl: "plays i a c p s" and cur: "ps_cur p = S_level_initialized"
    and ready: "task_ready now (w_spawn_player_task s)" and alive: "set (wp_players_queue (w_spawn_player_task s)) \<subseteq> dom (ns_heap s)"
    and tick: "world_tick cfg order game_on_disconnect now s = (ids, s')"
  obtains q where "plays i a c q s'" "ps_cur q = S_spawning" "ps_next q = S_spawned" "WT_spawn_player \<in> set ids"
    "a \<in> set (wp_players_target (w_spawn_player_task s'))"
    "set (wp_players_target (w_spawn_player_task s')) \<subseteq> dom (ns_heap s')"
proof -
  let ?tr = "transit_player_state cfg order game_on_disconnect now i a"
  from tick_parts [OF pl tick] obtain s1 t where pl1: "plays i a c p s1" and wf: "net_wf (?tr s1)"
    and sch: "schedule_world_tasks now t = (ids, s')" and grow: "queues_grow s s1"
    and rest: "\<And>c' p'. plays i a c' p' (?tr s1) \<Longrightarrow> plays i a c' p' s' \<and> dom (ns_heap s') = dom (ns_heap s) \<and>
       dom (ns_heap (?tr s1)) = dom (ns_heap s) \<and> queues_grow (?tr s1) t" by blast
  note p1 = playsD [OF pl1]
  define q where "q = prepare_state_transition S_spawning S_spawned
    (set_spawn_orientation (md_spawn_yaw (w_metadata s1)) (md_spawn_pitch (w_metadata s1)) False
      (set_spawn_coordinate (md_spawn_x (w_metadata s1)) (md_spawn_y (w_metadata s1)) (md_spawn_z (w_metadata s1)) False p))"
  have t: "ns_env (?tr s1) = ns_env s1" "ns_heap (?tr s1) a = Some q"
    "w_spawn_player_task (?tr s1) = wp_push a (w_spawn_player_task s1)"
    using p1(5) cur by (simp_all add: transit_player_state_def Let_def q_def upd_player_def)
  have plt: "plays i a c q (?tr s1)"
    using wf p1 t(1,2) by (simp add: plays_def conn_of_def)
  note F = rest [OF plt]
  obtain ps where ps: "w_spawn_player_task s1 = fold wp_push ps (w_spawn_player_task s)" "set ps \<subseteq> dom (ns_heap s)"
    using grow unfolding queues_grow_def by blast
  obtain qs where qs: "w_spawn_player_task t = fold wp_push qs (w_spawn_player_task (?tr s1))" "set qs \<subseteq> dom (ns_heap s)"
    using F unfolding queues_grow_def by auto
  have task: "w_spawn_player_task t = (w_spawn_player_task s)
      \<lparr>wp_players_queue := wp_players_queue (w_spawn_player_task s) @ ps @ a # qs\<rparr>"
    using ps(1) qs(1) by (simp add: t(3) fold_wp_push wp_push_def)
  then have "wp_ready now (w_spawn_player_task t)"
    using ready by (simp add: wp_ready_def task_ready_def)
  then have w: "w_spawn_player_task s' = wp_before_scheduling now (w_spawn_player_task t)" "WT_spawn_player \<in> set ids"
    using sch by (auto simp: schedule_world_tasks_eq Let_def)
  have wait: "wp_players_target (w_spawn_player_task s') = wp_players_queue (w_spawn_player_task s) @ ps @ a # qs"
    by (simp add: w(1) wp_before_scheduling_def Let_def task)
  have "set (wp_players_target (w_spawn_player_task s')) \<subseteq> dom (ns_heap s')"
    using alive ps(2) qs(2) F playsD(5) [OF pl] by (auto simp: wait)
  moreover have "ps_cur q = S_spawning" "ps_next q = S_spawned" by (simp_all add: q_def)
  ultimately show ?thesis using F w(2) wait by (intro that [of q]) simp_all
qed

subsection \<open>One player through a task\<close>

text \<open>
  The body of both loops over players, for players that exist: an operation \<open>g\<close> of the player's connection and,
  if it succeeded, an update \<open>f\<close> of the player.
\<close>

definition serve ::
    "(connection_io \<Rightarrow> bool \<times> connection_io) \<Rightarrow> (player \<Rightarrow> player) \<Rightarrow> nat \<Rightarrow> 'a net_state_scheme \<Rightarrow> 'a net_state_scheme" where
  "serve g f b s =
     (case ns_heap s b of
        None \<Rightarrow> s
      | Some q \<Rightarrow>
          (case try_acquire_connection (pl_key q) (ns_env s) of
             Some (Some j) \<Rightarrow> (let (ok, s) = on_io j g s in if ok then upd_player b f s else s)
           | _ \<Rightarrow> s))"

definition admissible :: "(connection_io \<Rightarrow> bool \<times> connection_io) \<Rightarrow> (player \<Rightarrow> player) \<Rightarrow> bool" where
  "admissible g f \<longleftrightarrow> (\<forall>c. cio_wf c \<longrightarrow> cio_wf (snd (g c))) \<and> (\<forall>p. pl_key (f p) = pl_key p)"

lemma player_owner:
  assumes wf: "net_wf s" and q: "ns_heap s b = Some q"
  obtains j d where "conn_of j s = Some d" "cn_player d = Some b"
    "try_acquire_connection (pl_key q) (ns_env s) = Some None \<or> try_acquire_connection (pl_key q) (ns_env s) = Some (Some j)"
proof -
  from owners_wfD(3) [OF net_wfD(3) [OF wf] q] obtain j d where d: "conn_of j s = Some d" "cn_player d = Some b" by blast
  have k: "pl_key q = cn_key d" using owners_wfD(1) [OF net_wfD(3) [OF wf] d] q by auto
  have j: "j < length (env_table (ns_env s))" and e: "ce_connection (env_table (ns_env s) ! j) = Some d"
    using d(1) conn_of_lt [OF d(1)] by (simp_all add: conn_of_def)
  have "key_slot (pl_key q) = j" using env_wf_entry(3) [OF net_wfD(1) [OF wf] j e] k by simp
  then have "try_acquire_connection (pl_key q) (ns_env s) = Some None \<or> try_acquire_connection (pl_key q) (ns_env s) = Some (Some j)"
    using j e
    by (cases "ce_will_delete (env_table (ns_env s) ! j) \<or> key_created_at (pl_key q) \<noteq> ce_created_at (env_table (ns_env s) ! j)")
      (auto simp: try_acquire_connection_def env_is_expired_def Let_def)
  with d show ?thesis by (rule that)
qed

lemma serve_eq:
  assumes "net_wf s" "ns_heap s b = Some q"
  obtains "serve g f b s = s" |
    j d ok s1 where "conn_of j s = Some d" "cn_player d = Some b"
      "try_acquire_connection (pl_key q) (ns_env s) = Some (Some j)" "on_io j g s = (ok, s1)"
      "serve g f b s = (if ok then upd_player b f s1 else s1)"
proof -
  from player_owner [OF assms] obtain j d where o: "conn_of j s = Some d" "cn_player d = Some b"
    "try_acquire_connection (pl_key q) (ns_env s) = Some None \<or> try_acquire_connection (pl_key q) (ns_env s) = Some (Some j)" .
  obtain ok s1 where io: "on_io j g s = (ok, s1)" by fastforce
  from o(3) show ?thesis
  proof
    assume "try_acquire_connection (pl_key q) (ns_env s) = Some None"
    with assms(2) show ?thesis by (intro that(1)) (simp add: serve_def)
  next
    assume k: "try_acquire_connection (pl_key q) (ns_env s) = Some (Some j)"
    with assms(2) io show ?thesis by (intro that(2) [OF o(1,2) k io]) (simp add: serve_def)
  qed
qed

lemma serve_keeps:
  assumes "net_wf s" "admissible g f"
  shows "net_wf (serve g f b s)" "dom (ns_heap (serve g f b s)) = dom (ns_heap s)"
    "net_state.more (serve g f b s) = net_state.more s"
proof -
  have "net_wf (serve g f b s) \<and> dom (ns_heap (serve g f b s)) = dom (ns_heap s) \<and>
    net_state.more (serve g f b s) = net_state.more s"
  proof (cases "ns_heap s b")
    case None
    with assms(1) show ?thesis by (simp add: serve_def)
  next
    case (Some q)
    from assms(1) Some show ?thesis
    proof (cases rule: serve_eq [of s b q g f])
      case 1
      with assms(1) show ?thesis by simp
    next
      case (2 j d ok s1)
      note io = conn_of_on_io [OF assms(1) 2(4)]
      have g: "cio_wf c \<Longrightarrow> cio_wf (snd (g c))" for c using assms(2) by (simp add: admissible_def)
      have "net_wf (upd_player b f s1)"
        using assms(2) by (intro net_wf_upd_player io(1) g) (simp_all add: admissible_def)
      with io(1-3) g 2(5) show ?thesis by auto
    qed
  qed
  then show "net_wf (serve g f b s)" "dom (ns_heap (serve g f b s)) = dom (ns_heap s)"
    "net_state.more (serve g f b s) = net_state.more s" by blast+
qed

lemma serve_other:
  assumes pl: "plays i a c p s" and ad: "admissible g f" and b: "b \<noteq> a"
  shows "plays i a c p (serve g f b s)"
proof (cases "ns_heap s b")
  case None
  with pl show ?thesis by (simp add: serve_def)
next
  case (Some q)
  note p = playsD [OF pl]
  from p(1) Some show ?thesis
  proof (cases rule: serve_eq [of s b q g f])
    case 1
    with pl show ?thesis by simp
  next
    case (2 j d ok s1)
    have ne: "j \<noteq> i" using 2(1,2) p(2,4) b by auto
    have "s1 = snd (on_io j g s)" using 2(4) by simp
    then have "conn_of i s1 = conn_of i s" "ns_heap s1 = ns_heap s"
      using ne by (simp_all add: on_io_def conn_of_upd_conn case_prod_beta split: option.split)
    then show ?thesis
      using serve_keeps(1) [OF p(1) ad, of b] p b unfolding 2(5) by (auto simp: plays_def)
  qed
qed

lemma serve_self:
  assumes pl: "plays i a c p s" and ad: "admissible g f"
  shows "plays i a (c\<lparr>cn_io := snd (g (cn_io c))\<rparr>) (if fst (g (cn_io c)) then f p else p) (serve g f a s)"
proof -
  note p = playsD [OF pl]
  obtain ok io where g: "g (cn_io c) = (ok, io)" by fastforce
  have "on_io i g s = (ok, upd_conn i (\<lambda>c. c\<lparr>cn_io := io\<rparr>) s)" using p(2) g by (simp add: on_io_def)
  then have s: "serve g f a s = (if ok then upd_player a f (upd_conn i (\<lambda>c. c\<lparr>cn_io := io\<rparr>) s) else upd_conn i (\<lambda>c. c\<lparr>cn_io := io\<rparr>) s)"
    using p(5,10) by (simp add: serve_def)
  show ?thesis
    using serve_keeps(1) [OF p(1) ad, of a] p(2-5) g unfolding s by (auto simp: plays_def conn_of_upd_conn)
qed

text \<open>The two loops are this, and they return.\<close>

lemma loop_serve:
  assumes ad: "admissible g f"
    and nil: "\<And>s. loop [] s = Some s"
    and cons: "\<And>b bs s q. ns_heap s b = Some q \<Longrightarrow> loop (b # bs) s =
      (case try_acquire_connection (pl_key q) (ns_env s) of
         None \<Rightarrow> None
       | Some None \<Rightarrow> loop bs s
       | Some (Some j) \<Rightarrow> loop bs (let (ok, s) = on_io j g s in if ok then upd_player b f s else s))"
  shows "net_wf s \<Longrightarrow> set as \<subseteq> dom (ns_heap s) \<Longrightarrow> loop as s = Some (fold (serve g f) as s)"
proof (induction as arbitrary: s)
  case (Cons b as)
  from Cons.prems(2) obtain q where q: "ns_heap s b = Some q" by auto
  from player_owner [OF Cons.prems(1) q] obtain j where
    k: "try_acquire_connection (pl_key q) (ns_env s) = Some None \<or> try_acquire_connection (pl_key q) (ns_env s) = Some (Some j)" by metis
  have "loop (b # as) s = loop as (serve g f b s)"
    using k by (auto simp: cons [OF q] serve_def q)
  moreover have "loop as (serve g f b s) = Some (fold (serve g f) as (serve g f b s))"
    using serve_keeps(1,2) [OF Cons.prems(1) ad, of b] Cons.prems(2) by (intro Cons.IH) auto
  ultimately show ?case by simp
qed (simp add: nil)

lemma upd_player_id: "upd_player b id s = s"
  by (cases s) (simp add: upd_player_def option.map_id0 fun_upd_idem)

definition on_success :: "(player \<Rightarrow> player) option \<Rightarrow> player \<Rightarrow> player" where
  "on_success f = (case f of None \<Rightarrow> id | Some f \<Rightarrow> f)"

lemma loops_serve:
  assumes f: "\<And>g p. successed = Some g \<Longrightarrow> pl_key (g p) = pl_key p"
    and s: "net_wf s" "set as \<subseteq> dom (ns_heap s)"
  shows "multicast_to_players as data successed s = Some (fold (serve (post_multicast_event data) (on_success successed)) as s)"
    and "send_to_players as data successed None s = Some (fold (serve (send_raw_data data) (on_success successed)) as s)"
proof -
  have k: "pl_key (on_success successed p) = pl_key p" for p
    using f by (cases successed) (simp_all add: on_success_def)
  show "multicast_to_players as data successed s = Some (fold (serve (post_multicast_event data) (on_success successed)) as s)"
    by (rule loop_serve [OF _ _ _ s])
      (use k in \<open>auto simp: admissible_def cio_wf_multicast on_success_def upd_player_id Let_def case_prod_beta split: option.split\<close>)
  show "send_to_players as data successed None s = Some (fold (serve (send_raw_data data) (on_success successed)) as s)"
    by (rule loop_serve [OF _ _ _ s])
      (use k in \<open>auto simp: admissible_def send_raw_data_def cio_wf_push on_success_def upd_player_id Let_def case_prod_beta split: option.split\<close>)
qed

lemma serves_all:
  assumes "admissible g f" "net_wf s"
  shows "net_wf (fold (serve g f) as s)" "dom (ns_heap (fold (serve g f) as s)) = dom (ns_heap s)"
    "net_state.more (fold (serve g f) as s) = net_state.more s"
proof -
  have "net_wf (fold (serve g f) as s) \<and> dom (ns_heap (fold (serve g f) as s)) = dom (ns_heap s) \<and>
    net_state.more (fold (serve g f) as s) = net_state.more s"
    using assms(2) by (induction as arbitrary: s) (simp_all add: serve_keeps [OF _ assms(1)])
  then show "net_wf (fold (serve g f) as s)" "dom (ns_heap (fold (serve g f) as s)) = dom (ns_heap s)"
    "net_state.more (fold (serve g f) as s) = net_state.more s" by blast+
qed

lemma serves_without:
  "plays i a c p s \<Longrightarrow> admissible g f \<Longrightarrow> a \<notin> set as \<Longrightarrow> plays i a c p (fold (serve g f) as s)"
proof (induction as arbitrary: s)
  case (Cons b as)
  have "plays i a c p (serve g f b s)" using Cons.prems by (intro serve_other) auto
  from Cons.IH [OF this Cons.prems(2)] Cons.prems(3) show ?case by simp
qed simp

text \<open>
  A prepared transition happens as soon as the operation succeeds for the player, and is not undone; what a
  successful operation establishes of the connection, and every operation keeps, holds at the end.
\<close>

lemma serves_transit:
  assumes "plays i a c p s" and ad: "admissible g transit_state"
    and est: "\<And>c. cio_wf c \<Longrightarrow> fst (g c) \<Longrightarrow> K (snd (g c))" and kp: "\<And>c. cio_wf c \<Longrightarrow> K c \<Longrightarrow> K (snd (g c))"
  shows "\<exists>c' p'. plays i a c' p' (fold (serve g transit_state) as s) \<and> ps_next p' = ps_next p \<and>
      (ps_cur p = ps_next p \<or> a \<in> set as \<and> fst (g (cn_io c)) \<longrightarrow> ps_cur p' = ps_next p) \<and>
      (K (cn_io c) \<or> a \<in> set as \<and> fst (g (cn_io c)) \<longrightarrow> K (cn_io c'))"
  using assms(1)
proof (induction as arbitrary: s c p)
  case (Cons b as)
  show ?case
  proof (cases "b = a")
    case True
    have wf: "cio_wf (cn_io c)" using net_wfD(2) [OF playsD(1,2) [OF Cons.prems]] .
    have 1: "plays i a (c\<lparr>cn_io := snd (g (cn_io c))\<rparr>) (if fst (g (cn_io c)) then transit_state p else p) (serve g transit_state b s)"
      using serve_self [OF Cons.prems ad] True by simp
    from Cons.IH [OF this] est [OF wf] kp [OF wf] show ?thesis by (auto split: if_splits)
  next
    case False
    from Cons.IH [OF serve_other [OF Cons.prems ad False]] False show ?thesis by auto
  qed
qed auto

lemma serves_id:
  "plays i a c p s \<Longrightarrow> admissible g id \<Longrightarrow> \<exists>c'. plays i a c' p (fold (serve g id) as s)"
proof (induction as arbitrary: s c)
  case (Cons b as)
  have "\<exists>c'. plays i a c' p (serve g id b s)"
  proof (cases "b = a")
    case True
    have "plays i a (c\<lparr>cn_io := snd (g (cn_io c))\<rparr>) p (serve g id b s)"
      using serve_self [of i a c p s g id] Cons.prems True by (auto simp del: id_apply split: if_splits) (simp_all)
    then show ?thesis ..
  next
    case False
    from serve_other [OF Cons.prems this] show ?thesis ..
  qed
  then obtain c' where "plays i a c' p (serve g id b s)" ..
  from Cons.IH [OF this Cons.prems(2)] show ?case unfolding fold_simps .
qed auto

subsection \<open>The two tasks\<close>

text \<open>What is relied on of zlib: it puts out a stream no longer than its bound, piece by piece.\<close>

definition zlib_gives :: "'z zlib \<Rightarrow> ('z \<Rightarrow> bytes) \<Rightarrow> bool" where
  "zlib_gives z out \<longleftrightarrow> deflates (z_deflate z) out \<and>
     (\<forall>b. length b < 2 ^ 32 \<longrightarrow> 0 < z_bound z (z_init z b) \<and> z_bound z (z_init z b) < 2 ^ 64 \<and>
        length (out (z_init z b)) \<le> z_bound z (z_init z b)) \<and>
     (\<forall>n. length (z_alloc z n) = n)"

text \<open>A level packet carries a map: what a client puts together from it is the compressed map with its sizes.\<close>

definition carries_level :: "'z zlib \<Rightarrow> ('z \<Rightarrow> bytes) \<Rightarrow> world_metadata \<Rightarrow> bytes \<Rightarrow> bytes \<Rightarrow> bool" where
  "carries_level z out md blocks data \<longleftrightarrow>
     client_level data = Some (out (z_init z (level_input md blocks)),
       ucast (md_width md), ucast (md_height md), ucast (md_length md))"

lemma players_from_sound:
  assumes "b \<in> set (players_from st s)"
  obtains q where "ns_heap s b = Some q" "st \<le> ps_cur q"
  using assms that by (force simp: players_from_def select_players_def split: if_splits option.splits)

lemma admissible_multicast: "admissible (post_multicast_event data) transit_state" "admissible (post_multicast_event data) id"
  by (simp_all add: admissible_def cio_wf_multicast transit_state_def)

lemma admissible_send: "admissible (send_raw_data data) transit_state" "admissible (send_raw_data data) id"
  by (simp_all add: admissible_def send_raw_data_def cio_wf_push transit_state_def)

lemma level_wait_returns:
  assumes "zlib_gives z out" "net_wf s" "set as \<subseteq> dom (ns_heap s)"
  obtains data where "process_level_wait_player z as s = Some (fold (serve (post_multicast_event data) transit_state) as s)"
    "carries_level z out (w_metadata s) (w_block_mapping s) data"
proof -
  let ?zs = "z_init z (level_input (w_metadata s) (w_block_mapping s))"
  have "unat (md_volume (w_metadata s)) < 2 ^ 32" using unat_lt_u32 .
  then have "length (level_input (w_metadata s) (w_block_mapping s)) < 2 ^ 32"
    by (simp add: level_input_def)
  with assms(1) have out: "deflates (z_deflate z) out" "0 < z_bound z ?zs" "z_bound z ?zs < 2 ^ 64"
      "length (out ?zs) \<le> z_bound z ?zs" "\<And>n. length (z_alloc z n) = n"
    unfolding zlib_gives_def by blast+
  let ?p = "level_data_make ?zs (z_bound z ?zs) (ucast (md_width (w_metadata s))) (ucast (md_height (w_metadata s))) (ucast (md_length (w_metadata s)))"
  from level_data_serialize_frames [OF out(1-4) out(5) [of "data_capacity ?p"]] obtain n mem
    where l: "level_data_serialize (z_deflate z) (z_alloc z (data_capacity ?p)) ?p = Some (n, mem)"
      and fits: "chunk_count (out ?zs) * (chunk_size + 4) \<le> length (z_alloc z (data_capacity ?p))"
      and frames: "take n mem = level_frames (chunk_count (out ?zs)) (out ?zs) (z_alloc z (data_capacity ?p)) @
        level_finalize (ucast (md_width (w_metadata s))) (ucast (md_height (w_metadata s))) (ucast (md_length (w_metadata s)))"
    by blast
  have "multicast_to_players as (take n mem) (Some transit_state) s =
      Some (fold (serve (post_multicast_event (take n mem)) (on_success (Some transit_state))) as s)"
    by (rule loops_serve(1)) (use assms(2,3) in \<open>auto simp: transit_state_def\<close>)
  moreover have "carries_level z out (w_metadata s) (w_block_mapping s) (take n mem)"
    unfolding carries_level_def frames by (rule client_level_frames [OF fits client_level_finalize])
  ultimately show ?thesis
    using that [of "take n mem"] l by (simp add: process_level_wait_player_def Let_def on_success_def)
qed

lemma commit_nothing: "block_history_size hist = 0 \<Longrightarrow> commit_block_changes md hist blocks = blocks"
  by (simp add: commit_block_changes_def)

lemma sync_block_player:
  assumes pl: "plays i a c p s" and z: "zlib_gives z out" and as: "set as \<subseteq> dom (ns_heap s)" "a \<in> set as"
    and cur: "\<not> S_level_initialized \<le> ps_cur p"
    and room: "pool_used (cio_multicast_pool (cn_io c)) \<noteq> {..<num_of_multicast_events}"
  obtains s' c' p' data where "sync_block z as hist s = Some s'" "plays i a c' p' s'"
    "ps_cur p' = ps_next p" "ps_next p' = ps_next p"
    "w_metadata s' = w_metadata s" "w_block_mapping s' = commit_block_changes (w_metadata s) hist (w_block_mapping s)"
    "carries_level z out (w_metadata s') (w_block_mapping s') data" "queued_for data (cn_io c')"
proof -
  let ?t = "s\<lparr>w_block_mapping := commit_block_changes (w_metadata s) hist (w_block_mapping s)\<rparr>"
  let ?hist = "fold (serve (post_multicast_event (get_snapshot_data hist)) id) (players_from S_level_initialized ?t) ?t"
  note p = playsD [OF pl]
  have t: "plays i a c p ?t" using plays_cong [of ?t s] pl by simp
  define s1 where "s1 = (if block_history_size hist \<noteq> 0 then ?hist else s)"
  have wf: "net_wf ?t" using playsD(1) [OF t] .
  have "multicast_to_players (players_from S_level_initialized ?t) (get_snapshot_data hist) None ?t =
      Some (fold (serve (post_multicast_event (get_snapshot_data hist)) (on_success None)) (players_from S_level_initialized ?t) ?t)"
    by (rule loops_serve(1) [OF _ wf]) (auto elim: players_from_sound)
  then have 1: "(if block_history_size hist \<noteq> 0 then multicast_to_specific_players S_level_initialized (get_snapshot_data hist) ?t
      else Some s) = Some s1"
    by (simp only: s1_def multicast_to_specific_players_def on_success_def option.case split: if_split) simp
  have "a \<notin> set (players_from S_level_initialized ?t)"
    using cur p(5) by (auto elim: players_from_sound)
  then have "plays i a c p ?hist" by (intro serves_without t admissible_multicast)
  then have pl1: "plays i a c p s1" using pl by (simp add: s1_def)
  have "dom (ns_heap ?hist) = dom (ns_heap s)" using serves_all(2) [OF admissible_multicast(2) wf] by simp
  then have alive: "set as \<subseteq> dom (ns_heap s1)" using as(1) by (simp add: s1_def)
  have "w_metadata ?hist = w_metadata ?t" "w_block_mapping ?hist = w_block_mapping ?t"
    using world_fields_of_more [OF serves_all(3) [OF admissible_multicast(2) wf]] by simp_all
  then have map1: "w_metadata s1 = w_metadata s" "w_block_mapping s1 = commit_block_changes (w_metadata s) hist (w_block_mapping s)"
    by (simp_all add: s1_def commit_nothing)
  obtain data where 2: "process_level_wait_player z as s1 = Some (fold (serve (post_multicast_event data) transit_state) as s1)"
      "carries_level z out (w_metadata s1) (w_block_mapping s1) data"
    using level_wait_returns [OF z playsD(1) [OF pl1] alive] .
  let ?s' = "fold (serve (post_multicast_event data) transit_state) as s1"
  have ok: "fst (post_multicast_event data (cn_io c))"
  proof (rule ccontr)
    assume "\<not> fst (post_multicast_event data (cn_io c))"
    with post_multicast_event_effect(3) [OF net_wfD(2) [OF p(1,2)], of data False] room show False
      by (metis prod.collapse)
  qed
  have "queued_for data (snd (post_multicast_event data d))" if "cio_wf d" "fst (post_multicast_event data d) \<or> queued_for data d" for d
    using queued_for_post [OF that(1) prod.collapse [symmetric]] that(2) by blast
  with serves_transit [OF pl1 admissible_multicast(1), of data "queued_for data" as] as(2) ok obtain c' p' where
    "plays i a c' p' ?s'" "ps_next p' = ps_next p" "ps_cur p' = ps_next p" "queued_for data (cn_io c')"
    by blast
  moreover have "sync_block z as hist s = Some ?s'"
    using 1 2(1) as(2) unfolding sync_block_def by auto
  moreover have "w_metadata ?s' = w_metadata s1" "w_block_mapping ?s' = w_block_mapping s1"
    using world_fields_of_more [OF serves_all(3) [OF admissible_multicast(1) playsD(1) [OF pl1]]] by simp_all
  ultimately show ?thesis using that [of ?s' c' p' data] map1 2(2) by simp
qed

text \<open>
  C11: A player who has passed the handshake is handed the level: the next tick that finds the block task ready
  greets the player and schedules the task, and the completion of the task returns, has committed the changes
  of the history to the map, and leaves the connection with the level packet as a whole, in the send
  buffer or as an event that waits for the next flush; a client puts exactly the compressed map, with its
  sizes, together from its bytes. The player is then in the state for it. This holds whatever happens to the
  other players in the same tick and task, if the players that wait exist and one of the connection's multicast
  events is free. \<open>second_send_drops_multicast\<close> says what the flush does with an event that waits
  behind the greeting: it drops it.
\<close>

theorem handshaked_reaches_level:
  fixes s :: "'a game_server_scheme"
  assumes "plays i a c p s" and "ps_cur p = S_handshaked \<or> ps_cur p = S_extension_synced"
    and "task_ready now (w_sync_block_task s)"
    and "set (bs_level_wait_player_queue (w_sync_block_task s)) \<subseteq> dom (ns_heap s)"
    and "pool_used (cio_multicast_pool (cn_io c)) \<noteq> {..<num_of_multicast_events}"
    and "zlib_gives z out" and "world_tick cfg order game_on_disconnect now s = (ids, s1)"
  shows "WT_sync_block \<in> set ids \<and>
    (\<exists>s' c' p' data. complete_sync_block_task z later s1 = Some s' \<and> plays i a c' p' s' \<and> ps_cur p' = S_level_initialized \<and>
       w_block_mapping s' = commit_block_changes (w_metadata s1) (bs_history (w_sync_block_task s1)) (w_block_mapping s1) \<and>
       carries_level z out (w_metadata s1) (w_block_mapping s') data \<and> queued_for data (cn_io c'))"
proof -
  from tick_level_init [OF assms(1-4,7)] obtain io where t:
    "plays i a (c\<lparr>cn_io := io\<rparr>) (prepare_state_transition S_level_initializing S_level_initialized p) s1"
    "cio_multicast_pool io = cio_multicast_pool (cn_io c)" "WT_sync_block \<in> set ids"
    "a \<in> set (bs_level_wait_players (w_sync_block_task s1))"
    "set (bs_level_wait_players (w_sync_block_task s1)) \<subseteq> dom (ns_heap s1)" .
  have early: "\<not> S_level_initialized \<le> ps_cur (prepare_state_transition S_level_initializing S_level_initialized p)"
    by (simp add: state_order)
  have same: "cio_multicast_pool (cn_io (c\<lparr>cn_io := io\<rparr>)) = cio_multicast_pool (cn_io c)" using t(2) by simp
  have room: "pool_used (cio_multicast_pool (cn_io (c\<lparr>cn_io := io\<rparr>))) \<noteq> {..<num_of_multicast_events}"
    unfolding same by (rule assms(5))
  from sync_block_player [OF t(1) assms(6) t(5,4) early room, of "bs_history (w_sync_block_task s1)"] obtain s2 c' p' data where
    b: "sync_block z (bs_level_wait_players (w_sync_block_task s1)) (bs_history (w_sync_block_task s1)) s1 = Some s2"
      "plays i a c' p' s2" "ps_cur p' = S_level_initialized" "w_metadata s2 = w_metadata s1"
      "w_block_mapping s2 = commit_block_changes (w_metadata s1) (bs_history (w_sync_block_task s1)) (w_block_mapping s1)"
      "carries_level z out (w_metadata s2) (w_block_mapping s2) data" "queued_for data (cn_io c')"
    by (metis prepare_state_transition_simps(3))
  let ?t = "fst (bs_on_event_complete (\<lambda>ps h w. Option.bind w (sync_block z ps h)) later (w_sync_block_task s1) (Some s1))"
  let ?s' = "s2\<lparr>w_sync_block_task := ?t\<rparr>"
  have "complete_sync_block_task z later s1 = Some ?s'"
    using b(1) by (simp add: complete_sync_block_task_def bs_on_event_complete_def)
  moreover have "plays i a c' p' ?s'" using b(2) plays_cong [of ?s' s2] by simp
  moreover have "w_block_mapping ?s' = w_block_mapping s2" by simp
  ultimately show ?thesis using t(3) b(3-7) by metis
qed

text \<open>Sending a block that fits into what is left of the send buffer.\<close>

lemma send_raw_fits:
  assumes "cio_wf c" "length data \<le> lf_unused_size (se_data (cio_send c))"
  shows "fst (send_raw_data data c)"
  using assms by (auto simp: cio_wf_def lf_wf_def send_raw_data_def cio_push_def lf_push_def lf_unused_size_def Let_def split: prod.split)

lemma spawn_player_player:
  assumes pl: "plays i a c p s" and as: "set as \<subseteq> dom (ns_heap s)" "a \<in> set as" and cur: "ps_cur p = S_spawning"
    and room: "(length (players_from S_spawned s) + length as) * spawn_player_packet_size \<le> lf_unused_size (se_data (cio_send (cn_io c)))"
  obtains s' c' p' where "spawn_player as s = Some s'" "plays i a c' p' s'" "ps_cur p' = ps_next p"
proof -
  let ?old = "players_from S_spawned s"
  note p = playsD [OF pl]
  have old: "set ?old \<subseteq> dom (ns_heap s)" by (auto elim: players_from_sound)
  let ?n = "(length ?old + length as) * spawn_player_packet_size"
  obtain data where ser: "spawn_player_serialize ?old as (ns_heap s) = Some (?n, data)"
    by (simp add: spawn_player_serialize_def serialize_position_packet_eq old as(1))
  define s1 where "s1 = fold (serve (send_raw_data (take ?n data)) transit_state) as s"
  have 1: "send_to_players as (take ?n data) (Some transit_state) None s = Some s1"
    using loops_serve(2) [of "Some transit_state" s as "take ?n data"] p(1) as(1) by (simp add: on_success_def transit_state_def s1_def)
  have "length (take ?n data) \<le> lf_unused_size (se_data (cio_send (cn_io c)))" using room by simp
  from serves_transit [OF pl admissible_send(1), of "take ?n data" "\<lambda>_. True" as] as(2) send_raw_fits [OF net_wfD(2) [OF p(1,2)] this]
  obtain c1 p1 where p1: "plays i a c1 p1 s1" "ps_next p1 = ps_next p" "ps_cur p1 = ps_next p" unfolding s1_def by blast
  let ?tail = "segment (length ?old * spawn_player_packet_size) (length as * spawn_player_packet_size) data"
  have "set ?old \<subseteq> dom (ns_heap s1)" using serves_all(2) [OF admissible_send(1) p(1)] old by (simp add: s1_def)
  then have 2: "send_to_players ?old ?tail None None s1 = Some (fold (serve (send_raw_data ?tail) id) ?old s1)"
    using loops_serve(2) [of None s1 ?old ?tail] playsD(1) [OF p1(1)] by (simp add: on_success_def)
  obtain c2 where "plays i a c2 p1 (fold (serve (send_raw_data ?tail) id) ?old s1)"
    using serves_id [OF p1(1) admissible_send(2)] by blast
  moreover have "spawn_player as s = Some (fold (serve (send_raw_data ?tail) id) ?old s1)"
    unfolding spawn_player_def by (simp only: Let_def ser option.case prod.case 1 2)
  ultimately show ?thesis using that p1(3) by blast
qed

text \<open>
  C12: A player who has the level gets into the world: the next tick that finds the spawn task ready puts the
  player at the spawn point and schedules the task, and the completion of the task returns and leaves the
  player spawned, if the players that wait exist and the packets of all players, old and new, fit
  into the send buffer of the connection.
\<close>

theorem level_reaches_world:
  fixes s :: "'a game_server_scheme"
  assumes "plays i a c p s" and "ps_cur p = S_level_initialized"
    and "task_ready now (w_spawn_player_task s)" and "set (wp_players_queue (w_spawn_player_task s)) \<subseteq> dom (ns_heap s)"
    and "world_tick cfg order game_on_disconnect now s = (ids, s1)"
    and "(length (players_from S_spawned s1) + length (wp_players_target (w_spawn_player_task s1))) * spawn_player_packet_size \<le>
      lf_unused_size (se_data (cio_send (cn_io c)))"
  shows "WT_spawn_player \<in> set ids \<and>
    (\<exists>s' c' p'. complete_spawn_player_task later s1 = Some s' \<and> plays i a c' p' s' \<and> ps_cur p' = S_spawned)"
proof -
  from tick_spawn [OF assms(1-5)] obtain q where t: "plays i a c q s1" "ps_cur q = S_spawning" "ps_next q = S_spawned"
    "WT_spawn_player \<in> set ids" "a \<in> set (wp_players_target (w_spawn_player_task s1))"
    "set (wp_players_target (w_spawn_player_task s1)) \<subseteq> dom (ns_heap s1)" .
  from spawn_player_player [OF t(1,6,5,2) assms(6)] obtain s2 c' p' where
    b: "spawn_player (wp_players_target (w_spawn_player_task s1)) s1 = Some s2" "plays i a c' p' s2" "ps_cur p' = S_spawned"
    using t(3) by metis
  let ?t = "fst (wp_on_event_complete (\<lambda>ps w. Option.bind w (spawn_player ps)) later (w_spawn_player_task s1) (Some s1))"
  have "complete_spawn_player_task later s1 = Some (s2\<lparr>w_spawn_player_task := ?t\<rparr>)"
    using b(1) by (simp add: complete_spawn_player_task_def wp_on_event_complete_def)
  moreover have "plays i a c' p' (s2\<lparr>w_spawn_player_task := ?t\<rparr>)"
    using b(2) plays_cong [of "s2\<lparr>w_spawn_player_task := ?t\<rparr>" s2] by simp
  ultimately show ?thesis using t(4) b(3) by blast
qed

lemma sample_zlib_gives: "zlib_gives sample_zlib (\<lambda>b. b)"
  unfolding zlib_gives_def by (simp add: deflates_def sample_zlib_def)

text \<open>A server with room for one client, who is there.\<close>

definition one_player :: "player \<Rightarrow> game_server" where
  "one_player p = (sample_server 1)\<lparr>
     ns_env := \<lparr>env_max_connections = 1, env_num_of_connections = 1, env_table =
       [\<lparr>ce_used = True, ce_will_delete = False, ce_connection = Some ((connection_new (key_make 0 9) 0)\<lparr>cn_player := Some 0\<rparr>),
         ce_created_at = key_created_at (key_make 0 9)\<rparr>]\<rparr>,
     ns_heap := [0 \<mapsto> p\<lparr>pl_key := key_make 0 9\<rparr>], ns_next_addr := 1\<rparr>"

lemma one_player_plays:
  "plays 0 0 ((connection_new (key_make 0 9) 0)\<lparr>cn_player := Some 0\<rparr>) (p\<lparr>pl_key := key_make 0 9\<rparr>) (one_player p)"
proof -
  let ?c = "(connection_new (key_make 0 9) 0)\<lparr>cn_player := Some 0\<rparr>" and ?s = "one_player p"
  have c: "conn_of j ?s = (if j = 0 then Some ?c else None)" for j
    by (simp add: conn_of_def one_player_def)
  have slot: "key_slot (key_make 0 9) = 0" by (simp add: key_slot_def)
  have "env_wf (ns_env ?s)"
    by (simp add: env_wf_def one_player_def entry_wf_def slot connection_new_def)
  moreover have "owners_wf (\<lambda>j. conn_of j ?s) (ns_heap ?s) (ns_next_addr ?s)"
    by (auto simp: owners_wf_def c connection_new_def) (auto simp: one_player_def split: if_splits)
  moreover have "cio_wf (cn_io ?c)" using connection_io_new_wf by (simp add: connection_new_def)
  ultimately have "net_wf ?s" by (auto simp: net_wf_def c split: if_splits)
  then show ?thesis by (simp add: plays_def c connection_new_def) (simp add: one_player_def)
qed


lemma one_player_tasks:
  "w_sync_block_task (one_player p) = block_sync_task_new (db_new (replicate 64 0) (replicate 64 0)) sync_block_interval"
  "w_spawn_player_task (one_player p) = world_player_task_new spawn_player_interval"
  by (simp_all add: one_player_def sample_server_def world_new_tasks_def net_init_def)

theorem handshaked_reaches_level_witness:
  "\<exists>(s :: game_server) ids s1 s' c p. world_tick \<lparr>cfg_server_name = [], cfg_motd = []\<rparr> supported_cpe_map game_on_disconnect 5000 s = (ids, s1) \<and>
     (\<exists>q. ns_heap s 0 = Some q \<and> ps_cur q = S_handshaked) \<and>
     complete_sync_block_task sample_zlib 5001 s1 = Some s' \<and> plays 0 0 c p s' \<and> ps_cur p = S_level_initialized \<and>
     (\<exists>data. carries_level sample_zlib (\<lambda>b. b) (w_metadata s1) (w_block_mapping s') data \<and> queued_for data (cn_io c))"
proof -
  let ?p = "sample_player\<lparr>ps_cur := S_handshaked, ps_next := S_handshaked\<rparr>"
  let ?s = "one_player ?p" and ?c = "(connection_new (key_make 0 9) 0)\<lparr>cn_player := Some 0\<rparr>"
  have cur: "ps_cur (?p\<lparr>pl_key := key_make 0 9\<rparr>) = S_handshaked \<or> ps_cur (?p\<lparr>pl_key := key_make 0 9\<rparr>) = S_extension_synced"
    by simp
  have ready: "task_ready 5000 (w_sync_block_task ?s)" and none: "set (bs_level_wait_player_queue (w_sync_block_task ?s)) \<subseteq> dom (ns_heap ?s)"
    by (simp_all add: one_player_tasks block_sync_task_new_def task_ready_def)
  have "pool_used (cio_multicast_pool (cn_io ?c)) = {}"
    using multicast_pool_init_wf by (simp add: connection_new_def connection_io_new_def)
  moreover have "{..<num_of_multicast_events} \<noteq> {}" by (simp add: lessThan_empty_iff)
  ultimately have room: "pool_used (cio_multicast_pool (cn_io ?c)) \<noteq> {..<num_of_multicast_events}" by simp
  obtain ids s1 where t: "world_tick \<lparr>cfg_server_name = [], cfg_motd = []\<rparr> supported_cpe_map game_on_disconnect 5000 ?s = (ids, s1)" by fastforce
  from handshaked_reaches_level [OF one_player_plays cur ready none room sample_zlib_gives t, of 5001] obtain s' c' p' data where
    "complete_sync_block_task sample_zlib 5001 s1 = Some s'" "plays 0 0 c' p' s'" "ps_cur p' = S_level_initialized"
    "carries_level sample_zlib (\<lambda>b. b) (w_metadata s1) (w_block_mapping s') data" "queued_for data (cn_io c')" by blast
  moreover have "\<exists>q. ns_heap ?s 0 = Some q \<and> ps_cur q = S_handshaked" using playsD(5) [OF one_player_plays] by simp
  ultimately show ?thesis using t by blast
qed

lemma length_players_from: "length (players_from st s) \<le> length (env_table (ns_env s))"
proof -
  have "length (concat (map f xs)) \<le> length xs" if "\<And>x. length (f x) \<le> 1" for f :: "nat \<Rightarrow> nat list" and xs
  proof (induction xs)
    case (Cons x xs)
    then show ?case using that [of x] by simp
  qed simp
  from this [of _ "[0..<length (env_table (ns_env s))]"] show ?thesis
    by (simp add: players_from_def select_players_def split: option.split)
qed

theorem level_reaches_world_witness:
  "\<exists>(s :: game_server) ids s1 s' c p. world_tick \<lparr>cfg_server_name = [], cfg_motd = []\<rparr> supported_cpe_map game_on_disconnect 5000 s = (ids, s1) \<and>
     (\<exists>q. ns_heap s 0 = Some q \<and> ps_cur q = S_level_initialized) \<and>
     complete_spawn_player_task 5001 s1 = Some s' \<and> plays 0 0 c p s' \<and> ps_cur p = S_spawned"
proof -
  let ?p = "sample_player\<lparr>ps_cur := S_level_initialized, ps_next := S_level_initialized\<rparr>"
  let ?s = "one_player ?p" and ?c = "(connection_new (key_make 0 9) 0)\<lparr>cn_player := Some 0\<rparr>"
  let ?cfg = "\<lparr>cfg_server_name = [], cfg_motd = []\<rparr>"
  let ?tr = "transit_player_state ?cfg supported_cpe_map game_on_disconnect 5000"
  have cur: "ps_cur (?p\<lparr>pl_key := key_make 0 9\<rparr>) = S_level_initialized" by simp
  have ready: "task_ready 5000 (w_spawn_player_task ?s)" and none: "set (wp_players_queue (w_spawn_player_task ?s)) \<subseteq> dom (ns_heap ?s)"
    by (simp_all add: one_player_tasks world_player_task_new_def task_ready_def)
  obtain ids s1 where t: "world_tick ?cfg supported_cpe_map game_on_disconnect 5000 ?s = (ids, s1)" by fastforce
  note q = playsD [OF one_player_plays [of ?p]]
  have one: "length (env_table (ns_env ?s)) = 1" by (simp add: one_player_def)
  have F: "for_each_player ?tr ?s = ?tr 0 0 ?s"
    using q(6,8) by (simp add: for_each_player_def one)
  have tr: "ns_env (?tr 0 0 ?s) = ns_env ?s" "w_spawn_player_task (?tr 0 0 ?s) = wp_push 0 (w_spawn_player_task ?s)"
    using q(5) by (simp_all add: transit_player_state_def Let_def upd_player_def)
  have sch: "schedule_world_tasks 5000 (?tr 0 0 ?s) = (ids, s1)" using t by (simp add: world_tick_def F)
  have target: "wp_players_target (w_spawn_player_task s1) = [0]"
    using sch by (auto simp: schedule_world_tasks_eq Let_def tr one_player_tasks world_player_task_new_def wp_push_def wp_ready_def
        task_ready_def wp_before_scheduling_def task_set_state_def)
  have "length (players_from S_spawned s1) \<le> 1"
    using length_players_from [of S_spawned s1] schedule_net(1) [of 5000 "?tr 0 0 ?s"] sch tr(1) one by simp
  then have "(length (players_from S_spawned s1) + 1) * spawn_player_packet_size \<le> 2 * spawn_player_packet_size" by simp
  also have "\<dots> \<le> lf_unused_size (se_data (cio_send (cn_io ?c)))"
    by (simp add: connection_new_def connection_io_new_def lf_new_def lf_unused_size_def)
  finally have room: "(length (players_from S_spawned s1) + length (wp_players_target (w_spawn_player_task s1))) * spawn_player_packet_size \<le>
      lf_unused_size (se_data (cio_send (cn_io ?c)))" by (simp add: target)
  from level_reaches_world [OF one_player_plays cur ready none t room, of 5001] obtain s' c' p' where
    "complete_spawn_player_task 5001 s1 = Some s'" "plays 0 0 c' p' s'" "ps_cur p' = S_spawned" by blast
  moreover have "\<exists>q. ns_heap ?s 0 = Some q \<and> ps_cur q = S_level_initialized" using q(5) by simp
  ultimately show ?thesis using t by blast
qed

end
