(* ===== verification/Logging.thy ===== *)
theory Logging
  imports Prelude
begin

section \<open>Logging\<close>

text \<open>
  \<open>logging/logger.h\<close>/\<open>.cpp\<close>: the levels and their descriptors, what a log statement writes and to which
  stream, and the threads that write: every level has a mutex of its own, while several levels
  share a stream. A fatal message ends the process when its logger is destroyed.
\<close>

subsection \<open>Levels\<close>

datatype log_level = LV_debug | LV_info | LV_warn | LV_error | LV_fatal

definition log_level_map :: "(string \<times> log_level) list" where
  "log_level_map =
     [(''DEBUG'', LV_debug), (''INFO'', LV_info), (''WARN'', LV_warn), (''ERROR'', LV_error), (''FATAL'', LV_fatal)]"

definition to_log_level :: "string \<Rightarrow> log_level" where
  "to_log_level s = (case map_of log_level_map s of None \<Rightarrow> LV_info | Some l \<Rightarrow> l)"

datatype log_stream = LS_cout | LS_general | LS_error

record log_descriptor =
  ld_prefix :: string
  ld_outstream :: log_stream

definition log_descriptor_default :: log_descriptor where
  "log_descriptor_default = \<lparr>ld_prefix = ''[Info]'', ld_outstream = LS_cout\<rparr>"

type_synonym log_descriptors = "log_level \<Rightarrow> log_descriptor"

definition set_prefix :: "log_level \<Rightarrow> string \<Rightarrow> log_descriptors \<Rightarrow> log_descriptors" where
  "set_prefix l s ds = ds(l := (ds l)\<lparr>ld_prefix := s\<rparr>)"

definition set_outstream :: "log_level \<Rightarrow> log_stream \<Rightarrow> log_descriptors \<Rightarrow> log_descriptors" where
  "set_outstream l x ds = ds(l := (ds l)\<lparr>ld_outstream := x\<rparr>)"

definition log_descriptors_init :: "log_descriptors \<Rightarrow> log_descriptors" where
  "log_descriptors_init ds =
     set_outstream LV_fatal LS_error (set_outstream LV_error LS_error (set_outstream LV_warn LS_general
       (set_outstream LV_info LS_general (set_outstream LV_debug LS_general
         (set_prefix LV_fatal ''[Fatal]'' (set_prefix LV_error ''[Error]'' (set_prefix LV_warn ''[Warn]''
           (set_prefix LV_info ''[Info]'' (set_prefix LV_debug ''[Debug]'' ds)))))))))"

subsection \<open>Loggers\<close>

text \<open>
  What the program has written: the console, and the two files as they are when they are open; what
  is written to a file that is not open is lost.
\<close>

record log_output =
  lo_descriptors :: log_descriptors
  lo_cout :: bytes
  lo_general :: "bytes option"
  lo_error :: "bytes option"

definition log_output_new :: log_output where
  "log_output_new = \<lparr>lo_descriptors = (\<lambda>_. log_descriptor_default), lo_cout = [], lo_general = None, lo_error = None\<rparr>"

fun log_write :: "log_stream \<Rightarrow> bytes \<Rightarrow> log_output \<Rightarrow> log_output" where
  "log_write LS_cout bs out = out\<lparr>lo_cout := lo_cout out @ bs\<rparr>"
| "log_write LS_general bs out = out\<lparr>lo_general := map_option (\<lambda>f. f @ bs) (lo_general out)\<rparr>"
| "log_write LS_error bs out = out\<lparr>lo_error := map_option (\<lambda>f. f @ bs) (lo_error out)\<rparr>"

record logger =
  lr_level :: log_level
  lr_buffer :: bytes

record source_location =
  sl_file_name :: bytes
  sl_line :: nat
  sl_column :: nat

text \<open>The last component of a path, and how a path is printed: in quotes, with quotes and backslashes escaped.\<close>

definition path_filename :: "bytes \<Rightarrow> bytes" where
  "path_filename p = rev (takeWhile (\<lambda>c. c \<noteq> 0x2F \<and> c \<noteq> 0x5C) (rev p))"

definition quoted :: "bytes \<Rightarrow> bytes" where
  "quoted s = [0x22] @ concat (map (\<lambda>c. if c = 0x22 \<or> c = 0x5C then [0x5C, c] else [c]) s) @ [0x22]"

definition set_line_prefix :: "log_descriptors \<Rightarrow> source_location \<Rightarrow> logger \<Rightarrow> logger" where
  "set_line_prefix ds loc l =
     l\<lparr>lr_buffer := lr_buffer l @ cstr (ld_prefix (ds (lr_level l))) @ cstr '' '' @ quoted (path_filename (sl_file_name loc)) @
        cstr ''('' @ decimal_digits (sl_line loc) [] @ cstr '':'' @ decimal_digits (sl_column loc) [] @ cstr '') : ''\<rparr>"

definition logger_new :: "log_descriptors \<Rightarrow> log_level \<Rightarrow> source_location \<Rightarrow> logger" where
  "logger_new ds level loc = set_line_prefix ds loc \<lparr>lr_level = level, lr_buffer = []\<rparr>"

definition logger_append :: "bytes \<Rightarrow> logger \<Rightarrow> logger" where
  "logger_append v l = l\<lparr>lr_buffer := lr_buffer l @ v\<rparr>"

definition clear_buffer :: "logger \<Rightarrow> logger" where
  "clear_buffer l = l\<lparr>lr_buffer := []\<rparr>"

definition console_flush :: "logger \<Rightarrow> log_output \<Rightarrow> logger \<times> log_output" where
  "console_flush l out = (clear_buffer l, log_write LS_cout (lr_buffer l @ [0x0A]) out)"

definition file_flush :: "logger \<Rightarrow> log_output \<Rightarrow> logger \<times> log_output" where
  "file_flush l out = (clear_buffer l, log_write (ld_outstream (lo_descriptors out (lr_level l))) (lr_buffer l @ [0x0A]) out)"

text \<open>What running a piece of the program leads to: it goes on, or the process exits with a code in the state that it has then.\<close>

datatype ('s, 'a) outcome = Goes_on 'a | Exits i32 's

fun outcome_bind :: "('s, 'a) outcome \<Rightarrow> ('a \<Rightarrow> ('s, 'b) outcome) \<Rightarrow> ('s, 'b) outcome" where
  "outcome_bind (Goes_on x) f = f x"
| "outcome_bind (Exits n x) f = Exits n x"

text \<open>The destructor of the base class, after the flush of the derived one.\<close>

definition logger_destroy :: "logger \<Rightarrow> log_output \<Rightarrow> (log_output, log_output) outcome" where
  "logger_destroy l out = (if lr_level l = LV_fatal then Exits 0 out else Goes_on out)"

definition console_logger_destroy :: "logger \<Rightarrow> log_output \<Rightarrow> (log_output, log_output) outcome" where
  "console_logger_destroy l out = (let (l, out) = console_flush l out in logger_destroy l out)"

definition file_logger_destroy :: "logger \<Rightarrow> log_output \<Rightarrow> (log_output, log_output) outcome" where
  "file_logger_destroy l out = (let (l, out) = file_flush l out in logger_destroy l out)"

text \<open>The statements \<open>LOG_IF\<close> and \<open>CONSOLE_LOG_IF\<close>, with the values that are streamed into them.\<close>

definition log_if :: "log_level \<Rightarrow> bool \<Rightarrow> source_location \<Rightarrow> bytes list \<Rightarrow> log_output \<Rightarrow> (log_output, log_output) outcome" where
  "log_if level cond loc vs out =
     (if cond then file_logger_destroy (fold logger_append vs (logger_new (lo_descriptors out) level loc)) out else Goes_on out)"

definition console_log_if :: "log_level \<Rightarrow> bool \<Rightarrow> source_location \<Rightarrow> bytes list \<Rightarrow> log_output \<Rightarrow> (log_output, log_output) outcome" where
  "console_log_if level cond loc vs out =
     (if cond then console_logger_destroy (fold logger_append vs (logger_new (lo_descriptors out) level loc)) out else Goes_on out)"

text \<open>
  \<open>initialize_system\<close>, given which of the two files can be opened and where the messages about them
  come from; the directory exists or can be created. A file is truncated when it is opened.
\<close>

definition logging_initialize ::
    "bool \<Rightarrow> bool \<Rightarrow> source_location \<Rightarrow> source_location \<Rightarrow> bytes \<Rightarrow> bytes \<Rightarrow> log_output \<Rightarrow> (log_output, log_output) outcome" where
  "logging_initialize general_ok error_ok loc loc' general_path error_path out =
     (let out = out\<lparr>lo_descriptors := log_descriptors_init (lo_descriptors out)\<rparr>;
          out = out\<lparr>lo_general := (if general_ok then Some [] else None)\<rparr>
      in outcome_bind (console_log_if LV_fatal (\<not> general_ok) loc [cstr ''Fail to open file: '', quoted general_path] out)
           (\<lambda>out. let out = out\<lparr>lo_error := (if error_ok then Some [] else None)\<rparr>
                in console_log_if LV_fatal (\<not> error_ok) loc' [cstr ''Fail to open file: '', quoted error_path] out))"

text \<open>A statement that is not fatal writes one line and goes on; a fatal one ends the process, with code 0.\<close>

definition log_line :: "log_descriptors \<Rightarrow> log_level \<Rightarrow> source_location \<Rightarrow> bytes list \<Rightarrow> bytes" where
  "log_line ds level loc vs = lr_buffer (logger_new ds level loc) @ concat vs @ [0x0A]"

lemma fold_logger_append: "fold logger_append vs l = l\<lparr>lr_buffer := lr_buffer l @ concat vs\<rparr>"
  by (induction vs arbitrary: l) (simp_all add: logger_append_def)

lemma lr_level_new [simp]: "lr_level (logger_new ds level loc) = level"
  by (simp add: logger_new_def set_line_prefix_def)

lemma log_statement:
  "log_if level True loc vs out =
     (if level = LV_fatal then Exits 0 else Goes_on)
       (log_write (ld_outstream (lo_descriptors out level)) (log_line (lo_descriptors out) level loc vs) out)"
  "console_log_if level True loc vs out =
     (if level = LV_fatal then Exits 0 else Goes_on) (log_write LS_cout (log_line (lo_descriptors out) level loc vs) out)"
  by (simp_all add: log_if_def console_log_if_def file_logger_destroy_def console_logger_destroy_def file_flush_def
      console_flush_def logger_destroy_def fold_logger_append log_line_def clear_buffer_def)

lemma log_descriptors_init_streams:
  "ld_outstream (log_descriptors_init ds l) = (if l = LV_error \<or> l = LV_fatal then LS_error else LS_general)"
  by (cases l) (simp_all add: log_descriptors_init_def set_prefix_def set_outstream_def)

subsection \<open>Threads\<close>

text \<open>
  Threads that flush to files: each takes the mutex of the level, writes its line in any number of
  pieces, and gives the mutex back. \<open>lt_order\<close> records the lines in the order in which their
  mutexes were taken. A step that a thread cannot take changes nothing.
\<close>

record log_threads =
  lt_holder :: "log_level \<Rightarrow> nat option"
  lt_writing :: "nat \<Rightarrow> (log_level \<times> bytes) option"
  lt_stream :: "log_stream \<Rightarrow> bytes"
  lt_order :: "(log_level \<times> bytes) list"

definition log_threads_new :: log_threads where
  "log_threads_new = \<lparr>lt_holder = (\<lambda>_. None), lt_writing = (\<lambda>_. None), lt_stream = (\<lambda>_. []), lt_order = []\<rparr>"

datatype log_op = LT_lock nat log_level bytes | LT_write nat nat | LT_unlock nat

fun log_step :: "(log_level \<Rightarrow> log_stream) \<Rightarrow> log_op \<Rightarrow> log_threads \<Rightarrow> log_threads" where
  "log_step str (LT_lock t l line) s =
     (if lt_writing s t = None \<and> lt_holder s l = None
      then s\<lparr>lt_holder := (lt_holder s)(l \<mapsto> t), lt_writing := (lt_writing s)(t \<mapsto> (l, line)),
             lt_order := lt_order s @ [(l, line)]\<rparr>
      else s)"
| "log_step str (LT_write t n) s =
     (case lt_writing s t of
        None \<Rightarrow> s
      | Some (l, bs) \<Rightarrow>
          s\<lparr>lt_writing := (lt_writing s)(t \<mapsto> (l, drop n bs)),
            lt_stream := (lt_stream s)(str l := lt_stream s (str l) @ take n bs)\<rparr>)"
| "log_step str (LT_unlock t) s =
     (case lt_writing s t of
        Some (l, []) \<Rightarrow> s\<lparr>lt_holder := (lt_holder s)(l := None), lt_writing := (lt_writing s)(t := None)\<rparr>
      | _ \<Rightarrow> s)"

definition log_run :: "(log_level \<Rightarrow> log_stream) \<Rightarrow> log_op list \<Rightarrow> log_threads" where
  "log_run str xs = fold (log_step str) xs log_threads_new"

fun op_level :: "log_op \<Rightarrow> log_level option" where
  "op_level (LT_lock t l line) = Some l"
| "op_level _ = None"

definition uses_levels :: "log_level set \<Rightarrow> log_op list \<Rightarrow> bool" where
  "uses_levels L xs \<longleftrightarrow> (\<forall>x \<in> set xs. \<forall>l. op_level x = Some l \<longrightarrow> l \<in> L)"

text \<open>Two threads in one stream is a data race on the stream.\<close>

definition one_writer :: "(log_level \<Rightarrow> log_stream) \<Rightarrow> log_threads \<Rightarrow> bool" where
  "one_writer str s \<longleftrightarrow>
     (\<forall>t u l m bs cs. lt_writing s t = Some (l, bs) \<longrightarrow> lt_writing s u = Some (m, cs) \<longrightarrow> str l = str m \<longrightarrow> t = u)"

text \<open>Who holds a mutex is writing, and only with levels of \<open>L\<close>.\<close>

definition locks_ok :: "log_level set \<Rightarrow> log_threads \<Rightarrow> bool" where
  "locks_ok L s \<longleftrightarrow>
     (\<forall>t l bs. lt_writing s t = Some (l, bs) \<longrightarrow> lt_holder s l = Some t \<and> l \<in> L)"

lemma locks_ok_step:
  assumes "locks_ok L s" "\<And>l. op_level x = Some l \<Longrightarrow> l \<in> L"
  shows "locks_ok L (log_step str x s)"
proof (cases x)
  case (LT_lock t l line)
  have "lt_writing s u \<noteq> Some (l, bs)" if "lt_holder s l = None" for u bs
    using assms(1) that unfolding locks_ok_def by (metis option.distinct(1))
  then show ?thesis using assms LT_lock by (auto simp: locks_ok_def)
next
  case (LT_unlock t)
  have "u = t" if "lt_writing s t = Some (l, [])" "lt_writing s u = Some (l, bs)" for u l bs
    using assms(1) that unfolding locks_ok_def by (metis option.inject)
  then show ?thesis using assms(1) LT_unlock
    by (fastforce simp: locks_ok_def split: option.splits list.splits)
qed (use assms in \<open>auto simp: locks_ok_def split: option.splits\<close>)

lemma locks_ok_one_writer: "locks_ok L s \<Longrightarrow> inj_on str L \<Longrightarrow> one_writer str s"
  unfolding locks_ok_def one_writer_def by (metis inj_on_eq_iff option.inject)

text \<open>
  What is in a stream, followed by what its writer still has to write, is the lines that were
  locked for it.
\<close>

definition rest_in :: "(log_level \<Rightarrow> log_stream) \<Rightarrow> log_stream \<Rightarrow> log_threads \<Rightarrow> bytes \<Rightarrow> bool" where
  "rest_in str x s bs \<longleftrightarrow>
     (\<forall>t l cs. lt_writing s t = Some (l, cs) \<longrightarrow> str l = x \<longrightarrow> bs = cs) \<and>
     ((\<forall>t l cs. lt_writing s t = Some (l, cs) \<longrightarrow> str l \<noteq> x) \<longrightarrow> bs = [])"

definition lines_for :: "(log_level \<Rightarrow> log_stream) \<Rightarrow> log_stream \<Rightarrow> log_threads \<Rightarrow> bytes" where
  "lines_for str x s = concat (map snd (filter (\<lambda>(l, line). str l = x) (lt_order s)))"

definition stream_ok :: "(log_level \<Rightarrow> log_stream) \<Rightarrow> log_stream \<Rightarrow> log_threads \<Rightarrow> bool" where
  "stream_ok str x s \<longleftrightarrow> (\<exists>bs. rest_in str x s bs \<and> lt_stream s x @ bs = lines_for str x s)"

lemma rest_in_writing:
  assumes "lt_writing s t = Some (l, cs)" "one_writer str s"
  shows "rest_in str (str l) s bs \<longleftrightarrow> bs = cs"
proof
  show "bs = cs" if "rest_in str (str l) s bs" using that assms(1) by (auto simp: rest_in_def)
  have "cs' = cs" if "lt_writing s u = Some (m, cs')" "str m = str l" for u m cs'
    using that assms unfolding one_writer_def by (metis option.inject prod.inject)
  then show "rest_in str (str l) s bs" if "bs = cs" using that assms(1) unfolding rest_in_def by blast
qed

lemma rest_in_cong:
  assumes "\<And>t l cs. str l = x \<Longrightarrow> lt_writing s t = Some (l, cs) \<longleftrightarrow> lt_writing s' t = Some (l, cs)"
  shows "rest_in str x s bs \<longleftrightarrow> rest_in str x s' bs"
proof -
  have "(\<forall>t l cs. lt_writing s t = Some (l, cs) \<longrightarrow> str l = x \<longrightarrow> bs = cs) \<longleftrightarrow>
      (\<forall>t l cs. lt_writing s' t = Some (l, cs) \<longrightarrow> str l = x \<longrightarrow> bs = cs)"
    using assms by blast
  moreover have "(\<forall>t l cs. lt_writing s t = Some (l, cs) \<longrightarrow> str l \<noteq> x) \<longleftrightarrow>
      (\<forall>t l cs. lt_writing s' t = Some (l, cs) \<longrightarrow> str l \<noteq> x)"
    using assms by blast
  ultimately show ?thesis unfolding rest_in_def by (simp only:)
qed

lemma rest_in_quiet:
  "(\<And>t l cs. lt_writing s t = Some (l, cs) \<Longrightarrow> str l \<noteq> x) \<Longrightarrow> rest_in str x s bs \<longleftrightarrow> bs = []"
  by (auto simp: rest_in_def)

lemma stream_ok_lock:
  assumes ok: "locks_ok L s" and inj: "inj_on str L" and l: "l \<in> L" and s: "stream_ok str x s"
  shows "stream_ok str x (log_step str (LT_lock t l line) s)"
proof (cases "lt_writing s t = None \<and> lt_holder s l = None")
  case True
  let ?s = "log_step str (LT_lock t l line) s"
  have w: "lt_writing ?s = (lt_writing s)(t \<mapsto> (l, line))" "lt_stream ?s = lt_stream s" "lt_order ?s = lt_order s @ [(l, line)]"
    using True by simp_all
  have quiet: "str m \<noteq> str l" if "lt_writing s u = Some (m, cs)" for u m cs
    using ok inj l that True unfolding locks_ok_def inj_on_def by (metis option.distinct(1))
  have one: "one_writer str ?s"
    using locks_ok_one_writer [OF locks_ok_step [OF ok, of "LT_lock t l line" str] inj] l by simp
  show ?thesis
  proof (cases "str l = x")
    case True
    have "lt_stream s x = lines_for str x s"
      using s rest_in_quiet [of s str x] quiet True unfolding stream_ok_def by (metis append_Nil2)
    moreover have "rest_in str x ?s line"
      using rest_in_writing [OF _ one, of t l line line] w(1) True by simp
    ultimately show ?thesis using w(2,3) True unfolding stream_ok_def lines_for_def by (intro exI [of _ line]) simp
  next
    case False
    then have "rest_in str x ?s bs \<longleftrightarrow> rest_in str x s bs" for bs
      using w(1) \<open>lt_writing s t = None \<and> _\<close> False by (intro rest_in_cong) auto
    then show ?thesis using s w(2,3) False by (simp add: stream_ok_def lines_for_def)
  qed
next
  case False
  then have "log_step str (LT_lock t l line) s = s" by auto
  then show ?thesis using s by simp
qed

lemma stream_ok_write:
  assumes ok: "locks_ok L s" and inj: "inj_on str L" and s: "stream_ok str x s"
  shows "stream_ok str x (log_step str (LT_write t n) s)"
proof (cases "lt_writing s t")
  case (Some w)
  obtain l cs where w: "lt_writing s t = Some (l, cs)" using Some by (cases w) simp
  let ?s = "log_step str (LT_write t n) s"
  have w': "lt_writing ?s = (lt_writing s)(t \<mapsto> (l, drop n cs))" "lt_order ?s = lt_order s"
    "lt_stream ?s = (lt_stream s)(str l := lt_stream s (str l) @ take n cs)"
    using w by simp_all
  have one: "one_writer str s" "one_writer str ?s"
    using locks_ok_one_writer [OF ok inj] locks_ok_one_writer [OF locks_ok_step [OF ok, of "LT_write t n" str] inj] by simp_all
  show ?thesis
  proof (cases "str l = x")
    case True
    have "lt_stream s x @ cs = lines_for str x s"
      using s rest_in_writing [OF w one(1)] True by (auto simp: stream_ok_def)
    moreover have "rest_in str x ?s (drop n cs)"
      using rest_in_writing [OF _ one(2), of t l "drop n cs" "drop n cs"] w'(1) True by simp
    ultimately show ?thesis using w'(2,3) True unfolding stream_ok_def lines_for_def
      by (intro exI [of _ "drop n cs"]) simp
  next
    case False
    then have "rest_in str x ?s bs \<longleftrightarrow> rest_in str x s bs" for bs
      using w w'(1) False by (intro rest_in_cong) auto
    then show ?thesis using s w'(2,3) False by (simp add: stream_ok_def lines_for_def)
  qed
qed (use s in simp)

lemma stream_ok_unlock:
  assumes ok: "locks_ok L s" and inj: "inj_on str L" and s: "stream_ok str x s"
  shows "stream_ok str x (log_step str (LT_unlock t) s)"
proof (cases "\<exists>l. lt_writing s t = Some (l, [])")
  case True
  then obtain l where w: "lt_writing s t = Some (l, [])" by blast
  let ?s = "log_step str (LT_unlock t) s"
  have w': "lt_writing ?s = (lt_writing s)(t := None)" "lt_order ?s = lt_order s" "lt_stream ?s = lt_stream s"
    using w by simp_all
  have one: "one_writer str s" using locks_ok_one_writer [OF ok inj] .
  show ?thesis
  proof (cases "str l = x")
    case True
    have "lt_stream s x = lines_for str x s"
      using s rest_in_writing [OF w one] True by (auto simp: stream_ok_def)
    moreover have "str m \<noteq> x" if "lt_writing ?s u = Some (m, cs)" for u m cs
      using that w w'(1) one True unfolding one_writer_def by (auto split: if_splits)
    then have "rest_in str x ?s []" using rest_in_quiet [of ?s str x "[]"] by blast
    ultimately show ?thesis using w'(2,3) unfolding stream_ok_def lines_for_def by (intro exI [of _ "[]"]) simp
  next
    case False
    then have "rest_in str x ?s bs \<longleftrightarrow> rest_in str x s bs" for bs
      using w w'(1) False by (intro rest_in_cong) auto
    then show ?thesis using s w'(2,3) False by (simp add: stream_ok_def lines_for_def)
  qed
next
  case False
  then have "log_step str (LT_unlock t) s = s" by (auto split: option.splits list.splits)
  then show ?thesis using s by simp
qed

lemma stream_ok_step:
  assumes "locks_ok L s" "inj_on str L" "\<And>l. op_level y = Some l \<Longrightarrow> l \<in> L" "stream_ok str x s"
  shows "stream_ok str x (log_step str y s)"
proof (cases y)
  case (LT_lock t l line)
  then show ?thesis using stream_ok_lock [OF assms(1,2) _ assms(4)] assms(3) by simp
next
  case (LT_write t n)
  then show ?thesis using stream_ok_write [OF assms(1,2,4)] by blast
next
  case (LT_unlock t)
  then show ?thesis using stream_ok_unlock [OF assms(1,2,4)] by blast
qed

lemma log_run_ok:
  assumes "uses_levels L xs"
  shows "locks_ok L (log_run str xs)" and "inj_on str L \<Longrightarrow> stream_ok str x (log_run str xs)"
proof -
  have lo: "locks_ok L (fold (log_step str) xs s)" if "locks_ok L s" "uses_levels L xs" for xs s
    using that by (induction xs arbitrary: s) (auto simp: uses_levels_def intro: locks_ok_step)
  have so: "stream_ok str x (fold (log_step str) xs s)"
    if "inj_on str L" "locks_ok L s" "stream_ok str x s" "uses_levels L xs" for xs s
    using that(2-4)
  proof (induction xs arbitrary: s)
    case (Cons y xs)
    have y: "\<And>l. op_level y = Some l \<Longrightarrow> l \<in> L" and u: "uses_levels L xs"
      using Cons.prems(3) by (auto simp: uses_levels_def)
    from Cons.IH [OF locks_ok_step [OF Cons.prems(1) y] stream_ok_step [OF Cons.prems(1) that(1) y Cons.prems(2)] u]
    show ?case by simp
  qed simp
  have new: "locks_ok L log_threads_new" "stream_ok str x log_threads_new"
    by (simp_all add: locks_ok_def stream_ok_def rest_in_def lines_for_def log_threads_new_def)
  show "locks_ok L (log_run str xs)" using lo [OF new(1) assms] by (simp add: log_run_def)
  show "inj_on str L \<Longrightarrow> stream_ok str x (log_run str xs)" using so [OF _ new assms] by (simp add: log_run_def)
qed

text \<open>The stream of a level, and the levels that have a stream for themselves.\<close>

definition level_stream :: "log_descriptors \<Rightarrow> log_level \<Rightarrow> log_stream" where
  "level_stream ds l = ld_outstream (log_descriptors_init ds l)"

lemma level_stream_inj:
  "inj_on (level_stream ds) L \<longleftrightarrow> card (L \<inter> {LV_debug, LV_info, LV_warn}) \<le> 1 \<and> card (L \<inter> {LV_error, LV_fatal}) \<le> 1"
proof -
  have c: "card (L \<inter> A) \<le> 1 \<longleftrightarrow> (\<forall>a \<in> L \<inter> A. \<forall>b \<in> L \<inter> A. a = b)" if "finite A" for A
    using card_le_Suc0_iff_eq [of "L \<inter> A"] that by simp
  have s: "level_stream ds l = (if l \<in> {LV_error, LV_fatal} then LS_error else LS_general)" for l
    by (simp add: level_stream_def log_descriptors_init_streams)
  have u: "L \<inter> {LV_debug, LV_info, LV_warn} = {l \<in> L. level_stream ds l = LS_general}"
      "L \<inter> {LV_error, LV_fatal} = {l \<in> L. level_stream ds l = LS_error}"
    unfolding s by (auto split: if_splits elim: log_level.exhaust) (metis log_level.exhaust)+
  have "inj_on (level_stream ds) L \<longleftrightarrow> (\<forall>x. \<forall>a \<in> {l \<in> L. level_stream ds l = x}. \<forall>b \<in> {l \<in> L. level_stream ds l = x}. a = b)"
    by (auto simp: inj_on_def)
  also have "\<dots> \<longleftrightarrow> (\<forall>x \<in> {LS_general, LS_error}. \<forall>a \<in> {l \<in> L. level_stream ds l = x}. \<forall>b \<in> {l \<in> L. level_stream ds l = x}. a = b)"
    unfolding s by (auto split: if_splits)
  finally show ?thesis
    using c [of "{LV_debug, LV_info, LV_warn}"] c [of "{LV_error, LV_fatal}"] unfolding u by simp
qed

lemma two_writers:
  assumes "l \<noteq> m" "str l = str m"
  shows "\<not> one_writer str (log_run str [LT_lock 0 l [1], LT_lock 1 m [2]])"
proof -
  let ?s = "log_run str [LT_lock 0 l [1], LT_lock 1 m [2]]"
  have "lt_writing ?s 0 = Some (l, [1])" "lt_writing ?s 1 = Some (m, [2])"
    using assms(1) by (simp_all add: log_run_def log_threads_new_def)
  then show ?thesis using assms(2) unfolding one_writer_def by (metis zero_neq_one)
qed

text \<open>
  C40: A log file is written by one thread at a time exactly when no two of the levels in use share a
  stream: at most one of debug, info and warn, and at most one of error and fatal. Then a file
  that nobody is writing to holds whole lines, in the order in which their mutexes were taken.
\<close>

theorem log_lines_whole:
  "((\<forall>xs. uses_levels L xs \<longrightarrow> one_writer (level_stream ds) (log_run (level_stream ds) xs)) \<longleftrightarrow>
     card (L \<inter> {LV_debug, LV_info, LV_warn}) \<le> 1 \<and> card (L \<inter> {LV_error, LV_fatal}) \<le> 1) \<and>
   (\<forall>xs x. card (L \<inter> {LV_debug, LV_info, LV_warn}) \<le> 1 \<longrightarrow> card (L \<inter> {LV_error, LV_fatal}) \<le> 1 \<longrightarrow>
     uses_levels L xs \<longrightarrow> (\<forall>t l bs. lt_writing (log_run (level_stream ds) xs) t = Some (l, bs) \<longrightarrow> level_stream ds l \<noteq> x) \<longrightarrow>
     lt_stream (log_run (level_stream ds) xs) x = lines_for (level_stream ds) x (log_run (level_stream ds) xs))"
proof (intro conjI allI impI)
  let ?str = "level_stream ds"
  have "inj_on ?str L" if "\<forall>xs. uses_levels L xs \<longrightarrow> one_writer ?str (log_run ?str xs)"
  proof (rule inj_onI, rule ccontr)
    fix l m assume lm: "l \<in> L" "m \<in> L" "?str l = ?str m" "l \<noteq> m"
    then have "uses_levels L [LT_lock 0 l [1], LT_lock 1 m [2]]" by (simp add: uses_levels_def)
    with that two_writers [OF lm(4,3)] show False by blast
  qed
  then show "(\<forall>xs. uses_levels L xs \<longrightarrow> one_writer ?str (log_run ?str xs)) \<longleftrightarrow>
      card (L \<inter> {LV_debug, LV_info, LV_warn}) \<le> 1 \<and> card (L \<inter> {LV_error, LV_fatal}) \<le> 1"
    unfolding level_stream_inj [of ds, symmetric] using locks_ok_one_writer [OF log_run_ok(1)] by blast
next
  let ?str = "level_stream ds"
  fix xs x
  assume "card (L \<inter> {LV_debug, LV_info, LV_warn}) \<le> 1" "card (L \<inter> {LV_error, LV_fatal}) \<le> 1" "uses_levels L xs"
    and q: "\<forall>t l bs. lt_writing (log_run ?str xs) t = Some (l, bs) \<longrightarrow> ?str l \<noteq> x"
  then have "stream_ok ?str x (log_run ?str xs)" using log_run_ok(2) level_stream_inj by blast
  then show "lt_stream (log_run ?str xs) x = lines_for ?str x (log_run ?str xs)"
    using q rest_in_quiet [of "log_run ?str xs" ?str x] unfolding stream_ok_def by (metis append_Nil2)
qed

theorem log_lines_whole_witness:
  "lt_stream (log_run (level_stream (\<lambda>_. log_descriptor_default))
      [LT_lock 0 LV_info [0x61, 0x0A], LT_lock 1 LV_error [0x62, 0x0A], LT_write 0 1, LT_lock 2 LV_info [0x63, 0x0A],
       LT_write 1 2, LT_write 0 1, LT_unlock 0, LT_lock 2 LV_info [0x64, 0x0A], LT_write 2 2, LT_unlock 2]) LS_general =
    [0x61, 0x0A, 0x64, 0x0A]"
proof -
  let ?ds = "\<lambda>_. log_descriptor_default" and ?L = "{LV_info, LV_error}"
  let ?xs = "[LT_lock 0 LV_info [0x61, 0x0A], LT_lock 1 LV_error [0x62, 0x0A], LT_write 0 1, LT_lock 2 LV_info [0x63, 0x0A],
       LT_write 1 2, LT_write 0 1, LT_unlock 0, LT_lock 2 LV_info [0x64, 0x0A], LT_write 2 2, LT_unlock 2]"
  let ?s = "log_run (level_stream ?ds) ?xs"
  have str: "level_stream ?ds LV_info = LS_general" "level_stream ?ds LV_error = LS_error"
    by (simp_all add: level_stream_def log_descriptors_init_streams)
  have "card (?L \<inter> {LV_debug, LV_info, LV_warn}) \<le> 1" "card (?L \<inter> {LV_error, LV_fatal}) \<le> 1" by simp_all
  moreover have "uses_levels ?L ?xs" by (simp add: uses_levels_def)
  moreover have w: "lt_writing ?s = (\<lambda>_. None)(1 := Some (LV_error, []))" "lt_order ?s = [(LV_info, [0x61, 0x0A]),
      (LV_error, [0x62, 0x0A]), (LV_info, [0x64, 0x0A])]"
    by (auto simp: log_run_def log_threads_new_def str)
  then have "\<forall>t l bs. lt_writing ?s t = Some (l, bs) \<longrightarrow> level_stream ?ds l \<noteq> LS_general" by (auto simp: str split: if_splits)
  ultimately have "lt_stream ?s LS_general = lines_for (level_stream ?ds) LS_general ?s"
    using log_lines_whole [of ?L ?ds] by blast
  also have "\<dots> = [0x61, 0x0A, 0x64, 0x0A]" unfolding lines_for_def w(2) by (simp add: str)
  finally show ?thesis .
qed

end
