(* ===== verification/Odbc.thy ===== *)
theory Odbc
  imports Ids
begin

section \<open>The SQL Server driver\<close>

text \<open>
  \<open>database/sql_statement.h\<close>/\<open>.cpp\<close>, \<open>database/mssql_core.h\<close>/\<open>.cpp\<close> and \<open>logging_sql_error\<close> of
  \<open>logging/logger.cpp\<close>: prepared statements, the parameters and columns they bind, the connection
  and the errors that are logged. The ODBC calls are the record \<open>odbc\<close> over any state \<open>'d\<close> of the driver;
  a variable that is bound is a typed reference, so that the width of the variable is in the type.
\<close>

subsection \<open>Answers of the driver\<close>

type_synonym retcode = i16

abbreviation SQL_SUCCESS :: retcode where "SQL_SUCCESS \<equiv> 0"
abbreviation SQL_SUCCESS_WITH_INFO :: retcode where "SQL_SUCCESS_WITH_INFO \<equiv> 1"
abbreviation SQL_NO_DATA :: retcode where "SQL_NO_DATA \<equiv> 100"
abbreviation SQL_ERROR :: retcode where "SQL_ERROR \<equiv> - 1"

definition check_db_success :: "retcode \<Rightarrow> bool" where
  "check_db_success ret \<longleftrightarrow> \<not> (ret \<noteq> SQL_SUCCESS \<and> ret \<noteq> SQL_SUCCESS_WITH_INFO)"

definition check_db_strong_success :: "retcode \<Rightarrow> bool" where
  "check_db_strong_success ret \<longleftrightarrow> \<not> ret \<noteq> SQL_SUCCESS"

subsection \<open>What is bound\<close>

datatype c_type = SQL_C_BIT | SQL_C_SLONG | SQL_C_SBIGINT | SQL_C_ULONG | SQL_C_UBIGINT | SQL_C_CHAR | SQL_C_BINARY
datatype sql_type = SQL_BIT | SQL_INTEGER | SQL_BIGINT | SQL_CHAR | SQL_BINARY
datatype param_io = SQL_PARAM_INPUT | SQL_PARAM_OUTPUT

text \<open>A reference to a variable of the machine type \<open>'w\<close>, given by its address.\<close>

datatype ('w :: len) reference = Reference (ref_address: u64)

record bind_parameter =
  bi_number :: u16
  bi_io :: param_io
  bi_c_type :: c_type
  bi_sql_type :: sql_type
  bi_column_size :: u64
  bi_decimal_digits :: i16
  bi_value :: u64
  bi_buffer_length :: u64
  bi_length_or_ind :: u64

record bind_column =
  bo_number :: u16
  bo_c_type :: c_type
  bo_value :: u64
  bo_buffer_length :: u64
  bo_length_or_ind :: u64

datatype statement_call =
    SC_prepare bytes i32
  | SC_execute
  | SC_exec_direct bytes
  | SC_fetch
  | SC_more_results
  | SC_close_cursor
  | SC_bind_parameter bind_parameter
  | SC_bind_column bind_column

datatype handle_type = SQL_HANDLE_ENV | SQL_HANDLE_DBC | SQL_HANDLE_STMT

text \<open>
  The calls: allocation gives a handle and may change the variable even when it fails, so the
  answer is the new content of the variable.
\<close>

record 'd odbc =
  od_alloc :: "handle_type \<Rightarrow> u64 \<Rightarrow> u64 \<Rightarrow> 'd \<Rightarrow> retcode \<times> u64 \<times> 'd"
  od_free :: "handle_type \<Rightarrow> u64 \<Rightarrow> 'd \<Rightarrow> 'd"
  od_statement :: "statement_call \<Rightarrow> u64 \<Rightarrow> 'd \<Rightarrow> retcode \<times> 'd"
  od_set_version :: "u64 \<Rightarrow> 'd \<Rightarrow> retcode \<times> 'd"
  od_connect :: "u64 \<Rightarrow> bytes \<Rightarrow> i16 \<Rightarrow> 'd \<Rightarrow> retcode \<times> 'd"
  od_disconnect :: "u64 \<Rightarrow> 'd \<Rightarrow> 'd"

text \<open>The driver, the static connection handle, and the errors that \<open>logging_sql_error\<close> was called for.\<close>

record 'd sql_env =
  sv_driver :: 'd
  sv_connection :: u64
  sv_errors :: "(handle_type \<times> u64 \<times> retcode) list"

subsection \<open>Statements\<close>

record sql_statement =
  sq_handle :: u64

definition sql_statement_new :: "'d odbc \<Rightarrow> u64 \<Rightarrow> 'd sql_env \<Rightarrow> sql_statement \<times> 'd sql_env" where
  "sql_statement_new os connection e =
     (case od_alloc os SQL_HANDLE_STMT connection 0 (sv_driver e) of
        (ret, h, d) \<Rightarrow> (\<lparr>sq_handle = h\<rparr>, e\<lparr>sv_driver := d\<rparr>))"

definition sq_is_valid :: "sql_statement \<Rightarrow> bool" where
  "sq_is_valid st \<longleftrightarrow> sq_handle st \<noteq> 0"

text \<open>\<open>close\<close> compares the constant \<open>SQL_NULL_HSTMT\<close> with itself.\<close>

definition sq_close :: "'d odbc \<Rightarrow> sql_statement \<Rightarrow> 'd sql_env \<Rightarrow> sql_statement \<times> 'd sql_env" where
  "sq_close os st e =
     (let e = (if (0 :: u64) \<noteq> 0 then e\<lparr>sv_driver := od_free os SQL_HANDLE_STMT (sq_handle st) (sv_driver e)\<rparr> else e)
      in (st\<lparr>sq_handle := 0\<rparr>, e))"

definition sq_move_ctor :: "sql_statement \<Rightarrow> sql_statement \<times> sql_statement" where
  "sq_move_ctor other = (\<lparr>sq_handle = sq_handle other\<rparr>, other\<lparr>sq_handle := 0\<rparr>)"

definition sq_destroy :: "'d odbc \<Rightarrow> sql_statement \<Rightarrow> 'd sql_env \<Rightarrow> 'd sql_env" where
  "sq_destroy os st e = snd (sq_close os st e)"

definition sq_log_error :: "sql_statement \<Rightarrow> retcode \<Rightarrow> 'd sql_env \<Rightarrow> 'd sql_env" where
  "sq_log_error st ret e = e\<lparr>sv_errors := sv_errors e @ [(SQL_HANDLE_STMT, sq_handle st, ret)]\<rparr>"

text \<open>A call followed by one of the two checks.\<close>

definition sq_checked :: "(retcode \<Rightarrow> bool) \<Rightarrow> 'd odbc \<Rightarrow> statement_call \<Rightarrow> sql_statement \<Rightarrow> 'd sql_env \<Rightarrow> bool \<times> 'd sql_env" where
  "sq_checked ok os c st e =
     (case od_statement os c (sq_handle st) (sv_driver e) of
        (ret, d) \<Rightarrow>
          (let e = e\<lparr>sv_driver := d\<rparr> in if \<not> ok ret then (False, sq_log_error st ret e) else (True, e)))"

definition sq_prepare :: "'d odbc \<Rightarrow> bytes \<Rightarrow> sql_statement \<Rightarrow> 'd sql_env \<Rightarrow> bool \<times> 'd sql_env" where
  "sq_prepare os query = sq_checked check_db_strong_success os (SC_prepare query (of_nat (length query)))"

definition sq_execute :: "'d odbc \<Rightarrow> sql_statement \<Rightarrow> 'd sql_env \<Rightarrow> bool \<times> 'd sql_env" where
  "sq_execute os = sq_checked check_db_success os SC_execute"

definition sq_execute_direct :: "'d odbc \<Rightarrow> bytes \<Rightarrow> sql_statement \<Rightarrow> 'd sql_env \<Rightarrow> bool \<times> 'd sql_env" where
  "sq_execute_direct os query = sq_checked check_db_success os (SC_exec_direct query)"

definition sq_fetch :: "'d odbc \<Rightarrow> sql_statement \<Rightarrow> 'd sql_env \<Rightarrow> bool \<times> 'd sql_env" where
  "sq_fetch os st e =
     (case od_statement os SC_fetch (sq_handle st) (sv_driver e) of
        (ret, d) \<Rightarrow>
          (let e = e\<lparr>sv_driver := d\<rparr>
           in if ret = SQL_NO_DATA then (False, e)
              else if \<not> check_db_success ret then (False, sq_log_error st ret e) else (True, e)))"

definition sq_more_results :: "'d odbc \<Rightarrow> sql_statement \<Rightarrow> 'd sql_env \<Rightarrow> bool \<times> 'd sql_env" where
  "sq_more_results os st e =
     (case od_statement os SC_more_results (sq_handle st) (sv_driver e) of
        (ret, d) \<Rightarrow>
          (let e = e\<lparr>sv_driver := d\<rparr>
           in if ret = SQL_NO_DATA then (False, e)
              else if \<not> check_db_success ret then (False, sq_log_error st ret e) else (True, e)))"

definition sq_close_cursor :: "'d odbc \<Rightarrow> sql_statement \<Rightarrow> 'd sql_env \<Rightarrow> bool \<times> 'd sql_env" where
  "sq_close_cursor os = sq_checked check_db_success os SC_close_cursor"

subsection \<open>Parameters and columns\<close>

text \<open>The operations that bind: the arguments that they hand to \<open>SQLBindParameter\<close> and \<open>SQLBindCol\<close>.\<close>

type_synonym 'd statement_op = "'d odbc \<Rightarrow> sql_statement \<Rightarrow> 'd sql_env \<Rightarrow> bool \<times> 'd sql_env"

definition inbound_bool_parameter :: "u16 \<Rightarrow> 8 reference \<Rightarrow> 'd statement_op" where
  "inbound_bool_parameter n v os = sq_checked check_db_strong_success os (SC_bind_parameter
     \<lparr>bi_number = n, bi_io = SQL_PARAM_INPUT, bi_c_type = SQL_C_BIT, bi_sql_type = SQL_BIT, bi_column_size = 0,
      bi_decimal_digits = 0, bi_value = ref_address v, bi_buffer_length = 0, bi_length_or_ind = 0\<rparr>)"

definition inbound_int32_parameter :: "u16 \<Rightarrow> 32 reference \<Rightarrow> 'd statement_op" where
  "inbound_int32_parameter n v os = sq_checked check_db_strong_success os (SC_bind_parameter
     \<lparr>bi_number = n, bi_io = SQL_PARAM_INPUT, bi_c_type = SQL_C_SLONG, bi_sql_type = SQL_INTEGER, bi_column_size = 0,
      bi_decimal_digits = 0, bi_value = ref_address v, bi_buffer_length = 0, bi_length_or_ind = 0\<rparr>)"

definition inbound_int64_parameter :: "u16 \<Rightarrow> 64 reference \<Rightarrow> 'd statement_op" where
  "inbound_int64_parameter n v os = sq_checked check_db_strong_success os (SC_bind_parameter
     \<lparr>bi_number = n, bi_io = SQL_PARAM_INPUT, bi_c_type = SQL_C_SBIGINT, bi_sql_type = SQL_BIGINT, bi_column_size = 0,
      bi_decimal_digits = 0, bi_value = ref_address v, bi_buffer_length = 0, bi_length_or_ind = 0\<rparr>)"

definition inbound_uint32_parameter :: "u16 \<Rightarrow> 32 reference \<Rightarrow> 'd statement_op" where
  "inbound_uint32_parameter n v os = sq_checked check_db_strong_success os (SC_bind_parameter
     \<lparr>bi_number = n, bi_io = SQL_PARAM_INPUT, bi_c_type = SQL_C_ULONG, bi_sql_type = SQL_INTEGER, bi_column_size = 0,
      bi_decimal_digits = 0, bi_value = ref_address v, bi_buffer_length = 0, bi_length_or_ind = 0\<rparr>)"

definition inbound_uint64_parameter :: "u16 \<Rightarrow> 64 reference \<Rightarrow> 'd statement_op" where
  "inbound_uint64_parameter n v os = sq_checked check_db_strong_success os (SC_bind_parameter
     \<lparr>bi_number = n, bi_io = SQL_PARAM_INPUT, bi_c_type = SQL_C_UBIGINT, bi_sql_type = SQL_BIGINT, bi_column_size = 0,
      bi_decimal_digits = 0, bi_value = ref_address v, bi_buffer_length = 0, bi_length_or_ind = 0\<rparr>)"

definition inbound_chars_parameter :: "u16 \<Rightarrow> u64 \<Rightarrow> u64 \<Rightarrow> 64 reference \<Rightarrow> 'd statement_op" where
  "inbound_chars_parameter n buf buf_size data_size os = sq_checked check_db_strong_success os (SC_bind_parameter
     \<lparr>bi_number = n, bi_io = SQL_PARAM_INPUT, bi_c_type = SQL_C_CHAR, bi_sql_type = SQL_CHAR, bi_column_size = buf_size,
      bi_decimal_digits = 0, bi_value = buf, bi_buffer_length = 0, bi_length_or_ind = ref_address data_size\<rparr>)"

definition inbound_bytes_parameter :: "u16 \<Rightarrow> u64 \<Rightarrow> u64 \<Rightarrow> 64 reference \<Rightarrow> 'd statement_op" where
  "inbound_bytes_parameter n buf column_size data_size os = sq_checked check_db_strong_success os (SC_bind_parameter
     \<lparr>bi_number = n, bi_io = SQL_PARAM_INPUT, bi_c_type = SQL_C_BINARY, bi_sql_type = SQL_BINARY, bi_column_size = column_size,
      bi_decimal_digits = 0, bi_value = buf, bi_buffer_length = 0, bi_length_or_ind = ref_address data_size\<rparr>)"

definition inbound_null_terminated_string_parameter :: "u16 \<Rightarrow> u64 \<Rightarrow> u64 \<Rightarrow> 'd statement_op" where
  "inbound_null_terminated_string_parameter n cs buf_size os = sq_checked check_db_strong_success os (SC_bind_parameter
     \<lparr>bi_number = n, bi_io = SQL_PARAM_INPUT, bi_c_type = SQL_C_CHAR, bi_sql_type = SQL_CHAR, bi_column_size = buf_size,
      bi_decimal_digits = 0, bi_value = cs, bi_buffer_length = 0, bi_length_or_ind = 0\<rparr>)"

definition outbound_uint32_parameter :: "u16 \<Rightarrow> 32 reference \<Rightarrow> 'd statement_op" where
  "outbound_uint32_parameter n v os = sq_checked check_db_strong_success os (SC_bind_parameter
     \<lparr>bi_number = n, bi_io = SQL_PARAM_OUTPUT, bi_c_type = SQL_C_ULONG, bi_sql_type = SQL_INTEGER, bi_column_size = 0,
      bi_decimal_digits = 0, bi_value = ref_address v, bi_buffer_length = 0, bi_length_or_ind = 0\<rparr>)"

text \<open>The length that the variable \<open>buf_size\<close> holds is handed over with its address.\<close>

definition outbound_bytes_parameter :: "u16 \<Rightarrow> u64 \<Rightarrow> u64 \<Rightarrow> 64 reference \<Rightarrow> u64 \<Rightarrow> 'd statement_op" where
  "outbound_bytes_parameter n buf column_size buf_size size_value os = sq_checked check_db_strong_success os (SC_bind_parameter
     \<lparr>bi_number = n, bi_io = SQL_PARAM_OUTPUT, bi_c_type = SQL_C_BINARY, bi_sql_type = SQL_BINARY, bi_column_size = column_size,
      bi_decimal_digits = 0, bi_value = buf, bi_buffer_length = size_value, bi_length_or_ind = ref_address buf_size\<rparr>)"

definition sq_bind_column :: "u16 \<Rightarrow> c_type \<Rightarrow> u64 \<Rightarrow> u64 \<Rightarrow> u64 \<Rightarrow> 'd statement_op" where
  "sq_bind_column n t value len ind os = sq_checked check_db_strong_success os (SC_bind_column
     \<lparr>bo_number = n, bo_c_type = t, bo_value = value, bo_buffer_length = len, bo_length_or_ind = ind\<rparr>)"

definition outbound_bool_column :: "u16 \<Rightarrow> 8 reference \<Rightarrow> 'd statement_op" where
  "outbound_bool_column n v = sq_bind_column n SQL_C_BIT (ref_address v) 0 0"

definition outbound_int32_column :: "u16 \<Rightarrow> 32 reference \<Rightarrow> 'd statement_op" where
  "outbound_int32_column n v = sq_bind_column n SQL_C_SLONG (ref_address v) 0 0"

definition outbound_int64_column :: "u16 \<Rightarrow> 64 reference \<Rightarrow> 'd statement_op" where
  "outbound_int64_column n v = sq_bind_column n SQL_C_SBIGINT (ref_address v) 0 0"

definition outbound_uint32_column :: "u16 \<Rightarrow> 32 reference \<Rightarrow> 'd statement_op" where
  "outbound_uint32_column n v = sq_bind_column n SQL_C_ULONG (ref_address v) 0 0"

definition outbound_uint64_column :: "u16 \<Rightarrow> 64 reference \<Rightarrow> 'd statement_op" where
  "outbound_uint64_column n v = sq_bind_column n SQL_C_UBIGINT (ref_address v) 0 0"

definition outbound_bytes_column :: "u16 \<Rightarrow> u64 \<Rightarrow> u64 \<Rightarrow> 64 reference \<Rightarrow> 'd statement_op" where
  "outbound_bytes_column n buf buf_size data_size = sq_bind_column n SQL_C_BINARY buf buf_size (ref_address data_size)"

subsection \<open>The connection\<close>

datatype database_state = DB_uninitialized | DB_initialized | DB_connected | DB_disconnected

record database_core =
  dc_state :: database_state
  dc_environment :: u64

text \<open>
  The constructor, given what the uninitialised variable of the environment holds; an error is the
  code that it throws. The connection handle is shared by all objects.
\<close>

definition database_core_new :: "'d odbc \<Rightarrow> u64 \<Rightarrow> 'd sql_env \<Rightarrow> (int + database_core) \<times> 'd sql_env" where
  "database_core_new os env0 e =
     (case od_alloc os SQL_HANDLE_ENV 0 env0 (sv_driver e) of
        (ret, env, d) \<Rightarrow>
          if ret = SQL_ERROR then (Inl ec_alloc_environment_handle, e\<lparr>sv_driver := d\<rparr>)
          else
            (case od_set_version os env d of
               (ret, d) \<Rightarrow>
                 if ret = SQL_ERROR then (Inl ec_set_attribute_version, e\<lparr>sv_driver := d\<rparr>)
                 else if sv_connection e = 0 then
                   (case od_alloc os SQL_HANDLE_DBC env (sv_connection e) d of
                      (ret, c, d) \<Rightarrow>
                        (let e = e\<lparr>sv_driver := d, sv_connection := c\<rparr>
                         in if ret = SQL_ERROR then (Inl ec_alloc_connection_handle, e)
                            else (Inr \<lparr>dc_state = DB_initialized, dc_environment = env\<rparr>, e)))
                 else (Inr \<lparr>dc_state = DB_initialized, dc_environment = env\<rparr>, e\<lparr>sv_driver := d\<rparr>)))"

definition connect_server :: "'d odbc \<Rightarrow> bytes \<Rightarrow> 'd sql_env \<Rightarrow> bool \<times> 'd sql_env" where
  "connect_server os connection_string e =
     (case od_connect os (sv_connection e) connection_string (of_nat (length connection_string)) (sv_driver e) of
        (ret, d) \<Rightarrow>
          (let e = e\<lparr>sv_driver := d\<rparr>
           in if \<not> check_db_success ret
              then (False, e\<lparr>sv_errors := sv_errors e @ [(SQL_HANDLE_DBC, sv_connection e, ret)]\<rparr>)
              else (True, e)))"

record configuration_database =
  db_driver_name :: bytes
  db_server_address :: bytes
  db_database_name :: bytes
  db_userid :: bytes
  db_password :: bytes

definition connect_sql_server_with_login :: "'d odbc \<Rightarrow> configuration_database \<Rightarrow> 'd sql_env \<Rightarrow> bool \<times> 'd sql_env" where
  "connect_sql_server_with_login os conf =
     connect_server os (cstr ''Driver={'' @ db_driver_name conf @ cstr ''}; Server='' @ db_server_address conf @
       cstr ''; Database='' @ db_database_name conf @ cstr ''; UID='' @ db_userid conf @
       cstr ''; PWD='' @ db_password conf @ cstr ''; Trusted_Connection=yes'')"

definition core_disconnect :: "'d odbc \<Rightarrow> database_core \<Rightarrow> 'd sql_env \<Rightarrow> database_core \<times> 'd sql_env" where
  "core_disconnect os c e =
     (if dc_state c = DB_connected
      then (c\<lparr>dc_state := DB_disconnected\<rparr>,
            e\<lparr>sv_driver := od_free os SQL_HANDLE_DBC (sv_connection e) (od_disconnect os (sv_connection e) (sv_driver e))\<rparr>)
      else (c, e))"

definition core_destroy :: "'d odbc \<Rightarrow> database_core \<Rightarrow> 'd sql_env \<Rightarrow> 'd sql_env" where
  "core_destroy os c e =
     (let (c, e) = core_disconnect os c e
      in if dc_environment c \<noteq> 0
         then e\<lparr>sv_driver := od_free os SQL_HANDLE_ENV (dc_environment c) (sv_driver e)\<rparr> else e)"

subsection \<open>The log of errors\<close>

text \<open>
  \<open>logging_sql_error\<close>: the messages that the loop prints, from the record with number \<open>i\<close> on; the
  counter is a short integer. \<open>None\<close> is a loop without end.
\<close>

partial_function (option) diag_loop :: "(i16 \<Rightarrow> retcode \<times> 'm) \<Rightarrow> i16 \<Rightarrow> 'm list option" where
  "diag_loop diag i =
     (case diag i of
        (ret, m) \<Rightarrow>
          if ret = SQL_SUCCESS then Option.bind (diag_loop diag (i + 1)) (\<lambda>ms. Some (m # ms))
          else Some [])"

definition logging_sql_error :: "(i16 \<Rightarrow> retcode \<times> 'm) \<Rightarrow> retcode \<Rightarrow> 'm list option" where
  "logging_sql_error diag error_code =
     (if error_code = SQL_SUCCESS_WITH_INFO \<or> error_code = SQL_ERROR then diag_loop diag 1 else Some [])"

text \<open>With fewer than 32767 records the loop ends, and prints the records before the first that is not there.\<close>

lemma diag_loop_step: "fst (diag i) = SQL_SUCCESS \<Longrightarrow> diag_loop diag i = map_option (Cons (snd (diag i))) (diag_loop diag (i + 1))"
  by (subst diag_loop.simps) (cases "diag_loop diag (i + 1)"; simp add: case_prod_beta)

lemma diag_loop_end: "fst (diag i) \<noteq> SQL_SUCCESS \<Longrightarrow> diag_loop diag i = Some []"
  by (subst diag_loop.simps) (simp add: case_prod_beta)

lemma diag_loop_from:
  assumes "\<forall>k < n. fst (diag (i + of_nat k)) = SQL_SUCCESS" "fst (diag (i + of_nat n)) \<noteq> SQL_SUCCESS"
  shows "diag_loop diag i = Some (map (\<lambda>k. snd (diag (i + of_nat k))) [0..<n])"
  using assms
proof (induction n arbitrary: i)
  case 0
  then show ?case by (simp add: diag_loop_end)
next
  case (Suc n)
  have s: "i + 1 + of_nat k = i + of_nat (Suc k)" for k by simp
  have "fst (diag (i + 1 + of_nat k)) = SQL_SUCCESS" if "k < n" for k
    using Suc.prems(1) that unfolding s by blast
  moreover have "fst (diag (i + 1 + of_nat n)) \<noteq> SQL_SUCCESS"
    using Suc.prems(2) unfolding s .
  ultimately have "diag_loop diag (i + 1) = Some (map (\<lambda>k. snd (diag (i + 1 + of_nat k))) [0..<n])"
    by (intro Suc.IH) blast+
  moreover have "fst (diag (i + of_nat 0)) = SQL_SUCCESS" using Suc.prems(1) by blast
  then have "fst (diag i) = SQL_SUCCESS" by simp
  moreover have "map (\<lambda>k. snd (diag (i + of_nat k))) [0..<Suc n] =
      snd (diag (i + of_nat 0)) # map (\<lambda>k. snd (diag (i + of_nat (Suc k)))) [0..<n]"
    by (rule map_upt_Suc)
  ultimately show ?case by (simp only: s diag_loop_step option.map) simp
qed

lemma sql_errors_logged:
  assumes "\<forall>k < n. fst (diag (1 + of_nat k)) = SQL_SUCCESS" "fst (diag (1 + of_nat n)) \<noteq> SQL_SUCCESS"
  shows "logging_sql_error diag SQL_ERROR = Some (map (\<lambda>k. snd (diag (1 + of_nat k))) [0..<n])"
  using diag_loop_from [OF assms] by (simp add: logging_sql_error_def)

subsection \<open>Programs over the driver\<close>

text \<open>
  A program: objects of the connection come and go, statements are constructed, moved, used and
  destroyed. An operation on an object that does not exist is not a step and changes nothing.
\<close>

record 'd sql_program =
  sp_env :: "'d sql_env"
  sp_core :: "database_core option"
  sp_statements :: "sql_statement list"

datatype sql_op =
    SO_core u64 | SO_connect configuration_database | SO_disconnect | SO_core_end
  | SO_new | SO_move nat | SO_end nat | SO_checked bool statement_call nat | SO_fetch nat | SO_more nat

fun sql_step :: "'d odbc \<Rightarrow> sql_op \<Rightarrow> 'd sql_program \<Rightarrow> 'd sql_program" where
  "sql_step os (SO_core env0) s =
     (case database_core_new os env0 (sp_env s) of
        (r, e) \<Rightarrow> s\<lparr>sp_env := e, sp_core := (case r of Inl _ \<Rightarrow> sp_core s | Inr c \<Rightarrow> Some c)\<rparr>)"
| "sql_step os (SO_connect conf) s = s\<lparr>sp_env := snd (connect_sql_server_with_login os conf (sp_env s))\<rparr>"
| "sql_step os SO_disconnect s =
     (case sp_core s of
        None \<Rightarrow> s
      | Some c \<Rightarrow> (let (c, e) = core_disconnect os c (sp_env s) in s\<lparr>sp_env := e, sp_core := Some c\<rparr>))"
| "sql_step os SO_core_end s =
     (case sp_core s of None \<Rightarrow> s | Some c \<Rightarrow> s\<lparr>sp_env := core_destroy os c (sp_env s), sp_core := None\<rparr>)"
| "sql_step os SO_new s =
     (let (st, e) = sql_statement_new os (sv_connection (sp_env s)) (sp_env s)
      in s\<lparr>sp_env := e, sp_statements := sp_statements s @ [st]\<rparr>)"
| "sql_step os (SO_move i) s =
     (if i < length (sp_statements s)
      then (let (st, st') = sq_move_ctor (sp_statements s ! i) in s\<lparr>sp_statements := (sp_statements s)[i := st'] @ [st]\<rparr>)
      else s)"
| "sql_step os (SO_end i) s =
     (if i < length (sp_statements s)
      then s\<lparr>sp_env := sq_destroy os (sp_statements s ! i) (sp_env s),
             sp_statements := take i (sp_statements s) @ drop (Suc i) (sp_statements s)\<rparr>
      else s)"
| "sql_step os (SO_checked strong c i) s =
     (if i < length (sp_statements s)
      then s\<lparr>sp_env := snd (sq_checked (if strong then check_db_strong_success else check_db_success) os c
               (sp_statements s ! i) (sp_env s))\<rparr>
      else s)"
| "sql_step os (SO_fetch i) s =
     (if i < length (sp_statements s) then s\<lparr>sp_env := snd (sq_fetch os (sp_statements s ! i) (sp_env s))\<rparr> else s)"
| "sql_step os (SO_more i) s =
     (if i < length (sp_statements s) then s\<lparr>sp_env := snd (sq_more_results os (sp_statements s ! i) (sp_env s))\<rparr> else s)"

definition sql_run :: "'d odbc \<Rightarrow> sql_op list \<Rightarrow> 'd sql_program \<Rightarrow> 'd sql_program" where
  "sql_run os ops s = fold (sql_step os) ops s"

text \<open>No object of the connection is ever in the state that \<open>disconnect\<close> asks for.\<close>

definition never_connected :: "'d sql_program \<Rightarrow> bool" where
  "never_connected s \<longleftrightarrow> (\<forall>c. sp_core s = Some c \<longrightarrow> dc_state c \<noteq> DB_connected)"

lemma core_new_initialized: "database_core_new os env0 e = (Inr c, e') \<Longrightarrow> dc_state c = DB_initialized"
  by (auto simp: database_core_new_def Let_def split: prod.splits if_splits)

lemma never_connected_step: "never_connected s \<Longrightarrow> never_connected (sql_step os x s)"
  by (cases x) (auto simp: never_connected_def core_disconnect_def Let_def core_new_initialized
      split: option.splits prod.splits sum.splits)

definition other_release :: "'d odbc \<Rightarrow> (handle_type \<Rightarrow> u64 \<Rightarrow> 'd \<Rightarrow> 'd) \<Rightarrow> (u64 \<Rightarrow> 'd \<Rightarrow> 'd) \<Rightarrow> 'd odbc" where
  "other_release os free disc =
     os\<lparr>od_free := (\<lambda>t. if t = SQL_HANDLE_ENV then od_free os t else free t), od_disconnect := disc\<rparr>"

lemma other_release_simps [simp]:
  "od_alloc (other_release os free disc) = od_alloc os"
  "od_statement (other_release os free disc) = od_statement os"
  "od_set_version (other_release os free disc) = od_set_version os"
  "od_connect (other_release os free disc) = od_connect os"
  "od_free (other_release os free disc) SQL_HANDLE_ENV = od_free os SQL_HANDLE_ENV"
  by (simp_all add: other_release_def)

lemmas sql_defs = connect_server_def connect_sql_server_with_login_def sql_statement_new_def
  sq_destroy_def sq_close_def sq_checked_def sq_fetch_def sq_more_results_def

lemma core_new_release [simp]: "database_core_new (other_release os free disc) = database_core_new os"
  by (intro ext) (simp add: database_core_new_def split: prod.split)

lemma sql_step_release:
  assumes "never_connected s"
  shows "sql_step (other_release os free disc) x s = sql_step os x s"
  using assms
  by (cases x) (auto simp: sql_defs never_connected_def core_disconnect_def core_destroy_def split: option.splits)

text \<open>
  No program ever gives a statement or a connection back to the driver: it does the same whatever
  \<open>SQLDisconnect\<close> does, and whatever \<open>SQLFreeHandle\<close> does for statements and connections. The close of a
  statement compares a constant with itself, and no operation records that the connection was made.
\<close>

theorem sql_handles_never_released:
  assumes "sp_core s = None"
  shows "sql_run (other_release os free disc) ops s = sql_run os ops s"
proof -
  have "fold (sql_step (other_release os free disc)) ops t = fold (sql_step os) ops t" if "never_connected t" for t
    using that
  proof (induction ops arbitrary: t)
    case (Cons x ops)
    then show ?case by (simp add: sql_step_release never_connected_step)
  qed simp
  then show ?thesis using assms by (simp add: sql_run_def never_connected_def)
qed

text \<open>A driver that numbers its handles and keeps those that are in use.\<close>

definition counting_driver :: "(nat \<times> u64 list) odbc" where
  "counting_driver =
     \<lparr>od_alloc = (\<lambda>t p h (n, hs). (SQL_SUCCESS, of_nat n, (Suc n, hs @ [of_nat n]))),
      od_free = (\<lambda>t h (n, hs). (n, filter (\<lambda>x. x \<noteq> h) hs)),
      od_statement = (\<lambda>c h d. (SQL_SUCCESS, d)),
      od_set_version = (\<lambda>h d. (SQL_SUCCESS, d)),
      od_connect = (\<lambda>h c n d. (SQL_SUCCESS, d)),
      od_disconnect = (\<lambda>h d. d)\<rparr>"

theorem sql_handles_never_released_witness:
  "sql_run (other_release counting_driver (\<lambda>_ _ _. (0, [])) (\<lambda>_ _. (0, [])))
      [SO_core 0, SO_new, SO_checked True SC_execute 0, SO_end 0, SO_core_end]
      \<lparr>sp_env = \<lparr>sv_driver = (1, []), sv_connection = 0, sv_errors = []\<rparr>, sp_core = None, sp_statements = []\<rparr> =
    \<lparr>sp_env = \<lparr>sv_driver = (4, [2, 3]), sv_connection = 2, sv_errors = []\<rparr>, sp_core = None, sp_statements = []\<rparr>"
  by (subst sql_handles_never_released)
    (simp_all add: sql_run_def database_core_new_def sql_defs counting_driver_def core_destroy_def core_disconnect_def check_db_strong_success_def)

subsection \<open>Typed bindings\<close>

text \<open>
  The bytes that the driver uses at the bound address: those of the C type, or as many as the
  length that is given for bytes and characters.
\<close>

fun c_type_size :: "c_type \<Rightarrow> nat option" where
  "c_type_size SQL_C_BIT = Some 1"
| "c_type_size SQL_C_SLONG = Some 4"
| "c_type_size SQL_C_ULONG = Some 4"
| "c_type_size SQL_C_SBIGINT = Some 8"
| "c_type_size SQL_C_UBIGINT = Some 8"
| "c_type_size SQL_C_CHAR = None"
| "c_type_size SQL_C_BINARY = None"

fun sql_type_size :: "sql_type \<Rightarrow> nat option" where
  "sql_type_size SQL_BIT = Some 1"
| "sql_type_size SQL_INTEGER = Some 4"
| "sql_type_size SQL_BIGINT = Some 8"
| "sql_type_size SQL_CHAR = None"
| "sql_type_size SQL_BINARY = None"

definition or_length :: "nat option \<Rightarrow> u64 \<Rightarrow> nat" where
  "or_length n l = (case n of None \<Rightarrow> unat l | Some n \<Rightarrow> n)"

fun bound_region :: "statement_call \<Rightarrow> (u64 \<times> nat) option" where
  "bound_region (SC_bind_parameter b) =
     Some (bi_value b, or_length (c_type_size (bi_c_type b))
       (if bi_io b = SQL_PARAM_OUTPUT then bi_buffer_length b else bi_column_size b))"
| "bound_region (SC_bind_column b) = Some (bo_value b, or_length (c_type_size (bo_c_type b)) (bo_buffer_length b))"
| "bound_region _ = None"

text \<open>The C type and the SQL type of a parameter have the same width.\<close>

fun widths_agree :: "statement_call \<Rightarrow> bool" where
  "widths_agree (SC_bind_parameter b) \<longleftrightarrow> c_type_size (bi_c_type b) = sql_type_size (bi_sql_type b)"
| "widths_agree _ \<longleftrightarrow> True"

definition binds :: "'d statement_op \<Rightarrow> u64 \<Rightarrow> nat \<Rightarrow> bool" where
  "binds f a n \<longleftrightarrow>
     (\<exists>c. bound_region c = Some (a, n) \<and> widths_agree c \<and> (\<forall>os. f os = sq_checked check_db_strong_success os c))"

lemma bindsI:
  "bound_region c = Some (a, n) \<Longrightarrow> widths_agree c \<Longrightarrow> (\<And>os. f os = sq_checked check_db_strong_success os c) \<Longrightarrow> binds f a n"
  by (auto simp: binds_def)

lemmas binding_defs = inbound_bool_parameter_def inbound_int32_parameter_def inbound_int64_parameter_def
  inbound_uint32_parameter_def inbound_uint64_parameter_def inbound_chars_parameter_def inbound_bytes_parameter_def
  inbound_null_terminated_string_parameter_def outbound_uint32_parameter_def outbound_bytes_parameter_def
  outbound_bool_column_def outbound_int32_column_def outbound_int64_column_def outbound_uint32_column_def
  outbound_uint64_column_def outbound_bytes_column_def sq_bind_column_def

text \<open>
  What is bound is the variable: every operation that binds makes one call, which describes exactly
  the bytes of the variable it was given, or the buffer with the length it was given, in a C type
  as wide as the SQL type of the parameter.
\<close>

theorem bindings_typed:
  fixes b :: "8 reference" and l :: "32 reference" and q :: "64 reference"
  shows "binds (inbound_bool_parameter n b) (ref_address b) (LENGTH(8) div 8) \<and>
    binds (inbound_int32_parameter n l) (ref_address l) (LENGTH(32) div 8) \<and>
    binds (inbound_int64_parameter n q) (ref_address q) (LENGTH(64) div 8) \<and>
    binds (inbound_uint32_parameter n l) (ref_address l) (LENGTH(32) div 8) \<and>
    binds (inbound_uint64_parameter n q) (ref_address q) (LENGTH(64) div 8) \<and>
    binds (outbound_uint32_parameter n l) (ref_address l) (LENGTH(32) div 8) \<and>
    binds (outbound_bool_column n b) (ref_address b) (LENGTH(8) div 8) \<and>
    binds (outbound_int32_column n l) (ref_address l) (LENGTH(32) div 8) \<and>
    binds (outbound_int64_column n q) (ref_address q) (LENGTH(64) div 8) \<and>
    binds (outbound_uint32_column n l) (ref_address l) (LENGTH(32) div 8) \<and>
    binds (outbound_uint64_column n q) (ref_address q) (LENGTH(64) div 8) \<and>
    binds (inbound_chars_parameter n buf buf_size q) buf (unat buf_size) \<and>
    binds (inbound_bytes_parameter n buf buf_size q) buf (unat buf_size) \<and>
    binds (inbound_null_terminated_string_parameter n buf buf_size) buf (unat buf_size) \<and>
    binds (outbound_bytes_parameter n buf buf_size q v) buf (unat v) \<and>
    binds (outbound_bytes_column n buf buf_size q) buf (unat buf_size)"
  by (intro conjI; rule bindsI, simp_all add: binding_defs or_length_def; (rule refl)?)

end
