(* ===== verification/Start_Up.thy ===== *)
theory Start_Up
  imports Logging Route_Server Odbc OS_Resources Collections
begin

section \<open>Configuration and start-up\<close>

text \<open>
  \<open>config/config.cpp\<close>, \<open>util/protobuf_util.cpp\<close>, \<open>mmocraft-router/config/config.cpp\<close>,
  \<open>system_initializer.cpp\<close>, \<open>Socket::initialize_system\<close>, \<open>load_remote_config\<close> of \<open>net/server_communicator.h\<close>,
  and the \<open>main\<close>, \<open>initialize\<close> and start of \<open>serve_forever\<close> of the four servers. A run of a process is an
  \<open>outcome\<close>: it goes on, or it exits with a code. The calls of the system and of the libraries are
  answers given as arguments; protobuf's JSON and binary formats are the record \<open>config_codec\<close>.
\<close>

subsection \<open>Configurations\<close>

record config_server =
  cs_ip :: bytes
  cs_port :: i32
  cs_max_client :: u32
  cs_server_name :: bytes
  cs_motd :: bytes

record config_world =
  cw_width :: i32
  cw_height :: i32
  cw_length :: i32
  cw_save_dir :: bytes

record config_log =
  cl_log_filename :: bytes
  cl_log_dir :: bytes

record config_system =
  cy_page_size :: u32
  cy_alllocation_granularity :: u32
  cy_num_of_processors :: u32

text \<open>A field that is a message is present or not; reading one that is not gives its default.\<close>

record game_config =
  gc_tcp_server :: "config_server option"
  gc_udp_server :: "config_server option"
  gc_player_database :: "configuration_database option"
  gc_world :: "config_world option"
  gc_log :: "config_log option"
  gc_system :: "config_system option"

record router_config =
  rc_server :: "config_server option"
  rc_log :: "config_log option"

record chat_config =
  hc_server :: "config_server option"
  hc_player_database :: "configuration_database option"
  hc_chat_database :: "configuration_database option"
  hc_log :: "config_log option"
  hc_system :: "config_system option"

record login_config =
  nc_server :: "config_server option"
  nc_player_database :: "configuration_database option"
  nc_session_database :: "configuration_database option"
  nc_log :: "config_log option"

definition default_server :: config_server where
  "default_server = \<lparr>cs_ip = [], cs_port = 0, cs_max_client = 0, cs_server_name = [], cs_motd = []\<rparr>"

definition default_world :: config_world where
  "default_world = \<lparr>cw_width = 0, cw_height = 0, cw_length = 0, cw_save_dir = []\<rparr>"

definition default_database :: configuration_database where
  "default_database = \<lparr>db_driver_name = [], db_server_address = [], db_database_name = [], db_userid = [], db_password = []\<rparr>"

definition default_log :: config_log where
  "default_log = \<lparr>cl_log_filename = [], cl_log_dir = []\<rparr>"

definition default_system :: config_system where
  "default_system = \<lparr>cy_page_size = 0, cy_alllocation_granularity = 0, cy_num_of_processors = 0\<rparr>"

definition or_default :: "'a \<Rightarrow> 'a option \<Rightarrow> 'a" where
  "or_default d x = (case x of None \<Rightarrow> d | Some y \<Rightarrow> y)"

definition mutable_field :: "'a \<Rightarrow> 'a option \<Rightarrow> 'a option" where
  "mutable_field d x = Some (or_default d x)"

definition game_config_new :: game_config where
  "game_config_new = \<lparr>gc_tcp_server = None, gc_udp_server = None, gc_player_database = None, gc_world = None, gc_log = None, gc_system = None\<rparr>"

definition router_config_new :: router_config where
  "router_config_new = \<lparr>rc_server = None, rc_log = None\<rparr>"

definition chat_config_new :: chat_config where
  "chat_config_new = \<lparr>hc_server = None, hc_player_database = None, hc_chat_database = None, hc_log = None, hc_system = None\<rparr>"

definition login_config_new :: login_config where
  "login_config_new = \<lparr>nc_server = None, nc_player_database = None, nc_session_database = None, nc_log = None\<rparr>"

text \<open>\<open>config::set_default_configuration\<close>, given what \<open>GetSystemInfo\<close> answers.\<close>

definition set_system_configuration :: "config_system \<Rightarrow> config_system \<Rightarrow> config_system" where
  "set_system_configuration info sys =
     sys\<lparr>cy_page_size := cy_page_size info, cy_alllocation_granularity := cy_alllocation_granularity info,
         cy_num_of_processors := cy_num_of_processors info\<rparr>"

subsection \<open>The files of the router\<close>

datatype server_config = CF_game game_config | CF_router router_config | CF_chat chat_config | CF_login login_config

text \<open>The router's \<open>set_default_configuration\<close>: every field that it names becomes present.\<close>

fun set_default_configuration :: "server_type_id \<Rightarrow> server_config \<Rightarrow> server_config" where
  "set_default_configuration ST_game (CF_game c) =
     CF_game (c\<lparr>gc_tcp_server := mutable_field default_server (gc_tcp_server c),
       gc_udp_server := mutable_field default_server (gc_udp_server c),
       gc_player_database := mutable_field default_database (gc_player_database c),
       gc_world := mutable_field default_world (gc_world c),
       gc_log := mutable_field default_log (gc_log c)\<rparr>)"
| "set_default_configuration ST_router (CF_router c) =
     CF_router (c\<lparr>rc_server := mutable_field default_server (rc_server c), rc_log := mutable_field default_log (rc_log c)\<rparr>)"
| "set_default_configuration ST_chat (CF_chat c) =
     CF_chat (c\<lparr>hc_server := mutable_field default_server (hc_server c),
       hc_player_database := mutable_field default_database (hc_player_database c),
       hc_chat_database := mutable_field default_database (hc_chat_database c),
       hc_log := mutable_field default_log (hc_log c)\<rparr>)"
| "set_default_configuration ST_login (CF_login c) =
     CF_login (c\<lparr>nc_server := mutable_field default_server (nc_server c),
       nc_player_database := mutable_field default_database (nc_player_database c),
       nc_log := mutable_field default_log (nc_log c)\<rparr>)"
| "set_default_configuration _ c = c"

record config_codec =
  kc_print :: "server_config \<Rightarrow> bytes"
  kc_read :: "bytes \<Rightarrow> server_config option"
  kc_serialize :: "server_config \<Rightarrow> bytes"
  kc_parse :: "bytes \<Rightarrow> bool \<times> server_config"

text \<open>
  The files of the router's machine and its messages, each named by the path of its file; \<open>writable\<close>
  says which files can be created. Text that is no JSON of the message leaves the message alone, and
  so does a file that cannot be opened, which is read as empty.
\<close>

type_synonym file_system = "string \<Rightarrow> bytes option"

record router_files =
  rf_files :: file_system
  rf_messages :: "string \<Rightarrow> server_config"

definition proto_message_to_json_file :: "config_codec \<Rightarrow> (string \<Rightarrow> bool) \<Rightarrow> server_config \<Rightarrow> string \<Rightarrow> file_system \<Rightarrow> file_system" where
  "proto_message_to_json_file kc writable m path fs = (if writable path then fs(path \<mapsto> kc_print kc m @ [0x0A]) else fs)"

definition json_file_to_proto_message :: "config_codec \<Rightarrow> server_config \<Rightarrow> string \<Rightarrow> file_system \<Rightarrow> server_config" where
  "json_file_to_proto_message kc m path fs =
     (case kc_read kc (case fs path of None \<Rightarrow> [] | Some text \<Rightarrow> text) of None \<Rightarrow> m | Some m' \<Rightarrow> m')"

text \<open>
  \<open>load_config\<close> and \<open>initialize_system\<close> of \<open>config/config.cpp\<close>: without a file the present configuration is
  written to it and the process exits.
\<close>

definition load_config ::
    "config_codec \<Rightarrow> (string \<Rightarrow> bool) \<Rightarrow> string \<Rightarrow> file_system \<times> server_config \<Rightarrow> (file_system, file_system \<times> server_config) outcome" where
  "load_config kc writable path =
     (\<lambda>(fs, m). if fs path = None then Exits 0 (proto_message_to_json_file kc writable m path fs)
        else Goes_on (fs, json_file_to_proto_message kc m path fs))"

fun config_path :: "server_type_id \<Rightarrow> string" where
  "config_path ST_game = ''config/game_config.json''"
| "config_path ST_router = ''config/router_config.json''"
| "config_path ST_chat = ''config/chat_config.json''"
| "config_path ST_login = ''config/login_config.json''"

lemma config_path_inject [simp]: "config_path s = config_path t \<longleftrightarrow> s = t"
  by (cases s; cases t) simp_all

lemma config_path_db_config_path [simp]: "config_path_db (server_type_value t) = Some (Some (config_path t))"
  by (cases t) (simp_all add: config_path_db_def)

fun new_config :: "server_type_id \<Rightarrow> server_config" where
  "new_config ST_game = CF_game game_config_new"
| "new_config ST_router = CF_router router_config_new"
| "new_config ST_chat = CF_chat chat_config_new"
| "new_config ST_login = CF_login login_config_new"

text \<open>One round of the loop of \<open>generate_all_config\<close>; an entry of the table without a path is skipped.\<close>

definition generate_entry ::
    "config_codec \<Rightarrow> (string \<Rightarrow> bool) \<Rightarrow> server_type_id \<Rightarrow> bool \<times> router_files \<Rightarrow> bool \<times> router_files" where
  "generate_entry kc writable t =
     (\<lambda>(created, r).
        let path = config_path t
        in if rf_files r path = None
           then (let m = set_default_configuration t (rf_messages r path)
                 in (True, r\<lparr>rf_messages := (rf_messages r)(path := m),
                             rf_files := proto_message_to_json_file kc writable m path (rf_files r)\<rparr>))
           else (created, r))"

definition generate_all_config :: "config_codec \<Rightarrow> (string \<Rightarrow> bool) \<Rightarrow> router_files \<Rightarrow> (router_files, router_files) outcome" where
  "generate_all_config kc writable r =
     (let (created, r) = fold (generate_entry kc writable) [ST_game, ST_router, ST_chat, ST_login] (False, r)
      in if created then Exits 0 r else Goes_on r)"

text \<open>\<open>load_server_config\<close> with its effect on the router's own message.\<close>

definition load_config_file :: "config_codec \<Rightarrow> server_type_id \<Rightarrow> router_files \<Rightarrow> router_files" where
  "load_config_file kc t r =
     r\<lparr>rf_messages := (rf_messages r)(config_path t :=
         json_file_to_proto_message kc (rf_messages r (config_path t)) (config_path t) (rf_files r))\<rparr>"

definition router_initialize :: "config_codec \<Rightarrow> (string \<Rightarrow> bool) \<Rightarrow> router_files \<Rightarrow> (router_files, router_files) outcome" where
  "router_initialize kc writable r =
     outcome_bind (generate_all_config kc writable r) (\<lambda>r. Goes_on (load_config_file kc ST_router r))"

text \<open>What the router answers for a path: the bytes of the message as its file gives it.\<close>

definition served_config :: "config_codec \<Rightarrow> router_files \<Rightarrow> string \<Rightarrow> bytes" where
  "served_config kc r path = kc_serialize kc (json_file_to_proto_message kc (rf_messages r path) path (rf_files r))"

subsection \<open>A process\<close>

text \<open>
  What start-up changes: what was printed (with the level, when it is a log statement; a fatal one
  ends the process), the socket library, the handlers to be run at an unexpected end, the log files,
  the collections and databases connected, and the threads started.
\<close>

datatype termination_handler = TH_wsa_cleanup | TH_close_logs
datatype socket_extension = SX_accept | SX_connect | SX_rio

record process =
  pr_console :: "(log_level option \<times> bytes) list"
  pr_sockets :: bool
  pr_startups :: nat
  pr_extensions :: "socket_extension list"
  pr_closed :: "handle list"
  pr_handlers :: "termination_handler list"
  pr_logs_open :: bool
  pr_collections :: collection_mapping
  pr_databases :: "bytes list"
  pr_threads :: nat

definition process_new :: process where
  "process_new = \<lparr>pr_console = [], pr_sockets = False, pr_startups = 0, pr_extensions = [], pr_closed = [], pr_handlers = [],
     pr_logs_open = False, pr_collections = (\<lambda>_. None), pr_databases = [], pr_threads = 0\<rparr>"

definition pr_print :: "log_level option \<Rightarrow> bytes \<Rightarrow> process \<Rightarrow> process" where
  "pr_print l msg p = p\<lparr>pr_console := pr_console p @ [(l, msg)]\<rparr>"

definition console_if :: "log_level \<Rightarrow> bool \<Rightarrow> bytes \<Rightarrow> process \<Rightarrow> (process, process) outcome" where
  "console_if l cond msg p =
     (if cond then (let p = pr_print (Some l) msg p in if l = LV_fatal then Exits 0 p else Goes_on p) else Goes_on p)"

definition add_termination_handler :: "termination_handler \<Rightarrow> process \<Rightarrow> process" where
  "add_termination_handler h p = p\<lparr>pr_handlers := pr_handlers p @ [h]\<rparr>"

text \<open>Each \<open>WSACleanup\<close> undoes one \<open>WSAStartup\<close>.\<close>

fun run_handler :: "termination_handler \<Rightarrow> process \<Rightarrow> process" where
  "run_handler TH_wsa_cleanup p = p\<lparr>pr_startups := pr_startups p - 1\<rparr>"
| "run_handler TH_close_logs p = p\<lparr>pr_logs_open := False\<rparr>"

definition termination_routine :: "process \<Rightarrow> (process, process) outcome" where
  "termination_routine p =
     Exits 0 (pr_print None (cstr ''Unexpected fatal error occured! exiting..'') (fold run_handler (pr_handlers p) p))"

subsection \<open>Sockets\<close>

text \<open>The answers: of \<open>WSAStartup\<close>, of the creation of sockets, and for each extension.\<close>

record winsock =
  ws_startup :: i32
  ws_socket :: "socket_call \<Rightarrow> handle"
  ws_ioctl :: "handle \<Rightarrow> socket_extension \<Rightarrow> bool"

definition load_extension :: "winsock \<Rightarrow> handle \<Rightarrow> socket_extension \<Rightarrow> bytes \<Rightarrow> process \<Rightarrow> (process, process) outcome" where
  "load_extension ws sock x msg p =
     console_if LV_fatal (\<not> ws_ioctl ws sock x) msg (if ws_ioctl ws sock x then p\<lparr>pr_extensions := pr_extensions p @ [x]\<rparr> else p)"

definition socket_initialize_system :: "winsock \<Rightarrow> process \<Rightarrow> (process, process) outcome" where
  "socket_initialize_system ws p =
     (if \<not> pr_sockets p
      then outcome_bind (console_if LV_fatal (ws_startup ws \<noteq> 0) (cstr ''WSAStartup() failed: '') (p\<lparr>pr_startups := pr_startups p + 1\<rparr>))
        (\<lambda>p. let p = add_termination_handler TH_wsa_cleanup p;
                 sock = uh_make (create_windows_socket (ws_socket ws) SP_tcp_rio_v4)
             in outcome_bind (load_extension ws (uh_get sock) SX_accept (cstr ''Fail to get pointer of AcceptEx: '') p)
             (\<lambda>p. outcome_bind (load_extension ws (uh_get sock) SX_connect (cstr ''Fail to get pointer of ConnectEx: '') p)
             (\<lambda>p. outcome_bind (load_extension ws (uh_get sock) SX_rio (cstr ''Fail to get pointer of rio function table: '') p)
             (\<lambda>p. Goes_on (p\<lparr>pr_sockets := True, pr_closed := uh_clear sock (pr_closed p)\<rparr>)))))
      else Goes_on p)"

subsection \<open>Logs and databases\<close>

text \<open>\<open>logging::initialize_system\<close> at the level of the process: which of the two files can be opened.\<close>

definition start_logging :: "bool \<Rightarrow> bool \<Rightarrow> process \<Rightarrow> (process, process) outcome" where
  "start_logging general_ok error_ok p =
     outcome_bind (console_if LV_fatal (\<not> general_ok) (cstr ''Fail to open file: '') p)
       (\<lambda>p. outcome_bind (console_if LV_fatal (\<not> error_ok) (cstr ''Fail to open file: '') p)
         (\<lambda>p. Goes_on (add_termination_handler TH_close_logs (p\<lparr>pr_logs_open := True\<rparr>))))"

definition start_database :: "(configuration_database \<Rightarrow> bool) \<Rightarrow> configuration_database \<Rightarrow> process \<Rightarrow> (process, process) outcome" where
  "start_database reachable conf p =
     (case connect_server_with_login (reachable conf) (pr_collections p) of
        None \<Rightarrow> console_if LV_fatal True (cstr ''Fail to connect to the cluster'') p
      | Some m \<Rightarrow> Goes_on (p\<lparr>pr_collections := m, pr_databases := pr_databases p @ [db_server_address conf]\<rparr>))"

subsection \<open>The configuration from the router\<close>

definition fetch_config_request :: "(proto_message \<Rightarrow> bytes) \<Rightarrow> bytes \<Rightarrow> ip_address \<Rightarrow> server_type_id \<Rightarrow> message_request" where
  "fetch_config_request enc mem0 router t =
     mr_set_request_address router
       (mr_set_message enc (FetchConfigRequest (server_type_value t)) (message_request_new mem0 (message_id_value MSG_fetch_config)))"

text \<open>
  \<open>fetch_config\<close>: the request is sent until it is answered, \<open>INT_MAX\<close> times after the first. What a
  server finds on the network: for each attempt, whether it can be sent and what is received.
\<close>

record remote =
  re_enc :: "proto_message \<Rightarrow> bytes"
  re_memory :: bytes
  re_sent :: "nat \<Rightarrow> bool"
  re_reply :: "nat \<Rightarrow> (ip_address \<times> bytes) option"

definition default_retry_count :: nat where
  "default_retry_count = 2 ^ 31 - 1"

definition fetch_config :: "remote \<Rightarrow> ip_address \<Rightarrow> server_type_id \<Rightarrow> bool \<times> message_request option" where
  "fetch_config re router t =
     send_message_reliably (re_sent re) (re_reply re) (fetch_config_request (re_enc re) (re_memory re) router t) default_retry_count"


text \<open>
  \<open>load_remote_config\<close>, given the response of \<open>send_message_reliably\<close> (none when no attempt was
  answered) and the parser of the server's message, which gives a message also when it fails.
\<close>

definition load_remote_config ::
    "(nat \<Rightarrow> bytes \<Rightarrow> proto_message option) \<Rightarrow> (bytes \<Rightarrow> bool \<times> 'c) \<Rightarrow> bool \<times> message_request option \<Rightarrow> 'c \<Rightarrow> bool \<times> 'c" where
  "load_remote_config dec parse answer conf =
     (case answer of
        (True, Some response) \<Rightarrow>
          (case mr_parse_message dec 1 response of
             Some (FetchConfigResponse c) \<Rightarrow> parse c
           | _ \<Rightarrow> (False, conf))
      | _ \<Rightarrow> (False, conf))"

subsection \<open>The servers\<close>

text \<open>The machine that a server starts on: the answers it gets.\<close>

record machine =
  ma_winsock :: winsock
  ma_system :: config_system
  ma_general_ok :: bool
  ma_error_ok :: bool
  ma_reachable :: "configuration_database \<Rightarrow> bool"
  ma_bind :: "bytes \<Rightarrow> i32 \<Rightarrow> bool"

definition udp_start :: "(bytes \<Rightarrow> i32 \<Rightarrow> bool) \<Rightarrow> bytes \<Rightarrow> i32 \<Rightarrow> nat \<Rightarrow> process \<Rightarrow> (process, process) outcome" where
  "udp_start bind ip port n p =
     outcome_bind (console_if LV_fatal (\<not> bind ip port) (cstr ''Couldn't bind server '' @ ip) p)
       (\<lambda>p. outcome_bind (console_if LV_info True (cstr ''Listening to '' @ ip) p)
         (\<lambda>p. Goes_on (p\<lparr>pr_threads := pr_threads p + n\<rparr>)))"

text \<open>\<open>setup::initialize_system\<close> of the game server, from its empty configuration.\<close>

definition setup_initialize_system ::
    "(nat \<Rightarrow> bytes \<Rightarrow> proto_message option) \<Rightarrow> (bytes \<Rightarrow> bool \<times> game_config) \<Rightarrow> machine \<Rightarrow> remote \<Rightarrow> ip_address \<Rightarrow>
      process \<times> game_config \<Rightarrow> (process, process \<times> game_config) outcome" where
  "setup_initialize_system dec parse ma re router =
     (\<lambda>(p, conf). outcome_bind (socket_initialize_system (ma_winsock ma) p)
        (\<lambda>p. case load_remote_config dec parse (fetch_config re router ST_game) conf of
               (False, conf) \<Rightarrow> Goes_on (p, conf)
             | (True, conf) \<Rightarrow>
                 (let conf = conf\<lparr>gc_system := Some (set_system_configuration (ma_system ma) (or_default default_system (gc_system conf)))\<rparr>
                  in outcome_bind (start_logging (ma_general_ok ma) (ma_error_ok ma) p)
                    (\<lambda>p. outcome_bind (start_database (ma_reachable ma) (or_default default_database (gc_player_database conf)) p)
                      (\<lambda>p. Goes_on (p, conf))))))"

text \<open>
  \<open>main\<close> of the game server up to the construction of the server, which is given the number of
  clients in the last component.
\<close>

definition game_main ::
    "(nat \<Rightarrow> bytes \<Rightarrow> proto_message option) \<Rightarrow> (bytes \<Rightarrow> bool \<times> game_config) \<Rightarrow> machine \<Rightarrow> remote \<Rightarrow> ip_address \<Rightarrow>
      nat \<Rightarrow> (process, process \<times> game_config \<times> u32) outcome" where
  "game_main dec parse ma re router argc =
     (if argc \<noteq> 3 then Exits 0 (pr_print None (cstr ''Usage: ROUTE_SERVER_IP ROUTE_SERVER_PORT'') process_new)
      else outcome_bind (setup_initialize_system dec parse ma re router (process_new, game_config_new))
        (\<lambda>(p, conf). Goes_on (p, conf, cs_max_client (or_default default_server (gc_tcp_server conf)))))"

text \<open>\<open>register_server\<close> for the router, for which the table has an entry.\<close>

definition register_router :: "ip_address \<Rightarrow> communicator \<Rightarrow> communicator" where
  "register_router router c = c\<lparr>cm_servers := (cm_servers c)[server_type_value ST_router := router]\<rparr>"

text \<open>\<open>GameServer::initialize\<close>: the results of fetching the two addresses are not looked at.\<close>

definition game_initialize ::
    "(nat \<Rightarrow> bytes \<Rightarrow> proto_message option) \<Rightarrow> message_request option \<Rightarrow> message_request option \<Rightarrow> ip_address \<Rightarrow>
      communicator \<Rightarrow> communicator" where
  "game_initialize dec login chat router c =
     snd (fetch_server_address dec ST_chat chat (snd (fetch_server_address dec ST_login login (register_router router c))))"

definition login_initialize ::
    "(nat \<Rightarrow> bytes \<Rightarrow> proto_message option) \<Rightarrow> (bytes \<Rightarrow> bool \<times> login_config) \<Rightarrow> machine \<Rightarrow> remote \<Rightarrow> ip_address \<Rightarrow>
      process \<times> login_config \<times> communicator \<Rightarrow> (process, bool \<times> process \<times> login_config \<times> communicator) outcome" where
  "login_initialize dec parse ma re router =
     (\<lambda>(p, conf, c). let c = register_router router c
      in case load_remote_config dec parse (fetch_config re (cm_servers c ! server_type_value ST_router) ST_login) conf of
        (False, conf) \<Rightarrow> Goes_on (False, p, conf, c)
      | (True, conf) \<Rightarrow>
          outcome_bind (start_logging (ma_general_ok ma) (ma_error_ok ma) p)
            (\<lambda>p. outcome_bind (start_database (ma_reachable ma) (or_default default_database (nc_session_database conf)) p)
              (\<lambda>p. Goes_on (True, p, conf, c))))"

definition login_main ::
    "(nat \<Rightarrow> bytes \<Rightarrow> proto_message option) \<Rightarrow> (bytes \<Rightarrow> bool \<times> login_config) \<Rightarrow> machine \<Rightarrow> remote \<Rightarrow> ip_address \<Rightarrow>
      nat \<Rightarrow> (process, process \<times> login_config \<times> communicator) outcome" where
  "login_main dec parse ma re router argc =
     (if argc \<noteq> 3 then Exits 0 (pr_print None (cstr ''Usage: ROUTE_SERVER_IP ROUTE_SERVER_PORT'') process_new)
      else outcome_bind (socket_initialize_system (ma_winsock ma) process_new)
        (\<lambda>p. outcome_bind (login_initialize dec parse ma re router (p, login_config_new, communicator_new))
          (\<lambda>(ok, p, conf, c).
             if \<not> ok then Exits 0 p
             else (let server = or_default default_server (nc_server conf)
                   in outcome_bind (udp_start (ma_bind ma) (cs_ip server) (cs_port server) 1 p) (\<lambda>p. Goes_on (p, conf, c))))))"



text \<open>The router reads its own file, binds and registers itself.\<close>

definition router_main ::
    "config_codec \<Rightarrow> (string \<Rightarrow> bool) \<Rightarrow> machine \<Rightarrow> router_files \<Rightarrow>
      (process \<times> router_files, process \<times> router_files \<times> communicator) outcome" where
  "router_main kc writable ma r =
     (case socket_initialize_system (ma_winsock ma) process_new of
        Exits n p \<Rightarrow> Exits n (p, r)
      | Goes_on p \<Rightarrow>
          (case router_initialize kc writable r of
             Exits n r \<Rightarrow> Exits n (p, r)
           | Goes_on r \<Rightarrow>
               (let server = or_default default_server
                      (case rf_messages r (config_path ST_router) of CF_router c \<Rightarrow> rc_server c | _ \<Rightarrow> None)
                in case udp_start (ma_bind ma) (cs_ip server) (cs_port server) 1 p of
                     Exits n p \<Rightarrow> Exits n (p, r)
                   | Goes_on p \<Rightarrow>
                       Goes_on (p, r, register_router \<lparr>ip_ip = cs_ip server, ip_port = cs_port server\<rparr> communicator_new))))"

subsection \<open>Facts about start-up\<close>

lemma outcome_bind_cases:
  "outcome_bind x f = Goes_on y \<longleftrightarrow> (\<exists>z. x = Goes_on z \<and> f z = Goes_on y)"
  "outcome_bind x f = Exits n s \<longleftrightarrow> x = Exits n s \<or> (\<exists>z. x = Goes_on z \<and> f z = Exits n s)"
  by (cases x; simp)+

lemma console_if_Goes_on: "console_if l c msg p = Goes_on q \<longleftrightarrow> \<not> (c \<and> l = LV_fatal) \<and> q = (if c then pr_print (Some l) msg p else p)"
  by (auto simp: console_if_def Let_def)

lemma load_extension_Goes_on:
  "load_extension ws sock x msg p = Goes_on q \<longleftrightarrow> ws_ioctl ws sock x \<and> q = p\<lparr>pr_extensions := pr_extensions p @ [x]\<rparr>"
  by (auto simp: load_extension_def console_if_Goes_on)

text \<open>The socket library is initialised once, however often it is asked for, and its temporary socket is closed.\<close>

lemma socket_initialize_system_once:
  assumes "socket_initialize_system ws p = Goes_on q"
  shows "pr_sockets q" and "socket_initialize_system ws' q = Goes_on q"
    and "\<not> pr_sockets p \<Longrightarrow> q = p\<lparr>pr_sockets := True, pr_startups := pr_startups p + 1,
      pr_handlers := pr_handlers p @ [TH_wsa_cleanup], pr_extensions := pr_extensions p @ [SX_accept, SX_connect, SX_rio],
      pr_closed := uh_clear (uh_make (create_windows_socket (ws_socket ws) SP_tcp_rio_v4)) (pr_closed p)\<rparr>"
    and "pr_sockets p \<Longrightarrow> q = p"
  using assms
  by (auto simp: socket_initialize_system_def outcome_bind_cases console_if_Goes_on load_extension_Goes_on Let_def
      add_termination_handler_def split: if_splits)

lemma socket_initialize_process_new:
  assumes "socket_initialize_system ws process_new = Goes_on p"
  shows "pr_startups p = 1 \<and> pr_handlers p = [TH_wsa_cleanup] \<and> \<not> pr_logs_open p \<and> pr_collections p = (\<lambda>_. None) \<and>
    pr_databases p = [] \<and> pr_threads p = 0 \<and> pr_console p = []"
  using socket_initialize_system_once(3) [OF assms] by (simp add: process_new_def)

text \<open>Whether attempt \<open>k\<close> is sent and answered with a datagram that fits.\<close>

definition router_answers :: "remote \<Rightarrow> nat \<Rightarrow> bool" where
  "router_answers re = answered (length (re_memory re)) (re_sent re) (re_reply re)"


lemma fetch_config_request_capacity [simp]: "mr_capacity (fetch_config_request enc mem0 router t) = length mem0"
  by (cases mem0) (simp_all add: fetch_config_request_def mr_set_request_address_def mr_set_message_def mr_defs Let_def)

lemma find_first: "k < n \<Longrightarrow> P k \<Longrightarrow> \<forall>j < k. \<not> P j \<Longrightarrow> find P [0..<n] = Some k"
  by (auto simp: find_Some_iff)

lemma fetch_config_answered:
  assumes "k < 2 ^ 31" "router_answers re k" "\<forall>j < k. \<not> router_answers re j"
  shows "fetch_config re router t =
    (True, Some (snd (mr_read_message (re_reply re k) (fetch_config_request (re_enc re) (re_memory re) router t))))"
proof -
  have "find (router_answers re) [0..<Suc default_retry_count] = Some k"
    using assms by (intro find_first) (simp_all add: default_retry_count_def)
  then show ?thesis
    by (simp add: fetch_config_def send_message_reliably_def reliable_loop_find router_answers_def del: upt_Suc)
qed




definition working_winsock :: winsock where
  "working_winsock = \<lparr>ws_startup = 0, ws_socket = (\<lambda>_. 4), ws_ioctl = (\<lambda>_ _. True)\<rparr>"

definition working_machine :: machine where
  "working_machine = \<lparr>ma_winsock = working_winsock, ma_system = default_system, ma_general_ok = True, ma_error_ok = True,
     ma_reachable = (\<lambda>_. True), ma_bind = (\<lambda>_ _. True)\<rparr>"

lemma working_machine_sockets: "\<exists>p. socket_initialize_system (ma_winsock working_machine) process_new = Goes_on p"
  by (simp add: working_machine_def working_winsock_def socket_initialize_system_def console_if_def load_extension_def
      process_new_def Let_def)

text \<open>Networks on which the router answers attempt \<open>k\<close> only, and never.\<close>

definition late_router :: "nat \<Rightarrow> remote" where
  "late_router k = \<lparr>re_enc = (\<lambda>_. [8]), re_memory = [0, 0, 0], re_sent = (\<lambda>_. True),
     re_reply = (\<lambda>j. if j = k then Some (sample_address, [1, 3]) else None)\<rparr>"


lemma late_router_answers: "router_answers (late_router k) j \<longleftrightarrow> j = k"
  by (simp add: router_answers_def answered_def late_router_def)



subsection \<open>The files of the router\<close>

text \<open>What the router keeps of a file that it generated.\<close>

definition template :: "server_type_id \<Rightarrow> server_config" where
  "template t = set_default_configuration t (new_config t)"

definition fresh_router :: "file_system \<Rightarrow> router_files" where
  "fresh_router fs = \<lparr>rf_files = fs,
     rf_messages = (\<lambda>path. if path = config_path ST_game then new_config ST_game
       else if path = config_path ST_chat then new_config ST_chat
       else if path = config_path ST_login then new_config ST_login else new_config ST_router)\<rparr>"

lemma fresh_router_simps [simp]:
  "rf_files (fresh_router fs) = fs" "rf_messages (fresh_router fs) (config_path t) = new_config t"
  by (simp_all add: fresh_router_def split: server_type_id.split) (cases t; simp)

text \<open>After a round, the entry's file is there, unless it cannot be created.\<close>

lemma generate_entry_simps:
  "generate_entry kc writable t (created, r) =
     (if rf_files r (config_path t) = None
      then (True, r\<lparr>rf_messages := (rf_messages r)(config_path t := set_default_configuration t (rf_messages r (config_path t))),
                    rf_files := (if writable (config_path t)
                      then (rf_files r)(config_path t \<mapsto> kc_print kc (set_default_configuration t (rf_messages r (config_path t))) @ [0x0A])
                      else rf_files r)\<rparr>)
      else (created, r))"
  by (simp add: generate_entry_def Let_def proto_message_to_json_file_def)

text \<open>
  The rounds for a list of different servers: a file that is missing is created from the template if it can
  be, every other file stays as it is.
\<close>

definition generated :: "config_codec \<Rightarrow> (string \<Rightarrow> bool) \<Rightarrow> file_system \<Rightarrow> server_type_id \<Rightarrow> bytes option" where
  "generated kc writable fs t =
     (case fs (config_path t) of
        Some text \<Rightarrow> Some text
      | None \<Rightarrow> if writable (config_path t) then Some (kc_print kc (template t) @ [0x0A]) else None)"

lemma generate_entries:
  assumes "distinct ts" "\<And>t. t \<in> set ts \<Longrightarrow> rf_messages r (config_path t) = new_config t"
    "fold (generate_entry kc writable) ts (created, r) = (created', r')"
  shows "(created' \<longleftrightarrow> created \<or> (\<exists>t \<in> set ts. rf_files r (config_path t) = None)) \<and>
    (\<forall>t \<in> set ts. rf_files r' (config_path t) = generated kc writable (rf_files r) t) \<and>
    (\<forall>path. path \<notin> config_path ` set ts \<longrightarrow> rf_files r' path = rf_files r path)"
  using assms
proof (induction ts arbitrary: created r)
  case (Cons t ts)
  obtain c1 r1 where s: "generate_entry kc writable t (created, r) = (c1, r1)" by fastforce
  have m: "rf_messages r1 (config_path u) = new_config u" if "u \<in> set ts" for u
    using s Cons.prems(1,2) that by (auto simp: generate_entry_simps split: if_splits)
  have f: "rf_files r1 path = rf_files r path" if "path \<noteq> config_path t" for path
    using s that by (auto simp: generate_entry_simps split: if_splits)
  have e: "rf_files r1 (config_path t) = generated kc writable (rf_files r) t"
    "c1 \<longleftrightarrow> created \<or> rf_files r (config_path t) = None"
    using s Cons.prems(2) by (auto simp: generate_entry_simps template_def generated_def split: if_splits option.split)
  have "fold (generate_entry kc writable) ts (c1, r1) = (created', r')" using Cons.prems(3) s by simp
  from Cons.IH [OF _ m this] Cons.prems(1)
  have ih: "created' \<longleftrightarrow> c1 \<or> (\<exists>t \<in> set ts. rf_files r1 (config_path t) = None)"
      "\<forall>t \<in> set ts. rf_files r' (config_path t) = generated kc writable (rf_files r1) t"
      "\<forall>path. path \<notin> config_path ` set ts \<longrightarrow> rf_files r' path = rf_files r1 path"
    by simp_all
  have g: "rf_files r1 (config_path u) = rf_files r (config_path u)" if "u \<in> set ts" for u
    using f [of "config_path u"] that Cons.prems(1) by auto
  then have g': "generated kc writable (rf_files r1) u = generated kc writable (rf_files r) u" if "u \<in> set ts" for u
    using that by (simp add: generated_def)
  have n: "config_path t \<notin> config_path ` set ts" using Cons.prems(1) by auto
  show ?case
  proof (intro conjI)
    show "created' \<longleftrightarrow> created \<or> (\<exists>t \<in> set (t # ts). rf_files r (config_path t) = None)"
      using ih(1) e(2) g by auto
    show "\<forall>t \<in> set (t # ts). rf_files r' (config_path t) = generated kc writable (rf_files r) t"
      using ih(2) ih(3) [rule_format, OF n] e(1) g' by simp
    show "\<forall>path. path \<notin> config_path ` set (t # ts) \<longrightarrow> rf_files r' path = rf_files r path"
      using ih(3) f by simp
  qed
qed simp

text \<open>One start of the router, by what its files are.\<close>

lemma router_start:
  shows "(\<exists>t. fs (config_path t) = None) \<Longrightarrow> \<exists>r. router_initialize kc writable (fresh_router fs) = Exits 0 r \<and>
      (\<forall>t. rf_files r (config_path t) = generated kc writable fs t) \<and>
      (\<forall>path. path \<notin> range config_path \<longrightarrow> rf_files r path = fs path)"
    and "\<forall>t. fs (config_path t) \<noteq> None \<Longrightarrow>
      router_initialize kc writable (fresh_router fs) = Goes_on (load_config_file kc ST_router (fresh_router fs))"
proof -
  let ?ts = "[ST_game, ST_router, ST_chat, ST_login]"
  obtain b r1 where s1: "fold (generate_entry kc writable) ?ts (False, fresh_router fs) = (b, r1)" by fastforce
  have g: "(b \<longleftrightarrow> (\<exists>t. fs (config_path t) = None)) \<and> (\<forall>t. rf_files r1 (config_path t) = generated kc writable fs t) \<and>
      (\<forall>path. path \<notin> range config_path \<longrightarrow> rf_files r1 path = fs path)"
  proof -
    have u: "set ?ts = UNIV"
    proof (intro set_eqI)
      show "t \<in> set ?ts \<longleftrightarrow> t \<in> UNIV" for t by (cases t) simp_all
    qed
    have "distinct ?ts" by simp
    from generate_entries [OF this _ s1] show ?thesis unfolding u by simp
  qed
  {
    assume "\<exists>t. fs (config_path t) = None"
    with g s1 have "router_initialize kc writable (fresh_router fs) = Exits 0 r1"
      by (simp add: router_initialize_def generate_all_config_def)
    with g show "\<exists>r. router_initialize kc writable (fresh_router fs) = Exits 0 r \<and>
        (\<forall>t. rf_files r (config_path t) = generated kc writable fs t) \<and>
        (\<forall>path. path \<notin> range config_path \<longrightarrow> rf_files r path = fs path)" by blast
  }
  {
    assume a: "\<forall>t. fs (config_path t) \<noteq> None"
    then have "generate_entry kc writable t (False, fresh_router fs) = (False, fresh_router fs)" for t
      by (simp add: generate_entry_simps)
    then show "router_initialize kc writable (fresh_router fs) = Goes_on (load_config_file kc ST_router (fresh_router fs))"
      by (simp add: router_initialize_def generate_all_config_def)
  }
qed

text \<open>
  On a machine without configuration files the first start of the router creates from its template the file of
  every server that can be created, changes no other file, and exits with code 0. When all could be created,
  the second start changes nothing and serves, for every server, exactly the configuration of the template.
  Otherwise, as without the folder \<open>config\<close>, which the router does not create, it exits again.
\<close>

theorem router_second_start:
  assumes json: "\<And>t. kc_read kc (kc_print kc (template t) @ [0x0A]) = Some (template t)"
    and none: "\<And>t. fs (config_path t) = None"
  shows "\<exists>r1. router_initialize kc writable (fresh_router fs) = Exits 0 r1 \<and>
    (\<forall>t. rf_files r1 (config_path t) = (if writable (config_path t) then Some (kc_print kc (template t) @ [0x0A]) else None)) \<and>
    (\<forall>path. path \<notin> range config_path \<longrightarrow> rf_files r1 path = fs path) \<and>
    (if \<forall>t. writable (config_path t)
     then \<exists>r2. router_initialize kc writable' (fresh_router (rf_files r1)) = Goes_on r2 \<and> rf_files r2 = rf_files r1 \<and>
       rf_messages r2 (config_path ST_router) = template ST_router \<and>
       (\<forall>t. served_config kc r2 (config_path t) = kc_serialize kc (template t))
     else \<exists>r2. router_initialize kc writable' (fresh_router (rf_files r1)) = Exits 0 r2)"
proof -
  from router_start(1) [of fs kc writable] none obtain r1 where r1: "router_initialize kc writable (fresh_router fs) = Exits 0 r1"
      "\<forall>t. rf_files r1 (config_path t) = (if writable (config_path t) then Some (kc_print kc (template t) @ [0x0A]) else None)"
      "\<forall>path. path \<notin> range config_path \<longrightarrow> rf_files r1 path = fs path"
    by (auto simp: generated_def)
  have "if \<forall>t. writable (config_path t)
     then \<exists>r2. router_initialize kc writable' (fresh_router (rf_files r1)) = Goes_on r2 \<and> rf_files r2 = rf_files r1 \<and>
       rf_messages r2 (config_path ST_router) = template ST_router \<and>
       (\<forall>t. served_config kc r2 (config_path t) = kc_serialize kc (template t))
     else \<exists>r2. router_initialize kc writable' (fresh_router (rf_files r1)) = Exits 0 r2"
  proof (cases "\<forall>t. writable (config_path t)")
    case True
    with r1(2) have f1: "rf_files r1 (config_path t) = Some (kc_print kc (template t) @ [0x0A])" for t by simp
    let ?r2 = "load_config_file kc ST_router (fresh_router (rf_files r1))"
    have "router_initialize kc writable' (fresh_router (rf_files r1)) = Goes_on ?r2"
      using f1 by (intro router_start(2)) simp
    moreover have "served_config kc ?r2 (config_path t) = kc_serialize kc (template t)" for t
      by (simp add: served_config_def json_file_to_proto_message_def load_config_file_def f1 json)
    moreover have "rf_messages ?r2 (config_path ST_router) = template ST_router" "rf_files ?r2 = rf_files r1"
      using f1 [of ST_router] json [of ST_router]
      by (simp_all add: load_config_file_def json_file_to_proto_message_def)
    ultimately show ?thesis using True by auto
  next
    case False
    then have "\<exists>t. rf_files r1 (config_path t) = None" using r1(2) by auto
    from router_start(1) [OF this, of kc writable'] False show ?thesis by auto
  qed
  with r1 show ?thesis by blast
qed

text \<open>A codec that writes the number of the server.\<close>

definition sample_config_codec :: config_codec where
  "sample_config_codec =
     \<lparr>kc_print = (\<lambda>c. case c of CF_game _ \<Rightarrow> [0] | CF_router _ \<Rightarrow> [1] | CF_chat _ \<Rightarrow> [2] | CF_login _ \<Rightarrow> [3]),
      kc_read = (\<lambda>bs. case bs of b # _ \<Rightarrow> Some (if b = 0 then template ST_game else if b = 1 then template ST_router
        else if b = 2 then template ST_chat else template ST_login) | [] \<Rightarrow> None),
      kc_serialize = (\<lambda>c. case c of CF_game _ \<Rightarrow> [0] | CF_router _ \<Rightarrow> [1] | CF_chat _ \<Rightarrow> [2] | CF_login _ \<Rightarrow> [3]),
      kc_parse = (\<lambda>bs. (True, template ST_game))\<rparr>"

lemma sample_config_json: "kc_read sample_config_codec (kc_print sample_config_codec (template t) @ x) = Some (template t)"
  by (cases t) (simp_all add: sample_config_codec_def template_def)

theorem router_second_start_witness:
  "\<exists>r1 r2 r3. router_initialize sample_config_codec (\<lambda>_. True) (fresh_router (\<lambda>_. None)) = Exits 0 r1 \<and>
    router_initialize sample_config_codec (\<lambda>_. False) (fresh_router (rf_files r1)) = Goes_on r2 \<and>
    router_initialize sample_config_codec (\<lambda>_. False) (fresh_router (\<lambda>_. None)) = Exits 0 r3 \<and>
    served_config sample_config_codec r2 ''config/chat_config.json'' = [2]"
proof -
  have s: "kc_serialize sample_config_codec (template ST_chat) = [2]" by (simp add: sample_config_codec_def template_def)
  obtain r1 r2 where r: "router_initialize sample_config_codec (\<lambda>_. True) (fresh_router (\<lambda>_. None)) = Exits 0 r1"
    "router_initialize sample_config_codec (\<lambda>_. False) (fresh_router (rf_files r1)) = Goes_on r2"
    "\<forall>t. served_config sample_config_codec r2 (config_path t) = kc_serialize sample_config_codec (template t)"
    using router_second_start [of sample_config_codec "\<lambda>_. None" "\<lambda>_. True" "\<lambda>_. False"] sample_config_json by auto
  obtain r3 where "router_initialize sample_config_codec (\<lambda>_. False) (fresh_router (\<lambda>_. None)) = Exits 0 r3"
    using router_second_start [of sample_config_codec "\<lambda>_. None" "\<lambda>_. False" "\<lambda>_. False"] sample_config_json by auto
  moreover from r(3) [rule_format, of ST_chat] s have "served_config sample_config_codec r2 ''config/chat_config.json'' = [2]" by simp
  ultimately show ?thesis using r(1,2) by blast
qed

subsection \<open>From the file to the server\<close>

lemma datagram_to_address: "mr_datagram (mr_set_request_address a r) = mr_datagram r"
  by (simp add: mr_datagram_def mr_set_request_address_def)

text \<open>
  C16: The configuration that is in the router's file reaches the server that asks for it: the request
  is understood by the router, which answers to the one who asked, and what the server then parses
  is the message of the file, when request and answer fit the buffers of the datagrams.
\<close>

theorem config_reaches_server:
  assumes content: "rf_files r (config_path t) = Some bs" "kc_read kc bs = Some m"
    and format: "parse (kc_serialize kc m) = (True, conf)"
    and codec: "decodes enc dec (FetchConfigRequest (server_type_value t))"
      "decodes enc dec (FetchConfigResponse (kc_serialize kc m))"
    and fits: "length (enc (FetchConfigRequest (server_type_value t))) < length mem0"
      "length (enc (FetchConfigRequest (server_type_value t))) < mr_capacity q"
      "length (enc (FetchConfigResponse (kc_serialize kc m))) < length mem0"
      "length (enc (FetchConfigResponse (kc_serialize kc m))) < mr_capacity q"
  shows "\<exists>q' s'. mr_read_message (Some (client, snd (mr_flush_send False (fetch_config_request enc mem0 router t)))) q = (True, q') \<and>
    route_receive dec (served_config kc r) q' s = Some (True, s') \<and>
    rs_sent s' = rs_sent s @ [(client, MSG_fetch_config, FetchConfigResponse (kc_serialize kc m))] \<and>
    load_remote_config dec parse
      (send_message_reliably (\<lambda>_. True) (\<lambda>_. Some (router, snd (snd (mr_send_reply enc (FetchConfigResponse (kc_serialize kc m)) q'))))
        (fetch_config_request enc mem0 router t) n) old = (True, conf)"
proof -
  let ?new = "message_request_new mem0 (message_id_value MSG_fetch_config)"
  let ?req = "fetch_config_request enc mem0 router t" and ?res = "FetchConfigResponse (kc_serialize kc m)"
  have cap: "mr_capacity ?new = length mem0" by (simp add: mr_defs)
  have d: "snd (mr_flush_send False ?req) = mr_datagram (mr_set_message enc (FetchConfigRequest (server_type_value t)) ?new)"
    by (simp add: mr_flush_send_def fetch_config_request_def datagram_to_address)
  obtain q' where q: "mr_read_message (Some (client, snd (mr_flush_send False ?req))) q = (True, q')"
      "mr_parse_message dec 0 q' = Some (FetchConfigRequest (server_type_value t))"
      "mr_message_id q' = mr_message_id ?new" "mr_reply_address q' = client"
    using mr_transfer [OF codec(1), of ?new q client] fits(1,2) cap d by auto
  have capq: "mr_capacity q' = mr_capacity q"
    using q(1) by (auto simp: mr_read_message_def mr_defs split: if_splits)
  have i: "mr_message_id q' = message_id_value MSG_fetch_config"
    using q(3) fits(1) by (cases mem0) (simp_all add: mr_defs)
  have c: "served_config kc r (config_path t) = kc_serialize kc m"
    using content by (simp add: served_config_def json_file_to_proto_message_def)
  have rr: "route_receive dec (served_config kc r) q' s = Some (True, route_reply MSG_fetch_config ?res q' s)"
    using i q(2) c by (simp add: route_defs handle_fetch_config_def load_server_config_def)
  have "mr_capacity ?req = length mem0"
    using fits(1) by (simp add: fetch_config_request_def mr_set_request_address_def mr_set_message_def mr_defs Let_def length_blit)
  then obtain p where p: "mr_read_message (Some (router, mr_datagram (mr_set_message enc ?res q'))) ?req = (True, p)"
      "mr_parse_message dec 1 p = Some ?res"
    using mr_transfer [OF codec(2), of q' ?req router] fits(3,4) capq by auto
  have "send_message_reliably (\<lambda>_. True) (\<lambda>_. Some (router, snd (snd (mr_send_reply enc ?res q')))) ?req n = (True, Some p)"
    using p(1) by (simp add: send_message_reliably_def reliable_loop.simps [of _ _ 0] mr_send_reply_def Let_def mr_flush_send_def)
  then show ?thesis
    using q(1) rr p(2) format q(4) by (simp add: load_remote_config_def route_reply_def)
qed

definition config_codec_messages :: "nat \<Rightarrow> bytes \<Rightarrow> proto_message option" where
  "config_codec_messages t bs = (if t = 0 then Some (FetchConfigRequest 3) else Some (FetchConfigResponse [3]))"

theorem config_reaches_server_witness:
  "\<exists>q' s'. mr_read_message (Some (ip_address_empty, snd (mr_flush_send False (fetch_config_request (\<lambda>_. [8]) (replicate 9 0) sample_address ST_login))))
      (message_request_new (replicate 9 0) 0) = (True, q') \<and>
    route_receive config_codec_messages (served_config sample_config_codec (fresh_router (\<lambda>_. Some [3]))) q' route_server_new = Some (True, s') \<and>
    rs_sent s' = [(ip_address_empty, MSG_fetch_config, FetchConfigResponse [3])]"
proof -
  have s: "kc_serialize sample_config_codec (template ST_login) = [3]" "kc_read sample_config_codec [3] = Some (template ST_login)"
    by (simp_all add: sample_config_codec_def template_def)
  show ?thesis
    using config_reaches_server [of "fresh_router (\<lambda>_. Some [3])" ST_login "[3]" sample_config_codec "template ST_login" "\<lambda>_. (True, ())" "()"
        "\<lambda>_. [8]" config_codec_messages "replicate 9 0" "message_request_new (replicate 9 0) 0" ip_address_empty sample_address route_server_new 0 "()"]
    by (auto simp: s decodes_def config_codec_messages_def mr_capacity_def message_request_new_def mr_reset_def route_server_new_def)
qed

subsection \<open>What the templates leave out\<close>

definition named :: "string \<Rightarrow> 'a option \<Rightarrow> string list" where
  "named s x = (case x of None \<Rightarrow> [] | Some _ \<Rightarrow> [s])"

fun present_fields :: "server_config \<Rightarrow> string list" where
  "present_fields (CF_game c) = named ''tcp_server'' (gc_tcp_server c) @ named ''udp_server'' (gc_udp_server c) @
     named ''player_database'' (gc_player_database c) @ named ''world'' (gc_world c) @ named ''log'' (gc_log c) @
     named ''system'' (gc_system c)"
| "present_fields (CF_router c) = named ''server'' (rc_server c) @ named ''log'' (rc_log c)"
| "present_fields (CF_chat c) = named ''server'' (hc_server c) @ named ''player_database'' (hc_player_database c) @
     named ''chat_database'' (hc_chat_database c) @ named ''log'' (hc_log c) @ named ''system'' (hc_system c)"
| "present_fields (CF_login c) = named ''server'' (nc_server c) @ named ''player_database'' (nc_player_database c) @
     named ''session_database'' (nc_session_database c) @ named ''log'' (nc_log c)"

text \<open>
  The login server connects to the database of the field \<open>session_database\<close>, which the template
  of its configuration does not have: whatever is filled in for the fields of the generated file,
  the login server connects to a database with an empty address.
\<close>

theorem login_database_missing:
  assumes "load_remote_config dec parse (fetch_config re router ST_login) login_config_new = (True, conf)"
    and "set (present_fields (CF_login conf)) \<subseteq> set (present_fields (template ST_login))"
    and "login_main dec parse ma re router 3 = Goes_on (p, conf', c)"
  shows "pr_databases p = [[]] \<and> conf' = conf"
proof -
  have "cm_servers (register_router router communicator_new) ! server_type_value ST_router = router"
    by (simp add: register_router_def communicator_new_def)
  with assms(1) have l: "load_remote_config dec parse
      (fetch_config re (cm_servers (register_router router communicator_new) ! server_type_value ST_router) ST_login)
      login_config_new = (True, conf)" by simp
  have "nc_session_database conf = None"
    using assms(2) by (auto simp: template_def login_config_new_def mutable_field_def named_def split: option.splits)
  then show ?thesis
    using l assms(3) socket_initialize_process_new
    by (auto simp: login_main_def login_initialize_def outcome_bind_cases start_logging_def console_if_Goes_on udp_start_def
        start_database_def connect_server_with_login_def or_default_def default_database_def add_termination_handler_def
        pr_print_def console_if_def Let_def split: if_splits option.splits)
qed

theorem login_database_missing_witness:
  "\<exists>p. login_main config_codec_messages (\<lambda>_. (True, login_config_new)) working_machine (late_router 0) sample_address 3 =
      Goes_on (p, login_config_new, register_router sample_address communicator_new) \<and> pr_databases p = [[]]"
proof -
  have f: "\<exists>r. fetch_config (late_router 0) router ST_login = (True, Some r)" for router
    using fetch_config_answered [of 0 "late_router 0"] late_router_answers by simp
  have l: "load_remote_config config_codec_messages (\<lambda>_. (True, login_config_new)) (fetch_config (late_router 0) router ST_login)
      login_config_new = (True, login_config_new)" for router
    using f [of router] by (auto simp: load_remote_config_def mr_parse_message_def config_codec_messages_def)
  obtain p0 where "socket_initialize_system (ma_winsock working_machine) process_new = Goes_on p0"
    using working_machine_sockets by blast
  then obtain p where m: "login_main config_codec_messages (\<lambda>_. (True, login_config_new)) working_machine (late_router 0) sample_address 3 =
      Goes_on (p, login_config_new, register_router sample_address communicator_new)"
    by (auto simp: login_main_def login_initialize_def l start_logging_def console_if_def start_database_def working_machine_def
        connect_server_with_login_def udp_start_def Let_def)
  have "set (present_fields (CF_login login_config_new)) \<subseteq> set (present_fields (template ST_login))"
    by (simp add: login_config_new_def named_def)
  from login_database_missing [OF l this m] m show ?thesis by blast
qed

subsection \<open>The end of a process\<close>

text \<open>
  A signal, or an exception that nothing handles, leaves the log files closed and the socket library
  released, for every process that came through its start-up; a fatal error exits with the same
  code 0, but runs no handler.
\<close>

lemma termination_releases:
  assumes "load_remote_config dec parse (fetch_config re router ST_game) game_config_new = (True, conf)"
    and "game_main dec parse ma re router 3 = Goes_on (p, conf', n)"
  shows "pr_logs_open p \<and> (\<exists>q. termination_routine p = Exits 0 q \<and> pr_startups q = 0 \<and> \<not> pr_logs_open q)"
  using assms socket_initialize_process_new
  by (auto simp: game_main_def setup_initialize_system_def outcome_bind_cases start_logging_def console_if_Goes_on
      start_database_def connect_server_with_login_def add_termination_handler_def termination_routine_def pr_print_def
      console_if_def Let_def split: if_splits option.splits)

lemma fatal_runs_no_handler:
  "console_if LV_fatal True msg p = Exits 0 (pr_print (Some LV_fatal) msg p)"
  by (simp add: console_if_def)

end
