(* ===== verification/Async_Task.thy ===== *)
theory Async_Task
  imports Prelude
begin

section \<open>Asynchronous tasks\<close>

text \<open>
  \<open>io/async_task.h\<close>: coroutines whose frames live on a heap. A coroutine is what it does next: it
  returns, throws, awaits the answer to a request (one of the awaiters of the database), or awaits
  a task, which is the call of another coroutine. A detached coroutine starts at once and destroys
  its own frame at the end; a task waits at its start, is resumed when it is awaited, resumes its
  continuation at the end, and is destroyed by the one who awaited it. An exception is swallowed by
  \<open>unhandled_exception\<close>: an awaited task that throws gives the value that its promise was
  initialised with (\<open>d\<close> below).
\<close>

datatype ('q, 'r, 'v) co =
    Co_return 'v
  | Co_throw
  | Co_ask 'q "'r \<Rightarrow> ('q, 'r, 'v) co"
  | Co_await "('q, 'r, 'v) co" "'v \<Rightarrow> ('q, 'r, 'v) co"

text \<open>Where a frame is suspended.\<close>

datatype ('q, 'r, 'v) suspension =
    Su_initial "('q, 'r, 'v) co"
  | Su_running
  | Su_answer "'r \<Rightarrow> ('q, 'r, 'v) co"
  | Su_task nat "'v \<Rightarrow> ('q, 'r, 'v) co"
  | Su_final

record ('q, 'r, 'v) frame =
  fm_suspension :: "('q, 'r, 'v) suspension"
  fm_cont :: "nat option"
  fm_value :: 'v
  fm_detached :: bool

text \<open>
  The frames by their handles, the next new handle, the coroutine that runs, the one whose answer is
  outstanding; the requests made, the answers to come, and the frames destroyed, in order.
\<close>

record ('q, 'r, 'v) scheduler =
  sd_heap :: "nat \<Rightarrow> ('q, 'r, 'v) frame option"
  sd_next :: nat
  sd_running :: "(nat \<times> ('q, 'r, 'v) co) option"
  sd_waiting :: "nat option"
  sd_asked :: "'q list"
  sd_answers :: "'r list"
  sd_destroyed :: "nat list"

subsection \<open>The operations of the promises and handles\<close>

text \<open>The initial suspension of a task, and its promise.\<close>

definition task_frame :: "'v \<Rightarrow> ('q, 'r, 'v) co \<Rightarrow> ('q, 'r, 'v) frame" where
  "task_frame d c = \<lparr>fm_suspension = Su_initial c, fm_cont = None, fm_value = d, fm_detached = False\<rparr>"

definition detached_frame :: "'v \<Rightarrow> ('q, 'r, 'v) frame" where
  "detached_frame d = \<lparr>fm_suspension = Su_running, fm_cont = None, fm_value = d, fm_detached = True\<rparr>"

definition set_continuation :: "nat \<Rightarrow> ('q, 'r, 'v) frame \<Rightarrow> ('q, 'r, 'v) frame" where
  "set_continuation j f = f\<lparr>fm_cont := Some j\<rparr>"

definition set_suspension :: "nat \<Rightarrow> ('q, 'r, 'v) suspension \<Rightarrow> ('q, 'r, 'v) scheduler \<Rightarrow> ('q, 'r, 'v) scheduler" where
  "set_suspension i x s = s\<lparr>sd_heap := (sd_heap s)(i := map_option (\<lambda>f. f\<lparr>fm_suspension := x\<rparr>) (sd_heap s i))\<rparr>"

definition destroy_frame :: "nat \<Rightarrow> ('q, 'r, 'v) scheduler \<Rightarrow> ('q, 'r, 'v) scheduler" where
  "destroy_frame i s = s\<lparr>sd_heap := (sd_heap s)(i := None), sd_destroyed := sd_destroyed s @ [i]\<rparr>"

text \<open>
  Calling a task: its frame is created, suspended at the start. Awaiting it: the caller is suspended,
  becomes the continuation, and the task is resumed. \<open>None\<close> is a resumption of a frame that is not
  suspended there, or that is no more.
\<close>

definition await_task :: "'v \<Rightarrow> nat \<Rightarrow> ('q, 'r, 'v) co \<Rightarrow> ('v \<Rightarrow> ('q, 'r, 'v) co) \<Rightarrow> ('q, 'r, 'v) scheduler \<Rightarrow> ('q, 'r, 'v) scheduler option" where
  "await_task d i c k s =
     (let n = sd_next s;
          s = s\<lparr>sd_heap := (sd_heap s)(n \<mapsto> task_frame d c), sd_next := Suc n\<rparr>;
          s = set_suspension i (Su_task n k) s;
          s = s\<lparr>sd_heap := (sd_heap s)(n := map_option (set_continuation i) (sd_heap s n))\<rparr>
      in case sd_heap s n of
           Some f \<Rightarrow>
             (case fm_suspension f of
                Su_initial c \<Rightarrow> Some ((set_suspension n Su_running s)\<lparr>sd_running := Some (n, c)\<rparr>)
              | _ \<Rightarrow> None)
         | None \<Rightarrow> None)"

text \<open>
  The end of a coroutine with what its promise holds: a detached one destroys its frame; a task is
  suspended at its end and resumes its continuation, which takes the value and destroys the task.
\<close>

definition finish_task :: "nat \<Rightarrow> 'v option \<Rightarrow> ('q, 'r, 'v) scheduler \<Rightarrow> ('q, 'r, 'v) scheduler option" where
  "finish_task i v s =
     (case sd_heap s i of
        None \<Rightarrow> None
      | Some f \<Rightarrow>
          if fm_detached f then Some ((destroy_frame i s)\<lparr>sd_running := None\<rparr>)
          else
            (let f = (case v of None \<Rightarrow> f | Some v \<Rightarrow> f\<lparr>fm_value := v\<rparr>);
                 s = s\<lparr>sd_heap := (sd_heap s)(i \<mapsto> f\<lparr>fm_suspension := Su_final\<rparr>), sd_running := None\<rparr>
             in case fm_cont f of
                  None \<Rightarrow> Some s
                | Some j \<Rightarrow>
                    (case sd_heap s j of
                       None \<Rightarrow> None
                     | Some g \<Rightarrow>
                         (case fm_suspension g of
                            Su_task i' k \<Rightarrow>
                              (case sd_heap s i' of
                                 None \<Rightarrow> None
                               | Some f' \<Rightarrow>
                                   Some ((destroy_frame i' (set_suspension j Su_running s))\<lparr>sd_running := Some (j, k (fm_value f'))\<rparr>))
                          | _ \<Rightarrow> None))))"

definition await_answer :: "nat \<Rightarrow> 'q \<Rightarrow> ('r \<Rightarrow> ('q, 'r, 'v) co) \<Rightarrow> ('q, 'r, 'v) scheduler \<Rightarrow> ('q, 'r, 'v) scheduler option" where
  "await_answer i q k s =
     Some ((set_suspension i (Su_answer k) s)\<lparr>sd_running := None, sd_waiting := Some i, sd_asked := sd_asked s @ [q]\<rparr>)"

definition resume_with :: "nat \<Rightarrow> 'r \<Rightarrow> ('q, 'r, 'v) scheduler \<Rightarrow> ('q, 'r, 'v) scheduler option" where
  "resume_with i r s =
     (case sd_heap s i of
        None \<Rightarrow> None
      | Some f \<Rightarrow>
          (case fm_suspension f of
             Su_answer k \<Rightarrow> Some ((set_suspension i Su_running s)\<lparr>sd_running := Some (i, k r), sd_waiting := None\<rparr>)
           | _ \<Rightarrow> None))"

subsection \<open>Runs\<close>

text \<open>A step is undefined behaviour, or leads on; the program stops when nothing runs and no answer comes.\<close>

datatype 's progress = Undefined | Stops | Steps 's

definition to_progress :: "'s option \<Rightarrow> 's progress" where
  "to_progress x = (case x of None \<Rightarrow> Undefined | Some s \<Rightarrow> Steps s)"

definition co_step :: "'v \<Rightarrow> ('q, 'r, 'v) scheduler \<Rightarrow> ('q, 'r, 'v) scheduler progress" where
  "co_step d s =
     (case sd_running s of
        Some (i, Co_return v) \<Rightarrow> to_progress (finish_task i (Some v) s)
      | Some (i, Co_throw) \<Rightarrow> to_progress (finish_task i None s)
      | Some (i, Co_ask q k) \<Rightarrow> to_progress (await_answer i q k s)
      | Some (i, Co_await c k) \<Rightarrow> to_progress (await_task d i c k s)
      | None \<Rightarrow>
          (case sd_waiting s of
             None \<Rightarrow> Stops
           | Some i \<Rightarrow>
               (case sd_answers s of
                  [] \<Rightarrow> Stops
                | r # rs \<Rightarrow> to_progress (resume_with i r (s\<lparr>sd_answers := rs\<rparr>)))))"

fun co_run :: "'v \<Rightarrow> nat \<Rightarrow> ('q, 'r, 'v) scheduler \<Rightarrow> ('q, 'r, 'v) scheduler option" where
  "co_run d n s =
     (case co_step d s of
        Undefined \<Rightarrow> None
      | Stops \<Rightarrow> Some s
      | Steps t \<Rightarrow> (case n of 0 \<Rightarrow> None | Suc m \<Rightarrow> co_run d m t))"

declare co_run.simps [simp del]

definition start_detached :: "'v \<Rightarrow> ('q, 'r, 'v) co \<Rightarrow> 'r list \<Rightarrow> ('q, 'r, 'v) scheduler" where
  "start_detached d c rs =
     \<lparr>sd_heap = [0 \<mapsto> detached_frame d], sd_next = 1, sd_running = Some (0, c), sd_waiting = None, sd_asked = [],
      sd_answers = rs, sd_destroyed = []\<rparr>"

subsection \<open>Direct style\<close>

text \<open>
  The same program with ordinary calls: the requests made, the value (none while it waits for an
  answer), and the answers left.
\<close>

primrec direct :: "'v \<Rightarrow> ('q, 'r, 'v) co \<Rightarrow> 'r list \<Rightarrow> 'q list \<times> 'v option \<times> 'r list" where
  "direct d (Co_return v) rs = ([], Some v, rs)"
| "direct d Co_throw rs = ([], Some d, rs)"
| "direct d (Co_ask q k) rs =
     (case rs of [] \<Rightarrow> ([q], None, []) | r # rs \<Rightarrow> (let (qs, v, rs) = direct d (k r) rs in (q # qs, v, rs)))"
| "direct d (Co_await c k) rs =
     (case direct d c rs of
        (qs, None, rs) \<Rightarrow> (qs, None, rs)
      | (qs, Some v, rs) \<Rightarrow> (let (qs', w, rs) = direct d (k v) rs in (qs @ qs', w, rs)))"

subsection \<open>The runtime computes what direct style computes\<close>

definition co_reaches :: "'v \<Rightarrow> ('q, 'r, 'v) scheduler \<Rightarrow> ('q, 'r, 'v) scheduler \<Rightarrow> bool" where
  "co_reaches d = (\<lambda>s t. co_step d s = Steps t)\<^sup>*\<^sup>*"

lemma reaches_refl [simp]: "co_reaches d s s"
  by (simp add: co_reaches_def)

lemma reaches_step: "co_step d s = Steps t \<Longrightarrow> co_reaches d t u \<Longrightarrow> co_reaches d s u"
  unfolding co_reaches_def by (rule converse_rtranclp_into_rtranclp)

lemma reaches_trans: "co_reaches d s t \<Longrightarrow> co_reaches d t u \<Longrightarrow> co_reaches d s u"
  unfolding co_reaches_def by (rule rtranclp_trans)

lemma reaches_run:
  assumes "co_reaches d s t" "co_step d t = Stops"
  shows "\<exists>n. co_run d n s = Some t"
  using assms(1) unfolding co_reaches_def
proof (induction rule: converse_rtranclp_induct)
  case base
  then show ?case using assms(2) by (intro exI [of _ 0]) (simp add: co_run.simps)
next
  case (step s u)
  then obtain n where "co_run d n u = Some t" by blast
  then show ?case using step.hyps(1) by (intro exI [of _ "Suc n"]) (simp add: co_run.simps [of d "Suc n"])
qed

text \<open>The value that a coroutine leaves in its promise.\<close>

fun finished_with :: "'v \<Rightarrow> ('q, 'r, 'v) co \<Rightarrow> 'v option" where
  "finished_with d (Co_return v) = Some v"
| "finished_with d Co_throw = Some d"
| "finished_with d _ = None"

definition fresh_from :: "nat \<Rightarrow> ('q, 'r, 'v) scheduler \<Rightarrow> bool" where
  "fresh_from n s \<longleftrightarrow> sd_next s = n \<and> (\<forall>m \<ge> n. sd_heap s m = None)"

definition running_at :: "nat \<Rightarrow> ('q, 'r, 'v) co \<Rightarrow> ('q, 'r, 'v) scheduler \<Rightarrow> bool" where
  "running_at i c s \<longleftrightarrow>
     sd_running s = Some (i, c) \<and> sd_waiting s = None \<and> i < sd_next s \<and> fresh_from (sd_next s) s \<and>
     (\<exists>f. sd_heap s i = Some f \<and> fm_suspension f = Su_running)"

text \<open>
  From a state in which a coroutine runs, the run leads to its end with the heap as it was, all
  frames that were created in between being destroyed, or to a state that waits for an answer.
\<close>

definition runs_to :: "'v \<Rightarrow> nat \<Rightarrow> 'q list \<times> 'v option \<times> 'r list \<Rightarrow> ('q, 'r, 'v) scheduler \<Rightarrow> bool" where
  "runs_to d i result s \<longleftrightarrow>
     (case result of
        (qs, Some v, rs) \<Rightarrow>
          (\<exists>t e ds. co_reaches d s t \<and> running_at i e t \<and> finished_with d e = Some v \<and> sd_heap t = sd_heap s \<and>
            sd_asked t = sd_asked s @ qs \<and> sd_answers t = rs \<and> sd_destroyed t = sd_destroyed s @ ds \<and>
            distinct ds \<and> set ds = {sd_next s..<sd_next t} \<and> sd_next s \<le> sd_next t)
      | (qs, None, rs) \<Rightarrow>
          (\<exists>t. co_reaches d s t \<and> co_step d t = Stops \<and> sd_running t = None \<and> sd_waiting t \<noteq> None \<and>
            sd_asked t = sd_asked s @ qs \<and> sd_answers t = [] \<and> rs = []))"

lemma ask_step:
  assumes "running_at i (Co_ask q k) s"
  obtains t where "co_step d s = Steps t" "sd_running t = None" "sd_waiting t = Some i" "sd_asked t = sd_asked s @ [q]"
    "sd_answers t = sd_answers s"
    "sd_answers s = [] \<Longrightarrow> co_step d t = Stops"
    "\<And>r rs. sd_answers s = r # rs \<Longrightarrow> co_step d t = Steps (s\<lparr>sd_running := Some (i, k r), sd_asked := sd_asked s @ [q], sd_answers := rs\<rparr>)"
proof -
  obtain f where f: "sd_heap s i = Some f" "fm_suspension f = Su_running" "sd_running s = Some (i, Co_ask q k)" "sd_waiting s = None"
    using assms by (auto simp: running_at_def)
  let ?t = "(set_suspension i (Su_answer k) s)\<lparr>sd_running := None, sd_waiting := Some i, sd_asked := sd_asked s @ [q]\<rparr>"
  have "co_step d s = Steps ?t" using f by (simp add: co_step_def await_answer_def to_progress_def)
  moreover have "sd_answers s = [] \<Longrightarrow> co_step d ?t = Stops" by (simp add: co_step_def set_suspension_def)
  moreover have "co_step d ?t = Steps (s\<lparr>sd_running := Some (i, k r), sd_asked := sd_asked s @ [q], sd_answers := rs\<rparr>)"
    if "sd_answers s = r # rs" for r rs
  proof -
    have "(sd_heap s)(i \<mapsto> f\<lparr>fm_suspension := Su_running\<rparr>) = sd_heap s" using f by (auto simp: fun_eq_iff)
    then show ?thesis
      using f that by (simp add: co_step_def resume_with_def to_progress_def set_suspension_def)
  qed
  ultimately show ?thesis by (intro that) (simp_all add: set_suspension_def)
qed

text \<open>Awaiting a task, and the end of an awaited task, in the heap.\<close>

lemma await_step:
  assumes "running_at i (Co_await c k) s"
  obtains t f where "co_step d s = Steps t" "running_at (sd_next s) c t" "sd_next t = Suc (sd_next s)"
    "sd_heap s i = Some f"
    "sd_heap t = (sd_heap s)(i \<mapsto> f\<lparr>fm_suspension := Su_task (sd_next s) k\<rparr>,
       sd_next s \<mapsto> \<lparr>fm_suspension = Su_running, fm_cont = Some i, fm_value = d, fm_detached = False\<rparr>)"
    "sd_asked t = sd_asked s" "sd_answers t = sd_answers s" "sd_destroyed t = sd_destroyed s"
proof -
  obtain f where f: "sd_heap s i = Some f" "fm_suspension f = Su_running" "sd_running s = Some (i, Co_await c k)" "sd_waiting s = None"
      "i < sd_next s" "fresh_from (sd_next s) s"
    using assms by (auto simp: running_at_def)
  let ?n = "sd_next s"
  let ?h = "(sd_heap s)(i \<mapsto> f\<lparr>fm_suspension := Su_task ?n k\<rparr>,
       ?n \<mapsto> \<lparr>fm_suspension = Su_running, fm_cont = Some i, fm_value = d, fm_detached = False\<rparr>)"
  let ?t = "s\<lparr>sd_heap := ?h, sd_next := Suc ?n, sd_running := Some (?n, c)\<rparr>"
  have "await_task d i c k s = Some ?t"
    using f(1,5) by (simp add: await_task_def Let_def task_frame_def set_suspension_def set_continuation_def fun_upd_twist)
  then have "co_step d s = Steps ?t" using f(3) by (simp add: co_step_def to_progress_def)
  moreover have "running_at ?n c ?t" using f(4,5,6) by (simp add: running_at_def fresh_from_def)
  ultimately show ?thesis using f(1) by (intro that [of ?t f]) simp_all
qed

lemma finish_step:
  assumes r: "running_at n e s" and v: "finished_with d e = Some v" and i: "i < n"
    and g: "sd_heap s n = Some \<lparr>fm_suspension = Su_running, fm_cont = Some i, fm_value = d, fm_detached = False\<rparr>"
      "sd_heap s i = Some (f\<lparr>fm_suspension := Su_task n k\<rparr>)"
  shows "co_step d s = Steps (s\<lparr>sd_heap := (sd_heap s)(n := None, i \<mapsto> f\<lparr>fm_suspension := Su_running\<rparr>),
    sd_running := Some (i, k v), sd_destroyed := sd_destroyed s @ [n]\<rparr>)"
proof -
  have e: "sd_running s = Some (n, e)" using r by (simp add: running_at_def)
  have "finish_task n x s = Some (s\<lparr>sd_heap := (sd_heap s)(n := None, i \<mapsto> f\<lparr>fm_suspension := Su_running\<rparr>),
    sd_running := Some (i, k v), sd_destroyed := sd_destroyed s @ [n]\<rparr>)" if "x = Some v \<or> x = None \<and> v = d" for x
    using g i that
    by (auto simp: finish_task_def set_suspension_def destroy_frame_def fun_upd_twist)
  then show ?thesis using e v by (cases e) (auto simp: co_step_def to_progress_def)
qed

lemma runs_toI:
  assumes "co_reaches d s t" "running_at i e t" "finished_with d e = Some v" "sd_heap t = sd_heap s"
    "sd_asked t = sd_asked s @ qs" "sd_answers t = rs" "sd_destroyed t = sd_destroyed s @ ds"
    "distinct ds" "set ds = {sd_next s..<sd_next t}" "sd_next s \<le> sd_next t"
  shows "runs_to d i (qs, Some v, rs) s"
  unfolding runs_to_def prod.case option.case using assms by blast

lemma runs_to_finished:
  assumes "running_at i c s" "finished_with d c = Some v"
  shows "runs_to d i ([], Some v, sd_answers s) s"
  by (rule runs_toI [of d s s i c v "[]" "sd_answers s" "[]"]) (use assms in simp_all)

lemma runs_to_ask:
  assumes r: "running_at i (Co_ask q k) s"
    and IH: "\<And>r s. running_at i (k r) s \<Longrightarrow> runs_to d i (direct d (k r) (sd_answers s)) s"
  shows "runs_to d i (direct d (Co_ask q k) (sd_answers s)) s"
proof -
  obtain t where t: "co_step d s = Steps t" "sd_running t = None" "sd_waiting t = Some i" "sd_asked t = sd_asked s @ [q]"
      "sd_answers t = sd_answers s" "sd_answers s = [] \<Longrightarrow> co_step d t = Stops"
      "\<And>r rs. sd_answers s = r # rs \<Longrightarrow> co_step d t = Steps (s\<lparr>sd_running := Some (i, k r), sd_asked := sd_asked s @ [q], sd_answers := rs\<rparr>)"
    using ask_step [OF r] by blast
  show ?thesis
  proof (cases "sd_answers s")
    case Nil
    then show ?thesis using t(1-6) reaches_step [OF t(1) reaches_refl] by (auto simp: runs_to_def)
  next
    case (Cons a rs)
    let ?u = "s\<lparr>sd_running := Some (i, k a), sd_asked := sd_asked s @ [q], sd_answers := rs\<rparr>"
    have su: "co_reaches d s ?u" using t(1) t(7) [OF Cons] by (blast intro: reaches_step reaches_refl)
    have "running_at i (k a) ?u" using r by (simp add: running_at_def fresh_from_def)
    then have h: "runs_to d i (direct d (k a) rs) ?u" using IH [of a ?u] by simp
    obtain qs v rs' where d: "direct d (k a) rs = (qs, v, rs')" by (metis prod_cases3)
    show ?thesis
    proof (cases v)
      case None
      with h d obtain x where "co_reaches d ?u x" "co_step d x = Stops" "sd_running x = None" "sd_waiting x \<noteq> None"
          "sd_asked x = sd_asked s @ q # qs" "sd_answers x = []" "rs' = []"
        by (auto simp: runs_to_def)
      then show ?thesis using reaches_trans [OF su] None d Cons by (auto simp: runs_to_def)
    next
      case (Some w)
      with h d obtain x e ds where "co_reaches d ?u x" "running_at i e x" "finished_with d e = Some w" "sd_heap x = sd_heap s"
          "sd_asked x = sd_asked s @ q # qs" "sd_answers x = rs'" "sd_destroyed x = sd_destroyed s @ ds"
          "distinct ds" "set ds = {sd_next s..<sd_next x}" "sd_next s \<le> sd_next x"
        by (auto simp: runs_to_def)
      then have "runs_to d i (q # qs, Some w, rs') s"
        by (intro runs_toI [OF reaches_trans [OF su]]) simp_all
      then show ?thesis using Some d Cons by simp
    qed
  qed
qed

lemma runs_to_await:
  assumes r: "running_at i (Co_await c k) s"
    and IH1: "\<And>i s. running_at i c s \<Longrightarrow> runs_to d i (direct d c (sd_answers s)) s"
    and IH2: "\<And>v s. running_at i (k v) s \<Longrightarrow> runs_to d i (direct d (k v) (sd_answers s)) s"
  shows "runs_to d i (direct d (Co_await c k) (sd_answers s)) s"
proof -
  let ?n = "sd_next s"
  let ?fr = "\<lparr>fm_suspension = Su_running, fm_cont = Some i, fm_value = d, fm_detached = False\<rparr>"
  obtain t f where t: "co_step d s = Steps t" "running_at ?n c t" "sd_next t = Suc ?n" "sd_heap s i = Some f"
      "sd_heap t = (sd_heap s)(i \<mapsto> f\<lparr>fm_suspension := Su_task ?n k\<rparr>, ?n \<mapsto> ?fr)"
      "sd_asked t = sd_asked s" "sd_answers t = sd_answers s" "sd_destroyed t = sd_destroyed s"
    using await_step [OF r, of d] by blast
  have i: "i < ?n" "fm_suspension f = Su_running" "\<forall>m \<ge> ?n. sd_heap s m = None"
    using r t(4) by (auto simp: running_at_def fresh_from_def)
  have st: "co_reaches d s t" using t(1) by (blast intro: reaches_step reaches_refl)
  obtain qs v rs where d: "direct d c (sd_answers s) = (qs, v, rs)" by (metis prod_cases3)
  from IH1 [OF t(2)] t(7) d have h: "runs_to d ?n (qs, v, rs) t" by simp
  show ?thesis
  proof (cases v)
    case None
    with h obtain x where "co_reaches d t x" "co_step d x = Stops" "sd_running x = None" "sd_waiting x \<noteq> None"
        "sd_asked x = sd_asked s @ qs" "sd_answers x = []" "rs = []"
      using t(6) by (auto simp: runs_to_def)
    then show ?thesis using reaches_trans [OF st] None d by (auto simp: runs_to_def)
  next
    case (Some w)
    with h obtain x e ds where x: "co_reaches d t x" "running_at ?n e x" "finished_with d e = Some w" "sd_heap x = sd_heap t"
        "sd_asked x = sd_asked s @ qs" "sd_answers x = rs" "sd_destroyed x = sd_destroyed s @ ds"
        "distinct ds" "set ds = {Suc ?n..<sd_next x}" "Suc ?n \<le> sd_next x"
      using t(3,6,8) by (auto simp: runs_to_def)
    let ?y = "x\<lparr>sd_heap := (sd_heap x)(?n := None, i \<mapsto> f\<lparr>fm_suspension := Su_running\<rparr>),
      sd_running := Some (i, k w), sd_destroyed := sd_destroyed x @ [?n]\<rparr>"
    have heaps: "sd_heap x ?n = Some ?fr" "sd_heap x i = Some (f\<lparr>fm_suspension := Su_task ?n k\<rparr>)"
      using x(4) t(5) i(1) by simp_all
    have xy: "co_step d x = Steps ?y" using finish_step [OF x(2,3) i(1) heaps] .
    have hy: "sd_heap ?y = sd_heap s"
      using x(4) t(4,5) i by (auto simp: fun_eq_iff)
    have sy: "co_reaches d s ?y"
      using reaches_trans [OF st reaches_trans [OF x(1) reaches_step [OF xy reaches_refl]]] .
    have "running_at i (k w) ?y"
      using x(2,10) hy t(4) i by (auto simp: running_at_def fresh_from_def)
    from IH2 [OF this] have h2: "runs_to d i (direct d (k w) rs) ?y" using x(6) by simp
    obtain qs' v' rs' where d2: "direct d (k w) rs = (qs', v', rs')" by (metis prod_cases3)
    have ny: "sd_next ?y = sd_next x" "sd_asked ?y = sd_asked s @ qs" "sd_destroyed ?y = sd_destroyed s @ ds @ [?n]"
      using x(5,7) by simp_all
    show ?thesis
    proof (cases v')
      case None
      with h2 d2 obtain z where "co_reaches d ?y z" "co_step d z = Stops" "sd_running z = None" "sd_waiting z \<noteq> None"
          "sd_asked z = sd_asked s @ qs @ qs'" "sd_answers z = []" "rs' = []"
        using ny by (auto simp: runs_to_def)
      then show ?thesis using reaches_trans [OF sy] None Some d d2 by (auto simp: runs_to_def)
    next
      case (Some w')
      with h2 d2 obtain z e' es where z: "co_reaches d ?y z" "running_at i e' z" "finished_with d e' = Some w'" "sd_heap z = sd_heap s"
          "sd_asked z = sd_asked s @ qs @ qs'" "sd_answers z = rs'" "sd_destroyed z = sd_destroyed s @ ds @ [?n] @ es"
          "distinct es" "set es = {sd_next x..<sd_next z}" "sd_next x \<le> sd_next z"
        using ny hy unfolding runs_to_def by auto
      have "distinct (ds @ [?n] @ es)" "set (ds @ [?n] @ es) = {?n..<sd_next z}" "?n \<le> sd_next z"
        using x(8,9,10) z(8,9,10) by auto
      moreover have "direct d (Co_await c k) (sd_answers s) = (qs @ qs', Some w', rs')"
        using \<open>v = Some w\<close> Some d d2 by simp
      moreover have "sd_destroyed z = sd_destroyed s @ (ds @ [?n] @ es)" using z(7) by simp
      ultimately show ?thesis
        using runs_toI [OF reaches_trans [OF sy z(1)] z(2-6)] by simp
    qed
  qed
qed

lemma runs_direct: "running_at i c s \<Longrightarrow> runs_to d i (direct d c (sd_answers s)) s"
proof (induction c arbitrary: i s)
  case (Co_return v)
  then show ?case using runs_to_finished [of i "Co_return v" s d v] by simp
next
  case Co_throw
  then show ?case using runs_to_finished [of i Co_throw s d d] by simp
next
  case (Co_ask q k)
  show ?case using runs_to_ask [OF Co_ask.prems, of d] Co_ask.IH [OF rangeI] by blast
next
  case (Co_await c k)
  show ?case using runs_to_await [OF Co_await.prems, of d] Co_await.IH(1) Co_await.IH(2) [OF rangeI] by blast
qed

text \<open>
  C36: A detached coroutine with any nesting of awaited tasks behaves as if the tasks were ordinary calls:
  it makes the same requests in the same order and uses the same answers; it ends when the calls
  would end, and then every frame has been destroyed exactly once; else it waits for one answer. A
  frame that was destroyed is never resumed.
\<close>

theorem async_tasks_are_calls:
  "case direct d c rs of (qs, v, rs') \<Rightarrow>
     (\<exists>n t. co_run d n (start_detached d c rs) = Some t \<and> sd_asked t = qs \<and> sd_answers t = rs' \<and> sd_running t = None \<and>
       (v = None \<longleftrightarrow> sd_waiting t \<noteq> None) \<and>
       (v \<noteq> None \<longrightarrow> sd_heap t = (\<lambda>_. None) \<and> distinct (sd_destroyed t) \<and> set (sd_destroyed t) = {..<sd_next t}))"
proof -
  let ?s = "start_detached d c rs"
  obtain qs v rs' where r: "direct d c rs = (qs, v, rs')" by (metis prod_cases3)
  have "running_at 0 c ?s"
    by (simp add: running_at_def start_detached_def fresh_from_def detached_frame_def)
  from runs_direct [OF this, of d] r have h: "runs_to d 0 (qs, v, rs') ?s" by (simp add: start_detached_def)
  show ?thesis
  proof (cases v)
    case None
    with h obtain t where t: "co_reaches d ?s t" "co_step d t = Stops" "sd_running t = None" "sd_waiting t \<noteq> None"
        "sd_asked t = qs" "sd_answers t = []" "rs' = []"
      by (auto simp: runs_to_def start_detached_def)
    from reaches_run [OF t(1,2)] show ?thesis using t(3-7) r None by auto
  next
    case (Some w)
    with h obtain t e ds where t: "co_reaches d ?s t" "running_at 0 e t" "finished_with d e = Some w" "sd_heap t = [0 \<mapsto> detached_frame d]"
        "sd_asked t = qs" "sd_answers t = rs'" "sd_destroyed t = ds" "distinct ds" "set ds = {1..<sd_next t}" "1 \<le> sd_next t"
      by (auto simp: runs_to_def start_detached_def)
    let ?u = "(destroy_frame 0 t)\<lparr>sd_running := None\<rparr>"
    have "co_step d t = Steps ?u"
      using t(2,3,4) by (cases e) (auto simp: co_step_def finish_task_def to_progress_def running_at_def detached_frame_def)
    then have a: "co_reaches d ?s ?u" by (rule reaches_trans [OF t(1) reaches_step [OF _ reaches_refl]])
    have b: "co_step d ?u = Stops" using t(2) by (simp add: co_step_def destroy_frame_def running_at_def)
    obtain n where n: "co_run d n ?s = Some ?u" using reaches_run [OF a b] by (elim exE)
    have "sd_heap ?u = (\<lambda>_. None)" "sd_destroyed ?u = ds @ [0]" "sd_next ?u = sd_next t" "sd_waiting ?u = None"
        "sd_asked ?u = qs" "sd_answers ?u = rs'" "sd_running ?u = None"
      using t(2,4-7) by (simp_all add: destroy_frame_def running_at_def)
    moreover have "distinct (ds @ [0])" "set (ds @ [0]) = {..<sd_next t}" using t(8,9,10) by auto
    ultimately show ?thesis unfolding r prod.case using n Some by (intro exI [of _ n] exI [of _ ?u]) simp
  qed
qed

text \<open>An awaited task that throws is not noticed: its caller goes on with the initial value.\<close>

lemma exception_is_default: "direct d (Co_await Co_throw k) rs = direct d (Co_await (Co_return d) k) rs"
  by simp

text \<open>A handler that asks, awaits a task that asks, and awaits a task that throws.\<close>

definition sample_handler :: "(nat, nat, nat) co" where
  "sample_handler =
     Co_ask 1 (\<lambda>r. Co_await (Co_ask 2 (\<lambda>r'. Co_return (r + r'))) (\<lambda>v. Co_await Co_throw (\<lambda>w. Co_return (v + w))))"

theorem async_tasks_are_calls_witness:
  "\<exists>n t. co_run 0 n (start_detached 0 sample_handler [10, 20, 30]) = Some t \<and> sd_asked t = [1, 2] \<and> sd_answers t = [30] \<and>
     sd_waiting t = None \<and> sd_heap t = (\<lambda>_. None) \<and> set (sd_destroyed t) = {..<sd_next t}"
proof -
  have "direct 0 sample_handler [10, 20, 30] = ([1, 2], Some 30, [30])" by (simp add: sample_handler_def)
  with async_tasks_are_calls [of 0 sample_handler "[10, 20, 30]"] show ?thesis by auto
qed

end
