(* ===== verification/World_Store.thy ===== *)
theory World_Store
  imports Game_System
begin

section \<open>The files of the world\<close>

text \<open>
  \<open>load_filesystem_world\<close> of \<open>game/world.cpp\<close> with the files that it finds, creates and maps: the metadata is
  JSON, printed and read by a pair of functions, and the mapped file of blocks is the file itself,
  so that what the server writes to the map is in the file when the process ends.
\<close>

record world_files =
  wf_blocks :: "bytes option"
  wf_metadata :: "bytes option"

text \<open>
  The files after \<open>create_world_if_not_exist\<close>, which looks for the file of the metadata only. \<open>None\<close> is the
  end of the process by a fatal message.
\<close>

definition create_world_files ::
    "(world_metadata \<Rightarrow> bytes) \<Rightarrow> u64 \<Rightarrow> i32 \<Rightarrow> i32 \<Rightarrow> i32 \<Rightarrow> world_files \<Rightarrow> world_files option" where
  "create_world_files print now width height len files =
     (case create_world_if_not_exist (wf_metadata files \<noteq> None) now width height len of
        None \<Rightarrow> None
      | Some None \<Rightarrow> Some files
      | Some (Some (blocks, md)) \<Rightarrow> Some (files\<lparr>wf_blocks := Some blocks, wf_metadata := Some (print md)\<rparr>))"

definition load_metadata :: "(bytes \<Rightarrow> world_metadata option) \<Rightarrow> world_files \<Rightarrow> world_metadata \<Rightarrow> world_metadata" where
  "load_metadata parse files md =
     (case parse (case wf_metadata files of None \<Rightarrow> [] | Some bs \<Rightarrow> bs) of None \<Rightarrow> md | Some md' \<Rightarrow> md')"

text \<open>The blocks that are mapped; \<open>maps\<close> says whether a file with these bytes can be mapped.\<close>

definition load_block_data :: "(bytes \<Rightarrow> bool) \<Rightarrow> world_files \<Rightarrow> bytes option" where
  "load_block_data maps files = (case wf_blocks files of None \<Rightarrow> None | Some b \<Rightarrow> if maps b then Some b else None)"

definition load_world ::
    "(world_metadata \<Rightarrow> bytes) \<Rightarrow> (bytes \<Rightarrow> world_metadata option) \<Rightarrow> (bytes \<Rightarrow> bool) \<Rightarrow> u64 \<Rightarrow> nat \<Rightarrow> i32 \<Rightarrow> i32 \<Rightarrow> i32 \<Rightarrow>
      world_files \<Rightarrow> 'a world_scheme \<Rightarrow> (bool \<times> world_files \<times> 'a world_scheme) option" where
  "load_world print parse maps now tick width height len files s =
     (if w_last_save_map_at s \<noteq> 0 then Some (False, files, s)
      else
        (case create_world_files print now width height len files of
           None \<Rightarrow> None
         | Some files \<Rightarrow>
             (let (ok, s) = load_filesystem_world tick (load_metadata parse files (w_metadata s)) (load_block_data maps files) s
              in Some (ok, files, s))))"

text \<open>The files when the process ends: the mapped file holds what is in the map.\<close>

definition stop_world :: "'a world_scheme \<Rightarrow> world_files \<Rightarrow> world_files" where
  "stop_world s files = files\<lparr>wf_blocks := Some (w_block_mapping s)\<rparr>"

subsection \<open>Restarts\<close>

lemma create_world_new:
  assumes "create_world_files print now width height len \<lparr>wf_blocks = b0, wf_metadata = None\<rparr> = Some files"
  obtains b md where "files = \<lparr>wf_blocks = Some b, wf_metadata = Some (print md)\<rparr>"
    "create_world_if_not_exist False now width height len = Some (Some (b, md))"
  using assms
  by (auto simp: create_world_files_def create_world_if_not_exist_def Let_def split: if_splits)

lemma load_filesystem_world_fresh:
  "w_last_save_map_at s = 0 \<Longrightarrow> load_filesystem_world tick md (Some b) s =
     (True, s\<lparr>w_metadata := md, w_block_mapping := b, w_last_save_map_at := tick\<rparr>)"
  by (simp add: load_filesystem_world_def Let_def)

text \<open>A file of blocks without metadata, which a start that was cut off leaves behind, is written again.\<close>

lemma interrupted_creation_is_repeated:
  "create_world_files print now width height len \<lparr>wf_blocks = b, wf_metadata = None\<rparr> =
   create_world_files print now width height len \<lparr>wf_blocks = None, wf_metadata = None\<rparr>"
  by (simp add: create_world_files_def create_world_if_not_exist_def Let_def)

text \<open>
  C30: A world survives a restart: after a first start in an empty directory and any run of the server,
  the next start creates nothing, whatever sizes are configured then, and loads the metadata of
  the first start and exactly the blocks that the server had when it stopped.
\<close>

theorem world_survives_restart:
  assumes json: "\<forall>b md. create_world_if_not_exist False now width height len = Some (Some (b, md)) \<longrightarrow> parse (print md) = Some md"
    and maps: "\<And>b. maps b"
    and new: "w_last_save_map_at g0 = 0" "w_last_save_map_at g3 = 0"
    and first: "load_world print parse maps now tick width height len \<lparr>wf_blocks = None, wf_metadata = None\<rparr> g0 = Some (ok, files, sy_game s1)"
    and run: "game_wf s1" "game_steps pf s1 s2"
  shows "ok \<and> (\<exists>b md. create_world_if_not_exist False now width height len = Some (Some (b, md)) \<and>
    w_block_mapping (sy_game s1) = b \<and> w_metadata (sy_game s1) = md \<and> length (w_block_mapping (sy_game s2)) = length b \<and>
    load_world print parse maps now' tick' width' height' len' (stop_world (sy_game s2) files) g3 =
      Some (True, stop_world (sy_game s2) files,
        g3\<lparr>w_metadata := md, w_block_mapping := w_block_mapping (sy_game s2), w_last_save_map_at := tick'\<rparr>))"
proof -
  obtain files' where c: "create_world_files print now width height len \<lparr>wf_blocks = None, wf_metadata = None\<rparr> = Some files'"
    using first new(1) by (auto simp: load_world_def split: option.splits)
  from create_world_new [OF c] obtain b md where f: "files' = \<lparr>wf_blocks = Some b, wf_metadata = Some (print md)\<rparr>"
      "create_world_if_not_exist False now width height len = Some (Some (b, md))" by blast
  have g1: "ok" "files = files'" "sy_game s1 = g0\<lparr>w_metadata := md, w_block_mapping := b, w_last_save_map_at := tick\<rparr>"
    using first new(1) c f(1) maps json [rule_format, OF f(2)]
    by (auto simp: load_world_def load_metadata_def load_block_data_def load_filesystem_world_fresh)
  have "step_ok s1 s2" using game_steps_ok [OF run(2,1)] .
  then have len: "length (w_block_mapping (sy_game s2)) = length b"
    using g1(3) by (simp add: step_ok_def)
  have "load_world print parse maps now' tick' width' height' len' (stop_world (sy_game s2) files) g3 =
      Some (True, stop_world (sy_game s2) files,
        g3\<lparr>w_metadata := md, w_block_mapping := w_block_mapping (sy_game s2), w_last_save_map_at := tick'\<rparr>)"
    using g1(2) f(1) new(2) maps json [rule_format, OF f(2)]
    by (simp add: load_world_def create_world_files_def create_world_if_not_exist_def stop_world_def load_metadata_def
        load_block_data_def load_filesystem_world_fresh)
  with f(2) g1 len show ?thesis by simp
qed

lemma game_wf_loaded:
  assumes "game_wf s"
  shows "game_wf (s\<lparr>sy_game := (sy_game s)\<lparr>w_metadata := md, w_block_mapping := b, w_last_save_map_at := t\<rparr>\<rparr>)"
proof -
  have "net_keeps (sy_game s) ((sy_game s)\<lparr>w_metadata := md, w_block_mapping := b, w_last_save_map_at := t\<rparr>)"
    using assms by (intro net_keeps_same) (simp_all add: game_wf_def)
  then show ?thesis
    using assms by (simp add: game_wf_def tasks_wf_def net_keeps_def world_status_def cong: world_task_id.case_cong)
qed

lemma create_world_16:
  "\<exists>b. create_world_if_not_exist False 7 16 16 16 = Some (Some (b, create_metadata 7 (Coordinate3D 16 16 16)))"
  by (simp add: create_world_if_not_exist_def Let_def Coordinate3D_def)

text \<open>A first start with 16 x 16 x 16 blocks, one announcement of the server, and a start with other sizes.\<close>

theorem world_survives_restart_witness:
  "\<exists>files s1 s2. load_world (\<lambda>_. [1]) (\<lambda>_. Some (create_metadata 7 (Coordinate3D 16 16 16))) (\<lambda>_. True) 7 1 16 16 16
      \<lparr>wf_blocks = None, wf_metadata = None\<rparr> (sample_server 2) = Some (True, files, sy_game s1) \<and>
    game_step sample_platform s1 s2 \<and>
    load_world (\<lambda>_. [1]) (\<lambda>_. Some (create_metadata 7 (Coordinate3D 16 16 16))) (\<lambda>_. True) 9 5 64 32 64
      (stop_world (sy_game s2) files) (sample_server 2) = Some (True, stop_world (sy_game s2) files,
        (sample_server 2)\<lparr>w_metadata := create_metadata 7 (Coordinate3D 16 16 16), w_block_mapping := w_block_mapping (sy_game s2),
          w_last_save_map_at := 5\<rparr>)"
proof -
  let ?md = "create_metadata 7 (Coordinate3D 16 16 16)"
  let ?parse = "\<lambda>_ :: bytes. Some ?md"
  let ?load = "load_world (\<lambda>_. [1]) ?parse (\<lambda>_. True) 7 1 16 16 16 \<lparr>wf_blocks = None, wf_metadata = None\<rparr> (sample_server 2)"
  obtain b where b: "create_world_if_not_exist False 7 16 16 16 = Some (Some (b, ?md))"
    using create_world_16 by blast
  have n: "w_last_save_map_at (sample_server 2) = 0"
    by (simp add: sample_server_def world_new_tasks_def net_init_def)
  let ?s1 = "sample_system\<lparr>sy_game := (sy_game sample_system)\<lparr>w_metadata := ?md, w_block_mapping := b, w_last_save_map_at := 1\<rparr>\<rparr>"
  let ?files = "\<lparr>wf_blocks = Some b, wf_metadata = Some [1]\<rparr>"
  have l: "?load = Some (True, ?files, sy_game ?s1)"
    using n b by (simp add: load_world_def create_world_files_def load_metadata_def load_block_data_def
        load_filesystem_world_fresh sample_system_def)
  have wf: "game_wf ?s1" by (intro game_wf_loaded game_init_wf [OF sample_system_init])
  let ?s2 = "?s1\<lparr>sy_game := game_announce_server undefined (sy_game ?s1)\<rparr>"
  have st: "game_step sample_platform ?s1 ?s2" by (rule game_step.announce)
  then have run: "game_steps sample_platform ?s1 ?s2" by (rule r_into_rtranclp)
  have p: "\<forall>b' md'. create_world_if_not_exist False 7 16 16 16 = Some (Some (b', md')) \<longrightarrow> ?parse [1] = Some md'"
    using b by simp
  have "load_world (\<lambda>_. [1]) ?parse (\<lambda>_. True) 9 5 64 32 64 (stop_world (sy_game ?s2) ?files) (sample_server 2) =
      Some (True, stop_world (sy_game ?s2) ?files,
        (sample_server 2)\<lparr>w_metadata := ?md, w_block_mapping := w_block_mapping (sy_game ?s2), w_last_save_map_at := 5\<rparr>)"
    using world_survives_restart [OF p TrueI n n l wf run, where now' = 9 and tick' = 5 and width' = 64 and height' = 32 and len' = 64]
      b by auto
  with l st show ?thesis by (intro exI conjI)
qed

end
