(* ===== verification/Main_Loop.thy ===== *)
theory Main_Loop
  imports Game_Protocol Interval_Task Login_Server Chat_Server
begin

section \<open>The main loops\<close>

text \<open>
  The loops of \<open>serve_forever\<close> in \<open>net/game_server.cpp\<close>, \<open>login_server.cpp\<close> and \<open>chat_server.cpp\<close>: the interval task
  that announces the server to the router, the ticks, and the pause. The readings of \<open>current_monotonic_tick()\<close> by
  the thread of the loop are a function \<open>clock\<close> of their number. \<open>sleep_ms\<close> may return early by the
  granularity of the system's clock, which is a parameter \<open>slack\<close>.
\<close>

type_synonym 'w loop_state = "'w interval_task list \<times> 'w \<times> nat"

text \<open>The constructors schedule one task, the announcement.\<close>

definition schedule_announcement :: "(nat \<Rightarrow> nat) \<Rightarrow> ('w \<Rightarrow> 'w) \<Rightarrow> nat \<Rightarrow> 'w interval_task list \<times> nat" where
  "schedule_announcement clock announce k =
     it_schedule clock IT_announce_server (\<lambda>s. (True, announce s)) announce_server_period ([], k)"

text \<open>The argument of \<open>sleep_ms\<close> after an iteration: the rest of the interval, but not less than \<open>least\<close>; 0 for none.\<close>

definition loop_pause :: "nat \<Rightarrow> nat \<Rightarrow> nat \<Rightarrow> nat \<Rightarrow> nat" where
  "loop_pause interval least start_tick end_tick =
     (let diff = end_tick - start_tick in if diff < interval then max (interval - diff) least else 0)"

text \<open>The answers of registered I/O in one iteration.\<close>

record io_answers =
  ia_send :: "nat \<Rightarrow> bool"
  ia_multicast :: "nat \<Rightarrow> nat \<Rightarrow> bool"
  ia_recv :: "nat \<Rightarrow> bool"
  ia_posted :: bool

definition game_iteration ::
    "(nat \<Rightarrow> nat) \<Rightarrow> 'z platform \<Rightarrow> io_answers \<Rightarrow> game_server interval_task list \<times> game_system \<times> nat \<Rightarrow>
      (game_server interval_task list \<times> game_system \<times> nat) \<times> nat" where
  "game_iteration clock pf e =
     (\<lambda>(ts, s, k).
        let start_tick = clock k;
            (ts, g, k) = process_tasks clock IT_invalid ts (sy_game s) (k + 1);
            (tcp, g) = game_tick (pf_max_packet pf) (ia_send e) (ia_multicast e) (ia_recv e) (ia_posted e) (sy_tcp s) g;
            (ids, g) = world_tick (pf_cfg pf) (pf_cpe_order pf) game_on_disconnect (clock k) g;
            end_tick = clock (k + 1)
        in ((ts, s\<lparr>sy_game := g, sy_tcp := tcp, sy_tasks := sy_tasks s @ ids\<rparr>, k + 2),
            loop_pause 100 30 start_tick end_tick))"

definition chat_iteration :: "(nat \<Rightarrow> nat) \<Rightarrow> chat_server loop_state \<Rightarrow> chat_server loop_state \<times> nat" where
  "chat_iteration clock =
     (\<lambda>(ts, s, k).
        let start_tick = clock k;
            (ts, s, k) = process_tasks clock IT_invalid ts s (k + 1);
            end_tick = clock k
        in ((ts, s, k + 1), loop_pause 300 100 start_tick end_tick))"

definition login_iteration :: "(nat \<Rightarrow> nat) \<Rightarrow> 'db login_server loop_state \<Rightarrow> 'db login_server loop_state \<times> nat" where
  "login_iteration clock = (\<lambda>(ts, s, k). (process_tasks clock IT_invalid ts s k, 3000))"

text \<open>
  A run of the game server: iterations of the loop, and between them anything that the other threads
  do. \<open>n\<close> counts the iterations.
\<close>

inductive served :: "(nat \<Rightarrow> nat) \<Rightarrow> nat \<Rightarrow> 'z platform \<Rightarrow> ip_address \<Rightarrow> nat \<Rightarrow> game_system \<Rightarrow> nat \<Rightarrow>
    game_server interval_task list \<times> game_system \<times> nat \<Rightarrow> bool" for clock slack pf a k0 s0 where
  start: "schedule_announcement clock (game_announce_server a) k0 = (ts, k) \<Longrightarrow> served clock slack pf a k0 s0 0 (ts, s0, k)"
| others: "served clock slack pf a k0 s0 n (ts, s, k) \<Longrightarrow> game_step pf s t \<Longrightarrow> served clock slack pf a k0 s0 n (ts, t, k)"
| iterate: "served clock slack pf a k0 s0 n c \<Longrightarrow> game_iteration clock pf e c = ((ts, s, k), pause) \<Longrightarrow>
    clock (k - 1) + pause \<le> clock k + slack \<Longrightarrow> served clock slack pf a k0 s0 (n + 1) (ts, s, k)"

subsection \<open>The announcement\<close>

definition announcing :: "('w \<Rightarrow> 'w) \<Rightarrow> 'w interval_task \<Rightarrow> bool" where
  "announcing announce t \<longleftrightarrow> it_tag t = IT_announce_server \<and> it_period t = announce_server_period \<and>
     it_func t = (\<lambda>s. (True, announce s))"

lemma schedule_announcement_eq:
  "schedule_announcement clock announce k = (ts, j) \<longleftrightarrow> j = k + 1 \<and>
     ts = [\<lparr>it_tag = IT_announce_server, it_period = announce_server_period, it_expired_at = clock k + announce_server_period,
            it_func = \<lambda>s. (True, announce s)\<rparr>]"
  by (auto simp: schedule_announcement_def it_schedule_def)

lemma process_announcement:
  assumes "announcing announce t"
  shows "process_tasks clock IT_invalid [t] w k =
     (if clock k < it_expired_at t then ([t], w, k + 1)
      else ([t\<lparr>it_expired_at := clock (k + 1) + announce_server_period\<rparr>], announce w, k + 2))"
  using assms by (simp add: announcing_def invoke_task_def)

lemma announcing_again [simp]: "announcing announce (t\<lparr>it_expired_at := x\<rparr>) = announcing announce t"
  by (simp add: announcing_def)

text \<open>The time between two starts of an iteration, when the pause is honoured.\<close>

lemma loop_pause_enough:
  "start \<le> finish \<Longrightarrow> finish + loop_pause interval least start finish \<le> x + slack \<Longrightarrow> start + interval \<le> x + slack"
  by (auto simp: loop_pause_def Let_def split: if_splits)

subsection \<open>Iterations of the game server\<close>

text \<open>An iteration, with its announcement told apart.\<close>

lemma game_iterationE:
  assumes "game_iteration clock pf e ([t], s, k) = ((ts', s', k'), pause)" "announcing (game_announce_server a) t"
  obtains g j t' tcp h ids where
    "if clock (k + 1) < it_expired_at t then g = sy_game s \<and> t' = t \<and> j = k + 2
     else g = game_announce_server a (sy_game s) \<and> t' = t\<lparr>it_expired_at := clock (k + 2) + announce_server_period\<rparr> \<and> j = k + 3"
    "ts' = [t']" "announcing (game_announce_server a) t'" "k' = j + 2"
    "game_tick (pf_max_packet pf) (ia_send e) (ia_multicast e) (ia_recv e) (ia_posted e) (sy_tcp s) g = (tcp, h)"
    "world_tick (pf_cfg pf) (pf_cpe_order pf) game_on_disconnect (clock j) h = (ids, sy_game s')"
    "s' = s\<lparr>sy_game := sy_game s', sy_tcp := tcp, sy_tasks := sy_tasks s @ ids\<rparr>"
    "pause = loop_pause 100 30 (clock k) (clock (j + 1))"
proof -
  define g where "g = (if clock (k + 1) < it_expired_at t then sy_game s else game_announce_server a (sy_game s))"
  define t' where "t' = (if clock (k + 1) < it_expired_at t then t else t\<lparr>it_expired_at := clock (k + 2) + announce_server_period\<rparr>)"
  define j where "j = (if clock (k + 1) < it_expired_at t then k + 2 else k + 3)"
  have p: "process_tasks clock IT_invalid [t] (sy_game s) (k + 1) = ([t'], g, j)"
    using process_announcement [OF assms(2), of clock "sy_game s" "k + 1"] by (simp add: g_def t'_def j_def)
  obtain tcp h where tick: "game_tick (pf_max_packet pf) (ia_send e) (ia_multicast e) (ia_recv e) (ia_posted e) (sy_tcp s) g = (tcp, h)"
    by fastforce
  obtain ids g' where w: "world_tick (pf_cfg pf) (pf_cpe_order pf) game_on_disconnect (clock j) h = (ids, g')" by fastforce
  have "ts' = [t']" "k' = j + 2" "pause = loop_pause 100 30 (clock k) (clock (j + 1))"
    "s' = s\<lparr>sy_game := g', sy_tcp := tcp, sy_tasks := sy_tasks s @ ids\<rparr>"
    using assms(1) by (simp_all add: game_iteration_def p [simplified] tick w)
  with tick w show thesis using assms(2) by (intro that [of g t' j tcp h ids]) (simp_all add: g_def t'_def j_def)
qed

text \<open>An iteration is a run of the system: the announcement when it is due, a tick, and a tick of the world.\<close>

lemma game_iteration_steps:
  assumes "game_iteration clock pf e ([t], s, k) = ((ts', s', k'), pause)" "announcing (game_announce_server a) t"
  shows "game_steps pf s s'"
proof -
  from game_iterationE [OF assms] obtain g j t' tcp h ids where
    g: "if clock (k + 1) < it_expired_at t then g = sy_game s \<and> t' = t \<and> j = k + 2
        else g = game_announce_server a (sy_game s) \<and> t' = t\<lparr>it_expired_at := clock (k + 2) + announce_server_period\<rparr> \<and> j = k + 3"
    and tick: "game_tick (pf_max_packet pf) (ia_send e) (ia_multicast e) (ia_recv e) (ia_posted e) (sy_tcp s) g = (tcp, h)"
    and w: "world_tick (pf_cfg pf) (pf_cpe_order pf) game_on_disconnect (clock j) h = (ids, sy_game s')"
    and s': "s' = s\<lparr>sy_game := sy_game s', sy_tcp := tcp, sy_tasks := sy_tasks s @ ids\<rparr>" by metis
  let ?s1 = "s\<lparr>sy_game := g\<rparr>" and ?s2 = "s\<lparr>sy_game := h, sy_tcp := tcp\<rparr>"
  have 1: "game_steps pf s ?s1"
  proof (cases "clock (k + 1) < it_expired_at t")
    case False
    with g show ?thesis using game_step.announce [of pf s a] by auto
  qed (use g in simp)
  have "game_step pf ?s1 (?s1\<lparr>sy_game := h, sy_tcp := tcp\<rparr>)" by (rule game_step.tick) (use tick in simp)
  then have 2: "game_step pf ?s1 ?s2" by simp
  have "game_step pf ?s2 (?s2\<lparr>sy_game := sy_game s', sy_tasks := sy_tasks ?s2 @ ids\<rparr>)"
    by (rule game_step.world_tick) (use w in simp)
  moreover have "?s2\<lparr>sy_game := sy_game s', sy_tasks := sy_tasks ?s2 @ ids\<rparr> = s'" by (subst s') simp
  ultimately have "game_step pf ?s2 s'" by (simp only:)
  with 1 2 show ?thesis by (meson rtranclp.rtrancl_into_rtrancl)
qed

subsection \<open>What a tick sends to the other servers\<close>

lemma sent_tick:
  assumes "game_tick mp rs rm rr posted ts s = (ts', s')"
  shows "gs_sent s' = gs_sent s" "gs_comm s' = gs_comm s"
proof -
  have fold_more: "net_state.more (fold (\<lambda>i s. if \<not> ce_will_delete (env_table (ns_env s) ! i) then upd_conn i (f i) s else s) is s) =
      net_state.more s" for f "is" and s :: "'a game_server_scheme"
    by (induction "is" arbitrary: s) simp_all
  have "net_state.more s' = net_state.more s"
    using assms by (auto simp: game_tick_def flush_send_def flush_receive_def for_each_connection_def fold_more Let_def)
  from game_fields_of_more [OF this] show "gs_sent s' = gs_sent s" "gs_comm s' = gs_comm s" by simp_all
qed

lemma sent_upd [simp]:
  fixes s :: "'a game_server_scheme"
  shows "gs_sent (upd_player a f s) = gs_sent s" "gs_sent (upd_conn i h s) = gs_sent s" "gs_sent (set_offline now i s) = gs_sent s"
  by (rule game_fields_of_more(2), simp)+

lemma sent_on_io [simp]: "gs_sent (snd (on_io i f s)) = gs_sent s"
  by (simp add: on_io_def Let_def split: option.splits prod.splits)

lemma sent_disconnect [simp]: "gs_sent (disconnect game_on_disconnect now i s) = gs_sent s"
  using disconnect_cases [of now i s] by (elim disjE exE) (simp_all add: game_fields_upd)

lemma sent_transit_player_state:
  "gs_sent (transit_player_state cfg order game_on_disconnect now i a s) = gs_sent s"
proof (cases "ns_heap s a")
  case None
  then show ?thesis by (simp add: transit_player_state_def)
next
  case (Some p)
  have ext: "gs_sent (let (ok, s) = on_io i (send_packet ext_info_serialize) s
      in if \<not> ok then s
         else let (ok, s) = on_io i (send_packet (\<lambda>push. ext_entry_serialize push order)) s
              in if ok then upd_player a (prepare_state_transition S_extension_syncing S_extension_synced) s else s) = gs_sent s"
    by (simp add: Let_def case_prod_beta)
  have "gs_sent (on_handshake_success cfg i p s) = gs_sent s" for s by (simp add: on_handshake_success_def Let_def)
  with Some ext show ?thesis
    by (cases "ps_cur p") (simp_all add: transit_player_state_def Let_def)
qed

lemma sent_world_tick:
  assumes "world_tick cfg order game_on_disconnect now s = (ids, s')"
  shows "gs_sent s' = gs_sent s"
proof -
  have "gs_sent (fold (\<lambda>i s. if \<not> ce_will_delete (env_table (ns_env s) ! i)
      then (case associated_player i s of None \<Rightarrow> s | Some a \<Rightarrow> transit_player_state cfg order game_on_disconnect now i a s)
      else s) is s) = gs_sent s" for "is"
    by (induction "is" arbitrary: s) (simp_all add: sent_transit_player_state split: option.split)
  then have "gs_sent (for_each_player (transit_player_state cfg order game_on_disconnect now) s) = gs_sent s"
    by (simp add: for_each_player_def)
  moreover have "gs_sent (snd (schedule_world_tasks now u)) = gs_sent u" for u :: "'a game_server_scheme"
    by (simp add: schedule_world_tasks_eq Let_def)
  ultimately show ?thesis using assms by (metis snd_conv world_tick_def)
qed

subsection \<open>Runs of the game server\<close>

lemma served_announcing:
  "served clock slack pf a k0 s0 n c \<Longrightarrow> \<exists>t s k. c = ([t], s, k) \<and> announcing (game_announce_server a) t"
proof (induction rule: served.induct)
  case (start ts k)
  then show ?case by (simp add: schedule_announcement_eq announcing_def)
next
  case (iterate n c e ts s k pause)
  then obtain t u j where "c = ([t], u, j)" and t: "announcing (game_announce_server a) t" by blast
  with game_iterationE [OF iterate(2) [unfolded this(1)] t] show ?case by metis
qed auto

text \<open>
  C29: However the main loop of the game server interleaves with its other threads, what it reaches is a
  state of the system, with the invariant; and it iterates at most once in 100 ms, less the
  granularity of the clock, whatever an iteration takes.
\<close>

theorem main_loop_correct:
  assumes run: "served clock slack pf a k0 s0 n (ts, s, k)" and init: "game_init pf s0" and mono: "mono clock"
  shows "game_steps pf s0 s \<and> game_wf s \<and> clock k0 + n * 100 \<le> clock k + n * slack"
proof -
  have "game_steps pf s0 s \<and> clock k0 + n * 100 \<le> clock k + n * slack"
    using run
  proof (induction n "(ts, s, k)" arbitrary: ts s k rule: served.induct)
    case (start ts k)
    then have "k0 \<le> k" by (simp add: schedule_announcement_eq)
    then show ?case using monoD [OF mono] by simp
  next
    case (others n ts s k t)
    then show ?case by (meson rtranclp.rtrancl_into_rtrancl)
  next
    case (iterate n c e ts s k pause)
    from served_announcing [OF iterate(1)] obtain t u j where c: "c = ([t], u, j)" and t: "announcing (game_announce_server a) t"
      by blast
    note it = iterate(3) [unfolded c]
    from game_iterationE [OF it t] obtain i where i: "k = i + 2" "j \<le> i" "pause = loop_pause 100 30 (clock j) (clock (i + 1))"
      by (metis (no_types, lifting) le_add1)
    have "clock j \<le> clock (i + 1)" using i(2) by (intro monoD [OF mono]) simp
    then have "clock j + 100 \<le> clock k + slack"
      using loop_pause_enough [of "clock j" "clock (i + 1)" 100 30 "clock k" slack] iterate(4) i by simp
    moreover have "game_steps pf s0 u" "clock k0 + n * 100 \<le> clock j + n * slack" using iterate(2) [OF c] by simp_all
    ultimately show ?case using rtranclp_trans [OF _ game_iteration_steps [OF it t]] by simp
  qed
  moreover from this have "game_wf s" using game_steps_ok game_init_wf [OF init] by (auto simp: step_ok_def)
  ultimately show ?thesis by simp
qed

text \<open>
  C33: In every reachable state of the main loop, an iteration that begins at or after the deadline of
  the announcement sends exactly one announcement of the server to the router and nothing else, and
  the next one is due no earlier than 5 seconds after; an earlier iteration sends none. So the router
  hears of the server once in 5 seconds and one iteration.
\<close>

theorem announced_when_due:
  assumes run: "served clock slack pf a k0 s0 n (ts, s, k)" and mono: "mono clock"
    and it: "game_iteration clock pf e (ts, s, k) = ((ts', s', k'), pause)"
  shows "\<exists>t t'. ts = [t] \<and> ts' = [t'] \<and>
    (if clock (k + 1) < it_expired_at t then t' = t \<and> gs_sent (sy_game s') = gs_sent (sy_game s)
     else clock k + announce_server_period \<le> it_expired_at t' \<and> it_expired_at t' \<le> clock k' + announce_server_period \<and>
       gs_sent (sy_game s') = gs_sent (sy_game s) @ [announce_server ST_game a (gs_comm (sy_game s))])"
proof -
  from served_announcing [OF run] obtain t where ts: "ts = [t]" and t: "announcing (game_announce_server a) t" by blast
  from game_iterationE [OF it [unfolded ts] t] obtain g j t' tcp h ids where
    g: "if clock (k + 1) < it_expired_at t then g = sy_game s \<and> t' = t \<and> j = k + 2
        else g = game_announce_server a (sy_game s) \<and> t' = t\<lparr>it_expired_at := clock (k + 2) + announce_server_period\<rparr> \<and> j = k + 3"
    and ts': "ts' = [t']" "k' = j + 2"
    and tick: "game_tick (pf_max_packet pf) (ia_send e) (ia_multicast e) (ia_recv e) (ia_posted e) (sy_tcp s) g = (tcp, h)"
    and w: "world_tick (pf_cfg pf) (pf_cpe_order pf) game_on_disconnect (clock j) h = (ids, sy_game s')" by metis
  have sent: "gs_sent (sy_game s') = gs_sent g" using sent_world_tick [OF w] sent_tick [OF tick] by simp
  have "clock k \<le> clock (k + 2)" "clock (k + 2) \<le> clock (k + 5)" by (rule monoD [OF mono], simp)+
  then show ?thesis
    using g ts ts' sent by (auto simp: game_announce_server_def gs_send_def add.commute numeral_eq_Suc split: if_splits)
qed

subsection \<open>A run\<close>

text \<open>A clock that advances 3 seconds between two readings: the first iteration announces the server.\<close>

lemma sample_first_iteration:
  "\<exists>ts s k. served (\<lambda>n. 3000 * n) 0 sample_platform ip_address_empty 0 sample_system 0 ([t0], sample_system, 1) \<and>
     game_iteration (\<lambda>n. 3000 * n) sample_platform e ([t0], sample_system, 1) = ((ts, s, k), 0) \<and>
     served (\<lambda>n. 3000 * n) 0 sample_platform ip_address_empty 0 sample_system 1 (ts, s, k)"
  if "t0 = \<lparr>it_tag = IT_announce_server, it_period = announce_server_period, it_expired_at = 5000,
    it_func = \<lambda>s. (True, game_announce_server ip_address_empty s)\<rparr>"
proof -
  let ?clock = "\<lambda>n. 3000 * n :: nat"
  have 0: "served ?clock 0 sample_platform ip_address_empty 0 sample_system 0 ([t0], sample_system, 1)"
    by (rule served.start) (simp add: schedule_announcement_eq that)
  have t: "announcing (game_announce_server ip_address_empty) t0" by (simp add: announcing_def that)
  obtain ts s k pause where it: "game_iteration ?clock sample_platform e ([t0], sample_system, 1) = ((ts, s, k), pause)"
    by (metis surj_pair)
  from game_iterationE [OF it t] obtain j where "k = j + 2" "1 < j" "pause = loop_pause 100 30 (?clock 1) (?clock (j + 1))"
    by (smt (verit) less_add_same_cancel1 add_2_eq_Suc' add_gr_0 zero_less_numeral one_less_numeral_iff semiring_norm(76) trans_less_add1 add.commute)
  then have p: "pause = 0" "?clock (k - 1) + pause \<le> ?clock k + 0" by (auto simp: loop_pause_def Let_def)
  from served.iterate [OF 0 it p(2)] 0 it p(1) show ?thesis by fastforce
qed

theorem main_loop_correct_witness:
  "\<exists>ts s k. served (\<lambda>n. 3000 * n) 0 sample_platform ip_address_empty 0 sample_system 1 (ts, s, k) \<and> game_wf s \<and> 100 \<le> 3000 * k"
proof -
  from sample_first_iteration [OF refl] obtain ts s k where
    r: "served (\<lambda>n. 3000 * n) 0 sample_platform ip_address_empty 0 sample_system 1 (ts, s, k)" by blast
  have "mono (\<lambda>n. 3000 * n :: nat)" by (simp add: mono_def)
  from main_loop_correct [OF r sample_system_init this] r show ?thesis by auto
qed

theorem announced_when_due_witness:
  "\<exists>e ts s s' k k'. served (\<lambda>n. 3000 * n) 0 sample_platform ip_address_empty 0 sample_system 0 (ts, s, k) \<and>
     (\<exists>ts'. game_iteration (\<lambda>n. 3000 * n) sample_platform e (ts, s, k) = ((ts', s', k'), 0)) \<and>
     gs_sent (sy_game s') = gs_sent (sy_game s) @ [announce_server ST_game ip_address_empty (gs_comm (sy_game s))]"
proof -
  let ?e = "\<lparr>ia_send = \<lambda>_. True, ia_multicast = \<lambda>_ _. True, ia_recv = \<lambda>_. True, ia_posted = True\<rparr>"
  let ?t = "\<lparr>it_tag = IT_announce_server, it_period = announce_server_period, it_expired_at = 5000,
    it_func = \<lambda>s :: game_server. (True, game_announce_server ip_address_empty s)\<rparr>"
  from sample_first_iteration [OF refl, of ?e] obtain ts s k where
    r: "served (\<lambda>n. 3000 * n) 0 sample_platform ip_address_empty 0 sample_system 0 ([?t], sample_system, 1)"
    and it: "game_iteration (\<lambda>n. 3000 * n) sample_platform ?e ([?t], sample_system, 1) = ((ts, s, k), 0)" by blast
  have "mono (\<lambda>n. 3000 * n :: nat)" by (simp add: mono_def)
  from announced_when_due [OF r this it] have
    "gs_sent (sy_game s) = gs_sent (sy_game sample_system) @ [announce_server ST_game ip_address_empty (gs_comm (sy_game sample_system))]"
    by (auto split: if_splits)
  with r it show ?thesis by blast
qed

subsection \<open>The login and chat servers\<close>

text \<open>Each announcement of the companion servers falls into the first iteration after its deadline.\<close>

lemma companion_announcement:
  assumes "announcing announce t"
  shows "process_tasks clock IT_invalid [t] s k = (ts', s', k') \<Longrightarrow>
    \<exists>t'. ts' = [t'] \<and> announcing announce t' \<and> s' = (if clock k < it_expired_at t then s else announce s) \<and> k < k' \<and> k' \<le> k + 2"
  unfolding process_announcement [OF assms] using assms by (auto split: if_splits)

lemma chat_iteration_announces:
  assumes "chat_iteration clock ([t], s, k) = ((ts', s', k'), pause)" "announcing (chat_announce_server a) t" "mono clock"
  shows "(\<exists>t'. ts' = [t'] \<and> announcing (chat_announce_server a) t') \<and>
    s' = (if clock (k + 1) < it_expired_at t then s else chat_announce_server a s) \<and>
    (clock (k' - 1) + pause \<le> clock k' + slack \<longrightarrow> clock k + 300 \<le> clock k' + slack)"
proof -
  obtain us g j where p: "process_tasks clock IT_invalid [t] s (k + 1) = (us, g, j)" by (metis prod_cases3)
  with assms(1) have "ts' = us" "s' = g" "k' = j + 1" "pause = loop_pause 300 100 (clock k) (clock j)"
    by (auto simp: chat_iteration_def Let_def simp del: process_tasks.simps)
  moreover from companion_announcement [OF assms(2) p] have "k \<le> j" by auto
  ultimately show ?thesis
    using companion_announcement [OF assms(2) p] loop_pause_enough [OF monoD [OF assms(3)], of k j 300 100 "clock k'" slack]
    by auto
qed

lemma login_iteration_announces:
  assumes "login_iteration clock ([t], s, k) = ((ts', s', k'), pause)" "announcing (login_announce_server a) t"
  shows "(\<exists>t'. ts' = [t'] \<and> announcing (login_announce_server a) t') \<and>
    s' = (if clock k < it_expired_at t then s else login_announce_server a s) \<and> pause = 3000"
proof -
  have "process_tasks clock IT_invalid [t] s k = (ts', s', k')" "pause = 3000"
    using assms(1) by (simp_all add: login_iteration_def del: process_tasks.simps)
  with companion_announcement [OF assms(2) this(1)] show ?thesis by blast
qed

end
